(* ===== verification/Prelude.thy ===== *)
theory Prelude
  imports Main "HOL-Library.Sublist" "HOL-Library.AList"
    "HOL-Library.List_Lexorder" "HOL-Library.Char_ord"
begin

text \<open>
  Shared vocabulary of the development: the fragment of Python's \<open>str\<close>, \<open>list\<close> and \<open>dict\<close>
  that the modelled modules use, decimal numerals, and two interfaces, a step function with an
  invariant and one with a quantity that never decreases, whose lemmas the components reuse.

  A Python \<open>str\<close> is a \<^typ>\<open>string\<close>, one \<^typ>\<open>char\<close> per code point (the code points below 256);
  \<open>len\<close> is \<^const>\<open>length\<close>. A Python \<open>int\<close> used as an index is an \<^typ>\<open>int\<close>, since \<open>-1\<close> and
  negative slice bounds are meaningful; a \<open>dict\<close> is an association list in insertion order
  (\<^const>\<open>AList.update\<close> replaces in place or appends, as Python does).
\<close>

named_theorems py_string "facts about the modelled str methods"
named_theorems step_inv "invariants kept by a component's step function"

section \<open>Strings\<close>

definition nl :: char where
  "nl = CHR 0x0A"

text \<open>The code points below 256 for which \<open>str.isspace\<close> holds; \<open>strip\<close> removes exactly these.\<close>

definition is_space :: "char \<Rightarrow> bool" where
  "is_space c \<longleftrightarrow> (let n = of_char c :: nat in
     (9 \<le> n \<and> n \<le> 13) \<or> (28 \<le> n \<and> n \<le> 32) \<or> n = 133 \<or> n = 160)"

definition lstrip :: "string \<Rightarrow> string" where
  "lstrip s = dropWhile is_space s"

definition strip :: "string \<Rightarrow> string" where
  "strip s = rev (dropWhile is_space (rev (dropWhile is_space s)))"

text \<open>\<open>str.lower\<close> on the code points below 256.\<close>

definition lower_char :: "char \<Rightarrow> char" where
  "lower_char c = (let n = of_char c :: nat in
     if (65 \<le> n \<and> n \<le> 90) \<or> (192 \<le> n \<and> n \<le> 222 \<and> n \<noteq> 215) then char_of (n + 32) else c)"

definition lower :: "string \<Rightarrow> string" where
  "lower s = map lower_char s"

text \<open>\<open>s.startswith(t, i)\<close> for a non-negative index \<open>i\<close>.\<close>

definition startswith_at :: "string \<Rightarrow> string \<Rightarrow> nat \<Rightarrow> bool" where
  "startswith_at s t i \<longleftrightarrow> i \<le> length s \<and> prefix t (drop i s)"

text \<open>\<open>t in s\<close>.\<close>

fun contains :: "string \<Rightarrow> string \<Rightarrow> bool" where
  "contains t [] = (t = [])"
| "contains t (c # s) = (prefix t (c # s) \<or> contains t s)"

text \<open>Slice bounds: CPython's \<open>ADJUST_INDICES\<close> on a string of length \<open>n\<close>.\<close>

definition adj_start :: "nat \<Rightarrow> int \<Rightarrow> nat" where
  "adj_start n i = nat (if i < 0 then i + int n else i)"

definition adj_end :: "nat \<Rightarrow> int \<Rightarrow> nat" where
  "adj_end n i = nat (if int n < i then int n else if i < 0 then i + int n else i)"

text \<open>
  The greatest index \<open>k\<close> below \<open>n\<close> with \<open>p k\<close>, as Python's \<open>-1\<close>-or-index; and \<open>s.rfind(t, a, b)\<close>
  for a non-empty \<open>t\<close>: the greatest \<open>k\<close> with \<open>a \<le> k\<close>, \<open>k + len(t) \<le> b\<close> where \<open>t\<close> occurs.
\<close>

fun greatest_below :: "nat \<Rightarrow> (nat \<Rightarrow> bool) \<Rightarrow> int" where
  "greatest_below 0 p = -1"
| "greatest_below (Suc n) p = (if p n then int n else greatest_below n p)"

definition rfind :: "string \<Rightarrow> string \<Rightarrow> int \<Rightarrow> int \<Rightarrow> int" where
  "rfind s t a b = greatest_below (length s)
     (\<lambda>k. adj_start (length s) a \<le> k \<and> k + length t \<le> adj_end (length s) b \<and> prefix t (drop k s))"

text \<open>\<open>s.find(c, i)\<close> for a single character and a non-negative start.\<close>

fun find_char :: "string \<Rightarrow> char \<Rightarrow> nat \<Rightarrow> int" where
  "find_char [] c i = -1"
| "find_char (x # s) c (Suc i) = (let r = find_char s c i in if r = -1 then -1 else r + 1)"
| "find_char (x # s) c 0 =
     (if x = c then 0 else let r = find_char s c 0 in if r = -1 then -1 else r + 1)"

text \<open>\<open>sep.join(parts)\<close>.\<close>

fun join :: "string \<Rightarrow> string list \<Rightarrow> string" where
  "join sep [] = []"
| "join sep [x] = x"
| "join sep (x # y # xs) = x @ sep @ join sep (y # xs)"

lemma lower_idem [py_string]: "lower (lower s) = lower s"
proof -
  have "lower_char (lower_char c) = lower_char c" for c
    by (auto simp: lower_char_def Let_def of_char_of)
  then show ?thesis by (simp add: lower_def)
qed

lemma length_lower [simp]: "length (lower s) = length s"
  by (simp add: lower_def)

lemma lstrip_suffix: "suffix (lstrip s) s"
  by (simp add: lstrip_def suffix_dropWhile)

lemma length_lstrip_le [py_string]: "length (lstrip s) \<le> length s"
  using lstrip_suffix suffix_length_le by blast

lemma lstrip_nl [simp]: "lstrip (nl # s) = lstrip s"
  by (simp add: lstrip_def is_space_def nl_def)

lemma filter_lstrip [py_string]:
  "filter (\<lambda>c. \<not> is_space c) (lstrip s) = filter (\<lambda>c. \<not> is_space c) s"
  by (induction s) (auto simp: lstrip_def)

lemma contains_iff_sublist [py_string]: "contains t s \<longleftrightarrow> sublist t s"
  by (induction s) (auto simp: sublist_Cons_right)

lemma greatest_below_range:
  "greatest_below n p = -1 \<or> (\<exists>k. greatest_below n p = int k \<and> k < n \<and> p k)"
  by (induction n) (auto simp: less_Suc_eq)

lemma greatest_below_none: "(\<And>k. k < n \<Longrightarrow> \<not> p k) \<Longrightarrow> greatest_below n p = -1"
  by (induction n) auto

lemma greatest_below_ge: "p k \<Longrightarrow> k < n \<Longrightarrow> int k \<le> greatest_below n p"
  by (induction n) (auto simp: less_Suc_eq)

lemma rfind_cases:
  obtains (none) "rfind s t a b = -1"
  | (found) k where "rfind s t a b = int k" "k < length s" "adj_start (length s) a \<le> k"
      "k + length t \<le> adj_end (length s) b" "prefix t (drop k s)"
  using greatest_below_range [of "length s"] unfolding rfind_def by blast

lemma rfind_ge: "-1 \<le> rfind s t a b"
  by (cases rule: rfind_cases [of s t a b]) auto

lemma adj_end_le: "adj_end n b \<le> n"
  unfolding adj_end_def by (simp add: nat_le_iff)

lemma find_char_range:
  "find_char s c i = -1 \<or> (\<exists>k. find_char s c i = int k \<and> i \<le> k \<and> k < length s \<and> s ! k = c)"
proof (induction s c i rule: find_char.induct)
  case (2 x s c i)
  show ?case
  proof (cases "find_char s c i = -1")
    case False
    with 2 obtain k where "find_char s c i = int k" "i \<le> k" "k < length s" "s ! k = c" by auto
    then show ?thesis by (intro disjI2 exI [of _ "Suc k"]) simp
  qed simp
next
  case (3 x s c)
  show ?case
  proof (cases "x = c \<or> find_char s c 0 = -1")
    case False
    with 3 obtain k where "find_char s c 0 = int k" "k < length s" "s ! k = c" by auto
    with False show ?thesis by (intro disjI2 exI [of _ "Suc k"]) simp
  qed auto
qed simp

lemma find_char_replicate:
  "x \<noteq> c \<Longrightarrow> find_char (replicate n x @ c # s) c 0 = int n"
  by (induction n) auto

section \<open>Numbers\<close>

text \<open>\<open>str(n)\<close> of an integer, and the reading of a run of digits.\<close>

fun digits :: "nat \<Rightarrow> string" where
  "digits n = (if n < 10 then [char_of (48 + n)] else digits (n div 10) @ [char_of (48 + n mod 10)])"

declare digits.simps [simp del]

definition digit_value :: "char \<Rightarrow> nat option" where
  "digit_value c = (let n = of_char c in if 48 \<le> n \<and> n \<le> 57 then Some (n - 48) else None)"

fun read_digits :: "nat \<Rightarrow> string \<Rightarrow> nat \<times> string" where
  "read_digits acc [] = (acc, [])"
| "read_digits acc (c # s) =
     (case digit_value c of None \<Rightarrow> (acc, c # s) | Some d \<Rightarrow> read_digits (10 * acc + d) s)"

lemma digit_value_digit: "d < 10 \<Longrightarrow> digit_value (char_of (48 + d)) = Some d"
  by (simp add: digit_value_def Let_def of_char_of)

lemma read_digits_app:
  "read_digits acc (digits n @ s) = read_digits (acc * 10 ^ length (digits n) + n) s"
proof (induction n arbitrary: acc s rule: digits.induct)
  case (1 n)
  show ?case
  proof (cases "n < 10")
    case True
    then show ?thesis by (simp add: digits.simps [of n] digit_value_digit mult.commute)
  next
    case False
    have "read_digits acc (digits n @ s) =
        read_digits (acc * 10 ^ length (digits (n div 10)) + n div 10) (char_of (48 + n mod 10) # s)"
      using False 1 by (simp add: digits.simps [of n])
    also have "\<dots> = read_digits (10 * (acc * 10 ^ length (digits (n div 10)) + n div 10) + n mod 10) s"
      by (simp add: digit_value_digit)
    also have "10 * (acc * 10 ^ length (digits (n div 10)) + n div 10) + n mod 10 =
        acc * 10 ^ length (digits n) + n"
      using False by (simp add: digits.simps [of n] algebra_simps)
    finally show ?thesis .
  qed
qed

lemma digits_inj: "digits m = digits n \<Longrightarrow> m = n"
  using read_digits_app [of 0 m "[]"] read_digits_app [of 0 n "[]"] by simp

lemma digits_digit: "c \<in> set (digits n) \<Longrightarrow> digit_value c \<noteq> None"
proof (induction n rule: digits.induct)
  case (1 n)
  show ?case
  proof (cases "n < 10")
    case True
    then show ?thesis using 1 by (simp add: digits.simps [of n] digit_value_digit)
  next
    case False
    then show ?thesis using 1 by (auto simp: digits.simps [of n] digit_value_digit)
  qed
qed

lemma digits_ne [simp]: "digits n \<noteq> []"
  by (simp add: digits.simps [of n])

definition hex_digit :: "nat \<Rightarrow> char" where
  "hex_digit n = (if n < 10 then char_of (48 + n) else char_of (87 + n))"

definition show_int :: "int \<Rightarrow> string" where
  "show_int i = (if i < 0 then CHR 0x2D # digits (nat (- i)) else digits (nat i))"

lemma show_int_inj: "show_int i = show_int j \<Longrightarrow> i = j"
proof -
  assume eq: "show_int i = show_int j"
  have nd: "digits n \<noteq> CHR 0x2D # s" for n s
    using digits_digit [of "CHR 0x2D" n] by (auto simp: digit_value_def Let_def)
  show "i = j"
    using eq nd [of "nat i"] nd [of "nat j"] digits_inj [of "nat i" "nat j"]
      digits_inj [of "nat (- i)" "nat (- j)"]
    by (auto simp: show_int_def split: if_splits)
      (metis nd)+
qed

section \<open>Orders\<close>

text \<open>
  \<open>ORDER BY k DESC\<close> over rows in rowid order, and \<open>sorted(xs, key=k, reverse=True)\<close>: the greatest key first, and rows with
  the same key as they were.
\<close>

definition order_desc :: "('r \<Rightarrow> 'k::linorder) \<Rightarrow> 'r list \<Rightarrow> 'r list" where
  "order_desc k rows = rev (sort_key k (rev rows))"

lemma set_order_desc [simp]: "set (order_desc k rows) = set rows"
  by (simp add: order_desc_def)

lemma length_order_desc [simp]: "length (order_desc k rows) = length rows"
  by (simp add: order_desc_def)

lemma distinct_order_desc [simp]: "distinct (order_desc k rows) = distinct rows"
  by (simp add: order_desc_def)

lemma sorted_order_desc: "sorted_wrt (\<lambda>x y. k y \<le> k x) (order_desc k rows)"
proof -
  have "sorted_wrt (\<lambda>x y. k x \<le> k y) (sort_key k (rev rows))" using sorted_sort_key [of k "rev rows"] by (simp add: sorted_map)
  then show ?thesis by (simp add: order_desc_def sorted_wrt_rev)
qed

lemma order_desc_stable: "filter (\<lambda>x. k x = a) (order_desc k rows) = filter (\<lambda>x. k x = a) rows"
proof -
  have "filter (\<lambda>x. k x = a) (sort_key k (rev rows)) = filter (\<lambda>x. k x = a) (rev rows)" by (rule sort_key_stable)
  then show ?thesis by (simp add: order_desc_def rev_filter [symmetric])
qed

lemma order_desc_head:
  assumes "order_desc k rows = r # rest"
  shows "r \<in> set rows \<and> (\<forall>r' \<in> set rows. k r' \<le> k r)"
proof -
  from assms have split: "sort_key k (rev rows) = rev rest @ [r]"
    unfolding order_desc_def by (metis rev.simps(2) rev_rev_ident)
  have "sorted (map k (rev rest @ [r]))" using split sorted_sort_key [of k "rev rows"] by simp
  moreover have "set (rev rest @ [r]) = set rows" using split by (metis set_rev set_sort)
  ultimately show ?thesis by (auto simp: sorted_append)
qed

section \<open>Interfaces shared by the components\<close>

text \<open>
  A component that is driven by a sequence of events: \<open>step\<close> handles one event, \<open>inv\<close> is what it
  keeps. Its client is any run, a fold of the steps over the events.
\<close>

locale step_invariant =
  fixes step :: "'e \<Rightarrow> 's \<Rightarrow> 's"
    and inv :: "'s \<Rightarrow> bool"
  assumes step_keeps: "inv s \<Longrightarrow> inv (step e s)"
begin

lemma run_keeps: "inv s \<Longrightarrow> inv (fold step es s)"
  by (induction es arbitrary: s) (auto intro: step_keeps)

lemma run_append_keeps: "inv s \<Longrightarrow> inv (fold step (es @ fs) s)"
  by (rule run_keeps)

lemma prefix_keeps: "inv s \<Longrightarrow> inv (fold step (take n es) s)"
  by (rule run_keeps)

end

text \<open>
  The same with a quantity that no step decreases (a clock, a generation counter, a cursor).
\<close>

locale monotone_step = step_invariant +
  fixes gauge :: "'s \<Rightarrow> nat"
  assumes step_mono: "inv s \<Longrightarrow> gauge s \<le> gauge (step e s)"
begin

lemma run_mono: "inv s \<Longrightarrow> gauge s \<le> gauge (fold step es s)"
proof (induction es arbitrary: s)
  case (Cons e es)
  have "gauge s \<le> gauge (step e s)" using Cons.prems by (rule step_mono)
  also have "\<dots> \<le> gauge (fold step es (step e s))"
    using Cons.prems by (intro Cons.IH step_keeps)
  finally show ?case by simp
qed simp

end

end
