(* ===== verification/Text_Split.thy ===== *)
theory Text_Split
  imports Prelude
begin

text \<open>
  The message splitter of \<open>utils/text_processing.py\<close>: the plain-text fallback
  \<open>_split_boundary_only\<close>, and \<open>smart_split_message\<close> with its delimiter tracking. Both loops
  are written with fuel, since whether they stop is one of the questions.
\<close>

section \<open>Configuration\<close>

text \<open>The keys of \<open>DELIMITER_CONFIG_BY_MODE\<close>; every other \<open>parse_mode\<close> (None included) is \<open>Plain\<close>.\<close>

datatype parse_mode = Plain | Markdown | MarkdownV2

definition tick :: string where "tick = ''`''"
definition fence :: string where "fence = ''```''"

text \<open>
  \<open>sorted(config['tokens'], key=len, reverse=True)\<close>: Python's sort is stable and \<open>reverse=True\<close>
  keeps equal lengths in their original order.
\<close>

definition tokens_of :: "parse_mode \<Rightarrow> string list" where
  "tokens_of m = (case m of
      Plain \<Rightarrow> []
    | Markdown \<Rightarrow> [fence, tick, ''*'', ''_'', ''['']
    | MarkdownV2 \<Rightarrow> [fence, ''||'', ''__'', tick, ''*'', ''_'', ''~'', ''['', ''>''])"

definition toggles_of :: "parse_mode \<Rightarrow> string list" where
  "toggles_of m = (case m of
      Plain \<Rightarrow> []
    | Markdown \<Rightarrow> [''*'', ''_'', tick, fence]
    | MarkdownV2 \<Rightarrow> [''*'', ''_'', ''__'', ''~'', ''||'', tick, fence])"

definition delimiter_buffer :: int where "delimiter_buffer = 50"

section \<open>The plain-text fallback\<close>

text \<open>
  The loop of \<open>_split_boundary_only\<close>. \<open>remaining.rfind('\n', 0, max_length)\<close> is the last newline
  before the limit; the slice \<open>remaining[split:]\<close> keeps it and \<open>lstrip\<close> removes it.
\<close>

fun split_loop :: "nat \<Rightarrow> string \<Rightarrow> nat \<Rightarrow> string list \<Rightarrow> string list option" where
  "split_loop 0 remaining max_length chunks = None"
| "split_loop (Suc fuel) remaining max_length chunks =
     (if remaining = [] then Some chunks
      else if length remaining \<le> max_length then Some (chunks @ [remaining])
      else let r = rfind remaining [nl] 0 (int max_length);
               split = (if r = -1 then max_length else nat r)
           in split_loop fuel (lstrip (drop split remaining)) max_length
                (chunks @ [take split remaining]))"

definition split_boundary_only :: "nat \<Rightarrow> string \<Rightarrow> nat \<Rightarrow> string list option" where
  "split_boundary_only fuel text max_length =
     (if text = [] then Some []
      else if length text \<le> max_length then Some [text]
      else split_loop fuel text max_length [])"

section \<open>Delimiter tracking\<close>

text \<open>The stack of open delimiters, bottom first as the Python list.\<close>

definition build_closers :: "string list \<Rightarrow> string" where
  "build_closers stack = concat (map (\<lambda>t. if t = ''['' then '']'' else t) (rev stack))"

definition build_openers :: "string list \<Rightarrow> string" where
  "build_openers stack = concat (filter (\<lambda>t. t \<noteq> ''['') stack)"

definition in_blockquote_at :: "string \<Rightarrow> int \<Rightarrow> parse_mode \<Rightarrow> bool" where
  "in_blockquote_at text idx m =
     (if m \<noteq> MarkdownV2 then False
      else let r = rfind text [nl] 0 idx; line_start = (if r = -1 then 0 else nat (r + 1))
           in take 2 (drop line_start text) = ''> '')"

fun first_token :: "string \<Rightarrow> nat \<Rightarrow> string list \<Rightarrow> string option" where
  "first_token text i [] = None"
| "first_token text i (t # ts) = (if startswith_at text t i then Some t else first_token text i ts)"

text \<open>
  \<open>_scan_state\<close>: the loop over \<open>i\<close>. Inside a code span only its closer is looked for; a backslash
  skips the next character; a toggle token pops itself from the top or is pushed. Every token has
  at least one character, so \<open>i\<close> grows in each round; the fuel \<open>end_idx\<close> is enough.
  \<open>text[i]\<close> is within range because \<open>end_idx\<close> never exceeds the length where it is called.
\<close>

definition scan_step :: "string \<Rightarrow> string list \<Rightarrow> string list \<Rightarrow> nat \<Rightarrow> string list \<Rightarrow> nat \<times> string list" where
  "scan_step text tokens toggles i stack =
     (if stack \<noteq> [] \<and> last stack \<in> {tick, fence} then
        (if startswith_at text (last stack) i then (i + length (last stack), butlast stack)
         else (Suc i, stack))
      else if text ! i = CHR 0x5C then (i + 2, stack)
      else case first_token text i tokens of
             None \<Rightarrow> (Suc i, stack)
           | Some t \<Rightarrow>
               (i + length t,
                if t \<in> set toggles then
                  (if stack \<noteq> [] \<and> last stack = t then butlast stack else stack @ [t])
                else stack))"

fun scan_loop :: "nat \<Rightarrow> string \<Rightarrow> nat \<Rightarrow> string list \<Rightarrow> string list \<Rightarrow> nat \<Rightarrow> string list \<Rightarrow> string list" where
  "scan_loop 0 text end_idx tokens toggles i stack = stack"
| "scan_loop (Suc fuel) text end_idx tokens toggles i stack =
     (if i < end_idx then
        let (j, stack') = scan_step text tokens toggles i stack
        in scan_loop fuel text end_idx tokens toggles j stack'
      else stack)"

definition scan_state :: "string \<Rightarrow> nat \<Rightarrow> string list \<Rightarrow> string list \<Rightarrow> string list \<Rightarrow> string list" where
  "scan_state text end_idx stack tokens toggles =
     scan_loop (Suc end_idx) text end_idx tokens toggles 0 stack"

definition assemble_chunk :: "string \<Rightarrow> string \<Rightarrow> string \<Rightarrow> bool \<Rightarrow> parse_mode \<Rightarrow> string" where
  "assemble_chunk raw openers closers in_bq m =
     (let nls = takeWhile (\<lambda>c. c = nl) raw; body = dropWhile (\<lambda>c. c = nl) raw;
          bq = (if in_bq \<and> m = MarkdownV2 \<and> body \<noteq> [] \<and> \<not> prefix ''>'' body then ''> '' else [])
      in nls @ bq @ openers @ body @ closers)"

section \<open>Where to split\<close>

definition opt_max :: "int \<Rightarrow> int \<Rightarrow> int" where
  "opt_max best p = (if p > best then p else best)"

text \<open>
  \<open>_find_split_point\<close>: a newline, else the last of \<open>'. '\<close>, \<open>'! '\<close>, \<open>'? '\<close>, else a space, first in
  the last quarter and then in the whole window; \<open>int(ceiling * 0.75)\<close> truncates towards zero.
\<close>

definition search_window :: "string \<Rightarrow> int \<Rightarrow> int \<Rightarrow> int option" where
  "search_window text search_start ceiling =
     (let idx = rfind text [nl] search_start ceiling in
      if idx \<noteq> -1 then Some (idx + 1)
      else let best = fold (\<lambda>punct best. opt_max best (rfind text punct search_start ceiling))
                        [''. '', ''! '', ''? ''] (-1)
           in if best \<noteq> -1 then Some (best + 2)
              else let sp = rfind text '' '' search_start ceiling
                   in if sp \<noteq> -1 then Some (sp + 1) else None)"

definition three_quarters :: "int \<Rightarrow> int" where
  "three_quarters c = (if 0 \<le> c then (3 * c) div 4 else - ((3 * - c) div 4))"

definition find_split_point :: "string \<Rightarrow> int \<Rightarrow> nat \<Rightarrow> nat" where
  "find_split_point text effective_limit hard_max =
     (let ceiling = min effective_limit (int (length text));
          floor_75 = three_quarters ceiling
      in case search_window text floor_75 ceiling of
           Some i \<Rightarrow> nat i
         | None \<Rightarrow> (case search_window text 0 ceiling of
               Some i \<Rightarrow> nat i
             | None \<Rightarrow> min hard_max (length text)))"

text \<open>
  \<open>_rollback_if_inside_atom\<close>: back out of a multi-character token, else to the last \<open>[\<close> whose next
  \<open>)\<close> lies at or beyond the split.
\<close>

fun rollback_offsets :: "string \<Rightarrow> nat \<Rightarrow> string \<Rightarrow> nat list \<Rightarrow> nat option" where
  "rollback_offsets text split_idx t [] = None"
| "rollback_offsets text split_idx t (off # offs) =
     (if off \<le> split_idx \<and> startswith_at text t (split_idx - off) then Some (split_idx - off)
      else rollback_offsets text split_idx t offs)"

fun rollback_tokens :: "string \<Rightarrow> nat \<Rightarrow> string list \<Rightarrow> nat option" where
  "rollback_tokens text split_idx [] = None"
| "rollback_tokens text split_idx (t # ts) =
     (case (if 1 < length t then rollback_offsets text split_idx t [1..<length t] else None) of
        Some start \<Rightarrow> Some start
      | None \<Rightarrow> rollback_tokens text split_idx ts)"

definition rollback_if_inside_atom :: "string \<Rightarrow> nat \<Rightarrow> string list \<Rightarrow> nat" where
  "rollback_if_inside_atom text split_idx tokens =
     (case rollback_tokens text split_idx tokens of
        Some start \<Rightarrow> start
      | None \<Rightarrow>
          let bracket_pos = rfind text ''['' 0 (int split_idx) in
          if bracket_pos \<noteq> -1 then
            let paren_close = find_char text CHR '')'' (nat bracket_pos) in
            if paren_close \<noteq> -1 \<and> int split_idx \<le> paren_close then nat bracket_pos else split_idx
          else split_idx)"

section \<open>The splitter\<close>

text \<open>
  \<open>_merge_delimiter_only_chunks\<close>, with \<open>merged\<close> as the accumulator.
\<close>

definition delimiter_only :: "string \<Rightarrow> bool" where
  "delimiter_only c \<longleftrightarrow> strip c \<in> {[], fence, tick, ''*'', ''_''}"

fun merge_chunks :: "nat \<Rightarrow> string list \<Rightarrow> string list \<Rightarrow> string list" where
  "merge_chunks max_length merged [] = merged"
| "merge_chunks max_length merged (c # cs) =
     (if delimiter_only c \<and> merged \<noteq> [] \<and> length (last merged @ c) \<le> max_length
      then merge_chunks max_length (butlast merged @ [last merged @ c]) cs
      else merge_chunks max_length (merged @ [c]) cs)"

definition merge_delimiter_only_chunks :: "string list \<Rightarrow> nat \<Rightarrow> string list" where
  "merge_delimiter_only_chunks chunks max_length = merge_chunks max_length [] chunks"

text \<open>
  The loop variables of \<open>smart_split_message\<close>: what is left of the text, the open delimiters, the
  openers to repeat at the head of the next chunk, and whether it starts inside a block quote.
\<close>

record split_state =
  remaining :: string
  open_stack :: "string list"
  carry_openers :: string
  carry_bq :: bool

text \<open>The index at which one round cuts: \<open>_find_split_point\<close>, then \<open>_rollback_if_inside_atom\<close>.\<close>

definition split_index :: "parse_mode \<Rightarrow> nat \<Rightarrow> split_state \<Rightarrow> nat" where
  "split_index m max_length s =
     (let carry_cost = int (length (carry_openers s))
                       + (if carry_bq s \<and> m = MarkdownV2 then 2 else 0);
          effective_limit = int max_length - carry_cost - delimiter_buffer
      in rollback_if_inside_atom (remaining s)
           (find_split_point (remaining s) effective_limit max_length) (tokens_of m))"

definition split_round :: "parse_mode \<Rightarrow> nat \<Rightarrow> split_state \<Rightarrow> string \<times> split_state" where
  "split_round m max_length s =
     (let idx = split_index m max_length s;
          chunk_stack = scan_state (remaining s) idx (open_stack s) (tokens_of m) (toggles_of m);
          chunk = assemble_chunk (take idx (remaining s)) (carry_openers s)
                    (build_closers chunk_stack) (carry_bq s) m;
          rest = drop idx (remaining s)
      in (chunk, \<lparr>remaining = rest, open_stack = chunk_stack,
                  carry_openers = build_openers chunk_stack,
                  carry_bq = in_blockquote_at rest 0 m\<rparr>))"

fun smart_loop :: "nat \<Rightarrow> parse_mode \<Rightarrow> nat \<Rightarrow> split_state \<Rightarrow> string list \<Rightarrow> string list option" where
  "smart_loop 0 m max_length s chunks = None"
| "smart_loop (Suc fuel) m max_length s chunks =
     (if remaining s = [] then Some chunks
      else if length (remaining s) + length (carry_openers s)
                + (if carry_bq s \<and> m = MarkdownV2 then 2 else 0) \<le> max_length
      then Some (chunks @ [assemble_chunk (remaining s) (carry_openers s) [] (carry_bq s) m])
      else let (chunk, s') = split_round m max_length s
           in smart_loop fuel m max_length s' (chunks @ [chunk]))"

definition init_split :: "string \<Rightarrow> split_state" where
  "init_split text = \<lparr>remaining = text, open_stack = [], carry_openers = [], carry_bq = False\<rparr>"

definition smart_split_message :: "nat \<Rightarrow> string \<Rightarrow> nat \<Rightarrow> parse_mode \<Rightarrow> string list option" where
  "smart_split_message fuel text max_length m =
     (if text = [] then Some []
      else if length text \<le> max_length then Some [text]
      else if m = Plain then split_boundary_only fuel text max_length
      else map_option (\<lambda>cs. merge_delimiter_only_chunks cs max_length)
             (smart_loop fuel m max_length (init_split text) []))"


section \<open>Facts about the fallback\<close>

lemma rfind_missing: "c \<in> set t \<Longrightarrow> c \<notin> set s \<Longrightarrow> rfind s t a b = -1"
  by (cases rule: rfind_cases [of s t a b])
    (auto dest!: set_mono_prefix set_drop_subset [THEN subsetD])

lemma split_progress:
  assumes "1 \<le> max_length" "max_length < length rem"
    and "r = rfind rem [nl] 0 (int max_length)"
    and "split = (if r = -1 then max_length else nat r)"
  shows "length (lstrip (drop split rem)) < length rem" and "split \<le> max_length"
proof -
  show "length (lstrip (drop split rem)) < length rem"
  proof (cases "split = 0")
    case True
    with assms rfind_ge [of rem "[nl]" 0 "int max_length"]
    have "rfind rem [nl] 0 (int max_length) = 0" by (auto split: if_splits)
    then have "prefix [nl] rem"
      by (cases rule: rfind_cases [of rem "[nl]" 0 "int max_length"]) auto
    then obtain rest where "rem = nl # rest" by (auto elim: prefixE)
    with True show ?thesis using length_lstrip_le [of rest] by simp
  next
    case False
    then have "length (drop split rem) < length rem" using assms by auto
    then show ?thesis using length_lstrip_le [of "drop split rem"] by linarith
  qed
  show "split \<le> max_length"
    using assms(3,4) adj_end_le [of "length rem" "int max_length"]
    by (cases rule: rfind_cases [of rem "[nl]" 0 "int max_length"])
       (auto simp: adj_end_def split: if_splits)
qed

lemma filter_split:
  "filter P (take n s) @ filter P (drop n s) = filter P s"
  by (metis append_take_drop_id filter_append)

lemma split_loop_total:
  assumes "1 \<le> max_length" "length rem < fuel" "\<forall>c \<in> set chunks. length c \<le> max_length"
  shows "\<exists>cs. split_loop fuel rem max_length chunks = Some cs
    \<and> (\<forall>c \<in> set cs. length c \<le> max_length)
    \<and> filter (\<lambda>c. \<not> is_space c) (concat cs)
        = filter (\<lambda>c. \<not> is_space c) (concat chunks @ rem)"
  using assms
proof (induction fuel arbitrary: rem chunks)
  case (Suc fuel)
  define r where "r = rfind rem [nl] 0 (int max_length)"
  define split where "split = (if r = -1 then max_length else nat r)"
  show ?case
  proof (cases "length rem \<le> max_length")
    case True
    with Suc.prems show ?thesis by auto
  next
    case False
    then have big: "max_length < length rem" by simp
    note prog = split_progress [OF Suc.prems(1) big r_def split_def]
    have "\<forall>c \<in> set (chunks @ [take split rem]). length c \<le> max_length"
      using Suc.prems(3) prog(2) by auto
    moreover have "length (lstrip (drop split rem)) < fuel" using prog(1) Suc.prems(2) by simp
    ultimately obtain cs where
      "split_loop fuel (lstrip (drop split rem)) max_length (chunks @ [take split rem]) = Some cs"
      "\<forall>c \<in> set cs. length c \<le> max_length"
      "filter (\<lambda>c. \<not> is_space c) (concat cs) = filter (\<lambda>c. \<not> is_space c)
         (concat (chunks @ [take split rem]) @ lstrip (drop split rem))"
      using Suc.IH [OF Suc.prems(1)] by blast
    moreover have "rem \<noteq> []" using big by auto
    ultimately show ?thesis using big
      by (simp add: r_def [symmetric] split_def [symmetric] Let_def filter_lstrip filter_split)
  qed
qed simp

text \<open>
  C30: the plain-text splitter stops for every limit of at least one character, no chunk exceeds the
  limit, and only white space is lost: the non-space characters of the chunks, in order, are those
  of the message.
\<close>

theorem split_boundary_only_correct:
  assumes "1 \<le> max_length"
  shows "\<exists>cs. split_boundary_only (Suc (length text)) text max_length = Some cs
    \<and> (\<forall>c \<in> set cs. length c \<le> max_length)
    \<and> filter (\<lambda>c. \<not> is_space c) (concat cs) = filter (\<lambda>c. \<not> is_space c) text"
  using split_loop_total [OF assms, of "text" "Suc (length text)" "[]"]
  by (auto simp: split_boundary_only_def)

theorem split_boundary_only_correct_witness:
  "split_boundary_only 12 ''ab cd efghi'' 4 = Some [''ab c'', ''d ef'', ''ghi'']
   \<and> (\<exists>cs. split_boundary_only 12 ''ab cd efghi'' 4 = Some cs
        \<and> (\<forall>c \<in> set cs. length c \<le> 4)
        \<and> filter (\<lambda>c. \<not> is_space c) (concat cs) = filter (\<lambda>c. \<not> is_space c) ''ab cd efghi'')"
proof -
  have "split_boundary_only 12 ''ab cd efghi'' 4 = Some [''ab c'', ''d ef'', ''ghi'']"
    by code_simp
  then show ?thesis using split_boundary_only_correct [of 4 "''ab cd efghi''"] by simp
qed

section \<open>No character is lost\<close>

text \<open>
  A piece of the text is rendered by adding openers, closers and a quote marker around its body,
  after its leading newlines; nothing of the piece itself is changed.
\<close>

definition renders :: "parse_mode \<Rightarrow> string \<Rightarrow> string \<Rightarrow> bool" where
  "renders m piece chunk \<longleftrightarrow> (\<exists>openers closers bq. chunk = assemble_chunk piece openers closers bq m)"

lemma assemble_plain [simp]: "assemble_chunk raw [] [] False m = raw"
  by (simp add: assemble_chunk_def)

lemma renders_self [simp]: "renders m piece piece"
  unfolding renders_def by (metis assemble_plain)

lemma concat_merge_chunks: "concat (merge_chunks n merged cs) = concat merged @ concat cs"
proof (induction cs arbitrary: merged)
  case (Cons c cs)
  have "concat (butlast merged @ [last merged @ c]) = concat merged @ c" if "merged \<noteq> []"
    using that by (metis append.assoc append_butlast_last_id concat.simps concat_append append_Nil2)
  with Cons show ?case by simp
qed simp

lemma split_round_renders:
  "split_round m n s = (chunk, s') \<Longrightarrow>
     renders m (take (split_index m n s) (remaining s)) chunk
     \<and> remaining s' = drop (split_index m n s) (remaining s)"
  unfolding renders_def split_round_def Let_def by auto

lemma smart_loop_pieces:
  "smart_loop fuel m n s chunks = Some cs \<Longrightarrow>
     \<exists>ps ds. concat ps = remaining s \<and> cs = chunks @ ds \<and> list_all2 (renders m) ps ds"
proof (induction fuel arbitrary: s chunks)
  case (Suc fuel)
  obtain chunk s' where round: "split_round m n s = (chunk, s')" by fastforce
  show ?case
  proof (cases "remaining s = []")
    case True
    with Suc.prems show ?thesis by (intro exI [of _ "[]"]) simp
  next
    case False
    note nonempty = this
    show ?thesis
    proof (cases "smart_loop fuel m n s' (chunks @ [chunk]) = Some cs")
      case True
      then obtain ps ds where IH: "concat ps = remaining s'" "cs = (chunks @ [chunk]) @ ds"
          "list_all2 (renders m) ps ds"
        using Suc.IH by blast
      with split_round_renders [OF round] show ?thesis
        by (intro exI [of _ "take (split_index m n s) (remaining s) # ps"] exI [of _ "chunk # ds"])
           simp
    next
      case False
      with Suc.prems nonempty round
      have "cs = chunks @ [assemble_chunk (remaining s) (carry_openers s) [] (carry_bq s) m]"
        by (auto split: if_splits)
      then show ?thesis
        by (intro exI [of _ "[remaining s]"] exI [of _ "[_]"]) (auto simp: renders_def)
    qed
  qed
qed simp



section \<open>Progress\<close>

lemma search_window_range:
  assumes "search_window s a b = Some i"
  shows "1 \<le> i \<and> i \<le> int (length s) \<and> s ! nat (i - 1) \<in> {nl, CHR '' ''}"
proof -
  have single: "\<exists>k. rfind s [c] a b = int k \<and> k < length s \<and> s ! k = c"
    if "rfind s [c] a b \<noteq> -1" for c
    using that by (cases rule: rfind_cases [of s "[c]" a b])
      (auto simp: prefix_def dest: arg_cong [where f = hd] simp flip: hd_drop_conv_nth)
  have double: "\<exists>k. rfind s [d, CHR '' ''] a b = int k \<and> Suc k < length s \<and> s ! Suc k = CHR '' ''"
    if "rfind s [d, CHR '' ''] a b \<noteq> -1" for d
    using that
  proof (cases rule: rfind_cases [of s "[d, CHR '' '']" a b])
    case (found k)
    then obtain rest where "drop k s = d # CHR '' '' # rest" by (auto simp: prefix_def)
    then have "drop (Suc k) s = CHR '' '' # rest" by (metis drop_Suc drop_tl list.sel(3))
    with found show ?thesis by (metis drop_eq_Nil hd_drop_conv_nth leI list.distinct(1) list.sel(1))
  qed auto
  show ?thesis
  proof (cases "rfind s [nl] a b = -1")
    case False
    with single [OF False] assms show ?thesis
      by (auto simp: search_window_def Let_def split: if_splits)
  next
    case True
    define best where "best = fold (\<lambda>punct best. opt_max best (rfind s punct a b))
                        [''. '', ''! '', ''? ''] (-1)"
    show ?thesis
    proof (cases "best = -1")
      case True
      with \<open>rfind s [nl] a b = -1\<close> assms have sp: "rfind s '' '' a b \<noteq> -1" "i = rfind s '' '' a b + 1"
        by (auto simp: search_window_def Let_def best_def split: if_splits)
      with single [OF sp(1)] show ?thesis by auto
    next
      case False
      then obtain d where d: "best = rfind s [d, CHR '' ''] a b" "rfind s [d, CHR '' ''] a b \<noteq> -1"
        by (auto simp: best_def opt_max_def split: if_splits)
      have "i = best + 2"
        using assms True False by (simp add: search_window_def Let_def best_def split: if_splits)
      moreover obtain k where "best = int k" "Suc k < length s" "s ! Suc k = CHR '' ''"
        using double [OF d(2)] d(1) by auto
      ultimately show ?thesis by (auto simp: nat_add_distrib)
    qed
  qed
qed

lemma find_split_point_range:
  assumes "s \<noteq> []" "1 \<le> n"
  shows "1 \<le> find_split_point s e n \<and> find_split_point s e n \<le> length s
    \<and> (find_split_point s e n = min n (length s)
       \<or> s ! (find_split_point s e n - 1) \<in> {nl, CHR '' ''})"
proof -
  define c where "c = min e (int (length s))"
  show ?thesis
  proof (cases "search_window s (three_quarters c) c")
    case (Some i)
    with search_window_range [OF Some] show ?thesis
      by (auto simp: find_split_point_def Let_def c_def [symmetric] nat_diff_distrib)
  next
    case None
    note no_first = this
    show ?thesis
    proof (cases "search_window s 0 c")
      case (Some i)
      with no_first search_window_range [OF Some] show ?thesis
        by (auto simp: find_split_point_def Let_def c_def [symmetric] nat_diff_distrib)
    next
      case None
      with no_first have "find_split_point s e n = min n (length s)"
        by (simp add: find_split_point_def Let_def c_def [symmetric])
      moreover have "1 \<le> length s" using assms(1) by (cases s) auto
      ultimately show ?thesis using assms(2) by simp
    qed
  qed
qed

lemma rollback_offsets_Some:
  "rollback_offsets s n t offs = Some k \<Longrightarrow>
     \<exists>off \<in> set offs. off \<le> n \<and> k = n - off \<and> startswith_at s t k"
  by (induction offs) (auto split: if_splits)

lemma rollback_tokens_Some:
  "rollback_tokens s n ts = Some k \<Longrightarrow>
     \<exists>t \<in> set ts. \<exists>off. 1 \<le> off \<and> off < length t \<and> off \<le> n \<and> k = n - off \<and> startswith_at s t k"
proof (induction ts)
  case (Cons t ts)
  show ?case
  proof (cases "if 1 < length t then rollback_offsets s n t [1..<length t] else None")
    case None
    with Cons show ?thesis by auto
  next
    case (Some j)
    with Cons.prems have "rollback_offsets s n t [1..<length t] = Some k" by (auto split: if_splits)
    from rollback_offsets_Some [OF this] show ?thesis by auto
  qed
qed simp

lemma rollback_tokens_missing:
  "\<forall>t \<in> set ts. 1 < length t \<longrightarrow> \<not> set t \<subseteq> set s \<Longrightarrow> rollback_tokens s n ts = None"
proof (rule ccontr)
  assume missing: "\<forall>t \<in> set ts. 1 < length t \<longrightarrow> \<not> set t \<subseteq> set s"
    and "rollback_tokens s n ts \<noteq> None"
  then obtain t off k where t: "t \<in> set ts" "1 \<le> off" "off < length t" "startswith_at s t k"
    using rollback_tokens_Some by (metis not_None_eq)
  then have "set t \<subseteq> set s"
    by (auto simp: startswith_at_def dest!: set_mono_prefix set_drop_subset [THEN subsetD])
  with missing t show False by auto
qed

lemma tokens_short:
  "t \<in> set (tokens_of m) \<Longrightarrow>
     length t \<le> 3 \<and> (1 < length t \<longrightarrow> set t \<subseteq> {CHR ''`'', CHR ''|'', CHR ''_''})"
  by (cases m) (auto simp: tokens_of_def fence_def tick_def)

lemma rollback_token_positive:
  assumes rb: "rollback_tokens s (find_split_point s e n) (tokens_of m) = Some k"
    and "s \<noteq> []" "3 \<le> n"
  shows "1 \<le> k"
proof -
  define i where "i = find_split_point s e n"
  from rollback_tokens_Some [OF rb] obtain t off where t: "t \<in> set (tokens_of m)"
      "1 \<le> off" "off < length t" "off \<le> i" "k = i - off" "startswith_at s t k"
    unfolding i_def by blast
  from t(6) have pre: "prefix t (drop k s)" by (simp add: startswith_at_def)
  then have len: "k + length t \<le> length s" using t(3) prefix_length_le by fastforce
  have "t ! (off - 1) = s ! (i - 1)"
  proof -
    from pre obtain u where "drop k s = t @ u" by (auto simp: prefix_def)
    then have "s ! (k + (off - 1)) = t ! (off - 1)"
      using t len by (metis add_leD1 less_imp_diff_less nth_append nth_drop)
    moreover have "k + (off - 1) = i - 1" using t by simp
    ultimately show ?thesis by simp
  qed
  moreover have "t ! (off - 1) \<in> {CHR ''`'', CHR ''|'', CHR ''_''}"
  proof -
    have "1 < length t" using t by linarith
    with tokens_short [OF t(1)] have "set t \<subseteq> {CHR ''`'', CHR ''|'', CHR ''_''}" by blast
    moreover have "t ! (off - 1) \<in> set t" using t by (intro nth_mem) linarith
    ultimately show ?thesis by blast
  qed
  ultimately have "s ! (i - 1) \<notin> {nl, CHR '' ''}" by (auto simp: nl_def)
  with find_split_point_range [of s n e] assms have "i = min n (length s)" by (auto simp: i_def)
  moreover have "length t \<le> 3" using tokens_short [OF t(1)] by simp
  ultimately show ?thesis using t len assms(3) by linarith
qed

lemma split_index_le:
  assumes "remaining s \<noteq> []" "1 \<le> n"
  shows "split_index m n s \<le> length (remaining s)"
proof -
  define e where "e = int n - (int (length (carry_openers s))
                       + (if carry_bq s \<and> m = MarkdownV2 then 2 else 0)) - delimiter_buffer"
  define i where "i = find_split_point (remaining s) e n"
  have i: "i \<le> length (remaining s)" using find_split_point_range [OF assms] by (simp add: i_def)
  have idx: "split_index m n s = rollback_if_inside_atom (remaining s) i (tokens_of m)"
    by (simp add: split_index_def i_def e_def Let_def)
  show ?thesis
  proof (cases "rollback_tokens (remaining s) i (tokens_of m)")
    case (Some k)
    with rollback_tokens_Some [OF Some] i idx show ?thesis by (auto simp: rollback_if_inside_atom_def)
  next
    case None
    with i idx show ?thesis
      by (cases rule: rfind_cases [of "remaining s" "''[''" 0 "int i"])
         (auto simp: rollback_if_inside_atom_def Let_def)
  qed
qed

lemma split_index_positive:
  assumes "remaining s \<noteq> []" "3 \<le> n" "CHR ''['' \<notin> set (remaining s)"
  shows "1 \<le> split_index m n s"
proof -
  define e where "e = int n - (int (length (carry_openers s))
                       + (if carry_bq s \<and> m = MarkdownV2 then 2 else 0)) - delimiter_buffer"
  define i where "i = find_split_point (remaining s) e n"
  have idx: "split_index m n s = rollback_if_inside_atom (remaining s) i (tokens_of m)"
    by (simp add: split_index_def i_def e_def Let_def)
  show ?thesis
  proof (cases "rollback_tokens (remaining s) i (tokens_of m)")
    case (Some k)
    with idx rollback_token_positive [OF Some [unfolded i_def] assms(1,2)] show ?thesis
      by (simp add: rollback_if_inside_atom_def)
  next
    case None
    moreover have "rfind (remaining s) ''['' 0 (int i) = -1"
      using assms(3) by (intro rfind_missing) auto
    ultimately show ?thesis using idx assms find_split_point_range [of "remaining s" n e]
      by (simp add: rollback_if_inside_atom_def i_def)
  qed
qed

lemma smart_loop_total:
  assumes "3 \<le> n" "CHR ''['' \<notin> set (remaining s)" "length (remaining s) < fuel"
  shows "\<exists>cs. smart_loop fuel m n s chunks = Some cs"
  using assms
proof (induction fuel arbitrary: s chunks)
  case (Suc fuel)
  obtain chunk s' where round: "split_round m n s = (chunk, s')" by fastforce
  show ?case
  proof (cases "remaining s = []")
    case False
    from split_round_renders [OF round]
    have rem: "remaining s' = drop (split_index m n s) (remaining s)" by blast
    have "0 < length (remaining s)" using False by simp
    then have "length (remaining s') < fuel"
      using split_index_positive [OF False Suc.prems(1,2), of m] Suc.prems(3)
      unfolding rem length_drop by arith
    moreover have "CHR ''['' \<notin> set (remaining s')"
      using rem Suc.prems(2) by (auto dest: in_set_dropD)
    ultimately have "\<exists>cs. smart_loop fuel m n s' (chunks @ [chunk]) = Some cs"
      using Suc.IH Suc.prems(1) by blast
    with round show ?thesis by auto
  qed simp
qed simp

text \<open>
  C36: on a message without an opening bracket, the splitter stops for every limit of at least three
  characters and in every parse mode; one round per character is always enough.
\<close>

theorem smart_split_stops_without_bracket:
  assumes "3 \<le> n" "CHR ''['' \<notin> set msg"
  shows "\<exists>cs. smart_split_message (Suc (length msg)) msg n m = Some cs"
proof (cases "m = Plain \<and> msg \<noteq> [] \<and> n < length msg")
  case True
  with split_loop_total [of n msg "Suc (length msg)" "[]"] assms show ?thesis
    by (auto simp: smart_split_message_def split_boundary_only_def)
next
  case False
  from assms smart_loop_total [of n "init_split msg" "Suc (length msg)" m "[]"]
  obtain cs where "smart_loop (Suc (length msg)) m n (init_split msg) [] = Some cs"
    by (auto simp: init_split_def)
  with False show ?thesis
    by (auto simp del: smart_loop.simps simp add: smart_split_message_def)
qed

theorem smart_split_stops_without_bracket_witness:
  "CHR ''['' \<notin> set ''*ab*'' \<and> (\<exists>cs. smart_split_message 5 ''*ab*'' 3 MarkdownV2 = Some cs)"
  using smart_split_stops_without_bracket [of 3 "''*ab*''" MarkdownV2]
  by (simp add: eval_nat_numeral)

text \<open>
  A bracket at the head of what is left, whose closing parenthesis lies at or beyond the limit:
  \<open>_rollback_if_inside_atom\<close> returns 0, the chunk is empty and nothing is consumed.
\<close>

definition bracketed :: "string \<Rightarrow> string" where
  "bracketed body = ''['' @ body @ '')''"

lemma rfind_bracket_head:
  assumes "CHR ''['' \<notin> set body" "1 \<le> k"
  shows "rfind (bracketed body) ''['' 0 (int k) = 0"
proof -
  have "int 0 \<le> rfind (bracketed body) ''['' 0 (int k)"
    unfolding rfind_def using assms(2)
    by (intro greatest_below_ge) (auto simp: adj_start_def adj_end_def bracketed_def)
  then show ?thesis
  proof (cases rule: rfind_cases [of "bracketed body" "''[''" 0 "int k"])
    case (found j)
    have "j = 0"
    proof (rule ccontr)
      assume "j \<noteq> 0"
      then have "drop j (bracketed body) = drop (j - 1) (body @ '')'')"
        by (cases j) (auto simp: bracketed_def)
      moreover have "CHR ''['' \<in> set (drop j (bracketed body))"
        using set_mono_prefix [OF found(5)] by simp
      ultimately have "CHR ''['' \<in> set (body @ '')'')" using in_set_dropD by metis
      with assms(1) show False by simp
    qed
    with found show ?thesis by simp
  qed simp
qed

lemma split_index_stuck:
  assumes body: "set body \<inter> {nl, CHR '' '', CHR ''['', CHR '')'', CHR ''`'', CHR ''|'', CHR ''_''} = {}"
    and n: "1 \<le> n" "n \<le> Suc (length body)" and s: "remaining s = bracketed body"
  shows "split_index m n s = 0"
proof -
  have absent: "c \<notin> set (bracketed body)" if "c \<in> {nl, CHR '' '', CHR ''`'', CHR ''|'', CHR ''_''}" for c
    using that body by (auto simp: bracketed_def nl_def)
  have "rfind (bracketed body) [nl] a b = -1" "rfind (bracketed body) '' '' a b = -1"
    "rfind (bracketed body) ''. '' a b = -1" "rfind (bracketed body) ''! '' a b = -1"
    "rfind (bracketed body) ''? '' a b = -1" for a b
    using absent [of nl] absent [of "CHR '' ''"]
    by (auto intro: rfind_missing [of nl] rfind_missing [of "CHR '' ''"])
  then have "search_window (bracketed body) a b = None" for a b
    by (simp add: search_window_def opt_max_def)
  then have split: "find_split_point (bracketed body) e n = n" for e
    using n by (simp add: find_split_point_def bracketed_def)
  have "rollback_tokens (bracketed body) n (tokens_of m) = None"
  proof (intro rollback_tokens_missing ballI impI)
    fix t assume "t \<in> set (tokens_of m)" "1 < length t"
    with tokens_short [of t m] absent show "\<not> set t \<subseteq> set (bracketed body)"
      by (cases t) auto
  qed
  moreover have "rfind (bracketed body) ''['' 0 (int n) = 0"
    using rfind_bracket_head n(1) body by auto
  moreover have "find_char (bracketed body) CHR '')'' 0 = int (Suc (length body))"
  proof -
    have "find_char (body @ '')'') CHR '')'' 0 = int (length body)"
      using body by (induction body) (auto simp: Let_def)
    then show ?thesis by (simp add: bracketed_def)
  qed
  ultimately show ?thesis using n split s
    by (simp add: split_index_def rollback_if_inside_atom_def)
qed

lemma smart_loop_stuck:
  assumes body: "set body \<inter> {nl, CHR '' '', CHR ''['', CHR '')'', CHR ''`'', CHR ''|'', CHR ''_''} = {}"
    and n: "1 \<le> n" "n \<le> Suc (length body)"
  shows "smart_loop fuel m n (init_split (bracketed body)) chunks = None"
proof (induction fuel arbitrary: chunks)
  case (Suc fuel)
  have "split_index m n (init_split (bracketed body)) = 0"
    by (rule split_index_stuck [OF body n]) (simp add: init_split_def)
  then have "split_round m n (init_split (bracketed body)) = ([], init_split (bracketed body))"
    by (simp add: split_round_def init_split_def scan_state_def build_closers_def build_openers_def
        in_blockquote_at_def rfind_def adj_end_def bracketed_def greatest_below_none Let_def)
  moreover have "remaining (init_split (bracketed body)) \<noteq> []"
      "n < length (remaining (init_split (bracketed body)))"
    using n by (simp_all add: init_split_def bracketed_def)
  ultimately show ?case using Suc.IH by simp
qed simp

text \<open>
  the splitter does not stop on every message. On a link-like message \<open>[body)\<close>, whose body has
  no blank and no other delimiter and reaches the limit, both Markdown modes run out of every
  amount of fuel: the round cuts at index 0 and leaves the loop state as it was.
\<close>

theorem smart_split_diverges_on_long_bracket:
  assumes "set body \<inter> {nl, CHR '' '', CHR ''['', CHR '')'', CHR ''`'', CHR ''|'', CHR ''_''} = {}"
    and "1 \<le> n" "n \<le> Suc (length body)" "m \<noteq> Plain"
  shows "smart_split_message fuel (bracketed body) n m = None"
proof -
  have "bracketed body \<noteq> []" "n < length (bracketed body)"
    using assms(3) by (simp_all add: bracketed_def)
  with smart_loop_stuck [OF assms(1-3), of fuel m "[]"] assms(4) show ?thesis
    by (simp add: smart_split_message_def)
qed

theorem smart_split_diverges_on_long_bracket_witness:
  "\<forall>fuel. smart_split_message fuel (bracketed (replicate 5000 CHR ''a'')) 4000 MarkdownV2 = None"
  using smart_split_diverges_on_long_bracket [of "replicate 5000 CHR ''a''" 4000 MarkdownV2]
  by (simp add: nl_def)

end
