(* ===== verification/Db_Writer.thy ===== *)
theory Db_Writer
  imports Prelude
begin

text \<open>
  The single writer thread of \<open>database/writer.py\<close>: its queue, its receipts, and what one round
  of \<open>db_writer_worker\<close> does with a task. The SQL engine is a parameter: \<open>exec\<close> runs one statement
  on the open transaction and gives the new contents or the text of the exception; its first
  argument counts the statements executed so far, so that the same statement may fail once and
  succeed when it is retried. \<open>repair\<close> is \<open>_attempt_table_repair\<close>: the contents after the repair
  script, or None. Logging and the WAL checkpoints do not change the contents and are left out.
\<close>

section \<open>Errors are told apart by their text\<close>

definition is_no_such_table_error :: "string \<Rightarrow> bool" where
  "is_no_such_table_error e \<longleftrightarrow> contains ''no such table'' (lower e)"

definition is_foreign_key_error :: "string \<Rightarrow> bool" where
  "is_foreign_key_error e \<longleftrightarrow> contains ''foreign key constraint failed'' (lower e)"

definition recoverable_patterns :: "string list" where
  "recoverable_patterns = [''error opening vector blob'', ''vector_chunks'',
     ''could not insert a new vector chunk'', ''could not initialize'']"

definition fatal_patterns :: "string list" where
  "fatal_patterns = [''invalid float32 vector'', ''blob length'', ''invalid float32 vector blob length'']"

definition is_recoverable_vec0_error :: "string \<Rightarrow> bool" where
  "is_recoverable_vec0_error e \<longleftrightarrow> (\<exists>p \<in> set recoverable_patterns. contains p (lower e))"

definition is_fatal_vec0_error :: "string \<Rightarrow> bool" where
  "is_fatal_vec0_error e \<longleftrightarrow> (\<exists>p \<in> set fatal_patterns. contains p (lower e))"

text \<open>
  \<open>_extract_table_name\<close>: the regular expression
  \<^verbatim>\<open>no such table:\s*(?:\"|[\w\.]+\.)?(\w+)\"?\<close>, searched from the left, ignoring case. The optional
  group is greedy, so a qualified name loses everything up to its last dot that a word follows.
\<close>

definition is_word_char :: "char \<Rightarrow> bool" where
  "is_word_char c \<longleftrightarrow> (let n = of_char c :: nat in
     (48 \<le> n \<and> n \<le> 57) \<or> (65 \<le> n \<and> n \<le> 90) \<or> n = 95 \<or> (97 \<le> n \<and> n \<le> 122)
     \<or> n = 170 \<or> n = 178 \<or> n = 179 \<or> n = 181 \<or> n = 185 \<or> n = 186 \<or> (188 \<le> n \<and> n \<le> 190)
     \<or> (192 \<le> n \<and> n \<noteq> 215 \<and> n \<noteq> 247))"

definition qualified_tail :: "string \<Rightarrow> string" where
  "qualified_tail s =
     (let run = takeWhile (\<lambda>c. is_word_char c \<or> c = CHR ''.'') s;
          p = greatest_below (length run)
                (\<lambda>k. 2 \<le> k \<and> run ! (k - 1) = CHR ''.'' \<and> is_word_char (run ! k))
      in takeWhile is_word_char (if p = -1 then s else drop (nat p) s))"

definition match_name :: "string \<Rightarrow> string" where
  "match_name s = (let s' = lstrip s in
     if prefix [CHR 0x22] s' then takeWhile is_word_char (tl s') else qualified_tail s')"

fun extract_table_name :: "string \<Rightarrow> string option" where
  "extract_table_name [] = None"
| "extract_table_name (c # s) =
     (if prefix ''no such table:'' (lower (c # s)) \<and> match_name (drop 14 (c # s)) \<noteq> []
      then Some (match_name (drop 14 (c # s))) else extract_table_name s)"

lemma extract_table_name_examples:
  "extract_table_name ''no such table: job_items'' = Some ''job_items''"
  "extract_table_name ''no such table: main.jobs'' = Some ''jobs''"
  "extract_table_name ''UNIQUE constraint failed: jobs.job_id'' = None"
  by code_simp+

section \<open>State\<close>

text \<open>A \<open>WriteReceipt\<close>: the event and the error.\<close>

record receipt =
  settled :: bool
  rc_error :: "string option"

definition new_receipt :: receipt where
  "new_receipt = \<lparr>settled = False, rc_error = None\<rparr>"

definition resolve :: "receipt \<Rightarrow> receipt" where
  "resolve r = r\<lparr>settled := True\<rparr>"

definition reject :: "string \<Rightarrow> receipt \<Rightarrow> receipt" where
  "reject e r = r\<lparr>settled := True, rc_error := Some e\<rparr>"

datatype 'st payload = Single 'st | ExecScript "'st list" | Transaction "'st list"

datatype 'st task = Stop | Task "nat option" "'st payload"

text \<open>
  The module's globals and the thread's locals. Receipts are objects shared with the callers; they
  are numbered in order of creation.
\<close>

record ('st, 'db) writer =
  contents :: 'db
  write_queue :: "'st task list"
  receipts :: "receipt list"
  generation :: nat
  consecutive_errors :: nat
  reconnects :: nat
  ticks :: nat
  shutdown_event :: bool
  alive :: bool

definition queue_maxsize :: nat where "queue_maxsize = 1000"
definition max_repair_retries :: nat where "max_repair_retries = 1"

definition settle :: "nat option \<Rightarrow> (receipt \<Rightarrow> receipt) \<Rightarrow> receipt list \<Rightarrow> receipt list" where
  "settle r f rs = (case r of None \<Rightarrow> rs | Some i \<Rightarrow> if i < length rs then rs[i := f (rs ! i)] else rs)"

section \<open>Executing a payload\<close>

text \<open>
  Statements run in order on the open transaction; the first error stops them. The result carries
  the number of statements executed.
\<close>

fun exec_all :: "(nat \<Rightarrow> 'st \<Rightarrow> 'db \<Rightarrow> string + 'db) \<Rightarrow> nat \<Rightarrow> 'st list \<Rightarrow> 'db \<Rightarrow> nat \<times> (string + 'db)" where
  "exec_all exec t [] db = (t, Inr db)"
| "exec_all exec t (s # ss) db =
     (case exec t s db of Inl e \<Rightarrow> (Suc t, Inl e) | Inr db' \<Rightarrow> exec_all exec (Suc t) ss db')"

text \<open>
  \<open>executescript\<close> runs outside a transaction: what was executed before the error stays.
\<close>

fun exec_script :: "(nat \<Rightarrow> 'st \<Rightarrow> 'db \<Rightarrow> string + 'db) \<Rightarrow> nat \<Rightarrow> 'st list \<Rightarrow> 'db
    \<Rightarrow> nat \<times> 'db \<times> string option" where
  "exec_script exec t [] db = (t, db, None)"
| "exec_script exec t (s # ss) db =
     (case exec t s db of Inl e \<Rightarrow> (Suc t, db, Some e) | Inr db' \<Rightarrow> exec_script exec (Suc t) ss db')"

text \<open>
  The \<open>while True\<close> of a transaction: a recoverable vector error is retried at most twice, each time
  from the rolled-back contents; \<open>n\<close> counts the retries that are left.
\<close>

fun tx_loop :: "(nat \<Rightarrow> 'st \<Rightarrow> 'db \<Rightarrow> string + 'db) \<Rightarrow> nat \<Rightarrow> nat \<Rightarrow> 'st list \<Rightarrow> 'db
    \<Rightarrow> nat \<times> (string + 'db)" where
  "tx_loop exec n t ss db =
     (case exec_all exec t ss db of
        (t', Inr db') \<Rightarrow> (t', Inr db')
      | (t', Inl e) \<Rightarrow>
          (case n of
             0 \<Rightarrow> (t', Inl e)
           | Suc n' \<Rightarrow> if is_recoverable_vec0_error e then tx_loop exec n' t' ss db else (t', Inl e)))"

text \<open>
  The \<open>for attempt\<close> loop of a single statement, \<open>n\<close> counting the attempts left after this one. On a
  missing table the repair is tried even in the last attempt, which then still rejects the write;
  every other error rejects at once. The contents on failure are those left by the repair.
\<close>

fun single_loop :: "(nat \<Rightarrow> 'st \<Rightarrow> 'db \<Rightarrow> string + 'db) \<Rightarrow> (string \<Rightarrow> 'db \<Rightarrow> 'db option) \<Rightarrow> nat \<Rightarrow> nat
    \<Rightarrow> 'st \<Rightarrow> 'db \<Rightarrow> nat \<times> 'db \<times> string option" where
  "single_loop exec repair n t s db =
     (case exec t s db of
        Inr db' \<Rightarrow> (Suc t, db', None)
      | Inl e \<Rightarrow>
          if is_no_such_table_error e then
            (case extract_table_name e of
               None \<Rightarrow> (Suc t, db, Some e)
             | Some name \<Rightarrow>
                 (case repair name db of
                    None \<Rightarrow> (Suc t, db, Some e)
                  | Some db' \<Rightarrow>
                      (case n of
                         0 \<Rightarrow> (Suc t, db', Some e)
                       | Suc n' \<Rightarrow> single_loop exec repair n' (Suc t) s db')))
          else (Suc t, db, Some e))"

section \<open>One round of the writer thread\<close>

text \<open>The commit: the new contents, the generation, the receipt, the error count.\<close>

definition commit :: "nat option \<Rightarrow> nat \<Rightarrow> 'db \<Rightarrow> ('st, 'db) writer \<Rightarrow> ('st, 'db) writer" where
  "commit r t db w = w\<lparr>contents := db, ticks := t, generation := Suc (generation w),
     receipts := settle r resolve (receipts w), consecutive_errors := 0\<rparr>"

text \<open>The handler of an exception that leaves the task: reject, roll back, reconnect at three.\<close>

definition task_failed :: "nat option \<Rightarrow> nat \<Rightarrow> 'db \<Rightarrow> string \<Rightarrow> ('st, 'db) writer \<Rightarrow> ('st, 'db) writer" where
  "task_failed r t db e w =
     (let n = Suc (consecutive_errors w) in
      w\<lparr>contents := db, ticks := t, receipts := settle r (reject e) (receipts w),
        consecutive_errors := (if 3 \<le> n then 0 else n),
        reconnects := (if 3 \<le> n then Suc (reconnects w) else reconnects w)\<rparr>)"

definition run_task :: "(nat \<Rightarrow> 'st \<Rightarrow> 'db \<Rightarrow> string + 'db) \<Rightarrow> (string \<Rightarrow> 'db \<Rightarrow> 'db option)
    \<Rightarrow> nat option \<Rightarrow> 'st payload \<Rightarrow> ('st, 'db) writer \<Rightarrow> ('st, 'db) writer" where
  "run_task exec repair r p w =
     (case p of
        ExecScript ss \<Rightarrow>
          (case exec_script exec (ticks w) ss (contents w) of
             (t, db, None) \<Rightarrow> commit r t db w
           | (t, db, Some e) \<Rightarrow> task_failed r t db e w)
      | Transaction ss \<Rightarrow>
          (case tx_loop exec 2 (ticks w) ss (contents w) of
             (t, Inr db) \<Rightarrow> commit r t db w
           | (t, Inl e) \<Rightarrow> task_failed r t (contents w) e w)
      | Single s \<Rightarrow>
          (case single_loop exec repair max_repair_retries (ticks w) s (contents w) of
             (t, db, None) \<Rightarrow> commit r t db w
           | (t, db, Some e) \<Rightarrow>
               w\<lparr>contents := db, ticks := t, receipts := settle r (reject e) (receipts w)\<rparr>))"

text \<open>One iteration of \<open>while True\<close>: \<open>get\<close> with its timeout, the sentinel, or a task.\<close>

definition writer_round :: "(nat \<Rightarrow> 'st \<Rightarrow> 'db \<Rightarrow> string + 'db) \<Rightarrow> (string \<Rightarrow> 'db \<Rightarrow> 'db option)
    \<Rightarrow> ('st, 'db) writer \<Rightarrow> ('st, 'db) writer" where
  "writer_round exec repair w =
     (if \<not> alive w then w
      else case write_queue w of
        [] \<Rightarrow> if shutdown_event w then w\<lparr>alive := False\<rparr> else w
      | Stop # q \<Rightarrow> w\<lparr>write_queue := q, alive := False\<rparr>
      | Task r p # q \<Rightarrow> run_task exec repair r p (w\<lparr>write_queue := q\<rparr>))"

fun writer_rounds :: "(nat \<Rightarrow> 'st \<Rightarrow> 'db \<Rightarrow> string + 'db) \<Rightarrow> (string \<Rightarrow> 'db \<Rightarrow> 'db option)
    \<Rightarrow> nat \<Rightarrow> ('st, 'db) writer \<Rightarrow> ('st, 'db) writer" where
  "writer_rounds exec repair 0 w = w"
| "writer_rounds exec repair (Suc n) w = writer_rounds exec repair n (writer_round exec repair w)"

section \<open>The callers' side\<close>

definition start_writer :: "('st, 'db) writer \<Rightarrow> ('st, 'db) writer" where
  "start_writer w = (if alive w then w
     else w\<lparr>shutdown_event := False, alive := True, consecutive_errors := 0\<rparr>)"

text \<open>
  \<open>enqueue_write\<close>, \<open>enqueue_execscript\<close> and \<open>enqueue_transaction\<close> are one body with different
  payloads. \<open>enabled\<close> is \<open>DATABASE_INTEGRATION_ENABLED\<close>; the returned receipt is its number. A full
  queue drops the task and rejects the receipt. \<open>start_writer\<close> does not fail here.
\<close>

definition enqueue :: "bool \<Rightarrow> bool \<Rightarrow> 'st payload \<Rightarrow> ('st, 'db) writer \<Rightarrow> nat option \<times> ('st, 'db) writer" where
  "enqueue enabled track p w =
     (if \<not> enabled then (None, w)
      else
        let w1 = start_writer w;
            r = (if track then Some (length (receipts w1)) else None);
            w2 = (if track then w1\<lparr>receipts := receipts w1 @ [new_receipt]\<rparr> else w1)
        in if length (write_queue w2) < queue_maxsize
           then (r, w2\<lparr>write_queue := write_queue w2 @ [Task r p]\<rparr>)
           else (r, w2\<lparr>receipts := settle r (reject ''Write queue full'') (receipts w2)\<rparr>))"

text \<open>\<open>shutdown_writer\<close> up to the \<open>join\<close>; a full queue makes \<open>put\<close> wait, which the rounds resolve.\<close>

definition shutdown_writer :: "('st, 'db) writer \<Rightarrow> ('st, 'db) writer" where
  "shutdown_writer w = w\<lparr>shutdown_event := True, write_queue := write_queue w @ [Stop]\<rparr>"

section \<open>Receipts and the queue\<close>

text \<open>The numbers of the receipts that still wait in the queue, in queue order.\<close>

fun waiting :: "'st task list \<Rightarrow> nat list" where
  "waiting [] = []"
| "waiting (Task (Some i) p # q) = i # waiting q"
| "waiting (Task None p # q) = waiting q"
| "waiting (Stop # q) = waiting q"

lemma waiting_append [simp]: "waiting (q @ q') = waiting q @ waiting q'"
  by (induction q rule: waiting.induct) auto

lemma waiting_task: "waiting (Task r p # q) = (case r of None \<Rightarrow> [] | Some i \<Rightarrow> [i]) @ waiting q"
  by (cases r) auto

text \<open>
  A receipt is unsettled exactly while its task waits, each waiting task has its own receipt, and
  the error count stays below the reconnection limit.
\<close>

definition writer_ok :: "('st, 'db) writer \<Rightarrow> bool" where
  "writer_ok w \<longleftrightarrow> consecutive_errors w < 3
     \<and> distinct (waiting (write_queue w))
     \<and> (\<forall>i \<in> set (waiting (write_queue w)). i < length (receipts w))
     \<and> (\<forall>i < length (receipts w).
          settled (receipts w ! i) \<longleftrightarrow> i \<notin> set (waiting (write_queue w)))"

lemma length_settle [simp]: "length (settle r f rs) = length rs"
  by (simp add: settle_def split: option.split)

lemma settle_nth:
  "i < length rs \<Longrightarrow> settle r f rs ! i = (if r = Some i then f (rs ! i) else rs ! i)"
  by (auto simp: settle_def split: option.split)

lemma settled_effects [simp]:
  "settled (resolve rc)" "settled (reject e rc)" "\<not> settled new_receipt"
  "rc_error (resolve rc) = rc_error rc" "rc_error (reject e rc) = Some e" "rc_error new_receipt = None"
  by (simp_all add: resolve_def reject_def new_receipt_def)

text \<open>What \<open>run_task\<close> may do to the thread's state, whatever the payload.\<close>

lemma run_task_effect:
  obtains (committed) t db where "run_task exec repair r p w = commit r t db w"
  | (rejected) t db e n k where "run_task exec repair r p w =
       w\<lparr>contents := db, ticks := t, receipts := settle r (reject e) (receipts w),
         consecutive_errors := n, reconnects := k\<rparr>" "consecutive_errors w < 3 \<longrightarrow> n < 3"
proof (cases p)
  case (Single s)
  obtain t db o' where run: "single_loop exec repair max_repair_retries (ticks w) s (contents w) = (t, db, o')"
    by (metis prod_cases3)
  show ?thesis
  proof (cases o')
    case None
    with run Single show ?thesis by (intro committed [of t db]) (simp add: run_task_def)
  next
    case (Some e)
    with run Single show ?thesis
      by (intro rejected [where t = t and db = db and e = e and n = "consecutive_errors w" and k = "reconnects w"]) (simp_all add: run_task_def)
  qed
next
  case (ExecScript ss)
  obtain t db o' where run: "exec_script exec (ticks w) ss (contents w) = (t, db, o')"
    by (metis prod_cases3)
  show ?thesis
  proof (cases o')
    case None
    with run ExecScript show ?thesis by (intro committed [of t db]) (simp add: run_task_def)
  next
    case (Some e)
    with run ExecScript have "run_task exec repair r p w = task_failed r t db e w"
      by (simp add: run_task_def)
    from this [unfolded task_failed_def Let_def] show ?thesis by (rule rejected) simp
  qed
next
  case (Transaction ss)
  obtain t res where run: "tx_loop exec 2 (ticks w) ss (contents w) = (t, res)" by fastforce
  show ?thesis
  proof (cases res)
    case (Inr db)
    with run Transaction show ?thesis by (intro committed [of t db]) (simp add: run_task_def)
  next
    case (Inl e)
    with run Transaction have "run_task exec repair r p w = task_failed r t (contents w) e w"
      by (simp add: run_task_def)
    from this [unfolded task_failed_def Let_def] show ?thesis by (rule rejected) simp
  qed
qed

lemma run_task_frame:
  "write_queue (run_task exec repair r p w) = write_queue w"
  "shutdown_event (run_task exec repair r p w) = shutdown_event w"
  "alive (run_task exec repair r p w) = alive w"
  "length (receipts (run_task exec repair r p w)) = length (receipts w)"
  "consecutive_errors w < 3 \<Longrightarrow> consecutive_errors (run_task exec repair r p w) < 3"
  by (cases rule: run_task_effect [of exec repair r p w]; simp add: commit_def)+

lemma run_task_settled:
  "i < length (receipts w) \<Longrightarrow>
     settled (receipts (run_task exec repair r p w) ! i) \<longleftrightarrow> r = Some i \<or> settled (receipts w ! i)"
  by (cases rule: run_task_effect [of exec repair r p w]) (auto simp: commit_def settle_nth)

lemma writer_round_ok: "writer_ok w \<Longrightarrow> writer_ok (writer_round exec repair w)"
proof (cases "alive w")
  case True
  assume ok: "writer_ok w"
  show ?thesis
  proof (cases "write_queue w")
    case Nil
    with ok True show ?thesis by (simp add: writer_round_def writer_ok_def)
  next
    case (Cons task q)
    show ?thesis
    proof (cases task)
      case Stop
      with Cons ok True show ?thesis by (simp add: writer_round_def writer_ok_def)
    next
      case (Task r p)
      with Cons True have "writer_round exec repair w = run_task exec repair r p (w\<lparr>write_queue := q\<rparr>)"
        by (simp add: writer_round_def)
      then show ?thesis using ok Cons Task
        by (cases r) (auto simp: writer_ok_def run_task_frame run_task_settled)
    qed
  qed
qed (simp add: writer_round_def)

lemma enqueue_ok: "writer_ok w \<Longrightarrow> writer_ok (snd (enqueue enabled track p w))"
  unfolding writer_ok_def enqueue_def start_writer_def Let_def
  by (auto simp: nth_append settle_nth less_Suc_eq)

lemma shutdown_ok: "writer_ok w \<Longrightarrow> writer_ok (shutdown_writer w)"
  by (simp add: writer_ok_def shutdown_writer_def)

text \<open>Everything that happens to the writer: a caller enqueues, the thread runs a round, shutdown.\<close>

datatype 'st writer_event = Enqueue bool bool "'st payload" | Round | Shutdown

fun writer_step :: "(nat \<Rightarrow> 'st \<Rightarrow> 'db \<Rightarrow> string + 'db) \<Rightarrow> (string \<Rightarrow> 'db \<Rightarrow> 'db option)
    \<Rightarrow> 'st writer_event \<Rightarrow> ('st, 'db) writer \<Rightarrow> ('st, 'db) writer" where
  "writer_step exec repair (Enqueue enabled track p) w = snd (enqueue enabled track p w)"
| "writer_step exec repair Round w = writer_round exec repair w"
| "writer_step exec repair Shutdown w = shutdown_writer w"

lemma writer_step_ok [step_inv]: "writer_ok w \<Longrightarrow> writer_ok (writer_step exec repair e w)"
  by (cases e) (simp_all add: enqueue_ok writer_round_ok shutdown_ok)

interpretation writer_run: step_invariant "writer_step exec repair" writer_ok for exec repair
  by unfold_locales (rule writer_step_ok)

definition init_writer :: "'db \<Rightarrow> ('st, 'db) writer" where
  "init_writer db = \<lparr>contents = db, write_queue = [], receipts = [], generation = 0,
     consecutive_errors = 0, reconnects = 0, ticks = 0, shutdown_event = False, alive = False\<rparr>"

lemma init_writer_ok: "writer_ok (init_writer db)"
  by (simp add: writer_ok_def init_writer_def)

text \<open>
  C1: no write receipt is ever lost. In every interleaving of callers, writer rounds and shutdowns,
  a receipt is unsettled exactly as long as its task waits in the queue, each waiting task has a
  receipt of its own, and three failures in a row never go unnoticed.
\<close>

theorem no_receipt_lost:
  "writer_ok (fold (writer_step exec repair) events (init_writer db))"
  by (rule writer_run.run_keeps) (rule init_writer_ok)

section \<open>Atomic transactions\<close>

lemma tx_loop_result:
  assumes "tx_loop exec n t ss db = (t', res)"
  shows "(\<exists>t0. t \<le> t0 \<and> exec_all exec t0 ss db = (t', res))"
  using assms
proof (induction n arbitrary: t)
  case 0
  then show ?case by (auto split: prod.splits sum.splits intro!: exI [of _ t])
next
  case (Suc n)
  obtain t1 r1 where first: "exec_all exec t ss db = (t1, r1)" by fastforce
  have grows: "t \<le> fst (exec_all exec t ss db)" for t db
    by (induction ss arbitrary: t db) (auto split: sum.splits, metis Suc_leD)
  show ?case
  proof (cases "\<exists>e. r1 = Inl e \<and> is_recoverable_vec0_error e")
    case True
    with first Suc.prems have "tx_loop exec n t1 ss db = (t', res)" by (auto simp del: tx_loop.simps simp add: tx_loop.simps [of _ "Suc n"])
    with Suc.IH grows [of t db] first show ?thesis by (metis fst_conv order_trans)
  next
    case False
    with first Suc.prems have "exec_all exec t ss db = (t', res)"
      by (auto split: sum.splits)
    then show ?thesis by blast
  qed
qed

text \<open>
  C2: a transaction is atomic. When the writer takes it from the queue, either all its statements
  ran in order on the committed contents and the receipt has no error, or the contents are exactly
  as before and the receipt carries the error, whatever failed and however often it was retried.
\<close>

theorem transaction_atomic:
  assumes "alive w" "write_queue w = Task (Some i) (Transaction ss) # q"
    and "i < length (receipts w)" "rc_error (receipts w ! i) = None"
  shows "let w' = writer_round exec repair w in
         (\<exists>t t' db. exec_all exec t ss (contents w) = (t', Inr db) \<and> contents w' = db
            \<and> generation w' = Suc (generation w)
            \<and> receipts w' ! i = \<lparr>settled = True, rc_error = None\<rparr>)
       \<or> (\<exists>t t' e. exec_all exec t ss (contents w) = (t', Inl e) \<and> contents w' = contents w
            \<and> generation w' = generation w
            \<and> receipts w' ! i = \<lparr>settled = True, rc_error = Some e\<rparr>)"
proof -
  define w' where "w' = writer_round exec repair w"
  obtain t res where loop: "tx_loop exec 2 (ticks w) ss (contents w) = (t, res)" by fastforce
  from tx_loop_result [OF this] obtain t0 where run: "exec_all exec t0 ss (contents w) = (t, res)"
    by blast
  show ?thesis
  proof (cases res)
    case (Inr db)
    then have "w' = commit (Some i) t db (w\<lparr>write_queue := q\<rparr>)"
      using assms(1,2) loop by (simp add: w'_def writer_round_def run_task_def)
    with run Inr assms(3,4) show ?thesis unfolding Let_def w'_def [symmetric]
      by (intro disjI1 exI [of _ t0] exI [of _ t] exI [of _ db])
         (simp add: commit_def settle_nth resolve_def)
  next
    case (Inl e)
    then have "w' = task_failed (Some i) t (contents w) e (w\<lparr>write_queue := q\<rparr>)"
      using assms(1,2) loop by (simp add: w'_def writer_round_def run_task_def)
    with run Inl assms(3,4) show ?thesis unfolding Let_def w'_def [symmetric]
      by (intro disjI2 exI [of _ t0] exI [of _ t] exI [of _ e])
         (simp add: task_failed_def Let_def settle_nth reject_def)
  qed
qed

text \<open>
  An engine for the witnesses: the contents are a list of numbers, a statement appends one, a
  negative number violates a constraint.
\<close>

definition demo_exec :: "nat \<Rightarrow> int \<Rightarrow> int list \<Rightarrow> string + int list" where
  "demo_exec t n db = (if n < 0 then Inl ''CHECK constraint failed'' else Inr (db @ [n]))"

definition demo_writer :: "int task list \<Rightarrow> nat \<Rightarrow> (int, int list) writer" where
  "demo_writer q n = (init_writer [7])\<lparr>alive := True, write_queue := q, receipts := replicate n new_receipt\<rparr>"

theorem transaction_atomic_witness:
  "contents (writer_round demo_exec (\<lambda>_ _. None) (demo_writer [Task (Some 0) (Transaction [1, 2, -3])] 1)) = [7]
   \<and> rc_error (receipts (writer_round demo_exec (\<lambda>_ _. None)
        (demo_writer [Task (Some 0) (Transaction [1, 2, -3])] 1)) ! 0) = Some ''CHECK constraint failed''"
  using transaction_atomic [of "demo_writer [Task (Some 0) (Transaction [1, 2, -3])] 1" 0 "[1, 2, -3]"
      "[]" demo_exec "\<lambda>_ _. None"]
  by (simp add: demo_writer_def demo_exec_def init_writer_def new_receipt_def Let_def split: if_splits)

section \<open>Draining\<close>

lemma rounds_empty:
  "write_queue w = [] \<Longrightarrow> shutdown_event w \<Longrightarrow>
     \<not> alive (writer_rounds exec repair (Suc n) w) \<and> write_queue (writer_rounds exec repair (Suc n) w) = []"
proof (induction n arbitrary: w)
  case (Suc n)
  have "write_queue (writer_round exec repair w) = []" "shutdown_event (writer_round exec repair w)"
    using Suc.prems by (simp_all add: writer_round_def)
  from Suc.IH [OF this] show ?case by simp
qed (simp add: writer_round_def)

lemma rounds_drain:
  "alive w \<Longrightarrow> write_queue w = q @ [Stop] \<Longrightarrow> Stop \<notin> set q \<Longrightarrow>
     write_queue (writer_rounds exec repair (Suc (length q)) w) = []
     \<and> \<not> alive (writer_rounds exec repair (Suc (length q)) w)"
proof (induction q arbitrary: w)
  case (Cons task q)
  then obtain r p where "task = Task r p" by (cases task) auto
  with Cons.prems have "writer_round exec repair w = run_task exec repair r p (w\<lparr>write_queue := q @ [Stop]\<rparr>)"
    by (simp add: writer_round_def)
  with Cons show ?case by (simp add: run_task_frame)
qed (simp add: writer_round_def)

lemma rounds_ok: "writer_ok w \<Longrightarrow> writer_ok (writer_rounds exec repair n w)"
  by (induction n arbitrary: w) (auto intro: writer_round_ok)

lemma rounds_receipts: "length (receipts (writer_rounds exec repair n w)) = length (receipts w)"
proof (induction n arbitrary: w)
  case (Suc n)
  have "length (receipts (writer_round exec repair w)) = length (receipts w)"
    by (simp add: writer_round_def run_task_frame split: list.split task.split)
  with Suc show ?case by simp
qed simp

text \<open>
  C3: \<open>shutdown_writer\<close> drains. From a running writer whose queue holds no sentinel yet, one round
  per queued task and one more empty the queue and stop the thread, and every receipt ever handed
  out is settled: no caller is left waiting for a write that was accepted.
\<close>

theorem shutdown_drains:
  assumes "writer_ok w" "alive w" "Stop \<notin> set (write_queue w)"
  shows "let w' = writer_rounds exec repair (Suc (length (write_queue w))) (shutdown_writer w)
    in \<not> alive w' \<and> write_queue w' = [] \<and> (\<forall>rc \<in> set (receipts w'). settled rc)"
proof -
  define w' where "w' = writer_rounds exec repair (Suc (length (write_queue w))) (shutdown_writer w)"
  have drained: "write_queue w' = []" "\<not> alive w'"
    unfolding w'_def using assms(2,3) rounds_drain [of "shutdown_writer w" "write_queue w"]
    by (auto simp: shutdown_writer_def)
  have "writer_ok w'" unfolding w'_def by (intro rounds_ok shutdown_ok assms(1))
  with drained show ?thesis unfolding Let_def w'_def [symmetric]
    by (auto simp: writer_ok_def in_set_conv_nth)
qed

theorem shutdown_drains_witness:
  "(let w = demo_writer [Task (Some 0) (Single 1), Task None (Transaction [2, -1]), Task (Some 1) (Single 3)] 2;
        w' = writer_rounds demo_exec (\<lambda>_ _. None) 4 (shutdown_writer w)
    in \<not> alive w' \<and> write_queue w' = [] \<and> (\<forall>rc \<in> set (receipts w'). settled rc))
   \<and> contents (writer_rounds demo_exec (\<lambda>_ _. None) 4 (shutdown_writer
        (demo_writer [Task (Some 0) (Single 1), Task None (Transaction [2, -1]), Task (Some 1) (Single 3)] 2)))
      = [7, 1, 3]"
proof -
  let ?w = "demo_writer [Task (Some 0) (Single 1), Task None (Transaction [2, -1]), Task (Some 1) (Single 3)] 2"
  have "writer_ok ?w"
    by (simp add: writer_ok_def demo_writer_def init_writer_def less_Suc_eq numeral_2_eq_2)
  moreover have "contents (writer_rounds demo_exec (\<lambda>_ _. None) 4 (shutdown_writer ?w)) = [7, 1, 3]"
    by code_simp
  ultimately show ?thesis
    using shutdown_drains [of ?w demo_exec "\<lambda>_ _. None"]
    by (simp add: demo_writer_def init_writer_def eval_nat_numeral Let_def)
qed

section \<open>Which failures count\<close>

text \<open>
  The reconnection after three consecutive errors only ever counts scripts and transactions. As
  long as the queue holds single statements, whatever their errors, the count does not grow and the
  connection is never replaced, although each failed write rejects its receipt.
\<close>

theorem single_failures_never_reconnect:
  assumes "\<forall>task \<in> set (write_queue w). \<exists>r s. task = Task r (Single s)"
  shows "reconnects (writer_rounds exec repair n w) = reconnects w
    \<and> consecutive_errors (writer_rounds exec repair n w) \<le> consecutive_errors w"
  using assms
proof (induction n arbitrary: w)
  case (Suc n)
  have one: "reconnects (writer_round exec repair w) = reconnects w
      \<and> consecutive_errors (writer_round exec repair w) \<le> consecutive_errors w
      \<and> set (write_queue (writer_round exec repair w)) \<subseteq> set (write_queue w)"
  proof (cases "alive w \<and> write_queue w \<noteq> []")
    case True
    with Suc.prems obtain r s q where q: "write_queue w = Task r (Single s) # q"
      by (metis list.set_intros(1) neq_Nil_conv)
    obtain t db o' where "single_loop exec repair max_repair_retries (ticks w) s (contents w) = (t, db, o')"
      by (metis prod_cases3)
    with q True show ?thesis
      by (cases o') (auto simp: writer_round_def run_task_def commit_def)
  next
    case False
    then show ?thesis by (auto simp: writer_round_def)
  qed
  have "\<forall>task \<in> set (write_queue (writer_round exec repair w)). \<exists>r s. task = Task r (Single s)"
    using one Suc.prems by blast
  from Suc.IH [OF this] one show ?case by simp
qed simp

theorem single_failures_never_reconnect_witness:
  "reconnects (writer_rounds demo_exec (\<lambda>_ _. None) 5 (demo_writer (replicate 5 (Task None (Single (-1)))) 0)) = 0"
  using single_failures_never_reconnect [of "demo_writer (replicate 5 (Task None (Single (-1)))) 0"
      demo_exec "\<lambda>_ _. None" 5]
  by (simp add: demo_writer_def init_writer_def)

section \<open>Engines and what they keep\<close>

text \<open>
  What a client of the writer relies on: every statement it sends keeps a property of the contents.
  Then the writer keeps it, in every interleaving. The statements of a queue:
\<close>

fun payload_stmts :: "'st payload \<Rightarrow> 'st list" where
  "payload_stmts (Single s) = [s]"
| "payload_stmts (ExecScript ss) = ss"
| "payload_stmts (Transaction ss) = ss"

fun task_stmts :: "'st task \<Rightarrow> 'st list" where
  "task_stmts Stop = []"
| "task_stmts (Task r p) = payload_stmts p"

definition guarded :: "('st \<Rightarrow> bool) \<Rightarrow> ('db \<Rightarrow> bool) \<Rightarrow> ('st, 'db) writer \<Rightarrow> bool" where
  "guarded ok_stmt ok_db w \<longleftrightarrow> ok_db (contents w)
     \<and> (\<forall>task \<in> set (write_queue w). \<forall>s \<in> set (task_stmts task). ok_stmt s)"

lemma guarded_enqueue:
  "guarded ok_stmt ok_db w \<Longrightarrow> \<forall>s \<in> set (payload_stmts p). ok_stmt s
     \<Longrightarrow> guarded ok_stmt ok_db (snd (enqueue enabled track p w))"
  by (auto simp: guarded_def enqueue_def start_writer_def Let_def)

locale guarded_engine =
  fixes exec :: "nat \<Rightarrow> 'st \<Rightarrow> 'db \<Rightarrow> string + 'db"
    and repair :: "string \<Rightarrow> 'db \<Rightarrow> 'db option"
    and ok_stmt :: "'st \<Rightarrow> bool"
    and ok_db :: "'db \<Rightarrow> bool"
  assumes exec_keeps: "ok_stmt s \<Longrightarrow> ok_db db \<Longrightarrow> exec t s db = Inr db' \<Longrightarrow> ok_db db'"
    and repair_keeps: "ok_db db \<Longrightarrow> repair n db = Some db' \<Longrightarrow> ok_db db'"
begin

lemma exec_all_keeps:
  "\<forall>s \<in> set ss. ok_stmt s \<Longrightarrow> ok_db db \<Longrightarrow> exec_all exec t ss db = (t', Inr db') \<Longrightarrow> ok_db db'"
  by (induction ss arbitrary: t db) (auto split: sum.splits intro: exec_keeps)

lemma exec_script_keeps:
  "\<forall>s \<in> set ss. ok_stmt s \<Longrightarrow> ok_db db \<Longrightarrow> exec_script exec t ss db = (t', db', e) \<Longrightarrow> ok_db db'"
  by (induction ss arbitrary: t db) (auto split: sum.splits intro: exec_keeps)

lemma single_loop_keeps:
  "ok_stmt s \<Longrightarrow> ok_db db \<Longrightarrow> single_loop exec repair n t s db = (t', db', e) \<Longrightarrow> ok_db db'"
proof (induction n arbitrary: t db)
  case 0
  then show ?case
    by (auto split: sum.splits if_splits option.splits intro: exec_keeps repair_keeps)
next
  case (Suc n)
  show ?case
  proof (cases "exec t s db")
    case (Inr db1)
    with Suc.prems show ?thesis by (auto intro: exec_keeps)
  next
    case (Inl e1)
    with Suc.prems Suc.IH show ?thesis
      by (auto split: if_splits option.splits intro: repair_keeps)
  qed
qed

lemma run_task_keeps:
  assumes "ok_db (contents w)" "\<forall>s \<in> set (payload_stmts p). ok_stmt s"
  shows "ok_db (contents (run_task exec repair r p w))"
proof (cases p)
  case (Single s)
  obtain t db e where "single_loop exec repair max_repair_retries (ticks w) s (contents w) = (t, db, e)"
    by (metis prod_cases3)
  with Single assms single_loop_keeps [OF _ _ this] show ?thesis
    by (cases e) (auto simp: run_task_def commit_def)
next
  case (ExecScript ss)
  obtain t db e where "exec_script exec (ticks w) ss (contents w) = (t, db, e)"
    by (metis prod_cases3)
  with ExecScript assms exec_script_keeps [OF _ _ this] show ?thesis
    by (cases e) (auto simp: run_task_def commit_def task_failed_def Let_def)
next
  case (Transaction ss)
  obtain t res where loop: "tx_loop exec 2 (ticks w) ss (contents w) = (t, res)" by fastforce
  from tx_loop_result [OF this] obtain t0 where run: "exec_all exec t0 ss (contents w) = (t, res)"
    by blast
  with Transaction assms loop show ?thesis
    by (cases res) (auto simp: run_task_def commit_def task_failed_def Let_def intro: exec_all_keeps)
qed

lemma round_guarded:
  assumes "guarded ok_stmt ok_db w"
  shows "guarded ok_stmt ok_db (writer_round exec repair w)"
proof (cases "alive w \<and> write_queue w \<noteq> []")
  case True
  then obtain task q where q: "write_queue w = task # q" by (auto simp: neq_Nil_conv)
  show ?thesis
  proof (cases task)
    case (Task r p)
    with True q assms run_task_keeps [of "w\<lparr>write_queue := q\<rparr>" p r] show ?thesis
      by (simp add: writer_round_def guarded_def run_task_frame)
  qed (use True q assms in \<open>simp add: writer_round_def guarded_def\<close>)
next
  case False
  with assms show ?thesis by (auto simp: writer_round_def guarded_def)
qed

lemma rounds_guarded:
  "guarded ok_stmt ok_db w \<Longrightarrow> guarded ok_stmt ok_db (writer_rounds exec repair n w)"
  by (induction n arbitrary: w) (auto intro: round_guarded)

end

section \<open>The write generation\<close>

text \<open>
  \<open>get_write_generation\<close> is read by caches to see whether a write happened: it never goes back.
\<close>

lemma run_task_generation: "generation w \<le> generation (run_task exec repair r p w)"
  by (cases rule: run_task_effect [of exec repair r p w]) (simp_all add: commit_def)

lemma writer_round_generation: "generation w \<le> generation (writer_round exec repair w)"
  using run_task_generation [of "w\<lparr>write_queue := q\<rparr>" for q]
  by (simp add: writer_round_def split: list.split task.split)

interpretation writer_generation: monotone_step "writer_step exec repair" writer_ok generation
  for exec repair
proof
  fix w :: "('a, 'b) writer" and e
  show "generation w \<le> generation (writer_step exec repair e w)"
    by (cases e) (simp_all add: writer_round_generation enqueue_def start_writer_def
        shutdown_writer_def Let_def)
qed

section \<open>Single statements\<close>

text \<open>
  The contract most callers rely on: a queue of single statements is their fold over the contents,
  in order, a failing statement leaving no trace. It is what \<^term>\<open>exec\<close> without its clock and
  without repairs does.
\<close>

definition apply_write :: "('st \<Rightarrow> 'db \<Rightarrow> string + 'db) \<Rightarrow> 'st \<Rightarrow> 'db \<Rightarrow> 'db" where
  "apply_write ex s db = (case ex s db of Inl e \<Rightarrow> db | Inr db' \<Rightarrow> db')"

lemma single_loop_apply:
  "fst (snd (single_loop (\<lambda>t. ex) (\<lambda>_ _. None) n t s db)) = apply_write ex s db"
  by (cases n) (auto simp: apply_write_def split: sum.split option.split)

lemma round_single_contents:
  assumes "alive w" "write_queue w = Task r (Single s) # q"
  shows "contents (writer_round (\<lambda>t. ex) (\<lambda>_ _. None) w) = apply_write ex s (contents w)"
proof -
  obtain t db e where loop:
    "single_loop (\<lambda>t. ex) (\<lambda>_ _. None) max_repair_retries (ticks w) s (contents w) = (t, db, e)"
    by (metis prod_cases3)
  then have "db = apply_write ex s (contents w)"
    by (metis single_loop_apply fst_conv snd_conv)
  with loop assms show ?thesis by (cases e) (auto simp: writer_round_def run_task_def commit_def)
qed

lemma rounds_refine_fold:
  "alive w \<Longrightarrow> write_queue w = map (\<lambda>(r, s). Task r (Single s)) rss \<Longrightarrow>
     contents (writer_rounds (\<lambda>t. ex) (\<lambda>_ _. None) (length rss) w)
       = fold (apply_write ex) (map snd rss) (contents w)"
proof (induction rss arbitrary: w)
  case (Cons rs rss)
  obtain r s where rs: "rs = (r, s)" by fastforce
  let ?w = "writer_round (\<lambda>t. ex) (\<lambda>_ _. None) w"
  have "alive ?w \<and> write_queue ?w = map (\<lambda>(r, s). Task r (Single s)) rss"
    using Cons.prems rs by (simp add: writer_round_def run_task_frame)
  with Cons.IH [of ?w] Cons.prems rs show ?case by (simp add: round_single_contents)
qed simp

section \<open>Runs of an engine\<close>

fun event_stmts :: "'st writer_event \<Rightarrow> 'st list" where
  "event_stmts (Enqueue enabled track p) = payload_stmts p"
| "event_stmts Round = []"
| "event_stmts Shutdown = []"

context guarded_engine
begin

lemma step_guarded:
  "guarded ok_stmt ok_db w \<Longrightarrow> \<forall>s \<in> set (event_stmts e). ok_stmt s
     \<Longrightarrow> guarded ok_stmt ok_db (writer_step exec repair e w)"
  by (cases e) (auto intro: guarded_enqueue round_guarded, auto simp: guarded_def shutdown_writer_def)

lemma run_guarded:
  "guarded ok_stmt ok_db w \<Longrightarrow> \<forall>e \<in> set es. \<forall>s \<in> set (event_stmts e). ok_stmt s
     \<Longrightarrow> guarded ok_stmt ok_db (fold (writer_step exec repair) es w)"
  by (induction es arbitrary: w) (auto intro: step_guarded)

lemma run_keeps_contents:
  "ok_db db \<Longrightarrow> \<forall>e \<in> set es. \<forall>s \<in> set (event_stmts e). ok_stmt s
     \<Longrightarrow> ok_db (contents (fold (writer_step exec repair) es (init_writer db)))"
  using run_guarded [of "init_writer db" es] by (simp add: guarded_def init_writer_def)

end

end
