(* ===== verification/Ops_Db.thy ===== *)
theory Ops_Db
  imports Db_Writer
begin

text \<open>
  The operational tables of \<open>database/schemas/jobs.py\<close> that the modelled code reads and writes, and
  the SQL statements it issues against them, one constructor per statement text. \<open>exec_stmt\<close> is
  what SQLite documents for these statements: the constraints of the schema are checked, an
  \<open>UPDATE\<close> changes exactly the rows of its \<open>WHERE\<close> clause. It is the engine the writer thread of
  \<^verbatim>\<open>Db_Writer\<close> is run on.
\<close>

section \<open>Rows\<close>

datatype job_status = J_PENDING | J_QUEUED | J_RUNNING | J_INTERRUPTED | J_PAUSED_FOR_HITL
  | J_COMPLETED | J_PARTIAL | J_PENDING_CALLBACK | J_FAILED | J_ABANDONED | J_CANCELLING | J_SKIPPED

fun job_status_str :: "job_status \<Rightarrow> string" where
  "job_status_str J_PENDING = ''PENDING''"
| "job_status_str J_QUEUED = ''QUEUED''"
| "job_status_str J_RUNNING = ''RUNNING''"
| "job_status_str J_INTERRUPTED = ''INTERRUPTED''"
| "job_status_str J_PAUSED_FOR_HITL = ''PAUSED_FOR_HITL''"
| "job_status_str J_COMPLETED = ''COMPLETED''"
| "job_status_str J_PARTIAL = ''PARTIAL''"
| "job_status_str J_PENDING_CALLBACK = ''PENDING_CALLBACK''"
| "job_status_str J_FAILED = ''FAILED''"
| "job_status_str J_ABANDONED = ''ABANDONED''"
| "job_status_str J_CANCELLING = ''CANCELLING''"
| "job_status_str J_SKIPPED = ''SKIPPED''"

definition job_statuses :: "job_status list" where
  "job_statuses = [J_PENDING, J_QUEUED, J_RUNNING, J_INTERRUPTED, J_PAUSED_FOR_HITL, J_COMPLETED,
     J_PARTIAL, J_PENDING_CALLBACK, J_FAILED, J_ABANDONED, J_CANCELLING, J_SKIPPED]"

definition status_of :: "string \<Rightarrow> job_status option" where
  "status_of s = find (\<lambda>st. job_status_str st = s) job_statuses"

lemma status_of_str: "status_of (job_status_str st) = Some st"
  by (cases st) (simp_all add: status_of_def job_statuses_def)

text \<open>SQL compares the column as text; \<open>ORDER BY status\<close> is this order.\<close>

instantiation job_status :: linorder
begin

definition less_eq_job_status :: "job_status \<Rightarrow> job_status \<Rightarrow> bool" where
  "less_eq_job_status a b \<longleftrightarrow> job_status_str a \<le> job_status_str b"

definition less_job_status :: "job_status \<Rightarrow> job_status \<Rightarrow> bool" where
  "less_job_status a b \<longleftrightarrow> job_status_str a < job_status_str b"

instance
proof
  fix a b c :: job_status
  have inj: "job_status_str a = job_status_str b \<Longrightarrow> a = b"
    by (metis status_of_str option.inject)
  show "(a < b) = (a \<le> b \<and> \<not> b \<le> a)"
    by (auto simp: less_eq_job_status_def less_job_status_def)
  show "a \<le> a" by (simp add: less_eq_job_status_def)
  show "a \<le> b \<Longrightarrow> b \<le> c \<Longrightarrow> a \<le> c"
    unfolding less_eq_job_status_def by (rule order_trans)
  show "a \<le> b \<Longrightarrow> b \<le> a \<Longrightarrow> a = b"
    unfolding less_eq_job_status_def by (intro inj order_antisym)
  show "a \<le> b \<or> b \<le> a"
    unfolding less_eq_job_status_def by (rule linear)
qed

end

datatype item_status = I_PENDING | I_RUNNING | I_COMPLETED | I_FAILED | I_SKIPPED

datatype batch_status = B_PENDING | B_PUBLISHING | B_PARTIAL | B_COMPLETED | B_FAILED

datatype publish_status = P_PENDING | P_TRANSLATING | P_BRIEFING | P_ARCHIVE | P_FAILED | P_SKIPPED

text \<open>
  \<open>item_metadata\<close> holds the JSON text of a flat object; the model keeps the object, a dictionary in
  insertion order, and \<open>json_extract(item_metadata, '$.k')\<close> is its lookup, NULL when absent.
\<close>

datatype mval = MStr string | MInt int | MBool bool

type_synonym metadata = "(string \<times> mval) list"

definition json_extract :: "metadata \<Rightarrow> string \<Rightarrow> mval option" where
  "json_extract md k = map_of md k"

record job_row =
  job_id :: string
  session_id :: string
  tool_name :: string
  args_json :: string
  job_state :: job_status
  retry_count :: int
  resume_count :: int
  created_at :: string
  updated_at :: string
  result_json :: "string option"

record item_row =
  item_id :: nat
  item_job :: string
  item_metadata :: metadata
  item_state :: item_status
  input_data :: "string option"
  output_data :: "string option"
  item_updated :: string

record batch_row =
  batch_id :: string
  target_site :: string
  article_count :: int
  top10_count :: int
  batch_state :: batch_status
  source_job_id :: "string option"
  batch_created :: string
  batch_updated :: string

record detail_row =
  detail_id :: nat
  detail_batch :: string
  article_id :: string
  is_top10 :: bool
  top10_rank :: "int option"
  publish_state :: publish_status
  translated_title :: "string option"
  translated_summary :: "string option"
  translated_conclusion :: "string option"
  detail_updated :: string

text \<open>The tables in rowid order, the next AUTOINCREMENT values, and the ids of \<open>scraped_articles\<close>.\<close>

record op_db =
  jobs :: "job_row list"
  job_items :: "item_row list"
  next_item :: nat
  batches :: "batch_row list"
  details :: "detail_row list"
  next_detail :: nat
  articles :: "string list"

section \<open>Statements\<close>

datatype stmt =
    InsertJob job_row
  | SetJobStatus string job_status string
  | SetJobStatusOnly string job_status
  | SetJobResult string job_status string string
  | SetPendingCallback string string string
  | SetJobPartialRetry string int string
  | SetJobRetry string int string
  | RequeueJob string string
  | TouchJob string string
  | AddItem string metadata string string
  | InsertItem string metadata string
  | UpdateItem string metadata item_status string string
  | ClaimStep string string string
  | FinishStep string string item_status string string
  | DeleteItems string
  | InsertBatch batch_row
  | SetBatchStatus string batch_status string
  | InsertDetail string string bool "int option" string
  | SetDetailStatus string string publish_status string
  | SetDetailTranslated string string publish_status string "string option" "string option" string
  | ResetDetails string string
  | SkipUnpublished string string
  | RankDetail string string int string
  | UnrankDetail string string string

definition update_where :: "('r \<Rightarrow> bool) \<Rightarrow> ('r \<Rightarrow> 'r) \<Rightarrow> 'r list \<Rightarrow> 'r list" where
  "update_where p f rows = map (\<lambda>r. if p r then f r else r) rows"

text \<open>SQL equality: NULL equals nothing.\<close>

definition sql_eq :: "'v option \<Rightarrow> 'v option \<Rightarrow> bool" where
  "sql_eq a b \<longleftrightarrow> a \<noteq> None \<and> a = b"

definition same_step :: "string \<Rightarrow> metadata \<Rightarrow> item_row \<Rightarrow> bool" where
  "same_step job md r \<longleftrightarrow> item_job r = job
     \<and> sql_eq (json_extract (item_metadata r) ''step'') (json_extract md ''step'')
     \<and> sql_eq (json_extract (item_metadata r) ''ulid'') (json_extract md ''ulid'')"

definition blackboard_step :: "string \<Rightarrow> string \<Rightarrow> item_row \<Rightarrow> bool" where
  "blackboard_step job step r \<longleftrightarrow> item_job r = job
     \<and> sql_eq (json_extract (item_metadata r) ''step'') (Some (MStr ''blackboard''))
     \<and> sql_eq (json_extract (item_metadata r) ''ulid'') (Some (MStr step))"

definition on_job :: "string \<Rightarrow> (job_row \<Rightarrow> job_row) \<Rightarrow> op_db \<Rightarrow> op_db" where
  "on_job j f db = db\<lparr>jobs := update_where (\<lambda>r. job_id r = j) f (jobs db)\<rparr>"

definition on_items :: "(item_row \<Rightarrow> bool) \<Rightarrow> (item_row \<Rightarrow> item_row) \<Rightarrow> op_db \<Rightarrow> op_db" where
  "on_items p f db = db\<lparr>job_items := update_where p f (job_items db)\<rparr>"

definition on_batch :: "string \<Rightarrow> (batch_row \<Rightarrow> batch_row) \<Rightarrow> op_db \<Rightarrow> op_db" where
  "on_batch b f db = db\<lparr>batches := update_where (\<lambda>r. batch_id r = b) f (batches db)\<rparr>"

definition on_details :: "(detail_row \<Rightarrow> bool) \<Rightarrow> (detail_row \<Rightarrow> detail_row) \<Rightarrow> op_db \<Rightarrow> op_db" where
  "on_details p f db = db\<lparr>details := update_where p f (details db)\<rparr>"

definition is_detail :: "string \<Rightarrow> string \<Rightarrow> detail_row \<Rightarrow> bool" where
  "is_detail b a r \<longleftrightarrow> detail_batch r = b \<and> article_id r = a"

definition insert_item :: "string \<Rightarrow> metadata \<Rightarrow> string option \<Rightarrow> string \<Rightarrow> op_db \<Rightarrow> string + op_db" where
  "insert_item j md inp ts db =
     (if j \<notin> set (map job_id (jobs db)) then Inl ''FOREIGN KEY constraint failed''
      else Inr (db\<lparr>job_items := job_items db @
               [\<lparr>item_id = next_item db, item_job = j, item_metadata = md, item_state = I_PENDING,
                 input_data = inp, output_data = None, item_updated = ts\<rparr>],
             next_item := Suc (next_item db)\<rparr>))"

definition new_detail :: "nat \<Rightarrow> string \<Rightarrow> string \<Rightarrow> bool \<Rightarrow> int option \<Rightarrow> string \<Rightarrow> detail_row" where
  "new_detail n b a is10 rank ts = \<lparr>detail_id = n, detail_batch = b, article_id = a, is_top10 = is10,
     top10_rank = rank, publish_state = P_PENDING, translated_title = None,
     translated_summary = None, translated_conclusion = None, detail_updated = ts\<rparr>"

fun exec_stmt :: "stmt \<Rightarrow> op_db \<Rightarrow> string + op_db" where
  "exec_stmt (InsertJob r) db =
     (if job_id r \<in> set (map job_id (jobs db)) then Inl ''UNIQUE constraint failed: jobs.job_id''
      else Inr (db\<lparr>jobs := jobs db @ [r]\<rparr>))"
| "exec_stmt (SetJobStatus j st ts) db =
     Inr (on_job j (\<lambda>r. r\<lparr>job_state := st, updated_at := ts\<rparr>) db)"
| "exec_stmt (SetJobStatusOnly j st) db = Inr (on_job j (\<lambda>r. r\<lparr>job_state := st\<rparr>) db)"
| "exec_stmt (SetJobResult j st res ts) db =
     Inr (on_job j (\<lambda>r. r\<lparr>job_state := st, result_json := Some res, updated_at := ts\<rparr>) db)"
| "exec_stmt (SetPendingCallback j res ts) db =
     Inr (on_job j (\<lambda>r. r\<lparr>job_state := J_PENDING_CALLBACK, result_json := Some res,
                         retry_count := 1, updated_at := ts\<rparr>) db)"
| "exec_stmt (SetJobPartialRetry j n ts) db =
     Inr (on_job j (\<lambda>r. r\<lparr>job_state := J_PARTIAL, retry_count := n, updated_at := ts\<rparr>) db)"
| "exec_stmt (SetJobRetry j n ts) db =
     Inr (on_job j (\<lambda>r. r\<lparr>retry_count := n, updated_at := ts\<rparr>) db)"
| "exec_stmt (RequeueJob j ts) db =
     Inr (on_job j (\<lambda>r. r\<lparr>job_state := J_QUEUED, resume_count := resume_count r + 1,
                         updated_at := ts\<rparr>) db)"
| "exec_stmt (TouchJob j ts) db = Inr (on_job j (\<lambda>r. r\<lparr>updated_at := ts\<rparr>) db)"
| "exec_stmt (AddItem j md inp ts) db =
     (if \<exists>r \<in> set (job_items db). same_step j md r then Inr db
      else insert_item j md (Some inp) ts db)"
| "exec_stmt (InsertItem j md ts) db = insert_item j md None ts db"
| "exec_stmt (UpdateItem j md st outp ts) db =
     Inr (on_items (same_step j md)
            (\<lambda>r. r\<lparr>item_state := st, output_data := Some outp, item_updated := ts,
                  item_metadata := md\<rparr>) db)"
| "exec_stmt (ClaimStep j step ts) db =
     Inr (on_items (blackboard_step j step)
            (\<lambda>r. r\<lparr>item_state := I_RUNNING, item_updated := ts\<rparr>) db)"
| "exec_stmt (FinishStep j step st outp ts) db =
     Inr (on_items (blackboard_step j step)
            (\<lambda>r. r\<lparr>item_state := st, output_data := Some outp, item_updated := ts\<rparr>) db)"
| "exec_stmt (DeleteItems j) db = Inr (db\<lparr>job_items := filter (\<lambda>r. item_job r \<noteq> j) (job_items db)\<rparr>)"
| "exec_stmt (InsertBatch r) db =
     (if batch_id r \<in> set (map batch_id (batches db))
      then Inl ''UNIQUE constraint failed: broadcast_batches.batch_id''
      else Inr (db\<lparr>batches := batches db @ [r]\<rparr>))"
| "exec_stmt (SetBatchStatus b st ts) db =
     Inr (on_batch b (\<lambda>r. r\<lparr>batch_state := st, batch_updated := ts\<rparr>) db)"
| "exec_stmt (InsertDetail b a is10 rank ts) db =
     (if \<exists>r \<in> set (details db). is_detail b a r then Inr db
      else if b \<notin> set (map batch_id (batches db)) \<or> a \<notin> set (articles db)
      then Inl ''FOREIGN KEY constraint failed''
      else Inr (db\<lparr>details := details db @ [new_detail (next_detail db) b a is10 rank ts],
                  next_detail := Suc (next_detail db)\<rparr>))"
| "exec_stmt (SetDetailStatus b a st ts) db =
     Inr (on_details (is_detail b a) (\<lambda>r. r\<lparr>publish_state := st, detail_updated := ts\<rparr>) db)"
| "exec_stmt (SetDetailTranslated b a st tt tsum tc ts) db =
     Inr (on_details (is_detail b a)
            (\<lambda>r. r\<lparr>publish_state := st, translated_title := Some tt, translated_summary := tsum,
                  translated_conclusion := tc, detail_updated := ts\<rparr>) db)"
| "exec_stmt (ResetDetails b ts) db =
     Inr (on_details (\<lambda>r. detail_batch r = b)
            (\<lambda>r. r\<lparr>publish_state := P_PENDING, translated_title := None, translated_summary := None,
                  translated_conclusion := None, detail_updated := ts\<rparr>) db)"
| "exec_stmt (SkipUnpublished b ts) db =
     Inr (on_details (\<lambda>r. detail_batch r = b \<and> publish_state r \<noteq> P_ARCHIVE)
            (\<lambda>r. r\<lparr>publish_state := P_SKIPPED, detail_updated := ts\<rparr>) db)"
| "exec_stmt (RankDetail b a n ts) db =
     Inr (on_details (is_detail b a)
            (\<lambda>r. r\<lparr>is_top10 := True, top10_rank := Some n, detail_updated := ts\<rparr>) db)"
| "exec_stmt (UnrankDetail b a ts) db =
     Inr (on_details (is_detail b a)
            (\<lambda>r. r\<lparr>is_top10 := False, top10_rank := None, detail_updated := ts\<rparr>) db)"

section \<open>The constraints of the schema\<close>

definition wf_db :: "op_db \<Rightarrow> bool" where
  "wf_db db \<longleftrightarrow> distinct (map job_id (jobs db))
     \<and> distinct (map item_id (job_items db))
     \<and> (\<forall>r \<in> set (job_items db). item_id r < next_item db \<and> item_job r \<in> set (map job_id (jobs db)))
     \<and> distinct (map batch_id (batches db))
     \<and> distinct (map detail_id (details db))
     \<and> distinct (map (\<lambda>r. (detail_batch r, article_id r)) (details db))
     \<and> (\<forall>r \<in> set (details db). detail_id r < next_detail db
          \<and> detail_batch r \<in> set (map batch_id (batches db)) \<and> article_id r \<in> set (articles db))"

lemma map_update_where:
  "(\<And>r. g (f r) = g r) \<Longrightarrow> map g (update_where p f rows) = map g rows"
  by (simp add: update_where_def)

lemma set_update_where: "set (update_where p f rows) = (\<lambda>r. if p r then f r else r) ` set rows"
  by (simp add: update_where_def)

lemma ball_update_where:
  "(\<forall>r \<in> set (update_where p f rows). P r) \<longleftrightarrow> (\<forall>r \<in> set rows. P (if p r then f r else r))"
  by (auto simp: update_where_def)

lemma wf_on_job: "(\<And>r. job_id (f r) = job_id r) \<Longrightarrow> wf_db db \<Longrightarrow> wf_db (on_job j f db)"
  unfolding wf_db_def on_job_def by (simp add: map_update_where)

lemma wf_on_items:
  "(\<And>r. item_id (f r) = item_id r) \<Longrightarrow> (\<And>r. item_job (f r) = item_job r) \<Longrightarrow> wf_db db
     \<Longrightarrow> wf_db (on_items p f db)"
  unfolding wf_db_def on_items_def by (simp add: map_update_where ball_update_where)

lemma wf_on_batch: "(\<And>r. batch_id (f r) = batch_id r) \<Longrightarrow> wf_db db \<Longrightarrow> wf_db (on_batch b f db)"
  unfolding wf_db_def on_batch_def by (simp add: map_update_where)

lemma wf_on_details:
  assumes "\<And>r. detail_id (f r) = detail_id r" "\<And>r. detail_batch (f r) = detail_batch r"
    "\<And>r. article_id (f r) = article_id r" "wf_db db"
  shows "wf_db (on_details p f db)"
  using assms unfolding wf_db_def on_details_def
  by (simp add: map_update_where ball_update_where)

lemmas wf_update = wf_on_job wf_on_items wf_on_batch wf_on_details

lemma wf_insert_item:
  assumes "wf_db db" "insert_item j md inp ts db = Inr db'"
  shows "wf_db db'"
proof -
  have "next_item db \<notin> set (map item_id (job_items db))"
    using assms(1) by (fastforce simp: wf_db_def)
  with assms show ?thesis
    unfolding wf_db_def insert_item_def by (auto simp: less_Suc_eq split: if_splits)
qed

lemma wf_insert_detail:
  assumes "wf_db db" "exec_stmt (InsertDetail b a is10 rank ts) db = Inr db'"
  shows "wf_db db'"
proof -
  have "next_detail db \<notin> set (map detail_id (details db))"
    using assms(1) by (fastforce simp: wf_db_def)
  moreover have "(b, a) \<notin> set (map (\<lambda>r. (detail_batch r, article_id r)) (details db))"
    if "\<forall>r \<in> set (details db). \<not> is_detail b a r"
    using that by (auto simp: is_detail_def)
  ultimately show ?thesis
    using assms unfolding wf_db_def
    by (simp add: new_detail_def less_Suc_eq split: if_splits) (auto simp: less_Suc_eq)
qed

lemma wf_delete_items: "wf_db db \<Longrightarrow> exec_stmt (DeleteItems j) db = Inr db' \<Longrightarrow> wf_db db'"
  unfolding wf_db_def by (auto simp: distinct_map_filter)

lemma wf_insert_job: "wf_db db \<Longrightarrow> exec_stmt (InsertJob r) db = Inr db' \<Longrightarrow> wf_db db'"
  unfolding wf_db_def by (auto split: if_splits)

lemma wf_insert_batch: "wf_db db \<Longrightarrow> exec_stmt (InsertBatch r) db = Inr db' \<Longrightarrow> wf_db db'"
  unfolding wf_db_def by (auto split: if_splits)

lemmas wf_inserts = wf_insert_item wf_insert_detail wf_delete_items wf_insert_job wf_insert_batch

lemma wf_exec_stmt:
  assumes "wf_db db" "exec_stmt s db = Inr db'"
  shows "wf_db db'"
proof (cases s)
  case (InsertJob r)
  then show ?thesis using assms wf_insert_job by blast
next
  case (AddItem j md inp ts)
  then show ?thesis using assms by (auto dest: wf_insert_item split: if_splits)
next
  case (InsertItem j md ts)
  then show ?thesis using assms by (auto dest: wf_insert_item)
next
  case (DeleteItems j)
  then show ?thesis using assms wf_delete_items by blast
next
  case (InsertBatch r)
  then show ?thesis using assms wf_insert_batch by blast
next
  case (InsertDetail b a is10 rank ts)
  then show ?thesis using assms wf_insert_detail by blast
qed (use assms in \<open>simp_all, (auto intro!: wf_update)?\<close>)

section \<open>The engine under the writer\<close>

interpretation ops_wf: guarded_engine "\<lambda>t. exec_stmt" "\<lambda>_ _. None" "\<lambda>_. True" wf_db
  by unfold_locales (auto intro: wf_exec_stmt)


definition empty_db :: op_db where
  "empty_db = \<lparr>jobs = [], job_items = [], next_item = 1, batches = [], details = [],
     next_detail = 1, articles = []\<rparr>"

lemma wf_empty_db: "wf_db empty_db"
  by (simp add: wf_db_def empty_db_def)


end
