(* ===== verification/Job_Queue.thy ===== *)
theory Job_Queue
  imports Ops_Db
begin

text \<open>
  \<open>utils/metadata_helpers.py\<close> and \<open>database/job_queue.py\<close>: the metadata that identifies a job item,
  the writes of the job queue, and the interface through which tools use the items as checkpoints.
  Each queue function is the statement it enqueues; \<^verbatim>\<open>Db_Writer\<close> runs them.
\<close>

section \<open>Item metadata\<close>

text \<open>
  The argument of the parsers: an empty or absent text, the JSON text of a flat object, or a text
  that is no JSON. \<open>json.loads\<close> of what \<open>json.dumps\<close> wrote is the object written.
\<close>

datatype meta_text = Empty | Object metadata | NotJson

definition setdefault :: "string \<Rightarrow> mval \<Rightarrow> metadata \<Rightarrow> metadata" where
  "setdefault k v md = (if k \<in> set (map fst md) then md else md @ [(k, v)])"

definition truthy :: "mval \<Rightarrow> bool" where
  "truthy v = (case v of MStr s \<Rightarrow> s \<noteq> [] | MInt n \<Rightarrow> n \<noteq> 0 | MBool b \<Rightarrow> b)"

definition opt_entry :: "string \<Rightarrow> string option \<Rightarrow> metadata" where
  "opt_entry k v = (case v of None \<Rightarrow> [] | Some s \<Rightarrow> if s = [] then [] else [(k, MStr s)])"

definition make_metadata :: "string \<Rightarrow> string \<Rightarrow> int \<Rightarrow> string option \<Rightarrow> string option \<Rightarrow> bool
    \<Rightarrow> metadata \<Rightarrow> string \<Rightarrow> metadata" where
  "make_metadata step_type ulid retry model error top10 extra now =
     fold (\<lambda>(k, v). AList.update k v) extra
       ([(''step'', MStr step_type), (''ulid'', MStr ulid), (''retry'', MInt retry),
         (''timestamp'', MStr now)]
        @ opt_entry ''model'' model @ opt_entry ''error'' error
        @ (if top10 then [(''is_top10'', MBool True)] else []))"

fun parse_metadata :: "meta_text \<Rightarrow> string + metadata" where
  "parse_metadata Empty = Inr []"
| "parse_metadata NotJson = Inl ''Invalid metadata JSON''"
| "parse_metadata (Object md) =
     Inr (setdefault ''is_top10'' (MBool False) (setdefault ''timestamp'' (MStr [])
       (setdefault ''retry'' (MInt 0) (setdefault ''ulid'' (MStr [])
         (setdefault ''step'' (MStr ''unknown'') md)))))"

definition increment_retry :: "meta_text \<Rightarrow> string \<Rightarrow> string + metadata" where
  "increment_retry t now =
     (case parse_metadata t of
        Inl e \<Rightarrow> Inl e
      | Inr md \<Rightarrow>
          (let put = (\<lambda>n. Inr (AList.update ''timestamp'' (MStr now) (AList.update ''retry'' (MInt n) md)))
           in case map_of md ''retry'' of
                None \<Rightarrow> put 1
              | Some (MInt n) \<Rightarrow> put (n + 1)
              | Some (MBool b) \<Rightarrow> put ((if b then 1 else 0) + 1)
              | Some (MStr s) \<Rightarrow> Inl ''TypeError''))"

definition add_error :: "meta_text \<Rightarrow> string \<Rightarrow> string \<Rightarrow> string + metadata" where
  "add_error t error_msg now =
     (case parse_metadata t of
        Inl e \<Rightarrow> Inl e
      | Inr md \<Rightarrow> Inr (AList.update ''timestamp'' (MStr now) (AList.update ''error'' (MStr error_msg) md)))"

lemma map_of_setdefault:
  "map_of (setdefault k v md) x = (if x = k \<and> map_of md k = None then Some v else map_of md x)"
  by (induction md) (auto simp: setdefault_def split: if_splits)

lemma make_metadata_extract [simp]:
  "json_extract (make_metadata s u n m e t [] now) ''step'' = Some (MStr s)"
  "json_extract (make_metadata s u n m e t [] now) ''ulid'' = Some (MStr u)"
  by (simp_all add: make_metadata_def json_extract_def)

section \<open>The queue's writes\<close>

definition create_job :: "string \<Rightarrow> string \<Rightarrow> string \<Rightarrow> string \<Rightarrow> string \<Rightarrow> string \<Rightarrow> stmt" where
  "create_job new_id session tool args sql_now now =
     InsertJob \<lparr>job_id = new_id, session_id = session, tool_name = tool, args_json = args,
       job_state = J_RUNNING, retry_count = 0, resume_count = 0, created_at = sql_now,
       updated_at = now, result_json = None\<rparr>"

definition add_job_item :: "string \<Rightarrow> metadata \<Rightarrow> string \<Rightarrow> string \<Rightarrow> stmt" where
  "add_job_item job md input now = AddItem job md input now"

definition update_item_status :: "string \<Rightarrow> metadata \<Rightarrow> item_status \<Rightarrow> string \<Rightarrow> string \<Rightarrow> stmt" where
  "update_item_status job md st output now = UpdateItem job md st output now"

definition update_job_heartbeat :: "string \<Rightarrow> string \<Rightarrow> stmt" where
  "update_job_heartbeat job now = TouchJob job now"

definition mark_job_interrupted :: "string \<Rightarrow> string \<Rightarrow> stmt" where
  "mark_job_interrupted job now = SetJobStatus job J_INTERRUPTED now"

text \<open>\<open>ORDER BY updated_at DESC LIMIT 1\<close>.\<close>

definition get_interrupted_job :: "string \<Rightarrow> string \<Rightarrow> op_db \<Rightarrow> job_row option" where
  "get_interrupted_job session tool db =
     (case order_desc updated_at (filter (\<lambda>r. session_id r = session \<and> tool_name r = tool
              \<and> job_state r = J_INTERRUPTED) (jobs db)) of
        [] \<Rightarrow> None
      | r # _ \<Rightarrow> Some r)"

text \<open>
  \<open>get_interrupted_job\<close> answers None exactly when the session has no INTERRUPTED job of the tool,
  and otherwise a job of that session and tool that is INTERRUPTED and was updated last.
\<close>

theorem interrupted_job_is_latest:
  "case get_interrupted_job session tool db of
     None \<Rightarrow> \<not> (\<exists>r \<in> set (jobs db). session_id r = session \<and> tool_name r = tool \<and> job_state r = J_INTERRUPTED)
   | Some r \<Rightarrow> r \<in> set (jobs db) \<and> session_id r = session \<and> tool_name r = tool
       \<and> job_state r = J_INTERRUPTED
       \<and> Max (updated_at ` {r' \<in> set (jobs db). session_id r' = session \<and> tool_name r' = tool
            \<and> job_state r' = J_INTERRUPTED}) = updated_at r"
proof -
  define rows where "rows = filter (\<lambda>r. session_id r = session \<and> tool_name r = tool
     \<and> job_state r = J_INTERRUPTED) (jobs db)"
  have rows: "set rows = {r' \<in> set (jobs db). session_id r' = session \<and> tool_name r' = tool
     \<and> job_state r' = J_INTERRUPTED}" by (auto simp: rows_def)
  show ?thesis
  proof (cases "order_desc updated_at rows")
    case Nil
    then have "rows = []" by (simp add: order_desc_def) (metis length_0_conv length_rev length_sort)
    with Nil show ?thesis using rows by (auto simp: get_interrupted_job_def rows_def [symmetric])
  next
    case (Cons r rest)
    from order_desc_head [OF Cons] have r: "r \<in> set rows" "\<forall>r' \<in> set rows. updated_at r' \<le> updated_at r"
      by auto
    then have "Max (updated_at ` set rows) = updated_at r" by (auto intro: Max_eqI)
    with Cons r(1) show ?thesis unfolding get_interrupted_job_def rows_def [symmetric]
      by (simp add: rows [symmetric]) (use rows in auto)
  qed
qed

section \<open>One item per step\<close>

definition item_key :: "item_row \<Rightarrow> string \<times> mval option \<times> mval option" where
  "item_key r = (item_job r, json_extract (item_metadata r) ''step'', json_extract (item_metadata r) ''ulid'')"

fun keyed :: "string \<times> mval option \<times> mval option \<Rightarrow> bool" where
  "keyed (j, s, u) = (s \<noteq> None \<and> u \<noteq> None)"

definition one_item_per_step :: "op_db \<Rightarrow> bool" where
  "one_item_per_step db \<longleftrightarrow> distinct (filter keyed (map item_key (job_items db)))"

lemma same_step_key:
  "same_step j md r \<longleftrightarrow> keyed (item_key r)
     \<and> item_key r = (j, json_extract md ''step'', json_extract md ''ulid'')"
  by (auto simp: same_step_def sql_eq_def item_key_def)

lemma map_key_update:
  "(\<And>r. p r \<Longrightarrow> item_key (f r) = item_key r) \<Longrightarrow>
     map item_key (update_where p f rows) = map item_key rows"
  by (simp add: update_where_def)

lemma distinct_filter_map_filter:
  "distinct (filter q (map f xs)) \<Longrightarrow> distinct (filter q (map f (filter p xs)))"
  by (induction xs) auto

lemma one_item_on_items:
  "(\<And>r. p r \<Longrightarrow> item_key (f r) = item_key r) \<Longrightarrow> one_item_per_step db
     \<Longrightarrow> one_item_per_step (on_items p f db)"
  by (simp add: one_item_per_step_def on_items_def map_key_update)

lemma one_item_frame:
  "job_items db' = job_items db \<Longrightarrow> one_item_per_step db \<Longrightarrow> one_item_per_step db'"
  by (simp add: one_item_per_step_def)

lemma one_item_add:
  assumes "one_item_per_step db" "exec_stmt (AddItem j md inp now) db = Inr db'"
  shows "one_item_per_step db'"
proof (cases "\<exists>r \<in> set (job_items db). same_step j md r")
  case True
  with assms show ?thesis by simp
next
  case False
  let ?k = "(j, json_extract md ''step'', json_extract md ''ulid'')"
  from False have "keyed ?k \<longrightarrow> ?k \<notin> item_key ` set (job_items db)"
    by (auto simp: same_step_key simp del: keyed.simps)
  moreover have "map item_key (job_items db') = map item_key (job_items db) @ [?k]"
    using False assms(2) by (auto simp: insert_item_def item_key_def split: if_splits)
  ultimately show ?thesis
    using assms(1) by (auto simp: one_item_per_step_def simp del: keyed.simps)
qed

text \<open>The raw \<open>INSERT\<close> of the blackboard is the one statement that does not look for the key.\<close>

fun keyed_insert :: "stmt \<Rightarrow> bool" where
  "keyed_insert (InsertItem j md now) = False"
| "keyed_insert _ = True"

lemma one_item_exec:
  assumes "keyed_insert s" "one_item_per_step db" "exec_stmt s db = Inr db'"
  shows "one_item_per_step db'"
proof (cases s)
  case (AddItem j md inp now)
  with assms show ?thesis using one_item_add by blast
next
  case (UpdateItem j md st outp now)
  with assms(2,3) show ?thesis
    by (auto intro!: one_item_on_items simp: same_step_key) (simp add: item_key_def)
next
  case (ClaimStep j step now)
  with assms(2,3) show ?thesis by (auto intro!: one_item_on_items simp: item_key_def)
next
  case (FinishStep j step st outp now)
  with assms(2,3) show ?thesis by (auto intro!: one_item_on_items simp: item_key_def)
next
  case (DeleteItems j)
  with assms(2,3) show ?thesis
    by (auto simp: one_item_per_step_def intro: distinct_filter_map_filter)
qed (use assms in \<open>auto simp: on_job_def on_batch_def on_details_def split: if_splits
      elim!: one_item_frame [rotated]\<close>)

interpretation ops_steps: guarded_engine "\<lambda>t. exec_stmt" "\<lambda>_ _. None" keyed_insert one_item_per_step
  by unfold_locales (auto intro: one_item_exec)

text \<open>The calls of the job queue, and the statements they enqueue.\<close>

datatype queue_call =
    Create string string string string string string
  | Add string metadata string string
  | Update string metadata item_status string string
  | Heartbeat string string
  | Interrupt string string

fun call_stmt :: "queue_call \<Rightarrow> stmt" where
  "call_stmt (Create j session tool args sql_now now) = create_job j session tool args sql_now now"
| "call_stmt (Add j md input now) = add_job_item j md input now"
| "call_stmt (Update j md st output now) = update_item_status j md st output now"
| "call_stmt (Heartbeat j now) = update_job_heartbeat j now"
| "call_stmt (Interrupt j now) = mark_job_interrupted j now"

lemma call_keyed [simp]: "keyed_insert (call_stmt c)"
  by (cases c) (simp_all add: create_job_def add_job_item_def update_item_status_def
      update_job_heartbeat_def mark_job_interrupted_def)

text \<open>
  C6: \<open>add_job_item\<close> is idempotent under concurrency. However calls of the job queue interleave with
  the writer thread, no two items of a job share a step and a ulid: the check and the insertion are
  one statement, and \<open>update_item_status\<close> rewrites the metadata without moving the item's key.
\<close>

theorem one_item_per_step_kept:
  assumes "\<forall>e \<in> set events. \<forall>s \<in> set (event_stmts e). \<exists>c. s = call_stmt c"
  shows "one_item_per_step
    (contents (fold (writer_step (\<lambda>t. exec_stmt) (\<lambda>_ _. None)) events (init_writer empty_db)))"
proof (rule ops_steps.run_keeps_contents)
  show "one_item_per_step empty_db" by (simp add: one_item_per_step_def empty_db_def)
  show "\<forall>e \<in> set events. \<forall>s \<in> set (event_stmts e). keyed_insert s"
    using assms call_keyed by metis
qed

definition demo_calls :: "queue_call list" where
  "demo_calls = [Create ''J'' ''0'' ''scraper'' ''{}'' ''t0'' ''t0'',
     Add ''J'' (make_metadata ''curate'' ''B'' 0 None None False [] ''t1'') ''{}'' ''t1'',
     Add ''J'' (make_metadata ''curate'' ''B'' 1 None None False [] ''t2'') ''{}'' ''t2'']"

theorem one_item_per_step_kept_witness:
  "one_item_per_step (contents (fold (writer_step (\<lambda>t. exec_stmt) (\<lambda>_ _. None))
     (map (\<lambda>c. Enqueue True False (Single (call_stmt c))) demo_calls @ replicate 3 Round)
     (init_writer empty_db)))
   \<and> length (job_items (fold (apply_write exec_stmt) (map call_stmt demo_calls) empty_db)) = 1"
  (is "?one \<and> ?len")
proof
  show ?one by (rule one_item_per_step_kept) auto
  show ?len by code_simp
qed

section \<open>Items as checkpoints\<close>

text \<open>
  What a resumable tool relies on. \<open>add\<close> announces a step, \<open>save\<close> stores its outcome, \<open>look\<close> reads
  it back. A resumed run announces its steps again; that must not lose what was saved.
\<close>

locale checkpoint_store =
  fixes add :: "'k \<Rightarrow> 'i \<Rightarrow> 's \<Rightarrow> 's"
    and save :: "'k \<Rightarrow> 'a \<Rightarrow> 's \<Rightarrow> 's"
    and look :: "'s \<Rightarrow> 'k \<Rightarrow> 'v option"
    and outcome :: "'a \<Rightarrow> 'v"
    and fresh :: 'v
    and ok :: "'s \<Rightarrow> 'k \<Rightarrow> bool"
  assumes look_add: "ok s k \<Longrightarrow>
      look (add k i s) k' = (if k' = k \<and> look s k = None then Some fresh else look s k')"
    and look_save: "look (save k a s) k' = (if k' = k \<and> look s k \<noteq> None then Some (outcome a) else look s k')"
    and ok_add: "ok s k' \<Longrightarrow> ok (add k i s) k'"
    and ok_save: "ok s k' \<Longrightarrow> ok (save k a s) k'"
begin

lemma add_keeps: "ok s k \<Longrightarrow> look s k' = Some v \<Longrightarrow> look (add k i s) k' = Some v"
  by (auto simp: look_add)

lemma save_after_add: "ok s k \<Longrightarrow> look (save k a (add k i s)) k = Some (outcome a)"
  by (auto simp: look_save look_add)

text \<open>A run announces its steps, saving some of them; an interrupted run is a prefix of one.\<close>

definition run_step :: "'k \<times> 'i \<times> 'a option \<Rightarrow> 's \<Rightarrow> 's" where
  "run_step e s = (case e of (k, i, a) \<Rightarrow>
     (case a of None \<Rightarrow> add k i s | Some a \<Rightarrow> save k a (add k i s)))"

lemma ok_run_step: "ok s k \<Longrightarrow> ok (run_step e s) k"
  by (auto simp: run_step_def split: prod.split option.split intro: ok_add ok_save)

lemma ok_run: "ok s k \<Longrightarrow> ok (fold run_step es s) k"
  by (induction es arbitrary: s) (simp_all add: ok_run_step)

text \<open>One step seen from one key, and the runs: what was saved last is what is read.\<close>

definition see_step :: "'k \<Rightarrow> 'k \<times> 'i \<times> 'a option \<Rightarrow> 'v option \<Rightarrow> 'v option" where
  "see_step k e v = (case e of (k', i, a) \<Rightarrow>
     if k' \<noteq> k then v
     else case a of None \<Rightarrow> Some (case v of None \<Rightarrow> fresh | Some v \<Rightarrow> v) | Some a \<Rightarrow> Some (outcome a))"

lemma look_run_step: "ok s (fst e) \<Longrightarrow> look (run_step e s) k = see_step k e (look s k)"
  by (auto simp: run_step_def see_step_def look_add look_save split: prod.splits option.splits)

lemma look_run:
  "\<forall>e \<in> set es. ok s (fst e) \<Longrightarrow> look (fold run_step es s) k = fold (see_step k) es (look s k)"
proof (induction es arbitrary: s)
  case (Cons e es)
  have "\<forall>e' \<in> set es. ok (run_step e s) (fst e')"
    using Cons.prems ok_run_step by auto
  with Cons show ?case by (simp add: look_run_step)
qed simp

lemma see_announced:
  "\<forall>(k', i, a) \<in> set es. k' = k \<longrightarrow> a = None \<Longrightarrow> fold (see_step k) es (Some v) = Some v"
  by (induction es) (auto simp: see_step_def)

lemma run_keeps_last_save:
  assumes "\<forall>e \<in> set (es @ (k, i, Some a) # es'). ok s (fst e)"
    and "\<forall>(k', i, a) \<in> set es'. k' = k \<longrightarrow> a = None"
  shows "look (fold run_step (es @ (k, i, Some a) # es') s) k = Some (outcome a)"
  using look_run [OF assms(1), of k] see_announced [OF assms(2)] by (simp add: see_step_def)

end

text \<open>The provider: the items of a job, keyed by job, step and ulid.\<close>

type_synonym item_ref = "string \<times> string \<times> string"

definition is_item :: "item_ref \<Rightarrow> item_row \<Rightarrow> bool" where
  "is_item k r = (case k of (j, s, u) \<Rightarrow> item_key r = (j, Some (MStr s), Some (MStr u)))"

definition item_look :: "op_db \<Rightarrow> item_ref \<Rightarrow> (item_status \<times> string option) option" where
  "item_look db k = map_option (\<lambda>r. (item_state r, output_data r)) (find (is_item k) (job_items db))"

text \<open>What \<open>make_metadata\<close> gets besides step and ulid: retry count, Top-10 flag, timestamp.\<close>

type_synonym meta_args = "int \<times> bool \<times> string"

definition item_meta :: "item_ref \<Rightarrow> meta_args \<Rightarrow> metadata" where
  "item_meta k ma = (case (k, ma) of ((j, s, u), (n, top10, ts)) \<Rightarrow> make_metadata s u n None None top10 [] ts)"

definition item_add :: "item_ref \<Rightarrow> meta_args \<times> string \<times> string \<Rightarrow> op_db \<Rightarrow> op_db" where
  "item_add k i db = (case i of (ma, input, now) \<Rightarrow>
     apply_write exec_stmt (add_job_item (fst k) (item_meta k ma) input now) db)"

definition item_save :: "item_ref \<Rightarrow> meta_args \<times> item_status \<times> string \<times> string \<Rightarrow> op_db \<Rightarrow> op_db" where
  "item_save k a db = (case a of (ma, st, output, now) \<Rightarrow>
     apply_write exec_stmt (update_item_status (fst k) (item_meta k ma) st output now) db)"

definition item_outcome :: "meta_args \<times> item_status \<times> string \<times> string \<Rightarrow> item_status \<times> string option" where
  "item_outcome a = (case a of (ma, st, output, now) \<Rightarrow> (st, Some output))"

definition job_exists :: "op_db \<Rightarrow> item_ref \<Rightarrow> bool" where
  "job_exists db k = (fst k \<in> set (map job_id (jobs db)))"

lemma item_meta_extract [simp]:
  "json_extract (item_meta (j, s, u) ma) ''step'' = Some (MStr s)"
  "json_extract (item_meta (j, s, u) ma) ''ulid'' = Some (MStr u)"
  by (simp_all add: item_meta_def split: prod.split)

lemma same_step_make [simp]: "same_step (fst k) (item_meta k ma) = is_item k"
  by (cases k) (auto simp: fun_eq_iff same_step_key is_item_def item_key_def)

lemma is_item_moved [simp]:
  "is_item (j, s, u) (r\<lparr>item_state := st, output_data := out, item_updated := now, item_metadata := item_meta (j, s, u) ma\<rparr>)
     \<longleftrightarrow> item_job r = j"
  by (auto simp: is_item_def item_key_def)

lemma find_update_where:
  "(\<And>r. q (f r) = q r \<or> \<not> p r) \<Longrightarrow>
     find q (update_where p f rows) = map_option (\<lambda>r. if p r then f r else r) (find q rows)"
  by (induction rows) (auto simp: update_where_def)

lemma item_look_save:
  "item_look (item_save k a db) k' =
     (if k' = k \<and> item_look db k \<noteq> None then Some (item_outcome a) else item_look db k')"
proof -
  obtain j s u where k: "k = (j, s, u)" by (cases k) auto
  obtain ma st out now where a: "a = (ma, st, out, now)" by (cases a) auto
  define f :: "item_row \<Rightarrow> item_row" where "f = (\<lambda>r. r\<lparr>item_state := st, output_data := Some out, item_updated := now,
      item_metadata := item_meta k ma\<rparr>)"
  have same: "is_item k' (f r) = is_item k' r \<or> \<not> is_item k r" for k' r
    by (auto simp: is_item_def item_key_def f_def k split: prod.splits)
  have rows: "job_items (item_save k a db) = update_where (is_item k) f (job_items db)"
    by (simp add: item_save_def a update_item_status_def apply_write_def on_items_def f_def)
  have other: "is_item k r \<longleftrightarrow> k' = k" if "find (is_item k') (job_items db) = Some r" for r
  proof -
    have "is_item k' r" using that by (auto simp: find_Some_iff)
    then show ?thesis by (auto simp: is_item_def split: prod.splits)
  qed
  have found: "find (is_item k') (job_items (item_save k a db)) =
     map_option (\<lambda>r. if is_item k r then f r else r) (find (is_item k') (job_items db))"
    unfolding rows by (rule find_update_where) (rule same)
  show ?thesis
  proof (cases "find (is_item k') (job_items db)")
    case None
    with found show ?thesis by (auto simp: item_look_def)
  next
    case (Some r)
    with found other [OF Some] show ?thesis
      by (auto simp: item_look_def item_outcome_def a f_def)
  qed
qed

lemma item_look_add:
  assumes "job_exists db k"
  shows "item_look (item_add k i db) k' =
     (if k' = k \<and> item_look db k = None then Some (I_PENDING, None) else item_look db k')"
proof -
  obtain j s u where k: "k = (j, s, u)" by (cases k) auto
  obtain ma input now where i: "i = (ma, input, now)" by (cases i) auto
  show ?thesis
  proof (cases "\<exists>r \<in> set (job_items db). is_item k r")
    case True
    then have "item_look db k \<noteq> None" by (auto simp: item_look_def find_None_iff)
    moreover have "item_add k i db = db"
      using True by (auto simp: item_add_def i add_job_item_def apply_write_def)
    ultimately show ?thesis by auto
  next
    case False
    define r where "r = \<lparr>item_id = next_item db, item_job = j,
      item_metadata = item_meta k ma, item_state = I_PENDING,
      input_data = Some input, output_data = None, item_updated = now\<rparr>"
    have "job_items (item_add k i db) = job_items db @ [r]"
      using False assms unfolding i
      by (simp add: item_add_def add_job_item_def apply_write_def insert_item_def r_def job_exists_def k [symmetric])
         (simp add: k)
    moreover have "is_item k' r \<longleftrightarrow> k' = k"
      by (auto simp: is_item_def item_key_def r_def k split: prod.splits)
    moreover have "find (is_item k) (job_items db) = None" using False by (simp add: find_None_iff)
    moreover have "find q (xs @ [x]) = (case find q xs of None \<Rightarrow> if q x then Some x else None | Some y \<Rightarrow> Some y)"
      for q and xs :: "item_row list" and x by (induction xs) auto
    ultimately show ?thesis by (auto simp: item_look_def r_def split: option.split)
  qed
qed

interpretation job_checkpoints: checkpoint_store item_add item_save item_look item_outcome
  "(I_PENDING, None)" job_exists
proof
  show "job_exists s k' \<Longrightarrow> job_exists (item_add k i s) k'" for s k' k i
    by (auto simp: item_add_def job_exists_def add_job_item_def apply_write_def insert_item_def
        split: prod.splits)
  show "job_exists s k' \<Longrightarrow> job_exists (item_save k a s) k'" for s k' k a
    by (auto simp: item_save_def job_exists_def update_item_status_def apply_write_def on_items_def
        split: prod.splits)
qed (simp_all add: item_look_save item_look_add)

text \<open>
  A tool's pass over its steps: each step is announced with \<open>add_job_item\<close> and, when the pass gets
  that far, stored with \<open>update_item_status\<close>. A crash ends a pass after any element; the next pass
  starts from what the table holds.
\<close>

fun item_run :: "item_ref \<times> (meta_args \<times> string \<times> string) \<times> (meta_args \<times> item_status \<times> string \<times> string) option
    \<Rightarrow> op_db \<Rightarrow> op_db" where
  "item_run (k, i, None) db = item_add k i db"
| "item_run (k, i, Some a) db = item_save k a (item_add k i db)"

lemma item_run_eq: "item_run = job_checkpoints.run_step"
  by (intro ext) (auto simp: job_checkpoints.run_step_def split: prod.split option.split)

text \<open>
  C4: a checkpoint survives interruption. After any passes over the steps, in which the step was last
  stored with some status and output, and any number of later passes that announce it again without
  storing it, the item still holds that status and output.
\<close>

theorem checkpoint_survives:
  assumes "\<forall>e \<in> set (es @ (k, i, Some a) # es'). fst (fst e) \<in> set (map job_id (jobs db))"
    and "\<forall>(k', i, a) \<in> set es'. k' = k \<longrightarrow> a = None"
  shows "item_look (fold item_run (es @ (k, i, Some a) # es') db) k = Some (item_outcome a)"
  unfolding item_run_eq
  by (rule job_checkpoints.run_keeps_last_save) (use assms in \<open>auto simp: job_exists_def\<close>)

definition demo_job_db :: op_db where
  "demo_job_db = apply_write exec_stmt (create_job ''J'' ''0'' ''publisher'' ''{}'' ''t0'' ''t0'') empty_db"

theorem checkpoint_survives_witness:
  "item_look (fold item_run [((''J'', ''publish'', ''A''), ((0, False, ''t1''), [], ''t1''), Some ((0, False, ''t2''), I_RUNNING, ''1 of 3'', ''t2'')),
      ((''J'', ''publish'', ''A''), ((0, False, ''t3''), [], ''t3''), None)] demo_job_db) (''J'', ''publish'', ''A'')
    = Some (I_RUNNING, Some ''1 of 3'')"
  using checkpoint_survives [of "[]" "(''J'', ''publish'', ''A'')" "((0, False, ''t1''), [], ''t1'')"
      "((0, False, ''t2''), I_RUNNING, ''1 of 3'', ''t2'')" "[((''J'', ''publish'', ''A''), ((0, False, ''t3''), [], ''t3''), None)]" demo_job_db]
  by (simp add: demo_job_db_def create_job_def empty_db_def apply_write_def item_outcome_def)

section \<open>Retries keep the item's identity\<close>

lemma setdefault_keeps: "map_of md k = Some v \<Longrightarrow> map_of (setdefault k' v' md) k = Some v"
  by (auto simp: map_of_setdefault)

lemma parse_extract:
  "parse_metadata (Object md) = Inr md' \<Longrightarrow> map_of md k = Some v \<Longrightarrow> map_of md' k = Some v"
  by (auto intro!: setdefault_keeps)

text \<open>
  \<open>increment_retry\<close> counts and keeps the identity. On the metadata of an item with a step, a ulid
  and a numeric retry count, it adds one to the count and leaves step and ulid as they were, so that
  \<open>update_item_status\<close> with the new text addresses the same rows as before.
\<close>

theorem increment_retry_keeps_item:
  assumes "map_of md ''step'' = Some s" "map_of md ''ulid'' = Some u" "map_of md ''retry'' = Some (MInt n)"
  shows "\<exists>md'. increment_retry (Object md) now = Inr md'
     \<and> json_extract md' ''retry'' = Some (MInt (n + 1))
     \<and> json_extract md' ''timestamp'' = Some (MStr now)
     \<and> same_step j md' = same_step j md"
proof -
  obtain pm where pm: "parse_metadata (Object md) = Inr pm" by simp
  let ?md' = "AList.update ''timestamp'' (MStr now) (AList.update ''retry'' (MInt (n + 1)) pm)"
  have keys: "map_of pm ''step'' = Some s" "map_of pm ''ulid'' = Some u" "map_of pm ''retry'' = Some (MInt n)"
    using assms parse_extract [OF pm] by simp_all
  then have "increment_retry (Object md) now = Inr ?md'"
    by (simp only: increment_retry_def pm) (simp add: Let_def)
  moreover have "same_step j ?md' = same_step j md"
    using keys assms by (simp add: fun_eq_iff same_step_def json_extract_def update_conv')
  ultimately show ?thesis by (auto simp: json_extract_def update_conv')
qed

theorem increment_retry_keeps_item_witness:
  "\<exists>md'. increment_retry (Object (make_metadata ''translate'' ''A'' 1 None None False [] ''t0'')) ''t1'' = Inr md'
     \<and> json_extract md' ''retry'' = Some (MInt 2)
     \<and> json_extract md' ''timestamp'' = Some (MStr ''t1'')
     \<and> same_step ''J'' md' = same_step ''J'' (make_metadata ''translate'' ''A'' 1 None None False [] ''t0'')"
  using increment_retry_keeps_item [of "make_metadata ''translate'' ''A'' 1 None None False [] ''t0''"
      "MStr ''translate''" "MStr ''A''" 1 "''t1''" "''J''"]
  by (simp add: make_metadata_def opt_entry_def)

end
