(* ===== verification/Blackboard.thy ===== *)
theory Blackboard
  imports Job_Queue
begin

text \<open>
  \<open>BlackboardService\<close> of \<open>database/blackboard.py\<close>: a job's checklist, kept in \<open>job_items\<close>, and the
  abstract checklist it implements.
\<close>

section \<open>The service\<close>

text \<open>\<open>json.dumps\<close> of a string, \<open>ensure_ascii\<close> on, for the code points below 256.\<close>

definition json_escape :: "char \<Rightarrow> string" where
  "json_escape c = (let n = of_char c :: nat in
     if n = 34 then [CHR 0x5C, CHR 0x22] else if n = 92 then [CHR 0x5C, CHR 0x5C]
     else if n = 10 then [CHR 0x5C, CHR ''n''] else if n = 13 then [CHR 0x5C, CHR ''r'']
     else if n = 9 then [CHR 0x5C, CHR ''t''] else if n = 12 then [CHR 0x5C, CHR ''f'']
     else if n = 8 then [CHR 0x5C, CHR ''b'']
     else if 32 \<le> n \<and> n \<le> 126 then [c]
     else if n = 127 then [c]
     else [CHR 0x5C, CHR ''u'', CHR ''0'', CHR ''0'', hex_digit (n div 16), hex_digit (n mod 16)])"

definition json_string :: "string \<Rightarrow> string" where
  "json_string s = [CHR 0x22] @ concat (map json_escape s) @ [CHR 0x22]"

definition error_json :: "string \<Rightarrow> string" where
  "error_json err = ''{'' @ json_string ''error'' @ '': '' @ json_string err @ ''}''"

definition initialize_checklist :: "string \<Rightarrow> string list \<Rightarrow> string \<Rightarrow> stmt list" where
  "initialize_checklist job steps now =
     map (\<lambda>step. InsertItem job (make_metadata ''blackboard'' step 0 None None False [] now) now) steps"

definition claim_step :: "string \<Rightarrow> string \<Rightarrow> string \<Rightarrow> stmt" where
  "claim_step job step now = ClaimStep job step now"

definition complete_step :: "string \<Rightarrow> string \<Rightarrow> string \<Rightarrow> string \<Rightarrow> stmt" where
  "complete_step job step output_json now = FinishStep job step I_COMPLETED output_json now"

definition fail_step :: "string \<Rightarrow> string \<Rightarrow> string \<Rightarrow> string \<Rightarrow> stmt" where
  "fail_step job step err now = FinishStep job step I_FAILED (error_json err) now"

text \<open>\<open>meta.get("ulid") or meta.get("step") or "unknown"\<close>.\<close>

definition step_identifier :: "metadata \<Rightarrow> mval" where
  "step_identifier md =
     (case map_of md ''ulid'' of
        Some v \<Rightarrow> if truthy v then v
                  else (case map_of md ''step'' of Some w \<Rightarrow> if truthy w then w else MStr ''unknown''
                                                 | None \<Rightarrow> MStr ''unknown'')
      | None \<Rightarrow> (case map_of md ''step'' of Some w \<Rightarrow> if truthy w then w else MStr ''unknown''
                                          | None \<Rightarrow> MStr ''unknown''))"

definition get_state :: "string \<Rightarrow> op_db \<Rightarrow> (mval \<times> item_status \<times> string option) list" where
  "get_state job db = map (\<lambda>r. (step_identifier (item_metadata r), item_state r, output_data r))
     (filter (\<lambda>r. item_job r = job) (job_items db))"

section \<open>The checklist it implements\<close>

datatype board_op = Claim string | Complete string string | Fail string string

fun board_stmt :: "string \<Rightarrow> board_op \<times> string \<Rightarrow> stmt" where
  "board_stmt job (Claim step, now) = claim_step job step now"
| "board_stmt job (Complete step output_json, now) = complete_step job step output_json now"
| "board_stmt job (Fail step err, now) = fail_step job step err now"

text \<open>A checklist is a list of steps with status and output; an operation changes the named steps.\<close>

type_synonym checklist = "(string \<times> item_status \<times> string option) list"

fun board_effect :: "board_op \<Rightarrow> string \<times> item_status \<times> string option \<Rightarrow> string \<times> item_status \<times> string option" where
  "board_effect (Claim step) (s, st, r) = (if s = step then (s, I_RUNNING, r) else (s, st, r))"
| "board_effect (Complete step output_json) (s, st, r) =
     (if s = step then (s, I_COMPLETED, Some output_json) else (s, st, r))"
| "board_effect (Fail step err) (s, st, r) =
     (if s = step then (s, I_FAILED, Some (error_json err)) else (s, st, r))"

definition new_checklist :: "string list \<Rightarrow> checklist" where
  "new_checklist steps = map (\<lambda>s. (s, I_PENDING, None)) steps"

definition as_state :: "checklist \<Rightarrow> (mval \<times> item_status \<times> string option) list" where
  "as_state cl = map (\<lambda>(s, st, r). (MStr s, st, r)) cl"

text \<open>The items of a job that only the blackboard writes: its step name is the ulid.\<close>

definition board_item :: "item_row \<Rightarrow> string \<Rightarrow> bool" where
  "board_item r s \<longleftrightarrow> map_of (item_metadata r) ''step'' = Some (MStr ''blackboard'')
     \<and> map_of (item_metadata r) ''ulid'' = Some (MStr s) \<and> s \<noteq> []"

definition shows_board :: "string \<Rightarrow> op_db \<Rightarrow> checklist \<Rightarrow> bool" where
  "shows_board job db cl \<longleftrightarrow>
     list_all2 (\<lambda>r (s, st, out). board_item r s \<and> item_state r = st \<and> output_data r = out)
       (filter (\<lambda>r. item_job r = job) (job_items db)) cl"

lemma board_item_identifier: "board_item r s \<Longrightarrow> step_identifier (item_metadata r) = MStr s"
  by (simp add: board_item_def step_identifier_def truthy_def)

lemma list_all2_map_eq:
  "list_all2 p xs ys \<Longrightarrow> (\<And>x y. p x y \<Longrightarrow> g x = h y) \<Longrightarrow> map g xs = map h ys"
  by (induction rule: list_all2_induct) auto

lemma shows_board_state: "shows_board job db cl \<Longrightarrow> get_state job db = as_state cl"
  unfolding shows_board_def get_state_def as_state_def
  by (erule list_all2_map_eq) (auto simp: board_item_identifier)

lemma blackboard_step_iff:
  "board_item r s \<Longrightarrow> blackboard_step job step r \<longleftrightarrow> item_job r = job \<and> s = step"
  by (auto simp: board_item_def blackboard_step_def sql_eq_def json_extract_def)

lemma filter_update_where:
  "(\<And>r. q (f r) = q r) \<Longrightarrow> filter q (update_where p f rows) = update_where p f (filter q rows)"
  by (induction rows) (auto simp: update_where_def)

lemma shows_board_update:
  assumes "shows_board job db cl" "\<And>r. item_job (f r) = item_job r"
    and "\<And>r. item_metadata (f r) = item_metadata r"
    and "\<And>r s st out. item_state r = st \<Longrightarrow> output_data r = out \<Longrightarrow>
      board_effect op (s, st, out) = (if s = step then (s, item_state (f r), output_data (f r)) else (s, st, out))"
  shows "shows_board job (on_items (blackboard_step job step) f db) (map (board_effect op) cl)"
proof -
  let ?rows = "filter (\<lambda>r. item_job r = job) (job_items db)"
  have "list_all2 (\<lambda>r (s, st, out). board_item r s \<and> item_state r = st \<and> output_data r = out)
     (update_where (blackboard_step job step) f ?rows) (map (board_effect op) cl)"
    unfolding update_where_def list_all2_map1 list_all2_map2
  proof (rule list.rel_mono_strong)
    show "list_all2 (\<lambda>r (s, st, out). board_item r s \<and> item_state r = st \<and> output_data r = out) ?rows cl"
      using assms(1) by (simp add: shows_board_def)
    fix r x
    assume "r \<in> set ?rows" "x \<in> set cl"
      and old: "case x of (s, st, out) \<Rightarrow> board_item r s \<and> item_state r = st \<and> output_data r = out"
    obtain s st out where x: "x = (s, st, out)" by (cases x) auto
    with old have r: "board_item r s" "item_state r = st" "output_data r = out" by auto
    moreover have "board_item (f r) s" using r(1) assms(3) by (simp add: board_item_def)
    ultimately show "case board_effect op x of (s, st, out) \<Rightarrow>
        board_item (if blackboard_step job step r then f r else r) s
        \<and> item_state (if blackboard_step job step r then f r else r) = st
        \<and> output_data (if blackboard_step job step r then f r else r) = out"
      using \<open>r \<in> set ?rows\<close> blackboard_step_iff [OF r(1), of job step] assms(4) [OF r(2,3)] x by auto
  qed
  then show ?thesis using assms(2)
    by (simp add: shows_board_def on_items_def filter_update_where)
qed

lemma shows_board_op:
  "shows_board job db cl \<Longrightarrow>
     shows_board job (apply_write exec_stmt (board_stmt job (op, now)) db) (map (board_effect op) cl)"
  by (cases op) (simp_all add: apply_write_def claim_step_def complete_step_def fail_step_def
      shows_board_update)

lemma shows_board_ops:
  "shows_board job db cl \<Longrightarrow>
     shows_board job (fold (apply_write exec_stmt) (map (board_stmt job) ops) db)
       (fold (\<lambda>(op, now). map (board_effect op)) ops cl)"
  by (induction ops arbitrary: db cl) (auto simp: shows_board_op split: prod.splits)

lemma shows_board_init:
  assumes "job \<in> set (map job_id (jobs db))" "[] \<notin> set steps" "shows_board job db cl"
  shows "shows_board job (fold (apply_write exec_stmt) (initialize_checklist job steps now) db)
     (cl @ new_checklist steps)"
  using assms
proof (induction steps arbitrary: db cl)
  case (Cons s steps)
  let ?db = "apply_write exec_stmt
    (InsertItem job (make_metadata ''blackboard'' s 0 None None False [] now) now) db"
  have "job \<in> set (map job_id (jobs ?db))" "shows_board job ?db (cl @ [(s, I_PENDING, None)])"
    using Cons.prems make_metadata_extract [of "''blackboard''" s, unfolded json_extract_def]
    by (auto simp: apply_write_def insert_item_def shows_board_def board_item_def list_all2_appendI)
  from Cons.IH [OF this(1) _ this(2)] Cons.prems(2) show ?case
    by (simp add: initialize_checklist_def new_checklist_def)
qed (simp add: initialize_checklist_def new_checklist_def)



end
