(* ===== verification/Worker.thy ===== *)
theory Worker
  imports Job_Queue "HOL-Library.Product_Lexorder"
begin

text \<open>
  \<open>bot/engine/worker.py\<close> with \<open>bot/engine/tool_runner.py\<close> and \<open>utils/startup/recovery.py\<close>: the
  manager that polls the jobs table, the threads it spawns, the delivery of results by callback, and
  the healing pass at startup. All writes go through the writer of \<^verbatim>\<open>Db_Writer\<close>; the poll reads what
  the writer has committed, so a state has both.
\<close>

section \<open>Delivering the callback\<close>

text \<open>
  One POST: a status code, or None for an exception (timeout, connection). \<open>raise_for_status\<close> passes
  2xx only. \<open>callback_loop\<close> is the \<open>while attempt < max_retries\<close> loop; its result is the success,
  the number of POSTs and the delays slept.
\<close>

definition max_retries :: nat where "max_retries = 3"

function callback_loop :: "(nat \<Rightarrow> nat option) \<Rightarrow> nat \<Rightarrow> nat list \<Rightarrow> bool \<times> nat \<times> nat list" where
  "callback_loop net attempt slept =
     (if \<not> attempt < max_retries then (False, attempt, slept)
      else
        let attempt' = attempt + 1;
            again = (\<lambda>_::unit. callback_loop net attempt'
              (if attempt' < max_retries then slept @ [2 * 2 ^ (attempt' - 1)] else slept))
        in case net attempt' of
             None \<Rightarrow> again ()
           | Some code \<Rightarrow>
               if 200 \<le> code \<and> code < 300 then (True, attempt', slept)
               else if 400 \<le> code \<and> code < 500 then (False, attempt', slept)
               else again ())"
  by pat_completeness auto

termination by (relation "measure (\<lambda>(net, attempt, slept). max_retries - attempt)") auto

declare callback_loop.simps [simp del]

definition do_callback :: "bool \<Rightarrow> (nat \<Rightarrow> nat option) \<Rightarrow> bool \<times> nat \<times> nat list" where
  "do_callback configured net = (if \<not> configured then (True, 0, []) else callback_loop net 0 [])"

section \<open>Running a tool\<close>

text \<open>\<open>run_tool_safely\<close>: every exception of the tool becomes an unsuccessful result.\<close>

datatype tool_run = Returns string | Raises string string

fun run_tool_safely :: "tool_run \<Rightarrow> string \<times> bool" where
  "run_tool_safely (Returns out) = (out, True)"
| "run_tool_safely (Raises err tb) =
     (''Tool Execution Failure: '' @ err @ [nl, nl] @ ''Traceback:'' @ [nl] @ tb, False)"

text \<open>
  What happens in the \<open>try\<close> of \<open>_run_job\<close>: the registry has no such tool, the tool ran, or an
  exception escapes (from the registry, or from building and sending the callback).
\<close>

datatype run_outcome = Tool_Missing | Tool_Ran tool_run | Escapes string

text \<open>The configuration: is the callback configured, and \<open>json.dumps\<close> of the normalised result.\<close>

record env =
  configured :: bool
  dumps :: "job_status \<Rightarrow> string \<Rightarrow> string"

section \<open>The manager\<close>

datatype worker_thread = Run string string string string | Retry string "string option" int

fun thread_job :: "worker_thread \<Rightarrow> string" where
  "thread_job (Run j session tool args) = j"
| "thread_job (Retry j res n) = j"

text \<open>
  \<open>_active_jobs\<close> (its keys), \<open>_system_errors\<close>, \<open>cancellation_flags\<close> with their set state, the threads
  in flight in the order they were spawned, and the writer.
\<close>

record manager =
  store :: "(stmt, op_db) writer"
  threads :: "worker_thread list"
  active_jobs :: "string set"
  system_errors :: "string \<rightharpoonup> nat"
  cancellation_flags :: "string \<rightharpoonup> bool"

definition send :: "stmt \<Rightarrow> manager \<Rightarrow> manager" where
  "send s m = m\<lparr>store := snd (enqueue True False (Single s) (store m))\<rparr>"

definition committed :: "manager \<Rightarrow> op_db" where
  "committed m = contents (store m)"

text \<open>
  The poll's query. \<open>threshold\<close> is the text of \<open>datetime('now', '-' || delay || ' seconds')\<close>; SQLite
  compares the column with it as text.
\<close>

definition eligible :: "string \<Rightarrow> job_row \<Rightarrow> bool" where
  "eligible threshold r \<longleftrightarrow> job_state r \<in> {J_QUEUED, J_INTERRUPTED}
     \<or> (job_state r = J_PENDING_CALLBACK \<and> updated_at r < threshold)"

definition poll_rows :: "string \<Rightarrow> op_db \<Rightarrow> job_row list" where
  "poll_rows threshold db =
     take 5 (sort_key (\<lambda>r. (job_state r, created_at r)) (filter (eligible threshold) (jobs db)))"

definition spawn :: "string \<Rightarrow> job_row \<Rightarrow> manager \<Rightarrow> manager" where
  "spawn now r m =
     (if job_state r = J_PENDING_CALLBACK
      then m\<lparr>threads := threads m @ [Retry (job_id r) (result_json r) (retry_count r)],
             active_jobs := insert (job_id r) (active_jobs m)\<rparr>
      else
        let m1 = send (SetJobStatus (job_id r) J_RUNNING now) m
        in m1\<lparr>cancellation_flags := (cancellation_flags m1)(job_id r \<mapsto> False),
              threads := threads m1 @ [Run (job_id r) (session_id r) (tool_name r) (args_json r)],
              active_jobs := insert (job_id r) (active_jobs m1)\<rparr>)"

definition poll :: "string \<Rightarrow> string \<Rightarrow> manager \<Rightarrow> manager" where
  "poll threshold now m = fold (spawn now) (poll_rows threshold (committed m)) m"

text \<open>The \<open>try\<close> of \<open>_run_job\<close> after the tool, and its \<open>except\<close>.\<close>

definition settle_result :: "env \<Rightarrow> string \<Rightarrow> job_status \<Rightarrow> string \<Rightarrow> (nat \<Rightarrow> nat option) \<Rightarrow> string
    \<Rightarrow> manager \<Rightarrow> manager" where
  "settle_result env job st out net now m =
     (let payload = dumps env st out;
          m1 = (if st \<in> {J_COMPLETED, J_PARTIAL}
                then if fst (do_callback (configured env) net)
                     then send (SetJobResult job st payload now) m
                     else send (SetPendingCallback job payload now) m
                else send (SetJobResult job st payload now) m)
      in m1\<lparr>system_errors := (system_errors m1)(job := None)\<rparr>)"

definition hitl_prefix :: string where "hitl_prefix = ''PAUSED_FOR_HITL:''"

definition job_crashed :: "string \<Rightarrow> string \<Rightarrow> string \<Rightarrow> manager \<Rightarrow> manager" where
  "job_crashed job err now m =
     (if prefix hitl_prefix err then send (SetJobStatus job J_PAUSED_FOR_HITL now) m
      else
        let n = Suc (case system_errors m job of None \<Rightarrow> 0 | Some k \<Rightarrow> k)
        in if 3 \<le> n
           then (send (SetJobStatus job J_ABANDONED now) m)\<lparr>system_errors := (system_errors m)(job := None)\<rparr>
           else (send (SetJobStatus job J_INTERRUPTED now) m)\<lparr>system_errors := (system_errors m)(job \<mapsto> n)\<rparr>)"

definition run_job :: "env \<Rightarrow> string \<Rightarrow> run_outcome \<Rightarrow> (nat \<Rightarrow> nat option) \<Rightarrow> string \<Rightarrow> manager \<Rightarrow> manager" where
  "run_job env job outcome net now m =
     (let m1 =
        (case outcome of
           Tool_Missing \<Rightarrow> settle_result env job J_FAILED ''Tool not found'' net now m
         | Tool_Ran r \<Rightarrow>
             (case run_tool_safely r of (out, success) \<Rightarrow>
                settle_result env job (if success then J_COMPLETED else J_FAILED) out net now m)
         | Escapes err \<Rightarrow> job_crashed job err now m)
      in m1\<lparr>active_jobs := active_jobs m1 - {job}\<rparr>)"

definition retry_callback_only :: "env \<Rightarrow> string \<Rightarrow> int \<Rightarrow> (nat \<Rightarrow> nat option) \<Rightarrow> string \<Rightarrow> manager \<Rightarrow> manager" where
  "retry_callback_only env job n net now m =
     (let m1 =
        (if fst (do_callback (configured env) net) then send (SetJobStatus job J_COMPLETED now) m
         else if 3 \<le> n + 1 then send (SetJobPartialRetry job (n + 1) now) m
         else send (SetJobRetry job (n + 1) now) m)
      in m1\<lparr>active_jobs := active_jobs m1 - {job}\<rparr>)"

text \<open>The thread at position \<open>i\<close> ends; the threads are concurrent, so any of them may.\<close>

definition finish_thread :: "env \<Rightarrow> nat \<Rightarrow> run_outcome \<Rightarrow> (nat \<Rightarrow> nat option) \<Rightarrow> string \<Rightarrow> manager \<Rightarrow> manager" where
  "finish_thread env i outcome net now m =
     (if i < length (threads m)
      then let m1 = m\<lparr>threads := take i (threads m) @ drop (Suc i) (threads m)\<rparr>
           in case threads m ! i of
                Run job session tool args \<Rightarrow> run_job env job outcome net now m1
              | Retry job res n \<Rightarrow> retry_callback_only env job n net now m1
      else m)"

definition writer_runs :: "manager \<Rightarrow> manager" where
  "writer_runs m = m\<lparr>store := writer_round (\<lambda>t. exec_stmt) (\<lambda>_ _. None) (store m)\<rparr>"

text \<open>\<open>run_startup_recovery\<close>; \<open>week_ago\<close> is \<open>datetime('now', '-7 days')\<close>, both reads see the same state.\<close>

definition startup_recovery :: "string \<Rightarrow> string \<Rightarrow> manager \<Rightarrow> manager" where
  "startup_recovery sql_now week_ago m =
     (let running = filter (\<lambda>r. job_state r \<in> {J_RUNNING, J_PAUSED_FOR_HITL}) (jobs (committed m));
          stale = filter (\<lambda>r. job_state r \<in> {J_RUNNING, J_PENDING, J_INTERRUPTED}
                     \<and> updated_at r < week_ago) (jobs (committed m));
          m1 = fold (\<lambda>r. send (SetJobStatus (job_id r) J_INTERRUPTED sql_now)) running m
      in fold (\<lambda>r m. send (DeleteItems (job_id r)) (send (SetJobStatusOnly (job_id r) J_FAILED) m)) stale m1)"

text \<open>Everything the process does to the jobs without a request from outside.\<close>

datatype manager_event =
    Poll string string
  | Finish nat run_outcome "nat \<Rightarrow> nat option" string
  | Writer_Round

fun manager_step :: "env \<Rightarrow> manager_event \<Rightarrow> manager \<Rightarrow> manager" where
  "manager_step env (Poll threshold now) m = poll threshold now m"
| "manager_step env (Finish i outcome net now) m = finish_thread env i outcome net now m"
| "manager_step env Writer_Round m = writer_runs m"

section \<open>The callback\<close>

definition is_2xx :: "nat option \<Rightarrow> bool" where
  "is_2xx c \<longleftrightarrow> (case c of None \<Rightarrow> False | Some code \<Rightarrow> 200 \<le> code \<and> code < 300)"

definition is_4xx :: "nat option \<Rightarrow> bool" where
  "is_4xx c \<longleftrightarrow> (case c of None \<Rightarrow> False | Some code \<Rightarrow> 400 \<le> code \<and> code < 500)"

lemma callback_loop_step:
  "callback_loop net attempt slept =
     (if 3 \<le> attempt then (False, attempt, slept)
      else if is_2xx (net (Suc attempt)) then (True, Suc attempt, slept)
      else if is_4xx (net (Suc attempt)) then (False, Suc attempt, slept)
      else callback_loop net (Suc attempt) (if Suc attempt < 3 then slept @ [2 * 2 ^ attempt] else slept))"
  by (subst callback_loop.simps)
     (auto simp: max_retries_def is_2xx_def is_4xx_def Let_def split: option.split)

lemma callback_cases:
  "do_callback True net =
     (if is_2xx (net 1) then (True, 1, []) else if is_4xx (net 1) then (False, 1, [])
      else if is_2xx (net 2) then (True, 2, [2]) else if is_4xx (net 2) then (False, 2, [2])
      else (is_2xx (net 3), 3, [2, 4]))"
  by (simp add: do_callback_def callback_loop_step [of net 0] callback_loop_step [of net "Suc 0"]
      callback_loop_step [of net "Suc (Suc 0)"] callback_loop_step [of net "Suc (Suc (Suc 0))"]
      numeral_2_eq_2 numeral_3_eq_3)

text \<open>
  C16: the delivery contract. With the callback configured, there are one to three POSTs with 2 and 4
  seconds between them; it reports success exactly when the last POST was answered 2xx; every earlier
  one failed with a server error or an exception; and it gives up before the third POST only on a 4xx.
\<close>

theorem callback_contract:
  "case do_callback True net of (delivered, posts, slept) \<Rightarrow>
     1 \<le> posts \<and> posts \<le> 3 \<and> slept = take (posts - 1) [2, 4]
     \<and> (delivered \<longleftrightarrow> is_2xx (net posts))
     \<and> (\<forall>k \<in> {1..<posts}. \<not> is_2xx (net k) \<and> \<not> is_4xx (net k))
     \<and> (\<not> delivered \<and> posts < 3 \<longrightarrow> is_4xx (net posts))"
proof -
  have "{1..<2} = {1::nat}" "{1..<3} = {1, 2::nat}" by auto
  then show ?thesis by (auto simp: callback_cases is_2xx_def is_4xx_def split: option.splits)
qed

theorem callback_contract_witness:
  "do_callback True (\<lambda>k. if k < 3 then Some 503 else Some 200) = (True, 3, [2, 4])
   \<and> \<not> is_2xx (Some 503) \<and> is_2xx (Some 200)"
proof -
  let ?net = "\<lambda>k :: nat. if k < 3 then Some 503 else Some 200"
  have run: "do_callback True ?net = (True, 3, [2, 4])"
    by (simp add: callback_cases is_2xx_def is_4xx_def)
  from callback_contract [of ?net, unfolded run prod.case]
  have all: "\<forall>k \<in> {1..<3 :: nat}. \<not> is_2xx (?net k)" and last: "is_2xx (?net 3)" by blast+
  have "\<not> is_2xx (Some 503)" using bspec [OF all, of 1] by simp
  moreover have "is_2xx (Some 200)" using last by simp
  ultimately show ?thesis using run by simp
qed

section \<open>Sending and draining\<close>

definition enqueue_all :: "'st list \<Rightarrow> ('st, 'db) writer \<Rightarrow> ('st, 'db) writer" where
  "enqueue_all ss w = fold (\<lambda>s w. snd (enqueue True False (Single s) w)) ss w"

definition drain :: "(stmt, op_db) writer \<Rightarrow> (stmt, op_db) writer" where
  "drain w = writer_rounds (\<lambda>t. exec_stmt) (\<lambda>_ _. None) (length (write_queue w)) w"

lemma enqueue_single:
  "contents (snd (enqueue True False (Single s) w)) = contents w"
  "alive (snd (enqueue True False (Single s) w))"
  "write_queue (snd (enqueue True False (Single s) w)) =
     (if length (write_queue w) < queue_maxsize then write_queue w @ [Task None (Single s)] else write_queue w)"
  by (simp_all add: enqueue_def start_writer_def settle_def Let_def)

lemma enqueue_all_frame:
  "contents (enqueue_all ss w) = contents w" "ss \<noteq> [] \<Longrightarrow> alive (enqueue_all ss w)"
proof -
  show "contents (enqueue_all ss w) = contents w"
    by (induction ss arbitrary: w) (simp_all add: enqueue_all_def enqueue_single)
  show "ss \<noteq> [] \<Longrightarrow> alive (enqueue_all ss w)"
    by (induction ss rule: rev_induct) (simp_all add: enqueue_all_def enqueue_single)
qed

lemma enqueue_all_room:
  "length (write_queue w) + length ss \<le> queue_maxsize \<Longrightarrow>
     write_queue (enqueue_all ss w) = write_queue w @ map (\<lambda>s. Task None (Single s)) ss"
  by (induction ss arbitrary: w) (simp_all add: enqueue_all_def enqueue_single)

lemma drain_enqueue_all:
  assumes "write_queue w = []" "length ss \<le> queue_maxsize"
  shows "contents (drain (enqueue_all ss w)) = fold (apply_write exec_stmt) ss (contents w)"
proof (cases "ss = []")
  case True
  with assms show ?thesis by (simp add: drain_def enqueue_all_def)
next
  case False
  have "write_queue (enqueue_all ss w) = map (\<lambda>(r, s). Task r (Single s)) (map (\<lambda>s. (None, s)) ss)"
    using assms by (simp add: enqueue_all_room o_def)
  from rounds_refine_fold [OF enqueue_all_frame(2) [OF False] this]
  show ?thesis using assms by (simp add: drain_def enqueue_all_room enqueue_all_frame o_def)
qed

lemma send_simps [simp]:
  "threads (send s m) = threads m" "active_jobs (send s m) = active_jobs m"
  "system_errors (send s m) = system_errors m" "cancellation_flags (send s m) = cancellation_flags m"
  "committed (send s m) = committed m"
  "store (send s m) = enqueue_all [s] (store m)"
  by (simp_all add: send_def committed_def enqueue_single enqueue_all_def)

lemma enqueue_all_append [simp]: "enqueue_all ss' (enqueue_all ss w) = enqueue_all (ss @ ss') w"
  by (simp add: enqueue_all_def)

lemma store_fold_send: "store (fold (\<lambda>r. send (f r)) rs m) = enqueue_all (map f rs) (store m)"
  by (induction rs arbitrary: m) (auto simp: enqueue_all_def)

section \<open>What a poll does\<close>

definition thread_of :: "job_row \<Rightarrow> worker_thread" where
  "thread_of r = (if job_state r = J_PENDING_CALLBACK then Retry (job_id r) (result_json r) (retry_count r)
     else Run (job_id r) (session_id r) (tool_name r) (args_json r))"

definition claims :: "string \<Rightarrow> job_row list \<Rightarrow> stmt list" where
  "claims now rows = map (\<lambda>r. SetJobStatus (job_id r) J_RUNNING now)
     (filter (\<lambda>r. job_state r \<noteq> J_PENDING_CALLBACK) rows)"

lemma fold_spawn:
  "threads (fold (spawn now) rows m) = threads m @ map thread_of rows"
  "store (fold (spawn now) rows m) = enqueue_all (claims now rows) (store m)"
  "system_errors (fold (spawn now) rows m) = system_errors m"
proof -
  show "threads (fold (spawn now) rows m) = threads m @ map thread_of rows"
    by (induction rows arbitrary: m) (simp_all add: spawn_def thread_of_def Let_def)
  show "system_errors (fold (spawn now) rows m) = system_errors m"
    by (induction rows arbitrary: m) (simp_all add: spawn_def Let_def)
  show "store (fold (spawn now) rows m) = enqueue_all (claims now rows) (store m)"
  proof (induction rows arbitrary: m)
    case Nil
    show ?case by (simp add: claims_def enqueue_all_def)
  next
    case (Cons r rows)
    have "store (spawn now r m) = enqueue_all (claims now [r]) (store m)"
      by (simp add: spawn_def claims_def Let_def enqueue_all_def)
    with Cons show ?case by (simp add: claims_def)
  qed
qed

lemma committed_poll: "committed (poll threshold now m) = committed m"
  by (simp add: poll_def committed_def fold_spawn enqueue_all_frame)

lemmas poll_effect = fold_spawn [of _ "poll_rows threshold (committed m)" m for threshold m,
    folded poll_def]

text \<open>
  A poll does not remember what it spawned. Two polls with no commit between them spawn every job
  they see twice, the claim \<open>RUNNING\<close> being visible only after the writer thread ran it.
\<close>

theorem poll_twice_spawns_twice:
  "threads (poll threshold now2 (poll threshold now1 m)) =
     threads m @ map thread_of (poll_rows threshold (committed m))
               @ map thread_of (poll_rows threshold (committed m))"
  by (simp add: poll_effect committed_poll)

lemma claims_applied:
  "jobs (fold (apply_write exec_stmt) (claims now rows) db) =
     map (\<lambda>r. if \<exists>r' \<in> set rows. job_state r' \<noteq> J_PENDING_CALLBACK \<and> job_id r' = job_id r
              then r\<lparr>job_state := J_RUNNING, updated_at := now\<rparr> else r) (jobs db)"
proof (induction rows arbitrary: db)
  case (Cons r0 rows)
  show ?case
  proof (cases "job_state r0 = J_PENDING_CALLBACK")
    case True
    with Cons show ?thesis by (simp add: claims_def)
  next
    case False
    then have "claims now (r0 # rows) = SetJobStatus (job_id r0) J_RUNNING now # claims now rows"
      by (simp add: claims_def)
    with Cons False show ?thesis
      by (auto simp: apply_write_def on_job_def update_where_def)
  qed
qed (simp add: claims_def)

lemma length_claims: "length (claims now (poll_rows threshold db)) \<le> queue_maxsize"
proof -
  have "length (claims now rows) \<le> length rows" for rows
    by (simp add: claims_def)
  from this [of "poll_rows threshold db"] show ?thesis by (simp add: poll_rows_def queue_maxsize_def)
qed


lemma poll_twice_duplicates:
  "r \<in> set (poll_rows threshold (committed m)) \<Longrightarrow>
     2 \<le> count_list (threads (poll threshold now2 (poll threshold now1 m))) (thread_of r)"
proof -
  assume "r \<in> set (poll_rows threshold (committed m))"
  then have "count_list (map thread_of (poll_rows threshold (committed m))) (thread_of r) \<noteq> 0"
    by (simp add: count_list_0_iff)
  then show ?thesis by (simp add: poll_effect committed_poll)
qed

definition demo_job :: "string \<Rightarrow> job_status \<Rightarrow> int \<Rightarrow> string \<Rightarrow> job_row" where
  "demo_job j st n ts = \<lparr>job_id = j, session_id = ''0'', tool_name = ''scraper'', args_json = ''{}'',
     job_state = st, retry_count = n, resume_count = 0, created_at = ''c'', updated_at = ts,
     result_json = None\<rparr>"

definition init_manager :: "op_db \<Rightarrow> manager" where
  "init_manager db = \<lparr>store = init_writer db, threads = [], active_jobs = {},
     system_errors = Map.empty, cancellation_flags = Map.empty\<rparr>"

lemma init_manager_simps [simp]:
  "committed (init_manager db) = db" "write_queue (store (init_manager db)) = []"
  "contents (store (init_manager db)) = db"
  "threads (init_manager db) = []" "system_errors (init_manager db) = Map.empty"
  "cancellation_flags (init_manager db) = Map.empty"
  by (simp_all add: init_manager_def committed_def init_writer_def)

lemma poll_rows_one: "eligible threshold r \<Longrightarrow> jobs db = [r] \<Longrightarrow> poll_rows threshold db = [r]"
  by (simp add: poll_rows_def)


section \<open>What the threads write\<close>

text \<open>The statement a thread enqueues when it ends, and the threads that remain.\<close>

definition run_stmt :: "env \<Rightarrow> string \<Rightarrow> run_outcome \<Rightarrow> (nat \<Rightarrow> nat option) \<Rightarrow> string \<Rightarrow> nat option \<Rightarrow> stmt" where
  "run_stmt env j outcome net now errs =
     (case outcome of
        Tool_Missing \<Rightarrow> SetJobResult j J_FAILED (dumps env J_FAILED ''Tool not found'') now
      | Tool_Ran r \<Rightarrow>
          (if snd (run_tool_safely r)
           then if fst (do_callback (configured env) net)
                then SetJobResult j J_COMPLETED (dumps env J_COMPLETED (fst (run_tool_safely r))) now
                else SetPendingCallback j (dumps env J_COMPLETED (fst (run_tool_safely r))) now
           else SetJobResult j J_FAILED (dumps env J_FAILED (fst (run_tool_safely r))) now)
      | Escapes err \<Rightarrow>
          if prefix hitl_prefix err then SetJobStatus j J_PAUSED_FOR_HITL now
          else if 3 \<le> Suc (case errs of None \<Rightarrow> 0 | Some k \<Rightarrow> k) then SetJobStatus j J_ABANDONED now
          else SetJobStatus j J_INTERRUPTED now)"

lemma run_job_effect:
  "store (run_job env j outcome net now m) =
     enqueue_all [run_stmt env j outcome net now (system_errors m j)] (store m)"
  "threads (run_job env j outcome net now m) = threads m"
  "cancellation_flags (run_job env j outcome net now m) = cancellation_flags m"
  by (cases outcome; simp add: run_job_def run_stmt_def settle_result_def job_crashed_def Let_def
      split: prod.split)+

lemma run_job_errors:
  "system_errors (run_job env j outcome net now m) =
     (case outcome of
        Escapes err \<Rightarrow>
          if prefix hitl_prefix err then system_errors m
          else let n = Suc (case system_errors m j of None \<Rightarrow> 0 | Some k \<Rightarrow> k)
               in (system_errors m)(j := if 3 \<le> n then None else Some n)
      | _ \<Rightarrow> (system_errors m)(j := None))"
  by (cases outcome; simp add: run_job_def settle_result_def job_crashed_def Let_def split: prod.split)

definition retry_stmt :: "env \<Rightarrow> string \<Rightarrow> int \<Rightarrow> (nat \<Rightarrow> nat option) \<Rightarrow> string \<Rightarrow> stmt" where
  "retry_stmt env j n net now =
     (if fst (do_callback (configured env) net) then SetJobStatus j J_COMPLETED now
      else if 3 \<le> n + 1 then SetJobPartialRetry j (n + 1) now else SetJobRetry j (n + 1) now)"

lemma retry_effect:
  "store (retry_callback_only env j n net now m) = enqueue_all [retry_stmt env j n net now] (store m)"
  "threads (retry_callback_only env j n net now m) = threads m"
  "cancellation_flags (retry_callback_only env j n net now m) = cancellation_flags m"
  "system_errors (retry_callback_only env j n net now m) = system_errors m"
  by (simp_all add: retry_callback_only_def retry_stmt_def Let_def)

text \<open>
  a tool cannot pause its job by raising. For every exception of the tool, also one that carries
  the \<open>PAUSED_FOR_HITL:\<close> signal, the thread writes FAILED with the traceback as the result, and
  forgets the crashes counted so far: \<open>run_tool_safely\<close> has turned the exception into a result.
\<close>

theorem tool_exception_fails_job:
  "store (run_job env j (Tool_Ran (Raises (hitl_prefix @ reason) tb)) net now m) =
     snd (enqueue True False (Single (SetJobResult j J_FAILED
       (dumps env J_FAILED (''Tool Execution Failure: '' @ hitl_prefix @ reason @ [nl, nl]
          @ ''Traceback:'' @ [nl] @ tb)) now)) (store m))
   \<and> system_errors (run_job env j (Tool_Ran (Raises (hitl_prefix @ reason) tb)) net now m) j = None"
  by (simp add: run_job_effect run_job_errors run_stmt_def enqueue_all_def)

section \<open>Bounds the manager keeps\<close>

definition callback_db :: "op_db \<Rightarrow> bool" where
  "callback_db db \<longleftrightarrow> (\<forall>r \<in> set (jobs db). job_state r = J_PENDING_CALLBACK \<longrightarrow> retry_count r \<in> {1, 2})"

fun callback_stmt :: "stmt \<Rightarrow> bool" where
  "callback_stmt (InsertJob r) = (job_state r \<noteq> J_PENDING_CALLBACK)"
| "callback_stmt (SetJobStatus j st now) = (st \<noteq> J_PENDING_CALLBACK)"
| "callback_stmt (SetJobStatusOnly j st) = (st \<noteq> J_PENDING_CALLBACK)"
| "callback_stmt (SetJobResult j st res now) = (st \<noteq> J_PENDING_CALLBACK)"
| "callback_stmt (SetJobRetry j n now) = (n \<in> {1, 2})"
| "callback_stmt _ = True"

lemma jobs_only_job_stmts:
  "jobs (on_items p f db) = jobs db" "jobs (on_batch b g db) = jobs db" "jobs (on_details q h db) = jobs db"
  "insert_item j md inp now db = Inr db' \<Longrightarrow> jobs db' = jobs db"
  by (auto simp: on_items_def on_batch_def on_details_def insert_item_def split: if_splits)

lemma jobs_on_job: "jobs (on_job j f db) = update_where (\<lambda>r. job_id r = j) f (jobs db)"
  by (simp add: on_job_def)

lemma callback_exec:
  assumes "callback_stmt s" "callback_db db" "exec_stmt s db = Inr db'"
  shows "callback_db db'"
  using assms
  by (cases s) (auto simp: callback_db_def jobs_on_job set_update_where jobs_only_job_stmts split: if_splits, blast+)

interpretation ops_callback: guarded_engine "\<lambda>t. exec_stmt" "\<lambda>_ _. None" callback_stmt callback_db
  by unfold_locales (auto intro: callback_exec)

definition manager_ok :: "manager \<Rightarrow> bool" where
  "manager_ok m \<longleftrightarrow> guarded callback_stmt callback_db (store m)
     \<and> (\<forall>j res n. Retry j res n \<in> set (threads m) \<longrightarrow> n \<in> {1, 2})
     \<and> (\<forall>j k. system_errors m j = Some k \<longrightarrow> k \<in> {1, 2})"

lemma guarded_enqueue_all:
  "guarded ok_stmt ok_db w \<Longrightarrow> \<forall>s \<in> set ss. ok_stmt s \<Longrightarrow> guarded ok_stmt ok_db (enqueue_all ss w)"
  by (induction ss arbitrary: w) (simp_all add: enqueue_all_def guarded_enqueue)

lemma poll_rows_subset: "r \<in> set (poll_rows threshold db) \<Longrightarrow> r \<in> set (jobs db) \<and> eligible threshold r"
  by (auto simp: poll_rows_def dest!: in_set_takeD)

lemma poll_ok:
  assumes "manager_ok m"
  shows "manager_ok (poll threshold now m)"
proof -
  have store: "guarded callback_stmt callback_db (store (poll threshold now m))"
    unfolding poll_effect(2)
    by (rule guarded_enqueue_all) (use assms in \<open>auto simp: manager_ok_def claims_def\<close>)
  have "n \<in> {1, 2}" if retry: "Retry j res n \<in> set (threads (poll threshold now m))" for j res n
  proof -
    from retry consider "Retry j res n \<in> set (threads m)"
      | r where "r \<in> set (poll_rows threshold (committed m))" "Retry j res n = thread_of r"
      unfolding poll_effect(1) by (auto simp only: set_append set_map)
    then show ?thesis
    proof cases
      case 1
      with assms show ?thesis unfolding manager_ok_def by blast
    next
      case (2 r)
      then have "job_state r = J_PENDING_CALLBACK" "n = retry_count r" "r \<in> set (jobs (committed m))"
        using poll_rows_subset [OF 2(1)] by (auto simp: thread_of_def split: if_splits)
      with assms show ?thesis unfolding manager_ok_def guarded_def callback_db_def committed_def by blast
    qed
  qed
  then show ?thesis using assms store unfolding manager_ok_def poll_effect(3) by blast
qed

lemma finish_thread_ok:
  assumes "manager_ok m"
  shows "manager_ok (finish_thread env i outcome net now m)"
proof (cases "i < length (threads m)")
  case True
  define m1 where "m1 = m\<lparr>threads := take i (threads m) @ drop (Suc i) (threads m)\<rparr>"
  have m1: "manager_ok m1" using assms
    by (auto simp: manager_ok_def m1_def dest!: in_set_takeD in_set_dropD)
  show ?thesis
  proof (cases "threads m ! i")
    case (Run j session tool args)
    have "callback_stmt (run_stmt env j outcome net now errs)" for errs
      by (cases outcome) (auto simp: run_stmt_def)
    with m1 have "manager_ok (run_job env j outcome net now m1)"
      by (auto simp: manager_ok_def run_job_effect run_job_errors guarded_enqueue_all Let_def
          split: run_outcome.splits if_splits option.splits)
    with True Run show ?thesis by (simp add: finish_thread_def m1_def)
  next
    case (Retry j res n)
    with True assms have "n \<in> {1, 2}" unfolding manager_ok_def by (metis nth_mem)
    then have "callback_stmt (retry_stmt env j n net now)" by (auto simp: retry_stmt_def)
    with m1 have "manager_ok (retry_callback_only env j n net now m1)"
      by (auto simp: manager_ok_def retry_effect guarded_enqueue_all)
    with True Retry show ?thesis by (simp add: finish_thread_def m1_def)
  qed
qed (use assms in \<open>simp add: finish_thread_def\<close>)

lemma writer_runs_ok: "manager_ok m \<Longrightarrow> manager_ok (writer_runs m)"
  by (simp add: manager_ok_def writer_runs_def ops_callback.round_guarded)

lemma manager_step_ok [step_inv]: "manager_ok m \<Longrightarrow> manager_ok (manager_step env e m)"
  by (cases e) (simp_all add: poll_ok finish_thread_ok writer_runs_ok)

interpretation manager_run: step_invariant "manager_step env" manager_ok for env
  by unfold_locales (rule manager_step_ok)

text \<open>
  C18: retries are bounded in every schedule. From a table without pending callbacks, in every
  interleaving of polls, thread endings and writer rounds, a job that waits for its callback has one or
  two failed deliveries behind it, every retry thread knows of one or two, and no job has three system
  errors on its account: the third delivery makes it PARTIAL, the third error ABANDONED.
\<close>

theorem retries_are_bounded:
  assumes "\<forall>r \<in> set (jobs db). job_state r \<noteq> J_PENDING_CALLBACK"
  shows "let m = fold (manager_step env) events (init_manager db) in
     (\<forall>r \<in> set (jobs (committed m)). job_state r = J_PENDING_CALLBACK \<longrightarrow> retry_count r \<in> {1, 2})
     \<and> (\<forall>j res n. Retry j res n \<in> set (threads m) \<longrightarrow> n \<in> {1, 2})
     \<and> (\<forall>j k. system_errors m j = Some k \<longrightarrow> k \<in> {1, 2})"
proof -
  have "manager_ok (init_manager db)"
    using assms by (simp add: manager_ok_def guarded_def callback_db_def)
  from manager_run.run_keeps [OF this, of env events] show ?thesis
    by (simp add: manager_ok_def guarded_def callback_db_def committed_def Let_def)
qed

theorem retries_are_bounded_witness:
  "let m = fold (manager_step \<lparr>configured = True, dumps = \<lambda>st out. out\<rparr>)
       [Poll ''z'' ''t1'', Finish 0 (Tool_Ran (Returns ''ok'')) (\<lambda>_. None) ''t2'', Writer_Round, Writer_Round,
        Poll ''z'' ''t3'', Finish 0 Tool_Missing (\<lambda>_. Some 500) ''t4'', Writer_Round]
       (init_manager (empty_db\<lparr>jobs := [demo_job ''J'' J_QUEUED 0 ''t0'']\<rparr>)) in
     \<forall>r \<in> set (jobs (committed m)). job_state r = J_PENDING_CALLBACK \<longrightarrow> retry_count r \<in> {1, 2}"
proof -
  have "\<forall>r \<in> set (jobs (empty_db\<lparr>jobs := [demo_job ''J'' J_QUEUED 0 ''t0'']\<rparr>)). job_state r \<noteq> J_PENDING_CALLBACK"
    by (simp add: demo_job_def)
  from retries_are_bounded [OF this] show ?thesis unfolding Let_def by blast
qed

section \<open>When a pending callback is seen\<close>

lemma lex_less_prefix:
  fixes d d' :: string
  shows "length d = length d' \<Longrightarrow> d' \<le> d \<Longrightarrow> c' < c \<Longrightarrow> \<not> d @ c # t < d' @ c' # t'"
proof (induction d arbitrary: d')
  case (Cons x d)
  then obtain y e where d': "d' = y # e" by (cases d') auto
  with Cons.prems have "y < x \<or> (y = x \<and> e \<le> d)" by auto
  with Cons d' show ?case by auto
qed auto

text \<open>
  a failed callback is not retried on the day it failed. \<open>updated_at\<close> is written by
  \<open>isoformat()\<close>, with a T between date and time, and compared as text with \<open>datetime('now', ...)\<close>,
  which has a blank there. Whatever the configured delay, while the date of the threshold is not later
  than that of the row, the row is not eligible.
\<close>

theorem callback_waits_for_next_day:
  assumes "job_state r = J_PENDING_CALLBACK" "updated_at r = date @ ''T'' @ time_of_day"
    and "threshold = date' @ '' '' @ time_of_day'" "length date = length date'" "date' \<le> date"
  shows "\<not> eligible threshold r"
proof -
  have "CHR '' '' < CHR ''T''" by (simp add: less_char_def)
  from lex_less_prefix [OF assms(4,5) this] show ?thesis
    using assms(1,2,3) by (simp add: eligible_def)
qed

theorem callback_waits_for_next_day_witness:
  "\<not> eligible ''2025-05-01 23:59:59''
     (demo_job ''J'' J_PENDING_CALLBACK 1 ''2025-05-01T00:00:00.000001+00:00'')"
  by (rule callback_waits_for_next_day [where date = "''2025-05-01''" and date' = "''2025-05-01''"
        and time_of_day = "''00:00:00.000001+00:00''" and time_of_day' = "''23:59:59''"])
     (simp_all add: demo_job_def)

section \<open>Crashes\<close>

text \<open>
  Three escaping exceptions abandon a job. From an empty account, if the thread of a job dies three
  times of exceptions that carry no pause signal, whatever else is in the queue, the writes are
  INTERRUPTED, INTERRUPTED and ABANDONED in this order, and the account is empty again.
\<close>

theorem three_crashes_abandon:
  assumes "system_errors m j = None" "length (write_queue (store m)) + 3 \<le> queue_maxsize"
    and "\<not> prefix hitl_prefix e1" "\<not> prefix hitl_prefix e2" "\<not> prefix hitl_prefix e3"
    and "m' = run_job env j (Escapes e3) net3 t3 (run_job env j (Escapes e2) net2 t2
                (run_job env j (Escapes e1) net1 t1 m))"
  shows "write_queue (store m') = write_queue (store m) @
      map (\<lambda>s. Task None (Single s))
        [SetJobStatus j J_INTERRUPTED t1, SetJobStatus j J_INTERRUPTED t2, SetJobStatus j J_ABANDONED t3]
    \<and> system_errors m' j = None"
  using assms by (simp add: run_job_effect run_job_errors run_stmt_def Let_def enqueue_all_room)

theorem three_crashes_abandon_witness:
  "let m0 = init_manager empty_db; m' = run_job \<lparr>configured = True, dumps = \<lambda>st out. out\<rparr> ''J'' (Escapes ''boom'') (\<lambda>_. None) ''t3''
      (run_job \<lparr>configured = True, dumps = \<lambda>st out. out\<rparr> ''J'' (Escapes ''boom'') (\<lambda>_. None) ''t2''
        (run_job \<lparr>configured = True, dumps = \<lambda>st out. out\<rparr> ''J'' (Escapes ''boom'') (\<lambda>_. None) ''t1'' m0))
   in write_queue (store m') = map (\<lambda>s. Task None (Single s))
        [SetJobStatus ''J'' J_INTERRUPTED ''t1'', SetJobStatus ''J'' J_INTERRUPTED ''t2'', SetJobStatus ''J'' J_ABANDONED ''t3'']"
  using three_crashes_abandon [of "init_manager empty_db" "''J''" "''boom''" "''boom''" "''boom''" _
      "\<lparr>configured = True, dumps = \<lambda>st out. out\<rparr>" "\<lambda>_. None" "''t3''" "\<lambda>_. None" "''t2''" "\<lambda>_. None" "''t1''"]
  by (simp add: hitl_prefix_def queue_maxsize_def Let_def)

section \<open>Startup\<close>

text \<open>What healing makes of one row.\<close>

definition heal :: "string \<Rightarrow> string \<Rightarrow> job_row \<Rightarrow> job_row" where
  "heal sql_now week_ago r =
     (let r1 = (if job_state r \<in> {J_RUNNING, J_PAUSED_FOR_HITL}
                then r\<lparr>job_state := J_INTERRUPTED, updated_at := sql_now\<rparr> else r)
      in if job_state r \<in> {J_RUNNING, J_PENDING, J_INTERRUPTED} \<and> updated_at r < week_ago
         then r1\<lparr>job_state := J_FAILED\<rparr> else r1)"

definition running_rows :: "op_db \<Rightarrow> job_row list" where
  "running_rows db = filter (\<lambda>r. job_state r \<in> {J_RUNNING, J_PAUSED_FOR_HITL}) (jobs db)"

definition stale_rows :: "string \<Rightarrow> op_db \<Rightarrow> job_row list" where
  "stale_rows week_ago db = filter (\<lambda>r. job_state r \<in> {J_RUNNING, J_PENDING, J_INTERRUPTED}
     \<and> updated_at r < week_ago) (jobs db)"

definition recovery_stmts :: "string \<Rightarrow> string \<Rightarrow> op_db \<Rightarrow> stmt list" where
  "recovery_stmts sql_now week_ago db =
     map (\<lambda>r. SetJobStatus (job_id r) J_INTERRUPTED sql_now) (running_rows db)
     @ concat (map (\<lambda>r. [SetJobStatusOnly (job_id r) J_FAILED, DeleteItems (job_id r)]) (stale_rows week_ago db))"

lemma store_fold_send2:
  "store (fold (\<lambda>r m. send (g r) (send (f r) m)) rs m) =
     enqueue_all (concat (map (\<lambda>r. [f r, g r]) rs)) (store m)"
  by (induction rs arbitrary: m) (auto simp: enqueue_all_def)

lemma recovery_store:
  "store (startup_recovery sql_now week_ago m) =
     enqueue_all (recovery_stmts sql_now week_ago (committed m)) (store m)"
  by (simp add: startup_recovery_def recovery_stmts_def running_rows_def stale_rows_def Let_def
      store_fold_send store_fold_send2)

lemma fold_interrupt:
  "jobs (fold (apply_write exec_stmt) (map (\<lambda>r. SetJobStatus (job_id r) J_INTERRUPTED now) rows) db) =
     map (\<lambda>r. if job_id r \<in> job_id ` set rows then r\<lparr>job_state := J_INTERRUPTED, updated_at := now\<rparr> else r) (jobs db)
   \<and> job_items (fold (apply_write exec_stmt) (map (\<lambda>r. SetJobStatus (job_id r) J_INTERRUPTED now) rows) db) = job_items db"
proof (induction rows arbitrary: db)
  case (Cons r0 rows)
  let ?db = "apply_write exec_stmt (SetJobStatus (job_id r0) J_INTERRUPTED now) db"
  have "jobs ?db = map (\<lambda>r. if job_id r = job_id r0 then r\<lparr>job_state := J_INTERRUPTED, updated_at := now\<rparr> else r) (jobs db)"
    "job_items ?db = job_items db"
    by (simp_all add: apply_write_def on_job_def update_where_def)
  with Cons.IH [of ?db] show ?case by auto
qed simp

lemma fold_purge:
  "jobs (fold (apply_write exec_stmt)
       (concat (map (\<lambda>r. [SetJobStatusOnly (job_id r) J_FAILED, DeleteItems (job_id r)]) rows)) db) =
     map (\<lambda>r. if job_id r \<in> job_id ` set rows then r\<lparr>job_state := J_FAILED\<rparr> else r) (jobs db)
   \<and> job_items (fold (apply_write exec_stmt)
       (concat (map (\<lambda>r. [SetJobStatusOnly (job_id r) J_FAILED, DeleteItems (job_id r)]) rows)) db) =
     filter (\<lambda>it. item_job it \<notin> job_id ` set rows) (job_items db)"
proof (induction rows arbitrary: db)
  case (Cons r0 rows)
  let ?db = "apply_write exec_stmt (DeleteItems (job_id r0))
     (apply_write exec_stmt (SetJobStatusOnly (job_id r0) J_FAILED) db)"
  have "jobs ?db = map (\<lambda>r. if job_id r = job_id r0 then r\<lparr>job_state := J_FAILED\<rparr> else r) (jobs db)"
    "job_items ?db = filter (\<lambda>it. item_job it \<noteq> job_id r0) (job_items db)"
    by (simp_all add: apply_write_def on_job_def update_where_def)
  moreover have "filter (\<lambda>it. item_job it \<notin> job_id ` set rows) (filter (\<lambda>it. item_job it \<noteq> job_id r0) (job_items db))
    = filter (\<lambda>it. item_job it \<notin> job_id ` set (r0 # rows)) (job_items db)" by (auto intro: filter_cong)
  ultimately show ?case using Cons.IH [of ?db] by auto
qed (simp add: filter_id_conv)

lemma same_row: "distinct (map job_id rs) \<Longrightarrow> r \<in> set rs \<Longrightarrow> r' \<in> set rs \<Longrightarrow> job_id r = job_id r' \<Longrightarrow> r = r'"
  by (auto simp: distinct_map inj_on_def)



end
