(* ===== verification/Job_Api.thy ===== *)
theory Job_Api
  imports Worker
begin

text \<open>
  The job endpoints of \<open>api/routes.py\<close> with the resume handlers of \<open>tools/*/resume.py\<close> and the URL
  scan of \<open>utils/security.py\<close>. An endpoint reads the committed tables, enqueues writes and answers an
  HTTP status (\<open>Inl\<close>) or a result. Messages and log rows are left out.
\<close>

section \<open>The URL scan\<close>

datatype jval = JStr string | JList "jval list" | JDict "(string \<times> jval) list" | JOther

definition is_url :: "string \<Rightarrow> bool" where
  "is_url s \<longleftrightarrow> prefix ''http://'' s \<or> prefix ''https://'' s"

text \<open>\<open>public\<close> is \<open>validate_public_url\<close>: False when it raises. The scan is True when nothing raised.\<close>

fun scan_args_for_urls :: "(string \<Rightarrow> bool) \<Rightarrow> jval \<Rightarrow> bool" where
  "scan_args_for_urls public (JDict kvs) =
     list_all (\<lambda>(k, v). case v of
        JStr s \<Rightarrow> if contains ''url'' (lower k) \<or> is_url s then public s else True
      | _ \<Rightarrow> scan_args_for_urls public v) kvs"
| "scan_args_for_urls public (JList vs) = list_all (scan_args_for_urls public) vs"
| "scan_args_for_urls public (JStr s) = (if is_url s then public s else True)"
| "scan_args_for_urls public JOther = True"

fun strings_of :: "jval \<Rightarrow> string set" where
  "strings_of (JDict kvs) = (\<Union>(k, v) \<in> set kvs. strings_of v)"
| "strings_of (JList vs) = (\<Union>v \<in> set vs. strings_of v)"
| "strings_of (JStr s) = {s}"
| "strings_of JOther = {}"

section \<open>Resume handlers\<close>

record resume_report =
  resumable :: bool
  items_completed :: nat
  items_pending :: nat

definition not_resumable :: resume_report where
  "not_resumable = \<lparr>resumable = False, items_completed = 0, items_pending = 0\<rparr>"

definition find_job :: "string \<Rightarrow> op_db \<Rightarrow> job_row option" where
  "find_job j db = find (\<lambda>r. job_id r = j) (jobs db)"

definition batch_info :: "string \<Rightarrow> op_db \<Rightarrow> batch_row option" where
  "batch_info b db = find (\<lambda>r. batch_id r = b) (batches db)"

definition publish_progress :: "string \<Rightarrow> op_db \<Rightarrow> publish_status \<Rightarrow> nat" where
  "publish_progress b db st =
     length (filter (\<lambda>r. detail_batch r = b \<and> publish_state r = st) (details db))"

definition item_count :: "string \<Rightarrow> string option \<Rightarrow> item_status \<Rightarrow> op_db \<Rightarrow> nat" where
  "item_count j step st db = length (filter (\<lambda>r. item_job r = j \<and> item_state r = st
     \<and> (case step of None \<Rightarrow> True
        | Some s \<Rightarrow> sql_eq (json_extract (item_metadata r) ''step'') (Some (MStr s)))) (job_items db))"

definition publisher_resume :: "string option \<Rightarrow> op_db \<Rightarrow> resume_report" where
  "publisher_resume batch db =
     (case batch of
        None \<Rightarrow> not_resumable
      | Some [] \<Rightarrow> not_resumable
      | Some b \<Rightarrow>
          (case batch_info b db of
             None \<Rightarrow> not_resumable
           | Some info \<Rightarrow>
               if batch_state info = B_COMPLETED
               then \<lparr>resumable = False, items_completed = nat (article_count info), items_pending = 0\<rparr>
               else
                 let progress = publish_progress b db;
                     total = length (filter (\<lambda>r. detail_batch r = b) (details db));
                     completed = progress P_ARCHIVE + progress P_BRIEFING + progress P_SKIPPED;
                     pending = total - completed;
                     failed = progress P_FAILED
                 in \<lparr>resumable = (if 0 < failed \<and> batch_state info \<noteq> B_PUBLISHING then True
                                 else batch_state info \<in> {B_PENDING, B_PARTIAL, B_PUBLISHING} \<and> 0 < pending),
                     items_completed = completed, items_pending = pending\<rparr>))"

definition scraper_resume :: "string \<Rightarrow> string option \<Rightarrow> op_db \<Rightarrow> resume_report" where
  "scraper_resume j target db =
     (case target of
        None \<Rightarrow> not_resumable
      | Some [] \<Rightarrow> not_resumable
      | Some site \<Rightarrow>
          (case find_job j db of
             None \<Rightarrow> not_resumable
           | Some r \<Rightarrow>
               if job_state r \<in> {J_COMPLETED, J_ABANDONED, J_SKIPPED} then not_resumable
               else
                 let n = (\<lambda>st. item_count j (Some ''scrape'') st db);
                     pending = n I_PENDING + n I_FAILED
                 in \<lparr>resumable = (1 \<le> pending \<or> n I_COMPLETED = 0),
                     items_completed = n I_COMPLETED, items_pending = pending\<rparr>))"

text \<open>
  \<open>importlib.import_module\<close> and \<open>mod.ResumeHandler\<close>: a tool without the module is an \<open>ImportError\<close>,
  which the endpoint answers with 501; the two stock tools have the module, but their class has
  another name, and the \<open>AttributeError\<close> is not caught (500).
\<close>

datatype handler_result = Report resume_report | Import_Error | Attribute_Error

definition check_resume_state :: "(string \<Rightarrow> string \<Rightarrow> string option) \<Rightarrow> string \<Rightarrow> string \<Rightarrow> string \<Rightarrow> op_db \<Rightarrow> handler_result" where
  "check_resume_state arg tool j args db =
     (if tool = ''publisher'' then Report (publisher_resume (arg args ''batch_id'') db)
      else if tool = ''scraper'' then Report (scraper_resume j (arg args ''target_site'') db)
      else if tool = ''draft_editor'' \<or> tool = ''batch_reader'' then Report not_resumable
      else if tool = ''stock_financials'' \<or> tool = ''stock_notes'' then Attribute_Error
      else Import_Error)"

section \<open>Endpoints\<close>

definition get_job_status :: "string \<Rightarrow> manager \<Rightarrow> nat + (job_status \<times> string option)" where
  "get_job_status j m =
     (case find_job j (committed m) of
        None \<Rightarrow> Inl 404
      | Some r \<Rightarrow> Inr (job_state r, result_json r))"

definition delete_job :: "string \<Rightarrow> string \<Rightarrow> manager \<Rightarrow> manager" where
  "delete_job j now m =
     (let m1 = send (SetJobStatus j J_CANCELLING now) m
      in case cancellation_flags m j of
           None \<Rightarrow> m1
         | Some _ \<Rightarrow> m1\<lparr>cancellation_flags := (cancellation_flags m1)(j \<mapsto> True)\<rparr>)"

definition active_jobs_metric :: "manager \<Rightarrow> nat" where
  "active_jobs_metric m = card (dom (cancellation_flags m))"

definition resume_job :: "(string \<Rightarrow> string \<Rightarrow> string option) \<Rightarrow> int \<Rightarrow> string \<Rightarrow> string \<Rightarrow> manager
    \<Rightarrow> (nat + resume_report) \<times> manager" where
  "resume_job arg max_attempts j now m =
     (case find_job j (committed m) of
        None \<Rightarrow> (Inl 404, m)
      | Some r \<Rightarrow>
          if job_state r = J_PAUSED_FOR_HITL then (Inl 409, m)
          else case check_resume_state arg (tool_name r) j (args_json r) (committed m) of
            Import_Error \<Rightarrow> (Inl 501, m)
          | Attribute_Error \<Rightarrow> (Inl 500, m)
          | Report rep \<Rightarrow>
              if \<not> resumable rep then (Inl 400, m)
              else if max_attempts \<le> resume_count r then (Inl 400, send (SetJobStatus j J_FAILED now) m)
              else (Inr rep, send (RequeueJob j now) m))"

datatype tool_entry = Registered bool | Degraded | Unknown_Tool

text \<open>
  \<open>Registered v\<close> carries whether \<open>INPUT_MODEL\<close> validates the arguments. An exception of the scan is not
  caught here and becomes a 500.
\<close>

definition new_job :: "string \<Rightarrow> string \<Rightarrow> string \<Rightarrow> string \<Rightarrow> job_row" where
  "new_job new_id tool args_text now = \<lparr>job_id = new_id, session_id = ''0'', tool_name = tool,
     args_json = args_text, job_state = J_QUEUED, retry_count = 0, resume_count = 0,
     created_at = now, updated_at = now, result_json = None\<rparr>"

definition enqueue_tool :: "(string \<Rightarrow> bool) \<Rightarrow> tool_entry \<Rightarrow> string \<Rightarrow> jval \<Rightarrow> string \<Rightarrow> string \<Rightarrow> string \<Rightarrow> manager
    \<Rightarrow> (nat + string) \<times> manager" where
  "enqueue_tool public entry tool args args_text new_id now m =
     (case entry of
        Unknown_Tool \<Rightarrow> (Inl 404, m)
      | Degraded \<Rightarrow> (Inl 503, m)
      | Registered valid \<Rightarrow>
          if \<not> valid then (Inl 422, m)
          else if \<not> scan_args_for_urls public args then (Inl 500, m)
          else (Inr new_id, send (InsertJob (new_job new_id tool args_text now)) m))"

lemma scan_sound_aux: "scan_args_for_urls public v \<Longrightarrow> s \<in> strings_of v \<Longrightarrow> is_url s \<Longrightarrow> public s"
proof (induction public v rule: scan_args_for_urls.induct)
  case (1 public kvs)
  from "1.prems"(2) obtain k v where kv: "(k, v) \<in> set kvs" "s \<in> strings_of v" by auto
  from "1.prems"(1) have "\<forall>x \<in> set kvs. case x of (k, v) \<Rightarrow>
      (case v of JStr t \<Rightarrow> if contains ''url'' (lower k) \<or> is_url t then public t else True
       | _ \<Rightarrow> scan_args_for_urls public v)"
    unfolding scan_args_for_urls.simps list_all_iff .
  from bspec [OF this kv(1)]
  have here: "case v of JStr t \<Rightarrow> if contains ''url'' (lower k) \<or> is_url t then public t else True
      | _ \<Rightarrow> scan_args_for_urls public v" unfolding prod.case .
  show ?case
  proof (cases v)
    case (JStr t)
    with here kv(2) "1.prems"(3) show ?thesis by simp
  next
    case (JList vs)
    with here kv "1.prems"(3) show ?thesis by (intro "1.IH"(1) [OF kv(1) refl]) simp_all
  next
    case (JDict kvs')
    with here kv "1.prems"(3) show ?thesis by (intro "1.IH"(2) [OF kv(1) refl]) simp_all
  next
    case JOther
    with kv(2) show ?thesis by simp
  qed
qed (auto simp: list_all_iff)

text \<open>
  the URL scan misses no URL. When a request is accepted, every string anywhere in its arguments,
  at any depth of lists and dictionaries, that starts with \<open>http://\<close> or \<open>https://\<close> has been
  validated; and exactly one QUEUED job with the answered id was enqueued.
\<close>

theorem accepted_request_is_scanned:
  assumes "enqueue_tool public entry tool args args_text new_id now m = (Inr j, m')"
  shows "j = new_id \<and> (\<forall>s \<in> strings_of args. is_url s \<longrightarrow> public s)
    \<and> (\<exists>r. job_id r = j \<and> job_state r = J_QUEUED \<and> store m' = snd (enqueue True False (Single (InsertJob r)) (store m)))"
proof -
  from assms have acc: "j = new_id" "scan_args_for_urls public args"
    "m' = send (InsertJob (new_job new_id tool args_text now)) m"
    by (auto simp: enqueue_tool_def split: tool_entry.splits if_splits)
  then have "job_id (new_job new_id tool args_text now) = j \<and> job_state (new_job new_id tool args_text now) = J_QUEUED
      \<and> store m' = snd (enqueue True False (Single (InsertJob (new_job new_id tool args_text now))) (store m))"
    by (simp add: new_job_def enqueue_all_def)
  with acc(1) scan_sound_aux [OF acc(2)] show ?thesis by blast
qed

theorem accepted_request_is_scanned_witness:
  "fst (enqueue_tool (\<lambda>s. s = ''https://a.io'') (Registered True) ''scraper''
      (JDict [(''targets'', JList [JStr ''https://a.io'', JStr ''x''])]) ''{}'' ''J'' ''t'' (init_manager empty_db)) = Inr ''J''
   \<and> {s \<in> strings_of (JDict [(''targets'', JList [JStr ''https://a.io'', JStr ''x''])]). is_url s}
        \<subseteq> {''https://a.io''}"
proof -
  let ?args = "JDict [(''targets'', JList [JStr ''https://a.io'', JStr ''x''])]"
  let ?m = "init_manager empty_db"
  have acc: "fst (enqueue_tool (\<lambda>s. s = ''https://a.io'') (Registered True) ''scraper'' ?args ''{}'' ''J'' ''t'' ?m) = Inr ''J''"
    by (simp add: enqueue_tool_def is_url_def)
  then obtain m' where "enqueue_tool (\<lambda>s. s = ''https://a.io'') (Registered True) ''scraper'' ?args ''{}'' ''J'' ''t'' ?m
      = (Inr ''J'', m')" by (metis prod.collapse)
  from accepted_request_is_scanned [OF this] acc show ?thesis by blast
qed

section \<open>Cancellation\<close>

definition cancelling :: "string \<Rightarrow> op_db \<Rightarrow> bool" where
  "cancelling j db \<longleftrightarrow> j \<in> set (map job_id (jobs db))
     \<and> (\<forall>r \<in> set (jobs db). job_id r = j \<longrightarrow> job_state r = J_CANCELLING)"

fun spares :: "string \<Rightarrow> stmt \<Rightarrow> bool" where
  "spares j (InsertJob r) = (job_id r \<noteq> j)"
| "spares j (SetJobStatus j' st now) = (j' \<noteq> j)"
| "spares j (SetJobStatusOnly j' st) = (j' \<noteq> j)"
| "spares j (SetJobResult j' st res now) = (j' \<noteq> j)"
| "spares j (SetPendingCallback j' res now) = (j' \<noteq> j)"
| "spares j (SetJobPartialRetry j' n now) = (j' \<noteq> j)"
| "spares j (RequeueJob j' now) = (j' \<noteq> j)"
| "spares j _ = True"

lemma ids_on_job:
  "(\<And>r. job_id (f r) = job_id r) \<Longrightarrow> map job_id (jobs (on_job j f db)) = map job_id (jobs db)"
  by (simp add: jobs_on_job map_update_where)

lemma cancelling_on_job:
  assumes "cancelling j db" "\<And>r. job_id (f r) = job_id r" "j' = j \<Longrightarrow> (\<And>r. job_state (f r) = job_state r)"
  shows "cancelling j (on_job j' f db)"
proof -
  have "j \<in> set (map job_id (jobs (on_job j' f db)))"
    using assms(1,2) by (simp only: ids_on_job cancelling_def)
  with assms show ?thesis by (auto simp: cancelling_def jobs_on_job set_update_where)
qed

lemma cancelling_others [simp]:
  "cancelling j (on_items p f db) = cancelling j db" "cancelling j (on_batch b g db) = cancelling j db"
  "cancelling j (on_details q h db) = cancelling j db"
  by (simp_all add: cancelling_def jobs_only_job_stmts)

lemma cancelling_exec:
  assumes "spares j s" "cancelling j db" "exec_stmt s db = Inr db'"
  shows "cancelling j db'"
proof (cases s)
  case (InsertJob r)
  with assms show ?thesis by (auto simp: cancelling_def split: if_splits)
next
  case (AddItem j' md inp now)
  with assms show ?thesis by (auto simp: cancelling_def jobs_only_job_stmts(4) split: if_splits)
next
  case (InsertItem j' md now)
  with assms show ?thesis by (auto simp: cancelling_def jobs_only_job_stmts(4))
next
  case (DeleteItems j')
  with assms show ?thesis by (auto simp: cancelling_def)
next
  case (InsertBatch r)
  with assms show ?thesis by (auto simp: cancelling_def split: if_splits)
next
  case (InsertDetail b a is10 rank ts)
  with assms show ?thesis by (auto simp: cancelling_def split: if_splits)
qed (use assms in \<open>auto intro!: cancelling_on_job\<close>)

interpretation ops_cancel: guarded_engine "\<lambda>t. exec_stmt" "\<lambda>_ _. None" "spares j" "cancelling j" for j
  by unfold_locales (auto intro: cancelling_exec)

definition left_alone :: "string \<Rightarrow> manager \<Rightarrow> bool" where
  "left_alone j m \<longleftrightarrow> guarded (spares j) (cancelling j) (store m) \<and> (\<forall>t \<in> set (threads m). thread_job t \<noteq> j)"

lemma poll_left_alone:
  assumes "left_alone j m"
  shows "left_alone j (poll threshold now m)"
proof -
  have "cancelling j (committed m)" using assms by (simp add: left_alone_def guarded_def committed_def)
  then have other: "\<forall>r \<in> set (poll_rows threshold (committed m)). job_id r \<noteq> j"
    by (auto simp: cancelling_def eligible_def dest!: poll_rows_subset)
  have "guarded (spares j) (cancelling j) (store (poll threshold now m))"
    unfolding poll_effect(2)
    by (rule guarded_enqueue_all) (use assms other in \<open>auto simp: left_alone_def claims_def\<close>)
  moreover have "thread_job (thread_of r) = job_id r" for r by (simp add: thread_of_def)
  ultimately show ?thesis using assms other by (auto simp: left_alone_def poll_effect(1))
qed

lemma finish_left_alone:
  assumes "left_alone j m"
  shows "left_alone j (finish_thread env i outcome net now m)"
proof (cases "i < length (threads m)")
  case True
  define m1 where "m1 = m\<lparr>threads := take i (threads m) @ drop (Suc i) (threads m)\<rparr>"
  have m1: "left_alone j m1" using assms
    by (auto simp: left_alone_def m1_def dest!: in_set_takeD in_set_dropD)
  have other: "thread_job (threads m ! i) \<noteq> j" using True assms by (simp add: left_alone_def)
  have result: "finish_thread env i outcome net now m = (case threads m ! i of
      Run j' session tool args \<Rightarrow> run_job env j' outcome net now m1
    | Retry j' res n \<Rightarrow> retry_callback_only env j' n net now m1)"
    unfolding m1_def using True by (simp add: finish_thread_def Let_def)
  show ?thesis
  proof (cases "threads m ! i")
    case (Run j' session tool args)
    have "spares j (run_stmt env j' outcome net now errs)" for errs
      using other Run by (cases outcome) (auto simp: run_stmt_def)
    with m1 Run show ?thesis
      by (auto simp: result left_alone_def run_job_effect guarded_enqueue_all)
  next
    case (Retry j' res n)
    have "spares j (retry_stmt env j' n net now)"
      using other Retry by (auto simp: retry_stmt_def)
    with m1 Retry show ?thesis by (auto simp: result left_alone_def retry_effect guarded_enqueue_all)
  qed
qed (use assms in \<open>simp add: finish_thread_def\<close>)

lemma step_left_alone [step_inv]: "left_alone j m \<Longrightarrow> left_alone j (manager_step env e m)"
proof (cases e)
  case Writer_Round
  assume "left_alone j m"
  with Writer_Round show ?thesis by (simp add: left_alone_def writer_runs_def ops_cancel.round_guarded)
qed (simp_all add: poll_left_alone finish_left_alone)

interpretation cancelled_run: step_invariant "manager_step env" "left_alone j" for env j
  by unfold_locales (rule step_left_alone)

text \<open>
  a cancelled job that is not running is never finished. Once \<open>DELETE\<close> has marked a job that no
  thread works on (a queued one, or one already COMPLETED or FAILED) and the writer caught up, no poll,
  thread end or writer round changes its row again: it stays CANCELLING, and nothing honours the mark.
\<close>

theorem cancelled_job_stays_cancelling:
  assumes "\<exists>r \<in> set (jobs (committed m)). job_id r = j" "write_queue (store m) = []"
    and "\<forall>t \<in> set (threads m). thread_job t \<noteq> j"
    and "m1 = delete_job j now m" "m2 = m1\<lparr>store := drain (store m1)\<rparr>"
  shows "\<forall>r \<in> set (jobs (committed (fold (manager_step env) events m2))). job_id r = j \<longrightarrow> job_state r = J_CANCELLING"
proof -
  have frame: "store m1 = enqueue_all [SetJobStatus j J_CANCELLING now] (store m)" "threads m1 = threads m"
    using assms(4) by (simp_all add: delete_job_def Let_def split: option.split)
  have "contents (drain (store m1)) = apply_write exec_stmt (SetJobStatus j J_CANCELLING now) (committed m)"
    using drain_enqueue_all [OF assms(2), of "[SetJobStatus j J_CANCELLING now]"]
    by (simp add: frame committed_def queue_maxsize_def)
  then have written: "contents (drain (store m1)) =
      on_job j (\<lambda>r. r\<lparr>job_state := J_CANCELLING, updated_at := now\<rparr>) (committed m)"
    by (simp add: apply_write_def)
  have marked: "cancelling j (contents (drain (store m1)))"
    unfolding written cancelling_def
    using assms(1) by (simp add: ids_on_job del: set_map) (auto simp: jobs_on_job set_update_where)
  have "write_queue (store m1) = [Task None (Single (SetJobStatus j J_CANCELLING now))]"
    using assms(2) by (simp add: frame enqueue_all_room queue_maxsize_def)
  moreover have "alive (store m1)" by (simp add: frame enqueue_all_frame)
  ultimately have "write_queue (drain (store m1)) = []"
    by (simp add: drain_def writer_round_def run_task_frame)
  with marked have "left_alone j m2" using assms(3,5) frame by (simp add: left_alone_def guarded_def)
  from cancelled_run.run_keeps [OF this, of env events] show ?thesis
    by (auto simp: left_alone_def guarded_def cancelling_def committed_def)
qed

theorem cancelled_job_stays_cancelling_witness:
  "let m = init_manager (empty_db\<lparr>jobs := [demo_job ''J'' J_QUEUED 0 ''t'']\<rparr>);
       m1 = delete_job ''J'' ''t1'' m; m2 = m1\<lparr>store := drain (store m1)\<rparr>
   in \<forall>r \<in> set (jobs (committed (fold (manager_step \<lparr>configured = True, dumps = \<lambda>st out. out\<rparr>)
        [Poll ''z'' ''t2'', Writer_Round, Poll ''z'' ''t3''] m2))). job_id r = ''J'' \<longrightarrow> job_state r = J_CANCELLING"
proof -
  let ?m = "init_manager (empty_db\<lparr>jobs := [demo_job ''J'' J_QUEUED 0 ''t'']\<rparr>)"
  have "\<exists>r \<in> set (jobs (committed ?m)). job_id r = ''J''" "write_queue (store ?m) = []"
    "\<forall>t \<in> set (threads ?m). thread_job t \<noteq> ''J''"
    by (simp_all add: demo_job_def)
  from cancelled_job_stays_cancelling [OF this refl refl] show ?thesis
    unfolding Let_def by blast
qed

section \<open>Resuming\<close>

definition max_resume_attempts :: int where "max_resume_attempts = 3"

definition resume_and_drain :: "(string \<Rightarrow> string \<Rightarrow> string option) \<Rightarrow> string \<times> string \<Rightarrow> manager \<Rightarrow> manager" where
  "resume_and_drain arg req m =
     (let m1 = snd (resume_job arg max_resume_attempts (fst req) (snd req) m)
      in m1\<lparr>store := drain (store m1)\<rparr>)"

definition resumes_bounded :: "manager \<Rightarrow> bool" where
  "resumes_bounded m \<longleftrightarrow> wf_db (committed m) \<and> write_queue (store m) = []
     \<and> (\<forall>r \<in> set (jobs (committed m)). resume_count r \<le> max_resume_attempts)"

lemma drain_one:
  assumes "write_queue w = []"
  shows "contents (drain (enqueue_all [s] w)) = apply_write exec_stmt s (contents w)"
    and "write_queue (drain (enqueue_all [s] w)) = []"
proof -
  have one: "length [s] \<le> queue_maxsize" by (simp add: queue_maxsize_def)
  from drain_enqueue_all [OF assms one] show "contents (drain (enqueue_all [s] w)) = apply_write exec_stmt s (contents w)"
    by simp
  have "write_queue (enqueue_all [s] w) = [Task None (Single s)]"
    using assms one by (simp add: enqueue_all_room)
  then show "write_queue (drain (enqueue_all [s] w)) = []"
    using enqueue_all_frame(2) [of "[s]" w] by (simp add: drain_def writer_round_def run_task_frame)
qed

lemma find_job_mem: "find_job j db = Some r \<Longrightarrow> r \<in> set (jobs db) \<and> job_id r = j"
  by (auto simp: find_job_def find_Some_iff)

lemma resume_cases:
  obtains (unchanged) "snd (resume_job arg k j now m) = m" "isl (fst (resume_job arg k j now m))"
  | (poisoned) r where "find_job j (committed m) = Some r" "k \<le> resume_count r"
      "resume_job arg k j now m = (Inl 400, send (SetJobStatus j J_FAILED now) m)"
  | (accepted) r rep where "find_job j (committed m) = Some r" "resume_count r < k"
      "job_state r \<noteq> J_PAUSED_FOR_HITL" "resumable rep"
      "check_resume_state arg (tool_name r) j (args_json r) (committed m) = Report rep"
      "resume_job arg k j now m = (Inr rep, send (RequeueJob j now) m)"
proof (cases "find_job j (committed m)")
  case None
  then show ?thesis by (intro unchanged) (simp_all add: resume_job_def)
next
  case (Some r)
  show ?thesis
  proof (cases "job_state r = J_PAUSED_FOR_HITL")
    case True
    with Some show ?thesis by (intro unchanged) (simp_all add: resume_job_def)
  next
    case False
    show ?thesis
    proof (cases "check_resume_state arg (tool_name r) j (args_json r) (committed m)")
      case (Report rep)
      consider "\<not> resumable rep" | "resumable rep" "k \<le> resume_count r" | "resumable rep" "resume_count r < k"
        by linarith
      then show ?thesis
      proof cases
        case 1
        with Some False Report show ?thesis by (intro unchanged) (simp_all add: resume_job_def)
      next
        case 2
        with Some False Report show ?thesis by (intro poisoned) (simp_all add: resume_job_def)
      next
        case 3
        with Some False Report show ?thesis by (intro accepted) (simp_all add: resume_job_def)
      qed
    qed (use Some False in \<open>intro unchanged; simp add: resume_job_def\<close>)+
  qed
qed

lemma resume_step_bounded [step_inv]:
  assumes "resumes_bounded m"
  shows "resumes_bounded (resume_and_drain arg req m)"
proof (cases rule: resume_cases [of arg max_resume_attempts "fst req" "snd req" m])
  case unchanged
  with assms show ?thesis by (simp add: resume_and_drain_def Let_def resumes_bounded_def drain_def committed_def)
next
  case (poisoned r)
  with assms show ?thesis
    by (auto simp: resume_and_drain_def resumes_bounded_def committed_def drain_one apply_write_def jobs_on_job
        set_update_where wf_update)
next
  case (accepted r rep)
  have "distinct (map job_id (jobs (committed m)))" using assms by (simp add: resumes_bounded_def wf_db_def)
  then have unique: "r' = r" if "r' \<in> set (jobs (committed m))" "job_id r' = fst req" for r'
    using that find_job_mem [OF accepted(1)] same_row [of "jobs (committed m)" r' r] by simp
  then have "resume_count r' + 1 \<le> max_resume_attempts"
      if "r' \<in> set (jobs (committed m))" "job_id r' = fst req" for r'
    using that accepted(2) by fastforce
  with accepted assms show ?thesis
    by (auto simp: resume_and_drain_def resumes_bounded_def committed_def drain_one apply_write_def jobs_on_job
        set_update_where wf_update)
qed

interpretation resume_run: step_invariant "resume_and_drain arg" resumes_bounded for arg
  by unfold_locales (rule resume_step_bounded)

text \<open>
  the poison pill. When each resume request is answered and written before the next, no sequence of
  requests for any jobs brings a job's \<open>resume_count\<close> above \<open>MAX_RESUME_ATTEMPTS\<close>, and a request
  for a job that is at the limit is answered 400 and marks it FAILED if its tool would have resumed it.
\<close>

theorem resume_attempts_bounded:
  assumes "wf_db db" "\<forall>r \<in> set (jobs db). resume_count r = 0"
  shows "let m = fold (resume_and_drain arg) requests (init_manager db) in
     (\<forall>r \<in> set (jobs (committed m)). resume_count r \<le> max_resume_attempts)
     \<and> (\<forall>j r rep. find_job j (committed m) = Some r \<and> resume_count r = max_resume_attempts
          \<and> job_state r \<noteq> J_PAUSED_FOR_HITL
          \<and> check_resume_state arg (tool_name r) j (args_json r) (committed m) = Report rep \<and> resumable rep
          \<longrightarrow> resume_job arg max_resume_attempts j now m = (Inl 400, send (SetJobStatus j J_FAILED now) m))"
proof -
  have "resumes_bounded (init_manager db)"
    using assms by (simp add: resumes_bounded_def max_resume_attempts_def)
  from resume_run.run_keeps [OF this, of arg requests] show ?thesis
    by (simp add: Let_def resumes_bounded_def resume_job_def)
qed

theorem resume_attempts_bounded_witness:
  "let m = fold (resume_and_drain (\<lambda>args k. Some ''site'')) [(''J'', ''t1''), (''J'', ''t2''), (''K'', ''t3'')]
       (init_manager (empty_db\<lparr>jobs := [demo_job ''J'' J_FAILED 0 ''t'']\<rparr>)) in
     \<forall>r \<in> set (jobs (committed m)). resume_count r \<le> max_resume_attempts"
proof -
  let ?db = "empty_db\<lparr>jobs := [demo_job ''J'' J_FAILED 0 ''t'']\<rparr>"
  have "wf_db ?db" "\<forall>r \<in> set (jobs ?db). resume_count r = 0" by (simp_all add: wf_db_def empty_db_def demo_job_def)
  from resume_attempts_bounded [OF this] show ?thesis unfolding Let_def by blast
qed

text \<open>
  a running job can be resumed into a second run. The endpoint excludes only paused jobs, and the
  scraper's handler accepts every state but three: while no URL of a RUNNING scraper job is completed,
  resuming it is accepted, its row becomes QUEUED although its thread is still in flight, and every
  later poll sees it as eligible.
\<close>

theorem running_job_is_requeued:
  assumes "find_job j (committed m) = Some r" "job_state r = J_RUNNING" "tool_name r = ''scraper''"
    and "arg (args_json r) ''target_site'' = Some (c # site)" "item_count j (Some ''scrape'') I_COMPLETED (committed m) = 0"
    and "resume_count r < max_resume_attempts" "write_queue (store m) = []"
    and "m' = resume_and_drain arg (j, now) m"
  shows "isl (fst (resume_job arg max_resume_attempts j now m)) = False
    \<and> threads m' = threads m
    \<and> (\<exists>r'. find_job j (committed m') = Some r' \<and> job_state r' = J_QUEUED
          \<and> resume_count r' = resume_count r + 1 \<and> (\<forall>threshold. eligible threshold r'))"
proof -
  have accepted: "\<exists>rep. resume_job arg max_resume_attempts j now m = (Inr rep, send (RequeueJob j now) m)"
    using assms(1-6) by (simp add: resume_job_def check_resume_state_def scraper_resume_def Let_def)
  then have m': "m' = (send (RequeueJob j now) m)\<lparr>store := drain (store (send (RequeueJob j now) m))\<rparr>"
    using assms(8) by (auto simp: resume_and_drain_def)
  have "committed m' = on_job j (\<lambda>r. r\<lparr>job_state := J_QUEUED, resume_count := resume_count r + 1, updated_at := now\<rparr>)
      (committed m)"
    using assms(7) by (simp add: m' committed_def drain_one apply_write_def)
  then have "find_job j (committed m') = Some (r\<lparr>job_state := J_QUEUED, resume_count := resume_count r + 1, updated_at := now\<rparr>)"
    using assms(1) find_job_mem [OF assms(1)] by (simp add: find_job_def jobs_on_job find_update_where)
  moreover have "threads m' = threads m" by (simp add: m')
  ultimately show ?thesis using accepted by (auto simp: eligible_def)
qed

theorem running_job_is_requeued_witness:
  "let m = init_manager (empty_db\<lparr>jobs := [demo_job ''J'' J_RUNNING 0 ''t'']\<rparr>);
       m' = resume_and_drain (\<lambda>args k. Some ''reuters'') (''J'', ''t1'') m
   in \<exists>r'. find_job ''J'' (committed m') = Some r' \<and> job_state r' = J_QUEUED"
proof -
  let ?m = "init_manager (empty_db\<lparr>jobs := [demo_job ''J'' J_RUNNING 0 ''t'']\<rparr>)"
  have "find_job ''J'' (committed ?m) = Some (demo_job ''J'' J_RUNNING 0 ''t'')"
    by (simp add: find_job_def demo_job_def)
  from running_job_is_requeued [OF this, of "\<lambda>args k. Some ''reuters''" "CHR ''r''" "''euters''" _ "''t1''"]
  show ?thesis by (simp add: demo_job_def item_count_def empty_db_def max_resume_attempts_def Let_def) blast
qed

end
