(* ===== verification/Broadcast.thy ===== *)
theory Broadcast
  imports Job_Api "HOL-Library.Option_ord" "HOL-Library.Multiset"
begin

text \<open>
  \<open>database/broadcast/\<close>: the batches and their article rows, the verdict of a batch from the rows,
  the ranked queries, and the entry of \<open>tools/publisher/tool.py\<close> with its publishing lock. The copies
  sent to the cloud writer are left out here; the scraped articles are their ids.
\<close>

section \<open>Writes\<close>

definition create_broadcast_batch :: "string \<Rightarrow> string \<Rightarrow> int \<Rightarrow> int \<Rightarrow> string option \<Rightarrow> string \<Rightarrow> stmt" where
  "create_broadcast_batch b site n_articles n_top10 job now =
     InsertBatch \<lparr>batch_id = b, target_site = site, article_count = n_articles, top10_count = n_top10,
       batch_state = B_PENDING, source_job_id = job, batch_created = now, batch_updated = now\<rparr>"

definition add_broadcast_detail :: "string \<Rightarrow> string \<Rightarrow> bool \<Rightarrow> int option \<Rightarrow> string \<Rightarrow> stmt" where
  "add_broadcast_detail b a top10 rank now = InsertDetail b a top10 rank now"

text \<open>
  \<open>top10_ulids\<close> maps the ulid of a Top-10 entry to its position; a later duplicate overwrites an
  earlier one. Articles come as their \<open>ulid or id\<close>, the empty string when both are missing.
\<close>

definition top10_ranks :: "string list \<Rightarrow> string \<Rightarrow> int option" where
  "top10_ranks top10 = map_of (rev (zip top10 (map int [0..<length top10])))"

definition add_broadcast_details_bulk :: "string \<Rightarrow> string list \<Rightarrow> string list \<Rightarrow> string \<Rightarrow> stmt list" where
  "add_broadcast_details_bulk b arts top10 now =
     map (\<lambda>a. InsertDetail b a (top10_ranks top10 a \<noteq> None) (top10_ranks top10 a) now) (filter (\<lambda>a. a \<noteq> []) arts)"

definition update_detail_publish_status :: "string \<Rightarrow> string \<Rightarrow> publish_status
    \<Rightarrow> (string \<times> string option \<times> string option) option \<Rightarrow> string \<Rightarrow> stmt" where
  "update_detail_publish_status b a st translation now =
     (case translation of
        Some (title, summary, conclusion) \<Rightarrow> SetDetailTranslated b a st title summary conclusion now
      | None \<Rightarrow> SetDetailStatus b a st now)"

definition mark_detail_published :: "string \<Rightarrow> string \<Rightarrow> string \<Rightarrow> string \<Rightarrow> stmt list" where
  "mark_detail_published b a phase now =
     (if phase = ''briefing'' then [SetDetailStatus b a P_BRIEFING now]
      else if phase = ''archive'' then [SetDetailStatus b a P_ARCHIVE now]
      else [])"

definition reset_batch_publish_status :: "string \<Rightarrow> string \<Rightarrow> stmt" where
  "reset_batch_publish_status b now = ResetDetails b now"

section \<open>The verdict\<close>

definition batch_rows :: "string \<Rightarrow> op_db \<Rightarrow> detail_row list" where
  "batch_rows b db = filter (\<lambda>r. detail_batch r = b) (details db)"

definition count_state :: "publish_status \<Rightarrow> detail_row list \<Rightarrow> nat" where
  "count_state st rows = length (filter (\<lambda>r. publish_state r = st) rows)"

definition verdict :: "detail_row list \<Rightarrow> batch_status" where
  "verdict rows =
     (let total = length rows; published = count_state P_ARCHIVE rows;
          failed = count_state P_FAILED rows; skipped = count_state P_SKIPPED rows
      in if published + skipped = total \<and> 0 < published then B_COMPLETED
         else if failed = total \<or> failed + skipped = total then B_FAILED
         else if 0 < published \<or> 0 < failed then B_PARTIAL
         else B_PENDING)"

definition update_batch_status_from_details :: "string \<Rightarrow> string \<Rightarrow> op_db \<Rightarrow> stmt list" where
  "update_batch_status_from_details b now db =
     (if batch_rows b db = [] then [] else [SetBatchStatus b (verdict (batch_rows b db)) now])"

lemma count_two:
  "st \<noteq> st' \<Longrightarrow> count_state st rows + count_state st' rows \<le> length rows"
  "st \<noteq> st' \<Longrightarrow> count_state st rows + count_state st' rows = length rows
     \<longleftrightarrow> (\<forall>r \<in> set rows. publish_state r = st \<or> publish_state r = st')"
proof -
  assume ne: "st \<noteq> st'"
  show le: "count_state st rows + count_state st' rows \<le> length rows" for rows
    using ne by (induction rows) (auto simp: count_state_def)
  show "count_state st rows + count_state st' rows = length rows
     \<longleftrightarrow> (\<forall>r \<in> set rows. publish_state r = st \<or> publish_state r = st')"
  proof (induction rows)
    case (Cons r rows)
    with le [of rows] ne show ?case by (auto simp: count_state_def)
  qed (simp add: count_state_def)
qed

lemma count_pos: "0 < count_state st rows \<longleftrightarrow> (\<exists>r \<in> set rows. publish_state r = st)"
  by (auto simp: count_state_def filter_empty_conv)

lemma count_all: "count_state st rows = length rows \<longleftrightarrow> (\<forall>r \<in> set rows. publish_state r = st)"
proof -
  have "count_state st rows = length rows \<longleftrightarrow> filter (\<lambda>r. publish_state r = st) rows = rows"
    unfolding count_state_def by (metis filter_id_conv length_filter_less less_irrefl)
  then show ?thesis by (simp add: filter_id_conv)
qed

lemma verdict_partial:
  assumes "r1 \<in> set rows" "publish_state r1 = P_ARCHIVE" "r2 \<in> set rows"
    and "publish_state r2 \<notin> {P_ARCHIVE, P_SKIPPED}"
  shows "verdict rows = B_PARTIAL"
proof -
  have "\<not> (\<forall>r \<in> set rows. publish_state r = P_ARCHIVE \<or> publish_state r = P_SKIPPED)"
    using assms(3,4) by (auto intro!: bexI [of _ r2])
  moreover have "\<not> (\<forall>r \<in> set rows. publish_state r = P_FAILED)" using assms(1,2) by (auto intro!: bexI [of _ r1])
  moreover have "\<not> (\<forall>r \<in> set rows. publish_state r = P_FAILED \<or> publish_state r = P_SKIPPED)"
    using assms(1,2) by (auto intro!: bexI [of _ r1])
  moreover have "0 < count_state P_ARCHIVE rows" using assms(1,2) count_pos by blast
  ultimately show ?thesis by (simp add: verdict_def Let_def count_two(2) count_all)
qed

text \<open>
  what a batch's status means. For a batch with rows, the verdict is COMPLETED exactly when every
  article is in the archive channel or skipped and at least one is in the archive; FAILED exactly when
  every article failed or was skipped; PENDING exactly when none is in the archive or failed and one is
  not skipped; PARTIAL otherwise. An article that only reached the briefing channel counts as pending.
\<close>

theorem verdict_meaning:
  assumes "rows \<noteq> []"
  shows "(verdict rows = B_COMPLETED \<longleftrightarrow> (\<forall>r \<in> set rows. publish_state r \<in> {P_ARCHIVE, P_SKIPPED})
            \<and> (\<exists>r \<in> set rows. publish_state r = P_ARCHIVE))
    \<and> (verdict rows = B_FAILED \<longleftrightarrow> (\<forall>r \<in> set rows. publish_state r \<in> {P_FAILED, P_SKIPPED}))
    \<and> (verdict rows = B_PENDING \<longleftrightarrow> (\<forall>r \<in> set rows. publish_state r \<notin> {P_ARCHIVE, P_FAILED})
            \<and> (\<exists>r \<in> set rows. publish_state r \<noteq> P_SKIPPED))
    \<and> verdict rows \<noteq> B_PUBLISHING"
proof -
  have completed: "verdict rows = B_COMPLETED \<longleftrightarrow> (\<forall>r \<in> set rows. publish_state r = P_ARCHIVE \<or> publish_state r = P_SKIPPED)
     \<and> (\<exists>r \<in> set rows. publish_state r = P_ARCHIVE)"
    by (simp add: verdict_def Let_def count_two(2) count_pos)
  have failed: "failed = length rows \<Longrightarrow> failed = count_state P_FAILED rows \<Longrightarrow>
      \<forall>r \<in> set rows. publish_state r = P_FAILED \<or> publish_state r = P_SKIPPED" for failed
    by (simp add: count_all)
  have not_both: "(\<forall>r \<in> set rows. publish_state r = P_FAILED \<or> publish_state r = P_SKIPPED)
      \<Longrightarrow> \<not> (\<exists>r \<in> set rows. publish_state r = P_ARCHIVE)" by auto
  show ?thesis
    using assms completed failed not_both
    by (auto simp: verdict_def Let_def count_two(2) count_pos count_all split: if_splits)
qed

definition demo_detail :: "nat \<Rightarrow> string \<Rightarrow> string \<Rightarrow> publish_status \<Rightarrow> detail_row" where
  "demo_detail n b a st = (new_detail n b a True (Some (int n)) ''t'')\<lparr>publish_state := st\<rparr>"

theorem verdict_meaning_witness:
  "verdict [demo_detail 0 ''B'' ''x'' P_ARCHIVE, demo_detail 1 ''B'' ''y'' P_SKIPPED] = B_COMPLETED
   \<and> verdict [demo_detail 0 ''B'' ''x'' P_ARCHIVE, demo_detail 1 ''B'' ''y'' P_BRIEFING] \<noteq> B_COMPLETED"
  using verdict_meaning [of "[demo_detail 0 ''B'' ''x'' P_ARCHIVE, demo_detail 1 ''B'' ''y'' P_SKIPPED]"]
    verdict_meaning [of "[demo_detail 0 ''B'' ''x'' P_ARCHIVE, demo_detail 1 ''B'' ''y'' P_BRIEFING]"]
  by (simp add: demo_detail_def new_detail_def)

section \<open>The ranked queries\<close>

text \<open>\<open>ORDER BY is_top10 DESC, top10_rank ASC, detail_id ASC\<close>; NULL sorts first.\<close>

definition rank_order :: "detail_row \<Rightarrow> bool \<times> int option \<times> nat" where
  "rank_order r = (\<not> is_top10 r, top10_rank r, detail_id r)"

definition get_batch_articles :: "string \<Rightarrow> bool \<Rightarrow> op_db \<Rightarrow> detail_row list" where
  "get_batch_articles b top10_only db =
     sort_key rank_order (filter (\<lambda>r. \<not> top10_only \<or> is_top10 r) (batch_rows b db))"

definition get_details_for_publish :: "string \<Rightarrow> op_db \<Rightarrow> detail_row list" where
  "get_details_for_publish b db =
     sort_key rank_order (filter (\<lambda>r. publish_state r \<in> {P_PENDING, P_FAILED, P_TRANSLATING, P_BRIEFING})
       (batch_rows b db))"

lemma top10_ranks_nth:
  assumes "distinct top10"
  shows "top10_ranks top10 a = Some k \<longleftrightarrow> (\<exists>i < length top10. a = top10 ! i \<and> k = int i)"
proof -
  have "distinct (map fst (rev (zip top10 (map int [0..<length top10]))))"
    using assms by (simp add: rev_map [symmetric])
  then have "top10_ranks top10 a = Some k \<longleftrightarrow> (a, k) \<in> set (zip top10 (map int [0..<length top10]))"
    by (simp add: top10_ranks_def)
  then show ?thesis by (auto simp: in_set_zip)
qed

lemma top10_ranks_none: "top10_ranks top10 a = None \<longleftrightarrow> a \<notin> set top10"
proof -
  have "top10_ranks top10 a = None \<longleftrightarrow> a \<notin> set (map fst (zip top10 (map int [0..<length top10])))"
    by (simp only: top10_ranks_def map_of_eq_None_iff set_rev set_map)
  then show ?thesis by (simp only: map_fst_zip length_map length_upt diff_zero)
qed

definition bulk_row :: "string \<Rightarrow> string list \<Rightarrow> string \<Rightarrow> nat \<Rightarrow> string \<Rightarrow> detail_row" where
  "bulk_row b top10 now n a = new_detail n b a (top10_ranks top10 a \<noteq> None) (top10_ranks top10 a) now"

lemma bulk_applied:
  assumes "[] \<notin> set arts" "distinct arts" "set arts \<subseteq> set (articles db)" "b \<in> set (map batch_id (batches db))"
    and "\<forall>r \<in> set (details db). detail_batch r = b \<longrightarrow> article_id r \<notin> set arts"
  shows "details (fold (apply_write exec_stmt) (add_broadcast_details_bulk b arts top10 now) db) =
     details db @ map2 (bulk_row b top10 now) [next_detail db..<next_detail db + length arts] arts"
  using assms
proof (induction arts arbitrary: db)
  case (Cons a arts)
  let ?db = "db\<lparr>details := details db @ [bulk_row b top10 now (next_detail db) a],
     next_detail := Suc (next_detail db)\<rparr>"
  have "apply_write exec_stmt (InsertDetail b a (top10_ranks top10 a \<noteq> None) (top10_ranks top10 a) now) db = ?db"
    using Cons.prems by (auto simp: apply_write_def is_detail_def bulk_row_def)
  moreover have "details (fold (apply_write exec_stmt) (add_broadcast_details_bulk b arts top10 now) ?db) =
     details ?db @ map2 (bulk_row b top10 now) [next_detail ?db..<next_detail ?db + length arts] arts"
    by (rule Cons.IH) (use Cons.prems in \<open>auto simp: bulk_row_def new_detail_def\<close>)
  moreover have "[next_detail db..<next_detail db + length (a # arts)] =
      next_detail db # [Suc (next_detail db)..<Suc (next_detail db) + length arts]"
    by (subst upt_conv_Cons) (simp_all del: upt_Suc)
  moreover have "add_broadcast_details_bulk b (a # arts) top10 now =
      InsertDetail b a (top10_ranks top10 a \<noteq> None) (top10_ranks top10 a) now # add_broadcast_details_bulk b arts top10 now"
    using Cons.prems(1) by (auto simp: add_broadcast_details_bulk_def)
  ultimately show ?case by (simp only: fold_simps) simp
qed (simp add: add_broadcast_details_bulk_def)

lemma sort_key_unique:
  assumes "mset ys = mset xs" "distinct (map f ys)" "sorted (map f ys)"
  shows "sort_key f xs = ys"
proof (rule sort_key_inj_key_eq)
  show "inj_on f (set xs)"
    using assms(1,2) by (metis distinct_map mset_eq_setD)
qed (use assms in simp_all)

text \<open>
  ranks survive the table. When a batch without rows gets its articles in one bulk insertion, the
  Top-10 query returns exactly the given Top-10 list in its order, whatever the order of the articles.
\<close>

theorem bulk_insert_keeps_ranking:
  assumes "[] \<notin> set arts" "distinct arts" "set arts \<subseteq> set (articles db)" "b \<in> set (map batch_id (batches db))"
    and "batch_rows b db = []" "distinct top10" "set top10 \<subseteq> set arts"
  shows "map article_id (get_batch_articles b True
      (fold (apply_write exec_stmt) (add_broadcast_details_bulk b arts top10 now) db)) = top10"
proof -
  let ?new = "map2 (bulk_row b top10 now) [next_detail db..<next_detail db + length arts] arts"
  let ?top = "filter is_top10 ?new"
  define pos where "pos a = (THE i. i < length arts \<and> arts ! i = a)" for a
  define row where "row a = bulk_row b top10 now (next_detail db + pos a) a" for a
  have pos: "pos (arts ! i) = i" if "i < length arts" for i
    unfolding pos_def using that assms(2) by (auto simp: nth_eq_iff_index_eq)
  have new: "?new = map row arts"
  proof (rule nth_equalityI)
    fix i assume "i < length ?new"
    then show "?new ! i = map row arts ! i" using pos by (simp add: row_def)
  qed simp
  have top10_row: "is_top10 (row a) \<longleftrightarrow> a \<in> set top10" "article_id (row a) = a"
    "top10_rank (row a) = top10_ranks top10 a" for a
    by (auto simp: row_def bulk_row_def new_detail_def top10_ranks_none)
  have rows: "get_batch_articles b True (fold (apply_write exec_stmt) (add_broadcast_details_bulk b arts top10 now) db)
      = sort_key rank_order (map row (filter (\<lambda>a. a \<in> set top10) arts))"
  proof -
    have "\<forall>r \<in> set (details db). detail_batch r \<noteq> b"
      using assms(5) by (simp add: batch_rows_def filter_empty_conv)
    moreover have "detail_batch (row a) = b" for a by (simp add: row_def bulk_row_def new_detail_def)
    ultimately show ?thesis
      using bulk_applied [OF assms(1-4), of top10 now]
      by (simp add: get_batch_articles_def batch_rows_def new filter_map o_def top10_row)
  qed
  have "mset top10 = mset (filter (\<lambda>a. a \<in> set top10) arts)"
    using assms(2,6,7) by (intro set_eq_iff_mset_eq_distinct [THEN iffD1]) auto
  then have perm: "mset (map row top10) = mset (map row (filter (\<lambda>a. a \<in> set top10) arts))"
    by (simp only: mset_map)
  have keys: "rank_order (row (top10 ! i)) = (False, Some (int i), next_detail db + pos (top10 ! i))"
    if "i < length top10" for i
  proof -
    have "top10_ranks top10 (top10 ! i) = Some (int i)"
      using that top10_ranks_nth [OF assms(6)] by blast
    then show ?thesis using that top10_row
      by (simp add: rank_order_def) (simp add: row_def bulk_row_def new_detail_def)
  qed
  have "sort_key rank_order (map row (filter (\<lambda>a. a \<in> set top10) arts)) = map row top10"
  proof (rule sort_key_unique [OF perm])
    show "distinct (map rank_order (map row top10))"
      by (auto simp: distinct_conv_nth keys)
    show "sorted (map rank_order (map row top10))"
      by (auto simp: sorted_iff_nth_mono_less keys less_eq_prod_def)
  qed
  then show ?thesis by (simp add: rows o_def top10_row(2))
qed

definition demo_batch_db :: op_db where
  "demo_batch_db = empty_db\<lparr>articles := [''x'', ''y'', ''z''],
     batches := [\<lparr>batch_id = ''B'', target_site = ''reuters'', article_count = 3, top10_count = 2,
       batch_state = B_PENDING, source_job_id = None, batch_created = ''t'', batch_updated = ''t''\<rparr>]\<rparr>"

theorem bulk_insert_keeps_ranking_witness:
  "map article_id (get_batch_articles ''B'' True (fold (apply_write exec_stmt)
      (add_broadcast_details_bulk ''B'' [''x'', ''y'', ''z''] [''z'', ''x''] ''t'') demo_batch_db)) = [''z'', ''x'']"
  by (rule bulk_insert_keeps_ranking) (simp_all add: demo_batch_db_def empty_db_def batch_rows_def)

section \<open>The publisher's entry\<close>

text \<open>
  \<open>PublisherTool.run\<close> up to the pipeline. The lock is taken on a connection of its own, so it changes
  the committed tables at once; everything else is enqueued. The result carries the enqueued statements
  and the tables after the lock.
\<close>

datatype publisher_entry =
    Missing_Batch_Id | Batch_Not_Found | Already_Published | Finalized_Batch | Depleted | Lock_Refused
  | Start_Pipeline bool "detail_row list" "detail_row list"

definition acquire_lock :: "string \<Rightarrow> string \<Rightarrow> op_db \<Rightarrow> bool \<times> op_db" where
  "acquire_lock b sql_now db =
     (let hit = (\<lambda>r. batch_id r = b \<and> batch_state r \<in> {B_PENDING, B_PARTIAL, B_COMPLETED})
      in if filter hit (batches db) = [] then (False, db)
         else (True, db\<lparr>batches := update_where hit
                 (\<lambda>r. r\<lparr>batch_state := B_PUBLISHING, batch_updated := sql_now\<rparr>) (batches db)\<rparr>))"

definition publisher_run :: "string option \<Rightarrow> bool \<Rightarrow> bool \<Rightarrow> string \<Rightarrow> string \<Rightarrow> op_db
    \<Rightarrow> publisher_entry \<times> stmt list \<times> op_db" where
  "publisher_run batch reset finalize sql_now now db =
     (case batch of
        None \<Rightarrow> (Missing_Batch_Id, [], db)
      | Some [] \<Rightarrow> (Missing_Batch_Id, [], db)
      | Some b \<Rightarrow>
          (case batch_info b db of
             None \<Rightarrow> (Batch_Not_Found, [], db)
           | Some info \<Rightarrow>
               if batch_state info = B_COMPLETED \<and> \<not> reset \<and> \<not> finalize then (Already_Published, [], db)
               else if finalize \<and> batch_state info \<in> {B_PARTIAL, B_PUBLISHING}
               then (Finalized_Batch, [SkipUnpublished b sql_now, SetBatchStatus b B_COMPLETED sql_now], db)
               else
                 let stmts = (if reset then [reset_batch_publish_status b now] else []);
                     all_articles = get_batch_articles b False db;
                     top10 = filter is_top10 all_articles;
                     inventory = filter (\<lambda>r. \<not> is_top10 r) all_articles
                 in if top10 = [] then (Depleted, stmts @ [SetBatchStatus b B_FAILED sql_now], db)
                    else case acquire_lock b sql_now db of
                      (False, db') \<Rightarrow> (Lock_Refused, stmts, db')
                    | (True, db') \<Rightarrow>
                        (Start_Pipeline (batch_state info \<in> {B_PENDING, B_PARTIAL}) top10 inventory, stmts, db')))"

lemma acquire_lock_iff:
  "fst (acquire_lock b now db) \<longleftrightarrow>
     (\<exists>r \<in> set (batches db). batch_id r = b \<and> batch_state r \<in> {B_PENDING, B_PARTIAL, B_COMPLETED})"
  by (auto simp: acquire_lock_def Let_def filter_empty_conv)

lemma batch_info_state:
  assumes "wf_db db" "batch_info b db = Some info"
  shows "info \<in> set (batches db) \<and> batch_id info = b
    \<and> (\<forall>r \<in> set (batches db). batch_id r = b \<longrightarrow> r = info)"
proof -
  have "distinct (map batch_id (batches db))" using assms(1) by (simp add: wf_db_def)
  moreover have "info \<in> set (batches db)" "batch_id info = b"
    using assms(2) by (auto simp: batch_info_def find_Some_iff)
  ultimately show ?thesis by (auto simp: distinct_map inj_on_def)
qed

text \<open>
  the publishing lock excludes and does not come back. A second publisher on the same batch is
  refused while the first holds the lock. The lock of a run that died is never released: for a batch
  left PUBLISHING, and for a FAILED one with failed articles, the resume handler reports that the batch
  can be resumed, yet the run without finalize is refused the lock.
\<close>

theorem lock_refuses_what_resume_promises:
  assumes "wf_db db" "batch_info b db = Some info" "b \<noteq> []"
    and "\<exists>r \<in> set (batch_rows b db). is_top10 r"
  shows "(fst (acquire_lock b t db) \<longrightarrow> \<not> fst (acquire_lock b t' (snd (acquire_lock b t db))))
    \<and> (batch_state info = B_PUBLISHING \<and> (\<exists>r \<in> set (batch_rows b db). publish_state r \<in> {P_PENDING, P_TRANSLATING, P_FAILED})
       \<or> batch_state info = B_FAILED \<and> (\<exists>r \<in> set (batch_rows b db). publish_state r = P_FAILED)
       \<longrightarrow> resumable (publisher_resume (Some b) db)
         \<and> fst (publisher_run (Some b) reset False sql_now now db) = Lock_Refused)"
proof (intro conjI impI)
  show "\<not> fst (acquire_lock b t' (snd (acquire_lock b t db)))" if "fst (acquire_lock b t db)"
  proof -
    have "batches (snd (acquire_lock b t db)) =
        update_where (\<lambda>r. batch_id r = b \<and> batch_state r \<in> {B_PENDING, B_PARTIAL, B_COMPLETED})
          (\<lambda>r. r\<lparr>batch_state := B_PUBLISHING, batch_updated := t\<rparr>) (batches db)"
      using that unfolding acquire_lock_def Let_def by (simp split: if_split_asm)
    then have "\<forall>r \<in> set (batches (snd (acquire_lock b t db))).
        \<not> (batch_id r = b \<and> batch_state r \<in> {B_PENDING, B_PARTIAL, B_COMPLETED})"
      by (simp add: ball_update_where)
    then show ?thesis unfolding acquire_lock_iff by blast
  qed
next
  assume stuck: "batch_state info = B_PUBLISHING \<and> (\<exists>r \<in> set (batch_rows b db). publish_state r \<in> {P_PENDING, P_TRANSLATING, P_FAILED})
       \<or> batch_state info = B_FAILED \<and> (\<exists>r \<in> set (batch_rows b db). publish_state r = P_FAILED)"
  obtain c cs where b: "b = c # cs" using assms(3) by (cases b) auto
  have info: "\<forall>r \<in> set (batches db). batch_id r = b \<longrightarrow> r = info"
    using batch_info_state [OF assms(1,2)] by blast
  have count: "publish_progress b db st = count_state st (batch_rows b db)" for st
    by (simp add: publish_progress_def count_state_def batch_rows_def conj_commute)
  have three: "count_state P_ARCHIVE rows + count_state P_BRIEFING rows + count_state P_SKIPPED rows < length rows"
    if "\<exists>r \<in> set rows. publish_state r \<in> {P_PENDING, P_TRANSLATING, P_FAILED}" for rows
    using that
  proof (induction rows)
    case (Cons r rows)
    have "count_state P_ARCHIVE rows + count_state P_BRIEFING rows + count_state P_SKIPPED rows \<le> length rows"
      by (induction rows) (auto simp: count_state_def)
    with Cons show ?case by (auto simp: count_state_def)
  qed simp
  show "resumable (publisher_resume (Some b) db)"
    using stuck assms(2) three [of "batch_rows b db"] count_pos [of P_FAILED "batch_rows b db"]
    unfolding b by (auto simp: publisher_resume_def Let_def count [unfolded b] batch_rows_def [symmetric])
  have "\<not> fst (acquire_lock b sql_now db)"
    using info stuck by (auto simp: acquire_lock_iff)
  then have refused: "acquire_lock b sql_now db = (False, db)"
    by (auto simp: acquire_lock_def Let_def split: if_splits)
  have "filter is_top10 (get_batch_articles b False db) \<noteq> []"
    using assms(4) by (auto simp: get_batch_articles_def filter_empty_conv)
  with refused stuck assms(2) show "fst (publisher_run (Some b) reset False sql_now now db) = Lock_Refused"
    unfolding b by (auto simp: publisher_run_def Let_def)
qed

definition stuck_db :: op_db where
  "stuck_db = demo_batch_db\<lparr>batches := update_where (\<lambda>r. True) (\<lambda>r. r\<lparr>batch_state := B_PUBLISHING\<rparr>) (batches demo_batch_db),
     details := [demo_detail 1 ''B'' ''x'' P_PENDING], next_detail := 2\<rparr>"

theorem lock_refuses_what_resume_promises_witness:
  "resumable (publisher_resume (Some ''B'') stuck_db)
   \<and> fst (publisher_run (Some ''B'') False False ''t1'' ''t2'' stuck_db) = Lock_Refused"
proof -
  have rows: "batch_rows ''B'' stuck_db = [demo_detail 1 ''B'' ''x'' P_PENDING]"
    by (simp add: batch_rows_def stuck_db_def demo_detail_def new_detail_def)
  have "wf_db stuck_db"
    by (simp add: wf_db_def stuck_db_def demo_batch_db_def empty_db_def update_where_def demo_detail_def new_detail_def)
  moreover obtain info where "batch_info ''B'' stuck_db = Some info" "batch_state info = B_PUBLISHING"
    by (simp add: batch_info_def stuck_db_def demo_batch_db_def update_where_def)
  ultimately show ?thesis
    using lock_refuses_what_resume_promises [of stuck_db "''B''" info "''t''" "''t''" False "''t1''" "''t2''"]
    by (simp add: rows demo_detail_def new_detail_def)
qed

end
