(* ===== verification/Publisher.thy ===== *)
theory Publisher
  imports Broadcast
begin

text \<open>
  \<open>utils/telegram/publisher.py\<close> and the end of \<open>utils/telegram/pipeline.py\<close>: an article is a link and
  the chunks of its body, each a message; the number of messages sent is checkpointed in the job's item,
  and a resumed job starts behind it. The two phases differ in the channel, the step name and the status
  they write, so one definition has them as arguments.
\<close>

section \<open>The checkpoint\<close>

definition chunks_head :: string where "chunks_head = ''{'' @ [CHR 0x22] @ ''chunks_sent'' @ [CHR 0x22] @ '': ''"

text \<open>
  \<open>json.dumps({"chunks_sent": n})\<close>, and \<open>json.loads(t).get("chunks_sent", 0)\<close> on the texts written
  by it; another text is the bare \<open>except\<close>, which leaves 0.
\<close>

definition chunks_json :: "nat \<Rightarrow> string" where
  "chunks_json n = chunks_head @ digits n @ ''}''"

definition read_chunks :: "string \<Rightarrow> nat" where
  "read_chunks t =
     (if prefix chunks_head t
      then (case read_digits 0 (drop (length chunks_head) t) of (n, r) \<Rightarrow> if r = ''}'' then n else 0)
      else 0)"

lemma read_chunks_json [simp]: "read_chunks (chunks_json n) = n"
  by (simp add: read_chunks_def chunks_json_def read_digits_app digit_value_def Let_def)

section \<open>Delivering one article\<close>

text \<open>The answer to one message, as \<open>send_message\<close> classifies it.\<close>

datatype send_result = Sent | Permanent | Transient

text \<open>All chunks went out; one was refused for good; a transient error aborts the whole pipeline.\<close>

datatype delivery = Delivered | Refused | Aborted

text \<open>\<open>net k\<close> is the answer to the attempt's message \<open>k\<close>. The result: what was sent, the count, the outcome.\<close>

fun send_chunks :: "(nat \<Rightarrow> send_result) \<Rightarrow> nat \<Rightarrow> string list \<Rightarrow> nat \<Rightarrow> string list \<times> nat \<times> delivery" where
  "send_chunks net k [] n = ([], n, Delivered)"
| "send_chunks net k (c # cs) n =
     (case net k of
        Sent \<Rightarrow> (case send_chunks net (Suc k) cs (Suc n) of (msgs, n', d) \<Rightarrow> (c # msgs, n', d))
      | Permanent \<Rightarrow> ([], n, Refused)
      | Transient \<Rightarrow> ([], n, Aborted))"

definition deliver :: "(nat \<Rightarrow> send_result) \<Rightarrow> string \<Rightarrow> string list \<Rightarrow> nat \<Rightarrow> string list \<times> nat \<times> delivery" where
  "deliver net link chunks chunks_sent =
     (if chunks_sent = 0 then
        (case net 0 of
           Sent \<Rightarrow> (case send_chunks net 1 chunks 1 of (msgs, n, d) \<Rightarrow> (link # msgs, n, d))
         | Permanent \<Rightarrow> ([], 0, Refused)
         | Transient \<Rightarrow> ([], 0, Aborted))
      else send_chunks net 0 (drop (chunks_sent - 1) chunks) chunks_sent)"

datatype phase = Briefing | Archive

definition phase_step :: "phase \<Rightarrow> string" where
  "phase_step p = (case p of Briefing \<Rightarrow> ''publish_briefing'' | Archive \<Rightarrow> ''publish_archive'')"

definition phase_state :: "phase \<Rightarrow> publish_status" where
  "phase_state p = (case p of Briefing \<Rightarrow> P_BRIEFING | Archive \<Rightarrow> P_ARCHIVE)"

text \<open>The writes that store the outcome: one checkpoint per message, then the final status.\<close>

definition checkpoint_writes :: "item_ref \<Rightarrow> meta_args \<Rightarrow> nat \<Rightarrow> nat \<Rightarrow> string \<Rightarrow> stmt list" where
  "checkpoint_writes k ma n0 n now =
     map (\<lambda>i. update_item_status (fst k) (item_meta k ma) I_RUNNING (chunks_json i) now) [Suc n0..<Suc n]"

definition final_writes :: "phase \<Rightarrow> string \<Rightarrow> item_ref \<Rightarrow> meta_args \<Rightarrow> nat \<Rightarrow> delivery \<Rightarrow> string \<Rightarrow> stmt list" where
  "final_writes p b k ma n d now =
     (let ulid = snd (snd k) in
      case d of
        Delivered \<Rightarrow> [SetDetailStatus b ulid (phase_state p) now,
          update_item_status (fst k) (item_meta k ma) I_COMPLETED (chunks_json n) now]
      | Refused \<Rightarrow> [SetDetailStatus b ulid P_FAILED now,
          update_item_status (fst k) (item_meta k ma) I_FAILED (chunks_json n) now]
      | Aborted \<Rightarrow> [])"

text \<open>\<open>SELECT output_data\<close> of the item, parsed; no row, NULL and the empty text give 0.\<close>

definition chunks_prior :: "item_ref \<Rightarrow> op_db \<Rightarrow> nat" where
  "chunks_prior k db =
     (case item_look db k of
        Some (st, Some out) \<Rightarrow> if out = [] then 0 else read_chunks out
      | _ \<Rightarrow> 0)"

text \<open>
  One attempt at an article under a job, with the writer keeping up: the announced item, the messages
  from the checkpoint on, and the writes. The state also collects the messages that reached the channel.
\<close>

definition publish_article :: "phase \<Rightarrow> string \<Rightarrow> item_ref \<Rightarrow> meta_args \<Rightarrow> string \<Rightarrow> string list \<Rightarrow> string
    \<Rightarrow> (nat \<Rightarrow> send_result) \<Rightarrow> string list \<times> op_db \<Rightarrow> (string list \<times> op_db) \<times> delivery" where
  "publish_article p b k ma link chunks now net st =
     (let db1 = item_add k (ma, [], now) (snd st);
          n0 = chunks_prior k db1
      in case deliver net link chunks n0 of
           (msgs, n, d) \<Rightarrow>
             ((fst st @ msgs,
               fold (apply_write exec_stmt) (checkpoint_writes k ma n0 n now @ final_writes p b k ma n d now) db1), d))"

lemma send_chunks_spec:
  "send_chunks net k cs n = (msgs, n', d) \<Longrightarrow>
     n' = n + length msgs \<and> msgs = take (length msgs) cs \<and> (d = Delivered \<longrightarrow> msgs = cs)"
  by (induction cs arbitrary: k n msgs n' d) (fastforce split: send_result.splits prod.splits)+

text \<open>The messages of an article, in order; a delivery from a checkpoint continues them.\<close>

lemma deliver_spec:
  assumes "deliver net link chunks n = (msgs, n', d)" "n \<le> Suc (length chunks)"
  shows "n' = n + length msgs \<and> msgs = take (length msgs) (drop n (link # chunks))
    \<and> (d = Delivered \<longrightarrow> msgs = drop n (link # chunks)) \<and> n' \<le> Suc (length chunks)"
proof (cases n)
  case 0
  show ?thesis
  proof (cases "net 0")
    case Sent
    obtain ms k e where sc: "send_chunks net 1 chunks 1 = (ms, k, e)" by (metis prod_cases3)
    with 0 Sent assms(1) have "msgs = link # ms" "n' = k" "d = e" by (auto simp: deliver_def)
    moreover have "length ms \<le> length chunks"
      using send_chunks_spec [OF sc] by (metis length_take min.cobounded1 min_def)
    ultimately show ?thesis using 0 send_chunks_spec [OF sc] by auto
  qed (use 0 assms in \<open>auto simp: deliver_def\<close>)
next
  case (Suc m)
  then have sc: "send_chunks net 0 (drop m chunks) (Suc m) = (msgs, n', d)"
    using assms(1) by (simp add: deliver_def)
  have "length msgs \<le> length (drop m chunks)"
    using send_chunks_spec [OF sc] by (metis length_take min.cobounded1 min_def)
  with Suc send_chunks_spec [OF sc] assms(2) show ?thesis by auto
qed

section \<open>Exactly once\<close>

lemma drain_checkpoints:
  assumes "job_exists db k" "item_look db k \<noteq> None" "n0 < n"
  shows "item_look (fold (apply_write exec_stmt) (checkpoint_writes k ma n0 n now) db) k
      = Some (I_RUNNING, Some (chunks_json n))"
proof -
  have save: "apply_write exec_stmt (update_item_status (fst k) (item_meta k ma) I_RUNNING (chunks_json i) now) =
      item_save k (ma, I_RUNNING, chunks_json i, now)" for i
    by (simp add: fun_eq_iff item_save_def)
  have look: "item_look (fold (\<lambda>i. item_save k (ma, I_RUNNING, chunks_json i, now)) is db) k \<noteq> None" for "is"
    using assms(2) by (induction "is" rule: rev_induct) (auto simp: item_look_save)
  obtain m where n: "n = Suc m" "n0 \<le> m" using assms(3) by (cases n) auto
  have "[Suc n0..<Suc n] = [Suc n0..<Suc m] @ [Suc m]" using n by simp
  then have "fold (apply_write exec_stmt) (checkpoint_writes k ma n0 n now) db =
     item_save k (ma, I_RUNNING, chunks_json n, now)
       (fold (\<lambda>i. item_save k (ma, I_RUNNING, chunks_json i, now)) [Suc n0..<Suc m] db)"
    unfolding checkpoint_writes_def by (simp add: fold_map o_def save n(1) del: upt_Suc)
  then show ?thesis using look by (simp add: item_look_save item_outcome_def)
qed

lemma item_look_detail: "item_look (apply_write exec_stmt (SetDetailStatus b a st now) db) k = item_look db k"
  by (simp add: apply_write_def on_details_def item_look_def)

lemma job_exists_writes:
  "job_exists (apply_write exec_stmt (SetDetailStatus b a st now) db) k = job_exists db k"
  "job_exists (apply_write exec_stmt (update_item_status j md st' out now) db) k = job_exists db k"
  by (simp_all add: apply_write_def on_details_def on_items_def job_exists_def update_item_status_def)

lemma job_exists_checkpoints:
  "job_exists (fold (apply_write exec_stmt) (checkpoint_writes k ma n0 n now) db) k' = job_exists db k'"
proof -
  have "job_exists (fold (apply_write exec_stmt) (map (\<lambda>i. update_item_status j md I_RUNNING (f i) now) is) db) k' = job_exists db k'"
    for j md f and "is" :: "nat list"
    by (induction "is" arbitrary: db) (simp_all add: job_exists_writes)
  then show ?thesis by (simp add: checkpoint_writes_def)
qed

text \<open>What one attempt leaves behind: the checkpoint is the number of messages that went out.\<close>

lemma publish_article_step:
  assumes "job_exists db k" "chunks_prior k db \<le> Suc (length chunks)"
    and "publish_article p b k ma link chunks now net (sent, db) = ((sent', db'), d)"
  shows "\<exists>msgs. sent' = sent @ msgs \<and> msgs = take (length msgs) (drop (chunks_prior k db) (link # chunks))
    \<and> chunks_prior k db' = chunks_prior k db + length msgs
    \<and> chunks_prior k db' \<le> Suc (length chunks) \<and> job_exists db' k
    \<and> (d = Delivered \<longrightarrow> msgs = drop (chunks_prior k db) (link # chunks))"
proof -
  define db1 where "db1 = item_add k (ma, [], now) db"
  have look1: "item_look db1 k = (case item_look db k of None \<Rightarrow> Some (I_PENDING, None) | Some v \<Rightarrow> Some v)"
    unfolding db1_def using assms(1) by (simp add: item_look_add split: option.split)
  then have prior: "chunks_prior k db1 = chunks_prior k db" "item_look db1 k \<noteq> None"
    by (auto simp: chunks_prior_def split: option.split)
  have job1: "job_exists db1 k" unfolding db1_def using assms(1) by (rule job_checkpoints.ok_add)
  obtain msgs n d' where del: "deliver net link chunks (chunks_prior k db) = (msgs, n, d')" by (metis prod_cases3)
  from deliver_spec [OF this assms(2)] have spec: "n = chunks_prior k db + length msgs"
    "msgs = take (length msgs) (drop (chunks_prior k db) (link # chunks))"
    "d' = Delivered \<longrightarrow> msgs = drop (chunks_prior k db) (link # chunks)" "n \<le> Suc (length chunks)" by blast+
  define db2 where "db2 = fold (apply_write exec_stmt) (checkpoint_writes k ma (chunks_prior k db) n now) db1"
  have result: "sent' = sent @ msgs" "d = d'"
    "db' = fold (apply_write exec_stmt) (final_writes p b k ma n d' now) db2"
    using assms(3) unfolding publish_article_def Let_def snd_conv fst_conv db1_def [symmetric] prior(1) del db2_def
    by auto
  have prior2: "chunks_prior k db2 = n" "item_look db2 k \<noteq> None"
  proof -
    show "chunks_prior k db2 = n"
    proof (cases "chunks_prior k db < n")
      case True
      from drain_checkpoints [OF job1 prior(2) this, of ma now] show ?thesis
        by (simp add: db2_def chunks_prior_def) (simp add: chunks_json_def)
    next
      case False
      with spec(1) have "n = chunks_prior k db" by simp
      then show ?thesis by (simp add: db2_def checkpoint_writes_def prior)
    qed
    show "item_look db2 k \<noteq> None"
    proof (cases "chunks_prior k db < n")
      case True
      from drain_checkpoints [OF job1 prior(2) this, of ma now] show ?thesis by (simp add: db2_def)
    next
      case False
      with spec(1) show ?thesis using prior(2) by (simp add: db2_def checkpoint_writes_def)
    qed
  qed
  have job2: "job_exists db2 k" using job1 by (simp add: db2_def job_exists_checkpoints)
  have stored: "chunks_prior k (apply_write exec_stmt (update_item_status (fst k) (item_meta k ma) st (chunks_json n) now) db3) = n"
    if "item_look db3 k \<noteq> None" for st db3
  proof -
    have "apply_write exec_stmt (update_item_status (fst k) (item_meta k ma) st (chunks_json n) now) db3 =
      item_save k (ma, st, chunks_json n, now) db3" by (simp add: item_save_def)
    with that show ?thesis
      by (simp add: chunks_prior_def item_look_save item_outcome_def) (simp add: chunks_json_def)
  qed
  have "chunks_prior k db' = n \<and> job_exists db' k"
    using prior2 job2 unfolding result(3)
    by (cases d') (simp_all add: final_writes_def Let_def stored item_look_detail job_exists_writes)
  with result(1,2) spec show ?thesis by auto
qed

text \<open>Attempts of one job at an article, until one delivers it.\<close>

fun publish_attempts :: "phase \<Rightarrow> string \<Rightarrow> item_ref \<Rightarrow> string \<Rightarrow> string list
    \<Rightarrow> (meta_args \<times> string \<times> (nat \<Rightarrow> send_result)) list \<Rightarrow> string list \<times> op_db \<Rightarrow> (string list \<times> op_db) \<times> bool" where
  "publish_attempts p b k link chunks [] st = (st, False)"
| "publish_attempts p b k link chunks ((ma, now, net) # rest) st =
     (case publish_article p b k ma link chunks now net st of
        (st', Delivered) \<Rightarrow> (st', True)
      | (st', _) \<Rightarrow> publish_attempts p b k link chunks rest st')"

lemma publish_attempts_prefix:
  assumes "job_exists db k" "sent = take (chunks_prior k db) (link # chunks)"
    and "chunks_prior k db \<le> Suc (length chunks)"
    and "publish_attempts p b k link chunks attempts (sent, db) = ((sent', db'), ok)"
  shows "sent' = take (chunks_prior k db') (link # chunks) \<and> (ok \<longrightarrow> sent' = link # chunks)"
  using assms
proof (induction attempts arbitrary: sent db)
  case (Cons attempt attempts)
  obtain ma now net where at: "attempt = (ma, now, net)" by (cases attempt) auto
  obtain sent1 db1 d where one: "publish_article p b k ma link chunks now net (sent, db) = ((sent1, db1), d)"
    by (metis prod.collapse)
  from publish_article_step [OF Cons.prems(1,3) one] obtain msgs where step:
    "sent1 = sent @ msgs" "msgs = take (length msgs) (drop (chunks_prior k db) (link # chunks))"
    "chunks_prior k db1 = chunks_prior k db + length msgs" "chunks_prior k db1 \<le> Suc (length chunks)"
    "job_exists db1 k" "d = Delivered \<longrightarrow> msgs = drop (chunks_prior k db) (link # chunks)" by blast
  have sent1: "sent1 = take (chunks_prior k db1) (link # chunks)"
    using step(1-3) Cons.prems(2) by (metis take_add)
  show ?case
  proof (cases "d = Delivered")
    case True
    with one at Cons.prems(4) have "sent' = sent1" "db' = db1" "ok" by simp_all
    moreover have "sent1 = link # chunks"
      using step(1,6) True Cons.prems(2) by (metis append_take_drop_id)
    ultimately show ?thesis using sent1 by simp
  next
    case False
    with one at Cons.prems(4) have "publish_attempts p b k link chunks attempts (sent1, db1) = ((sent', db'), ok)"
      by (cases d) simp_all
    from Cons.IH [OF step(5) sent1 step(4) this] show ?thesis .
  qed
qed simp


definition demo_nets :: "(meta_args \<times> string \<times> (nat \<Rightarrow> send_result)) list" where
  "demo_nets = [((0, True, ''t1''), ''t1'', \<lambda>i. if i < 2 then Sent else Transient),
     ((0, True, ''t2''), ''t2'', \<lambda>i. Transient), ((0, True, ''t3''), ''t3'', \<lambda>i. Sent)]"


section \<open>The phases and the end of the pipeline\<close>

text \<open>
  An article as the phases see it: its row as it was read, the link (\<open>URL Unavailable\<close> when empty) and
  the chunks of its text; \<open>translated\<close> are the ulids of \<open>translated_map\<close>.
\<close>

record outgoing =
  row :: detail_row
  link_text :: string
  body_chunks :: "string list"

definition phase_articles :: "phase \<Rightarrow> string list \<Rightarrow> outgoing list \<Rightarrow> outgoing list" where
  "phase_articles p translated arts =
     (case p of
        Briefing \<Rightarrow> filter (\<lambda>a. publish_state (row a) \<notin> {P_BRIEFING, P_ARCHIVE})
          (filter (\<lambda>a. is_top10 (row a) \<and> article_id (row a) \<in> set translated) arts)
      | Archive \<Rightarrow> filter (\<lambda>a. publish_state (row a) \<noteq> P_ARCHIVE)
          (filter (\<lambda>a. article_id (row a) \<in> set translated) arts))"

definition message_link :: "outgoing \<Rightarrow> string" where
  "message_link a = (if link_text a = [] then ''URL Unavailable'' else link_text a)"

text \<open>The loop of a phase; an aborted article raises, so the rest of the phase is not reached.\<close>

fun publish_phase :: "phase \<Rightarrow> string \<Rightarrow> string \<Rightarrow> string \<Rightarrow> (string \<Rightarrow> nat \<Rightarrow> send_result) \<Rightarrow> outgoing list
    \<Rightarrow> string list \<times> op_db \<Rightarrow> (string list \<times> op_db) \<times> bool" where
  "publish_phase p b job now net [] st = (st, True)"
| "publish_phase p b job now net (a # arts) st =
     (let ulid = article_id (row a)
      in case publish_article p b (job, phase_step p, ulid) (0, p = Briefing \<or> is_top10 (row a), now)
                (message_link a) (body_chunks a) now (net ulid) st of
           (st', Aborted) \<Rightarrow> (st', False)
         | (st', _) \<Rightarrow> publish_phase p b job now net arts st')"

text \<open>
  \<open>run_pipeline\<close> after the phases: the verdict is computed from the committed rows and enqueued, and
  the batch is read again for the report, both while the phases' last writes may still be queued.
\<close>

definition pipeline_end :: "string \<Rightarrow> string \<Rightarrow> (stmt, op_db) writer \<Rightarrow> batch_status \<times> (stmt, op_db) writer" where
  "pipeline_end b now w =
     (let w1 = enqueue_all (update_batch_status_from_details b now (contents w)) w
      in (case batch_info b (contents w1) of None \<Rightarrow> B_FAILED | Some info \<Rightarrow> batch_state info, w1))"

lemma drain_singles:
  assumes "alive w" "write_queue w = map (\<lambda>s. Task None (Single s)) ss"
  shows "contents (drain w) = fold (apply_write exec_stmt) ss (contents w)"
proof -
  have "write_queue w = map (\<lambda>(r, s). Task r (Single s)) (map (Pair None) ss)"
    using assms(2) by simp
  from rounds_refine_fold [OF assms(1) this, of exec_stmt] show ?thesis
    using assms(2) by (simp add: drain_def o_def)
qed

text \<open>
  the pipeline judges a batch before its last write. Let the write that puts the last article into
  the archive still be in the queue when the phases end, all other articles being there already. Then
  the run reports the batch as PUBLISHING, and once the writer caught up every article is in the archive
  while the batch is PARTIAL.
\<close>

theorem verdict_misses_last_write:
  assumes "alive w" "write_queue w = [Task None (Single (SetDetailStatus b a P_ARCHIVE t))]"
    and "wf_db (contents w)" "batch_info b (contents w) = Some info" "batch_state info = B_PUBLISHING"
    and "r1 \<in> set (batch_rows b (contents w))" "article_id r1 \<noteq> a"
    and "r2 \<in> set (batch_rows b (contents w))" "article_id r2 = a" "publish_state r2 \<in> {P_PENDING, P_BRIEFING}"
    and "\<forall>r \<in> set (batch_rows b (contents w)). article_id r \<noteq> a \<longrightarrow> publish_state r = P_ARCHIVE"
    and "pipeline_end b now w = (status, w')"
  shows "status = B_PUBLISHING
    \<and> (\<forall>r \<in> set (batch_rows b (contents (drain w'))). publish_state r = P_ARCHIVE)
    \<and> map_option batch_state (batch_info b (contents (drain w'))) = Some B_PARTIAL"
proof -
  let ?db = "contents w"
  have ne: "batch_rows b ?db \<noteq> []" using assms(6) by auto
  have r1: "publish_state r1 = P_ARCHIVE" using assms(6,7,11) by blast
  have v: "verdict (batch_rows b ?db) = B_PARTIAL"
    by (rule verdict_partial [OF assms(6) r1 assms(8)]) (use assms(10) in auto)
  then have upd: "update_batch_status_from_details b now ?db = [SetBatchStatus b B_PARTIAL now]"
    using ne by (simp add: update_batch_status_from_details_def)
  then have w': "w' = enqueue_all [SetBatchStatus b B_PARTIAL now] w" and status: "status = B_PUBLISHING"
    using assms(4,5,12) by (auto simp: pipeline_end_def Let_def enqueue_all_frame)
  let ?ss = "[SetDetailStatus b a P_ARCHIVE t, SetBatchStatus b B_PARTIAL now]"
  have q: "write_queue w' = map (\<lambda>s. Task None (Single s)) ?ss"
    unfolding w' using assms(2) by (simp add: enqueue_all_room queue_maxsize_def)
  have "alive w'" unfolding w' by (simp add: enqueue_all_frame)
  from drain_singles [OF this q] have "contents (drain w') = fold (apply_write exec_stmt) ?ss ?db"
    by (simp add: w' enqueue_all_frame)
  also have "\<dots> = on_batch b (\<lambda>r. r\<lparr>batch_state := B_PARTIAL, batch_updated := now\<rparr>)
      (on_details (is_detail b a) (\<lambda>r. r\<lparr>publish_state := P_ARCHIVE, detail_updated := t\<rparr>) ?db)"
    by (simp add: apply_write_def)
  finally have final: "contents (drain w') = \<dots>" .
  have rows: "batch_rows b (contents (drain w')) =
      update_where (is_detail b a) (\<lambda>r. r\<lparr>publish_state := P_ARCHIVE, detail_updated := t\<rparr>) (batch_rows b ?db)"
    unfolding final batch_rows_def on_batch_def on_details_def
    by (simp add: update_where_def filter_map o_def if_distrib cong: if_cong)
  have "publish_state r = P_ARCHIVE" if "r \<in> set (batch_rows b (contents (drain w')))" for r
    using that assms(11) unfolding rows by (auto simp: set_update_where is_detail_def batch_rows_def)
  moreover have "map_option batch_state (batch_info b (contents (drain w'))) = Some B_PARTIAL"
    using assms(4) batch_info_state [OF assms(3,4)] unfolding final
    by (simp add: batch_info_def on_batch_def on_details_def find_update_where)
  ultimately show ?thesis using status by blast
qed

definition last_write_writer :: "(stmt, op_db) writer" where
  "last_write_writer = (init_writer (stuck_db\<lparr>
       details := [demo_detail 1 ''B'' ''x'' P_ARCHIVE, demo_detail 2 ''B'' ''y'' P_BRIEFING], next_detail := 3\<rparr>))
     \<lparr>alive := True, write_queue := [Task None (Single (SetDetailStatus ''B'' ''y'' P_ARCHIVE ''t''))]\<rparr>"

theorem verdict_misses_last_write_witness:
  "let (status, w') = pipeline_end ''B'' ''t2'' last_write_writer in
     status = B_PUBLISHING \<and> (\<forall>r \<in> set (batch_rows ''B'' (contents (drain w'))). publish_state r = P_ARCHIVE)
     \<and> map_option batch_state (batch_info ''B'' (contents (drain w'))) = Some B_PARTIAL"
proof -
  obtain status w' where run: "pipeline_end ''B'' ''t2'' last_write_writer = (status, w')" by fastforce
  have db: "contents last_write_writer = stuck_db\<lparr>
       details := [demo_detail 1 ''B'' ''x'' P_ARCHIVE, demo_detail 2 ''B'' ''y'' P_BRIEFING], next_detail := 3\<rparr>"
    by (simp add: last_write_writer_def init_writer_def)
  have rows: "batch_rows ''B'' (contents last_write_writer) =
      [demo_detail 1 ''B'' ''x'' P_ARCHIVE, demo_detail 2 ''B'' ''y'' P_BRIEFING]"
    unfolding db by (simp add: batch_rows_def demo_detail_def new_detail_def)
  have wf: "wf_db (contents last_write_writer)"
    unfolding db by (simp add: wf_db_def stuck_db_def demo_batch_db_def empty_db_def update_where_def demo_detail_def new_detail_def)
  obtain info where info: "batch_info ''B'' (contents last_write_writer) = Some info" "batch_state info = B_PUBLISHING"
    unfolding db by (simp add: batch_info_def stuck_db_def demo_batch_db_def update_where_def)
  have "alive last_write_writer"
    "write_queue last_write_writer = [Task None (Single (SetDetailStatus ''B'' ''y'' P_ARCHIVE ''t''))]"
    by (simp_all add: last_write_writer_def)
  from verdict_misses_last_write [OF this wf info, of "demo_detail 1 ''B'' ''x'' P_ARCHIVE"
      "demo_detail 2 ''B'' ''y'' P_BRIEFING" "''t2''" status w'] run
  show ?thesis by (simp add: rows demo_detail_def new_detail_def)
qed

end
