(* ===== verification/Draft_Editor.thy ===== *)
theory Draft_Editor
  imports Broadcast
begin

text \<open>
  \<open>tools/draft_editor/tool.py\<close>: the editor of a batch's Top-10. Its operations exchange two entries of the
  list, or one of them with an article outside it; the result is written back as one transaction. An
  article is its row in the batch, under the key \<open>ulid\<close>; the texts of the answer are left out.
\<close>

section \<open>The operations on the list\<close>

datatype target = T_None | T_Int int | T_Str string

record swap_operation =
  index_top10 :: "int option"
  target_identifier :: target

type_synonym draft = "detail_row list \<times> (string \<times> detail_row) list"

text \<open>Both lists as \<open>run\<close> builds them from the articles of the batch.\<close>

definition draft_of :: "detail_row list \<Rightarrow> draft" where
  "draft_of arts =
     (sort_key (\<lambda>r. (case top10_rank r of None \<Rightarrow> 999 | Some n \<Rightarrow> n, detail_id r)) (filter is_top10 arts),
      foldl (\<lambda>d r. AList.update (article_id r) r d) [] (filter (\<lambda>r. \<not> is_top10 r) arts))"

definition exchange :: "nat \<Rightarrow> nat \<Rightarrow> 'a list \<Rightarrow> 'a list" where
  "exchange i j xs = xs[i := xs ! j, j := xs ! i]"

definition apply_swap :: "draft \<Rightarrow> swap_operation \<Rightarrow> draft" where
  "apply_swap d op =
     (case d of (tops, inventory) \<Rightarrow>
      (case (index_top10 op, target_identifier op) of
         (None, _) \<Rightarrow> d
       | (_, T_None) \<Rightarrow> d
       | (Some i, t) \<Rightarrow>
           if i < 0 \<or> int (length tops) \<le> i then d
           else (case t of
                   T_Int j \<Rightarrow> if 0 \<le> j \<and> j < int (length tops) then (exchange (nat i) (nat j) tops, inventory) else d
                 | T_Str s \<Rightarrow>
                     (case map_of inventory s of
                        None \<Rightarrow> d
                      | Some r \<Rightarrow>
                          let old = tops ! nat i in
                          (tops[nat i := r], AList.delete s (AList.update (article_id old) old inventory)))
                 | T_None \<Rightarrow> d)))"

definition draft_statements :: "string \<Rightarrow> string \<Rightarrow> draft \<Rightarrow> stmt list" where
  "draft_statements b ts d =
     map (\<lambda>(i, r). RankDetail b (article_id r) (int i) ts) (enumerate 0 (fst d)) @
     map (\<lambda>(_, r). UnrankDetail b (article_id r) ts) (snd d)"

datatype edit_answer = Edit_Failed | Edited "string list"

text \<open>\<open>DraftEditorTool.run\<close>: the answer with the Top-10 it reports, and the transaction it enqueues.\<close>

definition run_draft_editor :: "string \<Rightarrow> swap_operation list \<Rightarrow> string \<Rightarrow> op_db \<Rightarrow> edit_answer \<times> stmt list" where
  "run_draft_editor b ops ts db =
     (if b = [] then (Edit_Failed, [])
      else (case List.find (\<lambda>r. batch_id r = b) (batches db) of
              None \<Rightarrow> (Edit_Failed, [])
            | Some info \<Rightarrow>
                if batch_state info \<notin> {B_PENDING, B_PARTIAL, B_FAILED} then (Edit_Failed, [])
                else (let d = foldl apply_swap (draft_of (get_batch_articles b False db)) ops in
                      (Edited (map article_id (fst d)), draft_statements b ts d))))"

section \<open>The list keeps its articles\<close>

definition draft_ids :: "draft \<Rightarrow> string multiset" where
  "draft_ids d = mset (map article_id (fst d)) + mset (map fst (snd d))"

definition draft_ok :: "draft \<Rightarrow> bool" where
  "draft_ok d \<longleftrightarrow> distinct (map article_id (fst d) @ map fst (snd d)) \<and>
     (\<forall>(k, r) \<in> set (snd d). article_id r = k)"

lemma mset_exchange: "i < length xs \<Longrightarrow> j < length xs \<Longrightarrow> mset (exchange i j xs) = mset xs"
  by (simp add: exchange_def mset_swap)

lemma length_exchange [simp]: "length (exchange i j xs) = length xs"
  by (simp add: exchange_def)

lemma map_exchange: "i < length xs \<Longrightarrow> j < length xs \<Longrightarrow> map f (exchange i j xs) = exchange i j (map f xs)"
  by (simp add: exchange_def map_update)

lemma mset_filter_neq: "distinct xs \<Longrightarrow> s \<in> set xs \<Longrightarrow> mset (filter (\<lambda>k. s \<noteq> k) xs) + {#s#} = mset xs"
proof (induction xs)
  case (Cons x xs)
  show ?case
  proof (cases "x = s")
    case True
    then have "filter (\<lambda>k. s \<noteq> k) xs = xs" using Cons.prems by (auto simp: filter_id_conv)
    then show ?thesis using True by (simp del: mset_filter)
  next
    case False
    then show ?thesis using Cons by auto
  qed
qed simp

text \<open>Replacing in the list and exchanging the keys of the inventory keeps the articles together.\<close>

lemma replace_ids:
  assumes "draft_ok (tops, invt)" "i < length tops" "map_of invt s = Some r"
  defines "old \<equiv> tops ! i"
  defines "invt' \<equiv> AList.delete s (AList.update (article_id old) old invt)"
  shows "draft_ids (tops[i := r], invt') = draft_ids (tops, invt) \<and> draft_ok (tops[i := r], invt')"
proof -
  have d: "distinct (map article_id tops)" "distinct (map fst invt)"
    "set (map article_id tops) \<inter> set (map fst invt) = {}"
    using assms(1) by (auto simp: draft_ok_def)
  have old: "article_id old \<in> set (map article_id tops)" using assms(2) by (auto simp: old_def)
  then have fresh: "article_id old \<notin> fst ` set invt" using d(3) by auto
  have sr: "(s, r) \<in> set invt" using assms(3) by (rule map_of_SomeD)
  then have r: "article_id r = s" using assms(1) by (auto simp: draft_ok_def)
  have ne: "article_id old \<noteq> s" using fresh sr by force
  have upd: "AList.update (article_id old) old invt = invt @ [(article_id old, old)]"
    using fresh by (induction invt) auto
  have invt': "invt' = filter (\<lambda>kv. s \<noteq> fst kv) invt @ [(article_id old, old)]"
    using ne unfolding invt'_def upd by (simp add: AList.delete_eq case_prod_unfold)
  have keys: "map fst invt' = filter (\<lambda>k. s \<noteq> k) (map fst invt) @ [article_id old]"
    unfolding invt' by (simp add: filter_map comp_def)
  have m1: "mset (filter (\<lambda>k. s \<noteq> k) (map fst invt)) + {#s#} = mset (map fst invt)"
    using sr by (intro mset_filter_neq d(2)) force
  have m2: "mset (map article_id (tops[i := r])) = mset (map article_id tops) - {#article_id old#} + {#s#}"
    using assms(2) r by (simp add: map_update mset_update old_def)
  have oldm: "article_id old \<in># mset (map article_id tops)" using old by simp
  obtain A where A: "mset (map article_id tops) = add_mset (article_id old) A"
    using multi_member_split [OF oldm] by blast
  have ids: "draft_ids (tops[i := r], invt') = draft_ids (tops, invt)"
    unfolding draft_ids_def fst_conv snd_conv keys m2 A m1 [symmetric] by simp
  have dist: "distinct (map article_id (tops[i := r]) @ map fst invt')"
  proof -
    have "mset (map article_id (tops[i := r]) @ map fst invt') = mset (map article_id tops @ map fst invt)"
      using ids by (simp add: draft_ids_def)
    then show ?thesis using d by (metis distinct_append mset_eq_imp_distinct_iff)
  qed
  have "\<forall>(k, r) \<in> set invt'. article_id r = k"
    using assms(1) by (auto simp: invt' draft_ok_def)
  with dist ids show ?thesis by (simp add: draft_ok_def)
qed

lemma apply_swap_keeps:
  assumes "draft_ok d"
  shows "draft_ids (apply_swap d op) = draft_ids d \<and> draft_ok (apply_swap d op) \<and>
     length (fst (apply_swap d op)) = length (fst d)"
proof -
  obtain tops invt where d: "d = (tops, invt)" by (cases d)
  have ex: "draft_ids (exchange i j tops, invt) = draft_ids d \<and> draft_ok (exchange i j tops, invt)"
    if "i < length tops" "j < length tops" for i j
  proof -
    have m: "mset (map article_id (exchange i j tops)) = mset (map article_id tops)"
      using that by (simp only: mset_map mset_exchange)
    have "mset (map article_id (exchange i j tops) @ map fst invt) = mset (map article_id tops @ map fst invt)"
      using m by simp
    then have "distinct (map article_id (exchange i j tops) @ map fst invt)"
      using assms d by (metis draft_ok_def fst_conv snd_conv mset_eq_imp_distinct_iff)
    with m show ?thesis using assms d by (simp add: draft_ids_def draft_ok_def)
  qed
  show ?thesis
  proof (cases "index_top10 op")
    case None
    then show ?thesis using assms d by (simp add: apply_swap_def)
  next
    case (Some i)
    show ?thesis
    proof (cases "i < 0 \<or> int (length tops) \<le> i")
      case True
      then show ?thesis using assms d Some by (simp add: apply_swap_def split: target.split)
    next
      case False
      then have i: "nat i < length tops" by linarith
      show ?thesis
      proof (cases "target_identifier op")
        case (T_Int j)
        have jn: "0 \<le> j \<and> j < int (length tops) \<Longrightarrow> nat j < length tops" by linarith
        then show ?thesis using ex [OF i, of "nat j"] assms d Some False T_Int by (simp add: apply_swap_def)
      next
        case (T_Str s)
        then show ?thesis
          using replace_ids [of tops invt "nat i" s] assms d Some False i
          by (simp add: apply_swap_def Let_def split: option.split)
      qed (use assms d Some False in \<open>simp add: apply_swap_def\<close>)
    qed
  qed
qed

interpretation drafts: step_invariant "\<lambda>op d. apply_swap d op" draft_ok
  by unfold_locales (use apply_swap_keeps in blast)

lemma swaps_keep:
  "draft_ok d \<Longrightarrow> draft_ids (foldl apply_swap d ops) = draft_ids d \<and> draft_ok (foldl apply_swap d ops) \<and>
     length (fst (foldl apply_swap d ops)) = length (fst d)"
  by (induction ops arbitrary: d) (simp_all add: apply_swap_keeps)

lemma inventory_fold:
  "distinct (map article_id rs) \<Longrightarrow> set (map fst d) \<inter> set (map article_id rs) = {} \<Longrightarrow>
   foldl (\<lambda>d r. AList.update (article_id r) r d) d rs = d @ map (\<lambda>r. (article_id r, r)) rs"
proof (induction rs arbitrary: d)
  case (Cons r rs)
  have "article_id r \<notin> fst ` set d" using Cons.prems(2) by auto
  then have "AList.update (article_id r) r d = d @ [(article_id r, r)]" by (induction d) auto
  then show ?case using Cons by auto
qed simp

lemma draft_of_ok:
  assumes "distinct (map article_id arts)"
  shows "draft_ok (draft_of arts) \<and> draft_ids (draft_of arts) = mset (map article_id arts) \<and>
     length (fst (draft_of arts)) = length (filter is_top10 arts)"
proof -
  have inv: "snd (draft_of arts) = map (\<lambda>r. (article_id r, r)) (filter (\<lambda>r. \<not> is_top10 r) arts)"
    using inventory_fold [of "filter (\<lambda>r. \<not> is_top10 r) arts" "[]"] assms
    by (simp add: draft_of_def distinct_map_filter)
  have part: "mset (filter is_top10 arts) + mset (filter (\<lambda>r. \<not> is_top10 r) arts) = mset arts"
    by (simp add: mset_filter multiset_partition [symmetric])
  have ids: "draft_ids (draft_of arts) = mset (map article_id arts)"
    unfolding draft_ids_def inv
    by (simp add: draft_of_def comp_def image_mset_union [symmetric] part del: image_mset_union)
  moreover have "distinct (map article_id (fst (draft_of arts)) @ map fst (snd (draft_of arts)))"
    using ids assms unfolding draft_ids_def mset_append [symmetric] by (metis mset_eq_imp_distinct_iff)
  moreover have "\<forall>(k, r) \<in> set (snd (draft_of arts)). article_id r = k" unfolding inv by auto
  moreover have "length (fst (draft_of arts)) = length (filter is_top10 arts)" by (simp add: draft_of_def)
  ultimately show ?thesis unfolding draft_ok_def by blast
qed

section \<open>What the transaction does to the table\<close>

text \<open>The ranks a draft assigns, by article.\<close>

definition draft_ranks :: "draft \<Rightarrow> (string \<times> int option) list" where
  "draft_ranks d = map (\<lambda>(i, r). (article_id r, Some (int i))) (enumerate 0 (fst d)) @
     map (\<lambda>(_, r). (article_id r, None)) (snd d)"

definition set_rank :: "string \<Rightarrow> int option \<Rightarrow> detail_row \<Rightarrow> detail_row" where
  "set_rank ts n r = r\<lparr>is_top10 := n \<noteq> None, top10_rank := n, detail_updated := ts\<rparr>"

definition rank_stmt :: "string \<Rightarrow> string \<Rightarrow> string \<times> int option \<Rightarrow> stmt" where
  "rank_stmt b ts e = (case e of (a, Some n) \<Rightarrow> RankDetail b a n ts | (a, None) \<Rightarrow> UnrankDetail b a ts)"

lemma draft_statements_ranks: "draft_statements b ts d = map (rank_stmt b ts) (draft_ranks d)"
  by (simp add: draft_statements_def draft_ranks_def rank_stmt_def case_prod_unfold comp_def)

lemma rank_stmt_applied:
  "apply_write exec_stmt (rank_stmt b ts (a, n)) db =
     db\<lparr>details := map (\<lambda>r. if is_detail b a r then set_rank ts n r else r) (details db)\<rparr>"
  by (cases n) (simp_all add: rank_stmt_def apply_write_def on_details_def update_where_def set_rank_def)

lemma ranks_applied:
  assumes "distinct (map fst es)"
  shows "details (fold (apply_write exec_stmt) (map (rank_stmt b ts) es) db) =
     map (\<lambda>r. if detail_batch r = b then (case map_of es (article_id r) of None \<Rightarrow> r | Some n \<Rightarrow> set_rank ts n r) else r)
       (details db)"
  using assms
proof (induction es arbitrary: db)
  case (Cons e es)
  obtain a n where e: "e = (a, n)" by (cases e)
  have "map_of es a = None" using Cons.prems e by (simp add: map_of_eq_None_iff)
  then show ?case using Cons e
    by (auto simp: rank_stmt_applied is_detail_def set_rank_def split: option.splits)
qed (auto intro!: map_idI [symmetric])

lemma draft_ranks_keys:
  assumes "draft_ok d"
  shows "map fst (draft_ranks d) = map article_id (fst d) @ map fst (snd d)"
proof -
  have "map (\<lambda>p. article_id (snd p)) (enumerate n xs) = map article_id xs" for n xs
    by (induction xs arbitrary: n) auto
  moreover have "map (\<lambda>p. article_id (snd p)) (snd d) = map fst (snd d)"
    using assms by (auto simp: draft_ok_def)
  ultimately show ?thesis by (simp add: draft_ranks_def comp_def case_prod_unfold)
qed

lemma draft_ranks_top:
  assumes "draft_ok d" "i < length (fst d)"
  shows "map_of (draft_ranks d) (article_id (fst d ! i)) = Some (Some (int i))"
proof (rule map_of_is_SomeI)
  show "distinct (map fst (draft_ranks d))" using assms(1) by (simp add: draft_ranks_keys) (simp add: draft_ok_def)
  show "(article_id (fst d ! i), Some (int i)) \<in> set (draft_ranks d)"
    using assms(2) by (auto simp: draft_ranks_def in_set_enumerate_eq intro!: rev_image_eqI [of "(i, fst d ! i)"])
qed

lemma draft_ranks_rest:
  assumes "draft_ok d" "(k, r) \<in> set (snd d)"
  shows "map_of (draft_ranks d) k = Some None"
proof (rule map_of_is_SomeI)
  show "distinct (map fst (draft_ranks d))" using assms(1) by (simp add: draft_ranks_keys) (simp add: draft_ok_def)
  show "(k, None) \<in> set (draft_ranks d)" using assms by (force simp: draft_ranks_def draft_ok_def)
qed

text \<open>
  The table after the ranks of a draft are written: the Top-10 query returns the draft's list.
\<close>

lemma ranks_queried:
  assumes wf: "wf_db db" and ok: "draft_ok d"
    and ids: "draft_ids d = mset (map article_id (batch_rows b db))"
    and db': "db' = fold (apply_write exec_stmt) (map (rank_stmt b ts) (draft_ranks d)) db"
  shows "map article_id (get_batch_articles b True db') = map article_id (fst d)
     \<and> map top10_rank (get_batch_articles b True db') = map (\<lambda>i. Some (int i)) [0..<length (fst d)]
     \<and> map article_id (batch_rows b db') = map article_id (batch_rows b db)"
proof -
  let ?R = "batch_rows b db"
  define upd where "upd r = (case map_of (draft_ranks d) (article_id r) of None \<Rightarrow> r | Some n \<Rightarrow> set_rank ts n r)" for r
  define row where "row a = the (List.find (\<lambda>r. article_id r = a) ?R)" for a
  have keep: "article_id (upd r) = article_id r" "detail_batch (upd r) = detail_batch r" for r
    by (auto simp: upd_def set_rank_def split: option.split)
  have details': "details db' = map (\<lambda>r. if detail_batch r = b then upd r else r) (details db)"
    unfolding db' using ok by (subst ranks_applied) (simp_all add: draft_ranks_keys upd_def, simp add: draft_ok_def)
  have rows': "batch_rows b db' = map upd ?R"
  proof -
    have "filter (\<lambda>r. detail_batch r = b) (map (\<lambda>r. if detail_batch r = b then upd r else r) xs) =
        map upd (filter (\<lambda>r. detail_batch r = b) xs)" for xs
      by (induction xs) (simp_all add: keep)
    then show ?thesis unfolding batch_rows_def details' .
  qed
  have art: "distinct (map article_id ?R)"
  proof -
    have "distinct (map (\<lambda>r. (detail_batch r, article_id r)) ?R)"
      using wf by (simp add: wf_db_def batch_rows_def distinct_map_filter)
    then show ?thesis by (auto simp: distinct_map batch_rows_def inj_on_def)
  qed
  have all: "set (map article_id ?R) = set (map article_id (fst d)) \<union> set (map fst (snd d))"
    using arg_cong [OF ids, of set_mset] by (simp add: draft_ids_def)
  have row: "row a \<in> set ?R" "article_id (row a) = a" if "a \<in> set (map article_id (fst d))" for a
  proof -
    have "a \<in> set (map article_id ?R)" using that all by blast
    then have "List.find (\<lambda>r. article_id r = a) ?R \<noteq> None" by (auto simp: find_None_iff)
    then obtain r where r: "List.find (\<lambda>r. article_id r = a) ?R = Some r" by blast
    then have "r \<in> set ?R \<and> article_id r = a" using find_Some_iff [of "\<lambda>r. article_id r = a" ?R r] by force
    then show "row a \<in> set ?R" "article_id (row a) = a" using r by (simp_all add: row_def)
  qed
  have top: "is_top10 (upd r) \<longleftrightarrow> article_id r \<in> set (map article_id (fst d))" if "r \<in> set ?R" for r
  proof (cases "article_id r \<in> set (map article_id (fst d))")
    case True
    then obtain i where i: "i < length (fst d)" "article_id r = article_id (fst d ! i)"
      by (auto simp: in_set_conv_nth)
    have "map_of (draft_ranks d) (article_id r) = Some (Some (int i))"
      using draft_ranks_top [OF ok i(1)] unfolding i(2) .
    then show ?thesis using True by (simp add: upd_def set_rank_def)
  next
    case False
    then have "article_id r \<in> set (map fst (snd d))" using that all by auto
    then obtain q where "(article_id r, q) \<in> set (snd d)" by auto
    then have "map_of (draft_ranks d) (article_id r) = Some None" by (rule draft_ranks_rest [OF ok])
    then show ?thesis using False by (simp add: upd_def set_rank_def)
  qed
  define zs where "zs = map (\<lambda>i. upd (row (article_id (fst d ! i)))) [0..<length (fst d)]"
  have len: "length zs = length (fst d)" by (simp add: zs_def)
  have ids_zs: "map article_id zs = map article_id (fst d)"
    unfolding zs_def by (rule nth_equalityI) (simp_all add: keep row(2))
  have dtop: "distinct (map article_id (fst d))" using ok by (simp add: draft_ok_def)
  have set_zs: "set zs = set (filter is_top10 (batch_rows b db'))"
  proof (intro equalityI subsetI)
    fix z assume "z \<in> set zs"
    then obtain i where i: "i < length (fst d)" "z = upd (row (article_id (fst d ! i)))" by (auto simp: zs_def)
    then show "z \<in> set (filter is_top10 (batch_rows b db'))"
      using row [of "article_id (fst d ! i)"] top [of "row (article_id (fst d ! i))"] by (simp add: rows')
  next
    fix z assume "z \<in> set (filter is_top10 (batch_rows b db'))"
    then obtain r where r: "r \<in> set ?R" "z = upd r" "article_id r \<in> set (map article_id (fst d))"
      using top by (auto simp: rows')
    then obtain i where i: "i < length (fst d)" "article_id r = article_id (fst d ! i)"
      by (auto simp: in_set_conv_nth)
    have "row (article_id r) = r"
      using row [OF r(3)] r(1) art by (auto simp: distinct_map dest: inj_onD)
    then show "z \<in> set zs" using i r(2) by (auto simp: zs_def)
  qed
  have "distinct zs" using dtop ids_zs by (metis distinct_map)
  moreover have "distinct (filter is_top10 (batch_rows b db'))"
  proof -
    have "map article_id (batch_rows b db') = map article_id ?R" by (simp add: rows' keep)
    then show ?thesis using art by (metis distinct_map distinct_filter)
  qed
  ultimately have mz: "mset zs = mset (filter is_top10 (batch_rows b db'))"
    using set_zs by (simp only: set_eq_iff_mset_eq_distinct)
  have key: "rank_order (zs ! i) = (False, Some (int i), detail_id (zs ! i)) \<and> top10_rank (zs ! i) = Some (int i)"
    if "i < length (fst d)" for i
  proof -
    have "article_id (row (article_id (fst d ! i))) = article_id (fst d ! i)" using that by (intro row(2)) simp
    then have "map_of (draft_ranks d) (article_id (row (article_id (fst d ! i)))) = Some (Some (int i))"
      using draft_ranks_top [OF ok that] by simp
    then show ?thesis using that by (simp add: zs_def rank_order_def upd_def set_rank_def)
  qed
  have q: "get_batch_articles b True db' = zs"
    unfolding get_batch_articles_def
  proof (rule sort_key_unique)
    show "mset zs = mset (filter (\<lambda>r. \<not> True \<or> is_top10 r) (batch_rows b db'))" using mz by simp
    show "distinct (map rank_order zs)"
      using key by (simp add: distinct_conv_nth len)
    show "sorted (map rank_order zs)"
      using key by (simp add: sorted_iff_nth_mono_less len)
  qed
  have "map top10_rank zs = map (\<lambda>i. Some (int i)) [0..<length (fst d)]"
    by (rule nth_equalityI) (use key in \<open>simp_all add: len\<close>)
  then show ?thesis using ids_zs by (simp add: q rows' keep comp_def)
qed

lemma batch_article_ids_distinct:
  assumes "wf_db db"
  shows "distinct (map article_id (batch_rows b db))"
proof -
  have "distinct (map (\<lambda>r. (detail_batch r, article_id r)) (batch_rows b db))"
    using assms by (simp add: wf_db_def batch_rows_def distinct_map_filter)
  then show ?thesis by (auto simp: distinct_map batch_rows_def inj_on_def)
qed

text \<open>
  C25: An edit of a draft keeps the Top-10 whole. For every list of swap operations, valid or not: after
  the transaction the editor enqueues is applied, the query of the batch's Top-10 returns exactly the
  list the answer reports, in that order; it is as long as before; its ranks are 0, 1, 2, ... without gap
  or repetition; and the batch still has the same articles.
\<close>
theorem edit_keeps_top10_whole:
  assumes wf: "wf_db db" and run: "run_draft_editor b ops ts db = (Edited tops, stmts)"
    and db': "db' = fold (apply_write exec_stmt) stmts db"
  shows "map article_id (get_batch_articles b True db') = tops
     \<and> length tops = length (get_batch_articles b True db)
     \<and> map top10_rank (get_batch_articles b True db') = map (\<lambda>i. Some (int i)) [0..<length tops]
     \<and> map article_id (batch_rows b db') = map article_id (batch_rows b db)"
proof -
  let ?arts = "get_batch_articles b False db"
  let ?d = "foldl apply_swap (draft_of ?arts) ops"
  have arts: "mset ?arts = mset (batch_rows b db)" by (simp add: get_batch_articles_def)
  then have ids: "mset (map article_id ?arts) = mset (map article_id (batch_rows b db))" by simp
  then have dist: "distinct (map article_id ?arts)"
    using batch_article_ids_distinct [OF wf] by (metis mset_eq_imp_distinct_iff)
  note start = draft_of_ok [OF dist]
  then have d: "draft_ids ?d = mset (map article_id (batch_rows b db))" "draft_ok ?d"
    "length (fst ?d) = length (filter is_top10 ?arts)"
    using swaps_keep [of "draft_of ?arts" ops] ids by simp_all
  have out: "tops = map article_id (fst ?d)" "stmts = map (rank_stmt b ts) (draft_ranks ?d)"
    using run by (auto simp: run_draft_editor_def Let_def draft_statements_ranks split: if_splits option.splits)
  have "length (filter is_top10 ?arts) = length (get_batch_articles b True db)"
    by (simp add: get_batch_articles_def filter_sort)
  then show ?thesis
    using ranks_queried [OF wf d(2,1) db' [unfolded out]] d(3) by (simp add: out)
qed

definition demo_draft_db :: op_db where
  "demo_draft_db = demo_batch_db\<lparr>
     details := [demo_detail 1 ''B'' ''x'' P_PENDING, demo_detail 2 ''B'' ''y'' P_PENDING,
       (new_detail 3 ''B'' ''z'' False None ''t'')], next_detail := 4\<rparr>"

definition demo_swaps :: "swap_operation list" where
  "demo_swaps = [\<lparr>index_top10 = Some 0, target_identifier = T_Int 1\<rparr>,
     \<lparr>index_top10 = Some 1, target_identifier = T_Str ''z''\<rparr>,
     \<lparr>index_top10 = Some 7, target_identifier = T_Int 0\<rparr>]"

theorem edit_keeps_top10_whole_witness:
  "map article_id (get_batch_articles ''B'' True
     (fold (apply_write exec_stmt) (snd (run_draft_editor ''B'' demo_swaps ''u'' demo_draft_db)) demo_draft_db)) = [''y'', ''z'']"
proof -
  have wf: "wf_db demo_draft_db"
    by (simp add: wf_db_def demo_draft_db_def demo_batch_db_def empty_db_def demo_detail_def new_detail_def)
  have "fst (run_draft_editor ''B'' demo_swaps ''u'' demo_draft_db) = Edited [''y'', ''z'']"
    by code_simp
  then obtain st where st: "run_draft_editor ''B'' demo_swaps ''u'' demo_draft_db = (Edited [''y'', ''z''], st)"
    by (cases "run_draft_editor ''B'' demo_swaps ''u'' demo_draft_db") auto
  show ?thesis using edit_keeps_top10_whole [OF wf st refl] st by simp
qed

text \<open>A batch that is being published, or is done, is locked: the editor writes nothing.\<close>

lemma edit_locked:
  "List.find (\<lambda>r. batch_id r = b) (batches db) = Some i \<Longrightarrow> batch_state i \<in> {B_PUBLISHING, B_COMPLETED} \<Longrightarrow>
     run_draft_editor b ops ts db = (Edit_Failed, [])"
  by (auto simp: run_draft_editor_def)

end
