(* ===== verification/Resilience.thy ===== *)
theory Resilience
  imports Prelude
begin

text \<open>
  \<open>database/backup/resilience\<close>: the circuit breaker around every cloud operation
  (\<open>circuit_breaker.py\<close>), the retry on an expired Snowflake session (\<open>session_recovery.py\<close>) and
  their composition at the end of \<open>sync_operations.sync_data\<close>.

  A callable is a function from the state it works on to its result and the new state; a result is an
  exception on the left or a value on the right. \<open>time.monotonic()\<close> is an argument, in ticks of
  the clock, one reading before the call and one after a failure; \<open>reset_timeout\<close> is in the same
  ticks. The log lines are left out.
\<close>

section \<open>The circuit breaker\<close>

datatype breaker_state = CLOSED | OPEN | HALF_OPEN

record breaker =
  brk_state :: breaker_state
  failure_threshold :: nat
  reset_timeout :: int
  failure_count :: nat
  last_failure_time :: int

definition new_breaker :: "nat \<Rightarrow> int \<Rightarrow> breaker" where
  "new_breaker n t = \<lparr>brk_state = CLOSED, failure_threshold = n, reset_timeout = t,
     failure_count = 0, last_failure_time = 0\<rparr>"

datatype 'e breaker_error = Circuit_Open | Raised 'e

type_synonym ('s, 'e, 'a) callable = "'s \<Rightarrow> ('e + 'a) \<times> 's"

text \<open>The guard before the call: \<open>None\<close> is \<open>raise CircuitOpenError\<close>.\<close>

definition admit :: "int \<Rightarrow> breaker \<Rightarrow> breaker option" where
  "admit now b =
     (if brk_state b = OPEN
      then if now - last_failure_time b > reset_timeout b
           then Some (b\<lparr>brk_state := HALF_OPEN\<rparr>) else None
      else Some b)"

definition on_success :: "breaker \<Rightarrow> breaker" where
  "on_success b =
     (if brk_state b = HALF_OPEN then b\<lparr>brk_state := CLOSED, failure_count := 0\<rparr> else b)"

definition on_failure :: "int \<Rightarrow> breaker \<Rightarrow> breaker" where
  "on_failure now b =
     (let b = b\<lparr>failure_count := failure_count b + 1, last_failure_time := now\<rparr> in
      if failure_count b \<ge> failure_threshold b then b\<lparr>brk_state := OPEN\<rparr> else b)"

definition call :: "int \<Rightarrow> int \<Rightarrow> ('s, 'e, 'a) callable \<Rightarrow> breaker \<times> 's \<Rightarrow>
    ('e breaker_error + 'a) \<times> breaker \<times> 's" where
  "call before after f bs =
     (case bs of (b, s) \<Rightarrow>
      (case admit before b of
         None \<Rightarrow> (Inl Circuit_Open, b, s)
       | Some b' \<Rightarrow>
           (case f s of
              (Inr a, s') \<Rightarrow> (Inr a, on_success b', s')
            | (Inl e, s') \<Rightarrow> (Inl (Raised e), on_failure after b', s'))))"

text \<open>
  What the breaker maintains: it is open exactly when its failures have reached the threshold, unless
  a probe is in flight.
\<close>

definition breaker_ok :: "breaker \<Rightarrow> bool" where
  "breaker_ok b \<longleftrightarrow> 0 < failure_threshold b \<and>
     (brk_state b = CLOSED \<longrightarrow> failure_count b < failure_threshold b) \<and>
     (brk_state b \<noteq> CLOSED \<longrightarrow> failure_threshold b \<le> failure_count b)"

text \<open>One call from outside, at one instant, of a function that succeeds or fails.\<close>

definition brk_step :: "int \<times> bool \<Rightarrow> breaker \<Rightarrow> breaker" where
  "brk_step ev b =
     (case ev of (now, ok) \<Rightarrow>
        fst (snd (call now now (\<lambda>s. (if ok then Inr () else Inl (), s)) (b, ()))))"

lemma call_open [simp]:
  "admit before b = None \<Longrightarrow> call before after f (b, s) = (Inl Circuit_Open, b, s)"
  by (simp add: call_def)

lemma call_admitted:
  "admit before b = Some b' \<Longrightarrow> call before after f (b, s) =
     (case f s of (Inr a, s') \<Rightarrow> (Inr a, on_success b', s')
                | (Inl e, s') \<Rightarrow> (Inl (Raised e), on_failure after b', s'))"
  by (simp add: call_def)

lemma brk_step_cases:
  "brk_step (now, ok) b =
     (case admit now b of None \<Rightarrow> b
      | Some b' \<Rightarrow> if ok then on_success b' else on_failure now b')"
  by (simp add: brk_step_def call_def split: option.split)

interpretation brk: step_invariant brk_step "\<lambda>b. breaker_ok b \<and> brk_state b \<noteq> HALF_OPEN"
proof
  fix b e assume a: "breaker_ok b \<and> brk_state b \<noteq> HALF_OPEN"
  then show "breaker_ok (brk_step e b) \<and> brk_state (brk_step e b) \<noteq> HALF_OPEN"
    by (cases e; cases "brk_state b")
      (auto simp: brk_step_cases admit_def on_success_def on_failure_def breaker_ok_def Let_def)
qed

lemma new_breaker_ok: "0 < n \<Longrightarrow> breaker_ok (new_breaker n t) \<and> brk_state (new_breaker n t) \<noteq> HALF_OPEN"
  by (simp add: new_breaker_def breaker_ok_def)

lemma brk_step_config [simp]:
  "failure_threshold (brk_step e b) = failure_threshold b"
  "reset_timeout (brk_step e b) = reset_timeout b"
  by (cases e; simp add: brk_step_cases admit_def on_success_def on_failure_def Let_def split: option.split)+

lemma brk_fold_config [simp]:
  "failure_threshold (fold brk_step es b) = failure_threshold b"
  "reset_timeout (fold brk_step es b) = reset_timeout b"
  by (induction es arbitrary: b) auto

text \<open>The instants at which the function was really called, over a sequence of calls.\<close>

fun admitted :: "(int \<times> bool) list \<Rightarrow> breaker \<Rightarrow> (int \<times> bool) list" where
  "admitted [] b = []"
| "admitted (e # es) b =
     (case admit (fst e) b of
        None \<Rightarrow> admitted es (brk_step e b)
      | Some _ \<Rightarrow> e # admitted es (brk_step e b))"

lemma admitted_while_open:
  assumes "brk_state b = OPEN" "breaker_ok b" "\<forall>e \<in> set es. \<not> snd e"
  shows "successively (\<lambda>x y. y - x > reset_timeout b) (last_failure_time b # map fst (admitted es b))"
  using assms
proof (induction es arbitrary: b)
  case (Cons e es)
  obtain t where e: "e = (t, False)" using Cons.prems by (cases e) auto
  show ?case
  proof (cases "t - last_failure_time b > reset_timeout b")
    case True
    let ?b = "brk_step e b"
    have "brk_state ?b = OPEN" "breaker_ok ?b" "last_failure_time ?b = t"
      using True Cons.prems e
      by (auto simp: brk_step_cases admit_def on_failure_def breaker_ok_def Let_def)
    then show ?thesis using Cons.IH [of ?b] Cons.prems True e
      by (simp add: admit_def)
  next
    case False
    then have "brk_step e b = b" "admit t b = None"
      using Cons.prems e by (simp_all add: brk_step_cases admit_def)
    then show ?thesis using Cons e by simp
  qed
qed simp

lemma admitted_outage:
  assumes "brk_state b = CLOSED" "breaker_ok b" "\<forall>e \<in> set es. \<not> snd e"
  shows "successively (\<lambda>x y. y - x > reset_timeout b)
     (drop (failure_threshold b - 1 - failure_count b) (map fst (admitted es b)))"
  using assms
proof (induction es arbitrary: b)
  case (Cons e es)
  obtain t where e: "e = (t, False)" using Cons.prems by (cases e) auto
  let ?b = "brk_step e b"
  have adm: "admitted (e # es) b = e # admitted es ?b"
    using Cons.prems by (simp add: admit_def)
  show ?case
  proof (cases "failure_count b + 1 < failure_threshold b")
    case True
    then have st: "?b = b\<lparr>failure_count := failure_count b + 1, last_failure_time := t\<rparr>"
      using Cons.prems e by (simp add: brk_step_cases admit_def on_failure_def Let_def)
    then have "brk_state ?b = CLOSED" "breaker_ok ?b" using True Cons.prems by (auto simp: breaker_ok_def)
    moreover have "drop (failure_threshold b - 1 - failure_count b) (map fst (admitted (e # es) b))
        = drop (failure_threshold ?b - 1 - failure_count ?b) (map fst (admitted es ?b))"
    proof -
      have "failure_threshold b - 1 - failure_count b = Suc (failure_threshold b - 1 - (failure_count b + 1))"
        using True by simp
      then show ?thesis unfolding adm by (simp add: st)
    qed
    ultimately show ?thesis using Cons.IH [of ?b] Cons.prems by simp
  next
    case False
    then have "brk_state ?b = OPEN" "breaker_ok ?b" "last_failure_time ?b = t"
      using Cons.prems e
      by (auto simp: brk_step_cases admit_def on_failure_def breaker_ok_def Let_def)
    then have "successively (\<lambda>x y. y - x > reset_timeout b) (t # map fst (admitted es ?b))"
      using admitted_while_open [of ?b es] Cons.prems by simp
    moreover have "failure_threshold b - 1 - failure_count b = 0" using False by simp
    ultimately show ?thesis using adm e by simp
  qed
qed simp



text \<open>
  Successes of a closed breaker do not reset its count: it opens at the \<open>threshold\<close>-th failure since
  the last recovery, however many calls succeeded in between.
\<close>

lemma closed_counts_failures:
  assumes "brk_state b = CLOSED"
    and "failure_count b + length (filter (\<lambda>e. \<not> snd e) es) < failure_threshold b"
  shows "brk_state (fold brk_step es b) = CLOSED \<and>
     failure_count (fold brk_step es b) = failure_count b + length (filter (\<lambda>e. \<not> snd e) es)"
  using assms
proof (induction es arbitrary: b)
  case (Cons e es)
  obtain t ok where e: "e = (t, ok)" by (cases e)
  show ?case
  proof (cases ok)
    case True
    then have "brk_step e b = b"
      using Cons.prems e by (simp add: brk_step_cases admit_def on_success_def)
    then show ?thesis using Cons e True by simp
  next
    case False
    then have "brk_step e b = b\<lparr>failure_count := failure_count b + 1, last_failure_time := t\<rparr>"
      using Cons.prems e by (simp add: brk_step_cases admit_def on_failure_def Let_def)
    then show ?thesis using Cons.IH [of "brk_step e b"] Cons.prems e False by simp
  qed
qed simp

text \<open>
  A breaker opens at the \<open>threshold\<close>-th failure since it was created, whatever the calls between
  the failures did: successes of a closed breaker do not reset the count.
\<close>

theorem opens_at_threshold_failure:
  assumes "length (filter (\<lambda>e. \<not> snd e) es) + 1 = n"
  shows "brk_state (fold brk_step es (new_breaker n t)) = CLOSED \<and>
     brk_state (fold brk_step (es @ [(now, False)]) (new_breaker n t)) = OPEN"
proof -
  let ?b = "fold brk_step es (new_breaker n t)"
  have c: "brk_state ?b = CLOSED \<and> failure_count ?b = length (filter (\<lambda>e. \<not> snd e) es)"
    using closed_counts_failures [of "new_breaker n t" es] assms by (simp add: new_breaker_def)
  have "failure_threshold ?b = n" by (simp add: new_breaker_def)
  then show ?thesis
    using c assms by (simp add: brk_step_cases admit_def on_failure_def Let_def)
qed

lemma opens_at_threshold_failure_witness:
  "brk_state (fold brk_step ([(0, False), (1, True), (2, True), (9, False), (10, True)] @ [(400, False)])
     (new_breaker 3 300)) = OPEN"
  by (rule conjunct2 [OF opens_at_threshold_failure]) simp

section \<open>The retry on an expired session\<close>

text \<open>
  A database exception with the attributes the code reads; \<open>None\<close> is a missing attribute,
  \<open>exc_text\<close> is \<open>str(exc)\<close>.
\<close>

record exn =
  exc_errno :: "int option"
  exc_sqlstate :: "string option"
  exc_text :: string

definition SESSION_EXPIRED_ERRNOS :: "int list" where
  "SESSION_EXPIRED_ERRNOS = [390111, 390114, 390188]"

definition SESSION_EXPIRED_SQLSTATES :: "string list" where
  "SESSION_EXPIRED_SQLSTATES = [''08003'', ''08006'']"

definition is_session_expired :: "exn \<Rightarrow> bool" where
  "is_session_expired e \<longleftrightarrow>
     exc_errno e \<in> Some ` set SESSION_EXPIRED_ERRNOS \<or>
     exc_sqlstate e \<in> Some ` set SESSION_EXPIRED_SQLSTATES \<or>
     contains ''390111'' (exc_text e) \<or> contains ''Session no longer exists'' (exc_text e)"

text \<open>
  \<open>with_session_recovery\<close>: the state carries the thread-local \<open>in_retry\<close> flag, which the wrapped
  function sees and may itself set (a nested wrapper does); \<open>dispose\<close> is what \<open>engine.dispose()\<close>
  makes of the state, whether it raises or not, since its exception is swallowed.
\<close>

definition with_session_recovery ::
    "('s \<Rightarrow> 's) \<Rightarrow> int \<Rightarrow> (bool \<times> 's, exn, 'a) callable \<Rightarrow> (bool \<times> 's, exn, 'a) callable" where
  "with_session_recovery dispose max_retries fn w =
     (if fst w then fn w
      else
        (case fn w of
           (Inr a, w') \<Rightarrow> (Inr a, w')
         | (Inl exc, w') \<Rightarrow>
             if \<not> is_session_expired exc then (Inl exc, w')
             else if max_retries < 1 then (Inl exc, w')
             else (case fn (True, dispose (snd w')) of (r, w'') \<Rightarrow> (r, (False, snd w'')))))"

text \<open>The function with its calls counted, and its outcome of the first call.\<close>

definition counted :: "(bool \<times> 's, exn, 'a) callable \<Rightarrow> (bool \<times> (nat \<times> 's), exn, 'a) callable" where
  "counted fn w = (case w of (g, (k, s)) \<Rightarrow> (case fn (g, s) of (r, (g', s')) \<Rightarrow> (r, (g', (k + 1, s')))))"

definition retries :: "int \<Rightarrow> (bool \<times> 's, exn, 'a) callable \<Rightarrow> bool \<times> 's \<Rightarrow> bool" where
  "retries max_retries fn w \<longleftrightarrow> \<not> fst w \<and> 1 \<le> max_retries \<and>
     (case fst (fn w) of Inl e \<Rightarrow> is_session_expired e | Inr _ \<Rightarrow> False)"

text \<open>
  The wrapper calls its function at most twice whatever \<open>max_retries\<close> is, and twice exactly when the
  first call raised a session-expired error outside another retry; the count does not influence the
  result, and a run that starts outside a retry with a function that keeps the flag ends outside one.
\<close>

theorem recovery_calls_at_most_twice:
  "case with_session_recovery (apsnd dispose) m (counted fn) (g, (k, s)) of
     (r, (g', (k', s'))) \<Rightarrow>
        k' = (if retries m fn (g, s) then k + 2 else k + 1) \<and>
        with_session_recovery dispose m fn (g, s) = (r, (g', s')) \<and>
        (retries m fn (g, s) \<longrightarrow> \<not> g') \<and>
        (\<not> retries m fn (g, s) \<longrightarrow> (r, (g', s')) = fn (g, s))"
  by (auto simp: with_session_recovery_def counted_def retries_def split: prod.splits sum.splits)

text \<open>A cloud whose first statement meets an expired session; the state counts the logins.\<close>

definition demo_session :: "(bool \<times> nat, exn, nat) callable" where
  "demo_session w =
     (if snd w = 0 then (Inl \<lparr>exc_errno = Some 390111, exc_sqlstate = None, exc_text = ''''\<rparr>, w)
      else (Inr 7, w))"

lemma recovery_calls_at_most_twice_witness:
  "with_session_recovery (apsnd Suc) 5 (counted demo_session) (False, (0, 0)) = (Inr 7, (False, (2, 1)))"
proof -
  obtain r g k s where run: "with_session_recovery (apsnd Suc) 5 (counted demo_session) (False, (0, 0)) = (r, (g, (k, s)))"
    by (metis prod.collapse)
  have ret: "retries 5 demo_session (False, 0)"
    by (simp add: retries_def demo_session_def is_session_expired_def SESSION_EXPIRED_ERRNOS_def)
  have "with_session_recovery Suc 5 demo_session (False, 0) = (Inr 7, (False, 1))"
    by (simp add: with_session_recovery_def demo_session_def is_session_expired_def SESSION_EXPIRED_ERRNOS_def)
  with recovery_calls_at_most_twice [where dispose = Suc and m = 5 and fn = demo_session and g = False and k = 0 and s = 0, unfolded run prod.case] ret
  show ?thesis using run by simp
qed

section \<open>Their composition\<close>

text \<open>The last two statements of \<open>sync_data\<close> and \<open>pull_to_local\<close>.\<close>

definition guarded_cloud_call :: "int \<Rightarrow> int \<Rightarrow> ('s \<Rightarrow> 's) \<Rightarrow> (bool \<times> 's, exn, 'a) callable \<Rightarrow>
    breaker \<times> (bool \<times> 's) \<Rightarrow> (exn breaker_error + 'a) \<times> breaker \<times> (bool \<times> 's)" where
  "guarded_cloud_call before after dispose fn =
     call before after (with_session_recovery dispose 1 fn)"

text \<open>
  A session that expires during a cloud operation is invisible to the circuit breaker when the retry
  succeeds (a closed breaker is unchanged), and costs one failure when the retry fails too, with
  the error of the retry, not the original one, reaching the caller.
\<close>

theorem expiry_counts_once:
  assumes "admit before b = Some b'"
    and "fn (False, s) = (Inl e, (g1, s1))" and "is_session_expired e"
    and "fn (True, dispose s1) = (r, (g2, s2))"
  shows "guarded_cloud_call before after dispose fn (b, (False, s)) =
     (case r of
        Inr a \<Rightarrow> (Inr a, on_success b', (False, s2))
      | Inl e' \<Rightarrow> (Inl (Raised e'), on_failure after b', (False, s2)))"
  using assms
  by (simp add: guarded_cloud_call_def call_admitted with_session_recovery_def split: sum.split)

lemma expiry_counts_once_witness:
  "guarded_cloud_call 5 6 Suc demo_session (new_breaker 3 300, (False, 0)) =
     (Inr 7, new_breaker 3 300, (False, 1))"
proof -
  have "guarded_cloud_call 5 6 Suc demo_session (new_breaker 3 300, (False, 0)) =
     (case Inr 7 of
        Inr a \<Rightarrow> (Inr a, on_success (new_breaker 3 300), (False, 1))
      | Inl e' \<Rightarrow> (Inl (Raised e'), on_failure 6 (new_breaker 3 300), (False, 1)))"
    by (rule expiry_counts_once [where ?e = "\<lparr>exc_errno = Some 390111, exc_sqlstate = None, exc_text = ''''\<rparr>"
          and ?g1.0 = False and ?s1.0 = 0 and ?g2.0 = True])
      (simp_all add: admit_def new_breaker_def demo_session_def is_session_expired_def
        SESSION_EXPIRED_ERRNOS_def)
  then show ?thesis by (simp add: on_success_def new_breaker_def)
qed

end
