(* ===== verification/Cloud_Rows.thy ===== *)
theory Cloud_Rows
  imports Prelude
begin

text \<open>
  The rows that travel between the operational database and Snowflake, and the SQL the backup code runs
  on a cloud table: Python records (dicts from column names to values), primary keys of one or several
  columns, the deduplication of \<open>_flush_batch\<close> and \<open>merge_to_cloud\<close>, the \<open>MERGE\<close> and \<open>DELETE\<close> statements.

  A dict is an association list with distinct keys in insertion order; a table is the list of its rows.
  SQL's \<open>=\<close> is never true of \<open>NULL\<close>. Values are compared within their type, as the columns are typed
  alike on both sides.
\<close>

datatype cell = CNull | CInt int | CStr string | CBlob "nat list"

type_synonym row = "(string \<times> cell) list"

datatype pk_col = Pk string | Pks "string list"

text \<open>\<open>[pk_col] if isinstance(pk_col, str) else list(pk_col)\<close>.\<close>

definition pk_cols :: "pk_col \<Rightarrow> string list" where
  "pk_cols p = (case p of Pk c \<Rightarrow> [c] | Pks cs \<Rightarrow> cs)"

definition has_col :: "row \<Rightarrow> string \<Rightarrow> bool" where
  "has_col r c \<longleftrightarrow> map_of r c \<noteq> None"

text \<open>\<open>r.get(c)\<close>.\<close>

definition get_col :: "row \<Rightarrow> string \<Rightarrow> cell" where
  "get_col r c = (case map_of r c of None \<Rightarrow> CNull | Some v \<Rightarrow> v)"

text \<open>The key under which a record is deduplicated; \<open>None\<close> is \<open>id(r)\<close>, which no other record has.\<close>

definition dedup_key :: "pk_col \<Rightarrow> row \<Rightarrow> cell list option" where
  "dedup_key p r =
     (case p of
        Pk c \<Rightarrow> if get_col r c = CNull then None else Some [get_col r c]
      | Pks cs \<Rightarrow> if list_all (has_col r) cs then Some (map (get_col r) cs) else None)"

text \<open>\<open>deduped_records[k] = r\<close>: an existing key keeps its place and takes the new record.\<close>

definition dedup_put :: "pk_col \<Rightarrow> (cell list option \<times> row) list \<Rightarrow> row \<Rightarrow> (cell list option \<times> row) list" where
  "dedup_put p d r =
     (case dedup_key p r of None \<Rightarrow> d @ [(None, r)] | Some k \<Rightarrow> AList.update (Some k) r d)"

definition dedup :: "pk_col \<Rightarrow> row list \<Rightarrow> row list" where
  "dedup p rs = map snd (foldl (dedup_put p) [] rs)"

section \<open>Deduplication\<close>

definition dedup_inv :: "pk_col \<Rightarrow> (cell list option \<times> row) list \<Rightarrow> bool" where
  "dedup_inv p d \<longleftrightarrow> (\<forall>(k, r) \<in> set d. k = dedup_key p r) \<and>
     distinct (map fst (filter (\<lambda>kr. fst kr \<noteq> None) d))"

lemma filter_update_some:
  "filter (\<lambda>kr. fst kr \<noteq> None) (AList.update (Some k) r d) =
     AList.update (Some k) r (filter (\<lambda>kr. fst kr \<noteq> None) d)"
  by (induction d) auto

lemma dedup_put_inv:
  assumes "dedup_inv p d" shows "dedup_inv p (dedup_put p d r)"
proof (cases "dedup_key p r")
  case None
  then show ?thesis using assms by (auto simp: dedup_inv_def dedup_put_def)
next
  case (Some k)
  have "set (AList.update (Some k) r d) \<subseteq> insert (Some k, r) (set d)"
    by (induction d) auto
  moreover have "distinct (map fst (filter (\<lambda>kr. fst kr \<noteq> None) (AList.update (Some k) r d)))"
    unfolding filter_update_some by (rule distinct_update) (use assms in \<open>simp add: dedup_inv_def\<close>)
  ultimately show ?thesis using assms Some by (auto simp: dedup_inv_def dedup_put_def)
qed

lemma dedup_fold_inv: "dedup_inv p d \<Longrightarrow> dedup_inv p (foldl (dedup_put p) d rs)"
  by (induction rs arbitrary: d) (auto intro: dedup_put_inv)

lemma dedup_put_set: "set (dedup_put p d r) \<subseteq> insert (dedup_key p r, r) (set d)"
proof -
  have "set (AList.update (Some k) r d) \<subseteq> insert (Some k, r) (set d)" for k
    by (induction d) auto
  then show ?thesis by (auto simp: dedup_put_def split: option.split)
qed

lemma dedup_fold_set: "snd ` set (foldl (dedup_put p) d rs) \<subseteq> snd ` set d \<union> set rs"
proof (induction rs arbitrary: d)
  case (Cons r rs)
  have "snd ` set (dedup_put p d r) \<subseteq> insert r (snd ` set d)"
    using dedup_put_set [of p d r] by auto
  with Cons [of "dedup_put p d r"] show ?case by (simp del: image_insert) blast
qed simp

lemma dedup_subset: "set (dedup p rs) \<subseteq> set rs"
  using dedup_fold_set [of p "[]" rs] by (simp add: dedup_def)

lemma keys_filter: "map fst (filter (\<lambda>kr. fst kr \<noteq> None) d) = filter (\<lambda>k. k \<noteq> None) (map fst d)"
  by (induction d) auto

lemma dedup_keys_distinct: "distinct (filter (\<lambda>k. k \<noteq> None) (map (dedup_key p) (dedup p rs)))"
proof -
  let ?d = "foldl (dedup_put p) [] rs"
  have inv: "dedup_inv p ?d" by (rule dedup_fold_inv) (simp add: dedup_inv_def)
  have "map fst ?d = map (dedup_key p) (map snd ?d)"
    using inv by (auto simp: dedup_inv_def)
  then show ?thesis using inv
    unfolding dedup_inv_def dedup_def keys_filter by (simp only:)
qed

lemma map_of_update_last:
  "map_of (AList.update k v d) k' = (if k' = k then Some v else map_of d k')"
  by (simp add: update_conv')

lemma map_of_app_none: "k \<noteq> None \<Longrightarrow> map_of (d @ [(None, r)]) k = map_of d k"
  by (induction d) auto

lemma dedup_fold_last:
  "map_of (foldl (dedup_put p) d rs) (Some k) =
     (if \<exists>r \<in> set rs. dedup_key p r = Some k
      then Some (last (filter (\<lambda>r. dedup_key p r = Some k) rs)) else map_of d (Some k))"
proof (induction rs rule: rev_induct)
  case (snoc r rs)
  show ?case
  proof (cases "dedup_key p r")
    case None
    then have "dedup_put p d' r = d' @ [(None, r)]" for d' by (simp add: dedup_put_def)
    then show ?thesis using snoc None by (simp add: map_of_app_none del: map_of_append)
  next
    case (Some k')
    then have "dedup_put p d' r = AList.update (Some k') r d'" for d' by (simp add: dedup_put_def)
    then show ?thesis using snoc Some by (auto simp: map_of_update_last)
  qed
qed simp

lemma last_filter_in: "\<exists>r \<in> set rs. P r \<Longrightarrow> last (filter P rs) \<in> set rs \<and> P (last (filter P rs))"
  using last_in_set [of "filter P rs"] by (auto simp: filter_empty_conv)

lemma dedup_keeps_last:
  assumes "r \<in> set rs" and "dedup_key p r = Some k"
  shows "last (filter (\<lambda>x. dedup_key p x = Some k) rs) \<in> set (dedup p rs)"
proof -
  have "map_of (foldl (dedup_put p) [] rs) (Some k) = Some (last (filter (\<lambda>x. dedup_key p x = Some k) rs))"
    using assms by (subst dedup_fold_last) auto
  from map_of_SomeD [OF this] show ?thesis by (force simp: dedup_def)
qed

lemma dedup_only_last:
  assumes "x \<in> set (dedup p rs)" and "dedup_key p x = Some k"
  shows "x = last (filter (\<lambda>y. dedup_key p y = Some k) rs)"
proof -
  let ?l = "last (filter (\<lambda>y. dedup_key p y = Some k) rs)"
  have x: "x \<in> set rs" using assms dedup_subset by blast
  have l: "?l \<in> set (dedup p rs)" "dedup_key p ?l = Some k"
    using dedup_keeps_last [OF x assms(2)] last_filter_in [of rs "\<lambda>y. dedup_key p y = Some k"] x assms(2)
    by blast+
  have "inj_on (dedup_key p) {y \<in> set (dedup p rs). dedup_key p y \<noteq> None}"
  proof -
    have "distinct (map (dedup_key p) (filter (\<lambda>y. dedup_key p y \<noteq> None) (dedup p rs)))"
      using dedup_keys_distinct [of p rs] by (simp add: filter_map comp_def)
    then show ?thesis by (simp add: distinct_map)
  qed
  from inj_onD [OF this, of x ?l] show ?thesis using assms l by simp
qed

lemma dedup_keyless: "r \<in> set rs \<Longrightarrow> dedup_key p r = None \<Longrightarrow> r \<in> set (dedup p rs)"
proof -
  assume r: "r \<in> set rs" "dedup_key p r = None"
  have keep: "(None, x) \<in> set d \<Longrightarrow> (None, x) \<in> set (dedup_put p d y)" for d x y
  proof -
    assume "(None, x) \<in> set d"
    moreover have "(None, x) \<in> set d \<Longrightarrow> (None, x) \<in> set (AList.update (Some k) y d)" for k
      by (induction d) auto
    ultimately show ?thesis by (auto simp: dedup_put_def split: option.split)
  qed
  have "(None, r) \<in> set (foldl (dedup_put p) d rs)" if "(None, r) \<in> set d \<or> r \<in> set rs" for d
    using that
  proof (induction rs arbitrary: d)
    case (Cons y ys)
    then show ?case using keep r(2) Cons.IH [of "dedup_put p d y"] by (auto simp: dedup_put_def)
  qed simp
  then show "r \<in> set (dedup p rs)" using r(1) by (force simp: dedup_def)
qed

section \<open>The statements run on a cloud table\<close>

definition cell_eq :: "cell \<Rightarrow> cell \<Rightarrow> bool" where
  "cell_eq a b \<longleftrightarrow> a \<noteq> CNull \<and> a = b"

definition on_match :: "string list \<Rightarrow> row \<Rightarrow> row \<Rightarrow> bool" where
  "on_match cs t s \<longleftrightarrow> list_all (\<lambda>c. cell_eq (get_col t c) (get_col s c)) cs"

text \<open>\<open>INSERT INTO stage VALUES (:c1, ...)\<close>: every record must bind every column.\<close>

definition stage_rows :: "string list \<Rightarrow> row list \<Rightarrow> row list option" where
  "stage_rows columns rs =
     (if list_all (\<lambda>r. list_all (has_col r) columns) rs
      then Some (map (\<lambda>r. map (\<lambda>c. (c, get_col r c)) columns) rs) else None)"

text \<open>\<open>UPDATE SET t.c = s.c\<close> for the given columns.\<close>

definition set_cols :: "string list \<Rightarrow> row \<Rightarrow> row \<Rightarrow> row" where
  "set_cols cs s t = foldl (\<lambda>t c. AList.update c (get_col s c) t) t cs"

text \<open>
  The \<open>MERGE\<close> of \<open>_flush_batch\<close>: without a column to set, \<open>UPDATE SET\<close> has an empty list, which is a
  syntax error; a target row that two source rows match is Snowflake's error 100090.
\<close>

definition merge_rows :: "string list \<Rightarrow> string list \<Rightarrow> row list \<Rightarrow> row list \<Rightarrow> row list option" where
  "merge_rows cs columns stage t =
     (let upd = filter (\<lambda>c. c \<notin> set cs) columns in
      if upd = [] then None
      else if list_ex (\<lambda>x. length (filter (on_match cs x) stage) > 1) t then None
      else Some (map (\<lambda>x. case List.find (on_match cs x) stage of None \<Rightarrow> x | Some s \<Rightarrow> set_cols upd s x) t
             @ filter (\<lambda>s. \<not> list_ex (\<lambda>x. on_match cs x s) t) stage))"

text \<open>\<open>DELETE FROM t WHERE c IN (...)\<close>, and \<open>WHERE c1 = :c1 AND ...\<close> with every parameter bound.\<close>

definition delete_in :: "string \<Rightarrow> cell list \<Rightarrow> row list \<Rightarrow> row list" where
  "delete_in c vs t = filter (\<lambda>x. \<not> list_ex (cell_eq (get_col x c)) vs) t"

definition delete_where :: "string list \<Rightarrow> row \<Rightarrow> row list \<Rightarrow> row list option" where
  "delete_where cs r t =
     (if list_all (has_col r) cs then Some (filter (\<lambda>x. \<not> on_match cs x r) t) else None)"

lemma get_col_update [simp]:
  "get_col (AList.update c v t) c' = (if c' = c then v else get_col t c')"
  by (simp add: get_col_def update_conv')

lemma get_set_cols:
  "get_col (set_cols cs s t) c = (if c \<in> set cs then get_col s c else get_col t c)"
proof (induction cs arbitrary: t)
  case (Cons d cs)
  have "set_cols (d # cs) s t = set_cols cs s (AList.update d (get_col s d) t)"
    by (simp add: set_cols_def)
  then show ?case using Cons by auto
qed (simp add: set_cols_def)

lemma get_col_staged: "get_col (map (\<lambda>c. (c, get_col r c)) columns) c =
    (if c \<in> set columns then get_col r c else CNull)"
  by (simp add: get_col_def map_of_map_restrict comp_def restrict_map_def)

lemma on_match_get: "on_match cs t s \<Longrightarrow> c \<in> set cs \<Longrightarrow> get_col t c = get_col s c"
  by (auto simp: on_match_def list_all_iff cell_eq_def)

lemma on_match_cong:
  "(\<And>c. c \<in> set cs \<Longrightarrow> get_col t c = get_col t' c) \<Longrightarrow> (\<And>c. c \<in> set cs \<Longrightarrow> get_col s c = get_col s' c) \<Longrightarrow>
   on_match cs t s = on_match cs t' s'"
  by (auto simp: on_match_def list_all_iff)

lemma on_match_refl: "on_match cs s s \<longleftrightarrow> (\<forall>c \<in> set cs. get_col s c \<noteq> CNull)"
  by (auto simp: on_match_def list_all_iff cell_eq_def)

text \<open>
  What a \<open>MERGE\<close> establishes: every source row with a complete key is in the table with all its columns.
\<close>

lemma merge_establishes:
  assumes m: "merge_rows cs columns stage t = Some t'"
    and s: "s \<in> set stage" and sub: "set cs \<subseteq> set columns"
    and uniq: "\<And>s'. s' \<in> set stage \<Longrightarrow> on_match cs s s' \<Longrightarrow> s' = s"
    and pk: "\<forall>c \<in> set cs. get_col s c \<noteq> CNull"
  shows "\<exists>x \<in> set t'. on_match cs x s \<and> (\<forall>c \<in> set columns. get_col x c = get_col s c)"
proof (cases "\<exists>x \<in> set t. on_match cs x s")
  case False
  then have "s \<in> set t'"
    using m s by (auto simp: merge_rows_def Let_def list_ex_iff split: if_splits)
  then show ?thesis using pk by (intro bexI [of _ s]) (auto simp: on_match_refl)
next
  case True
  then obtain x where x: "x \<in> set t" "on_match cs x s" by blast
  let ?upd = "filter (\<lambda>c. c \<notin> set cs) columns"
  have "List.find (on_match cs x) stage \<noteq> None" using s x(2) by (auto simp: find_None_iff)
  then obtain s' where f: "List.find (on_match cs x) stage = Some s'" by blast
  then have s': "s' \<in> set stage" "on_match cs x s'" by (auto simp: find_Some_iff)
  have "on_match cs s s'"
    using s'(2) x(2) by (auto simp: on_match_def list_all_iff cell_eq_def)
  then have "s' = s" using uniq s'(1) by blast
  then have "set_cols ?upd s x \<in> set t'"
    using m f x(1) by (force simp: merge_rows_def Let_def split: if_splits)
  moreover have "\<forall>c \<in> set columns. get_col (set_cols ?upd s x) c = get_col s c"
    using x(2) by (auto simp: get_set_cols dest: on_match_get)
  ultimately show ?thesis
    using x(2) on_match_cong [of cs "set_cols ?upd s x" s s s] pk sub
    by (intro bexI [of _ "set_cols ?upd s x"]) (auto simp: on_match_refl subset_iff)
qed

end
