(* ===== verification/Cloud_Writer.thy ===== *)
theory Cloud_Writer
  imports Cloud_Rows
begin

text \<open>
  \<open>database/backup/writer/cloud_writer.py\<close>: the bounded queue of best-effort cloud writes, the buffer of
  the writer thread, a flush with its one retry and the dead letter queue behind it.

  The cloud is a map from table names to tables. What the network does to an attempt is a list of
  outcomes in the state, one per attempt, a transaction that succeeds when the list has run out. A table
  with embeddings goes through \<open>VectorSync\<close>, an argument. The MD5 of the last fallback of a row id is
  an argument too. Metrics, logs and the pause before the retry are left out.
\<close>

section \<open>Tasks and the queue\<close>

datatype cloud_op = UPSERT | DELETE

record cloud_task =
  task_table :: string
  task_op :: cloud_op
  task_records :: "row list"
  task_pk :: pk_col

type_synonym group_key = "string \<times> cloud_op \<times> pk_col"

type_synonym buffer = "(group_key \<times> row list) list"

text \<open>An attempt cannot connect, fails while executing or committing, or goes through.\<close>

datatype net_outcome = Begin_Fails | Exec_Fails | Goes_Through

record dead_letter =
  dlq_table :: string
  dlq_row_id :: string
  dlq_row :: row

record cloud_world =
  cloud_tables :: "string \<Rightarrow> row list"
  network :: "net_outcome list"
  dead_letters :: "dead_letter list"

definition queue_max :: nat where "queue_max = 10000"

text \<open>
  The queue of tasks, \<open>None\<close> being the sentinel, and \<open>unfinished_tasks\<close>, which \<open>put\<close> increments and
  only \<open>task_done\<close> decrements.
\<close>

record cloud_queue =
  q_items :: "cloud_task option list"
  unfinished_tasks :: nat

definition put_nowait :: "cloud_task option \<Rightarrow> cloud_queue \<Rightarrow> cloud_queue option" where
  "put_nowait t q =
     (if length (q_items q) \<ge> queue_max then None
      else Some \<lparr>q_items = q_items q @ [t], unfinished_tasks = unfinished_tasks q + 1\<rparr>)"

text \<open>\<open>except queue.Full\<close>: the write is dropped.\<close>

definition put_or_drop :: "cloud_task \<Rightarrow> cloud_queue \<Rightarrow> cloud_queue" where
  "put_or_drop t q = (case put_nowait (Some t) q of None \<Rightarrow> q | Some q' \<Rightarrow> q')"

definition enqueue_cloud_write :: "bool \<Rightarrow> string \<Rightarrow> row \<Rightarrow> pk_col \<Rightarrow> cloud_queue \<Rightarrow> cloud_queue" where
  "enqueue_cloud_write enabled table row_data pk q =
     (if \<not> enabled then q
      else put_or_drop \<lparr>task_table = table, task_op = UPSERT, task_records = [row_data], task_pk = pk\<rparr> q)"

definition enqueue_cloud_write_batch ::
    "bool \<Rightarrow> string \<Rightarrow> row list \<Rightarrow> pk_col \<Rightarrow> cloud_queue \<Rightarrow> cloud_queue" where
  "enqueue_cloud_write_batch enabled table records pk q =
     (if \<not> enabled then q
      else put_or_drop \<lparr>task_table = table, task_op = UPSERT, task_records = records, task_pk = pk\<rparr> q)"

text \<open>
  What a delete is called with: a value or a dict for a single column, a dict for several columns (the
  contract of the docstring excludes a scalar there). \<open>None\<close> is the \<open>TypeError\<close>. Unlike the two
  operations above, a delete does not look at the integration toggle.
\<close>

datatype delete_arg = By_Value string cell | By_Dict string row | By_Columns "string list" row

definition enqueue_cloud_delete :: "string \<Rightarrow> delete_arg \<Rightarrow> cloud_queue \<Rightarrow> cloud_queue option" where
  "enqueue_cloud_delete table arg q =
     (case arg of
        By_Dict c _ \<Rightarrow> None
      | By_Value c x \<Rightarrow>
          Some (put_or_drop \<lparr>task_table = table, task_op = DELETE, task_records = [[(c, x)]], task_pk = Pk c\<rparr> q)
      | By_Columns cs r \<Rightarrow>
          Some (put_or_drop \<lparr>task_table = table, task_op = DELETE, task_records = [r], task_pk = Pks cs\<rparr> q))"

section \<open>The dead letter queue\<close>

text \<open>\<open>repr\<close> of a \<open>bytes\<close>, and \<open>str\<close> of a value.\<close>

definition repr_byte :: "nat \<Rightarrow> nat \<Rightarrow> string" where
  "repr_byte quote b =
     (if b = quote \<or> b = 92 then [CHR 0x5C, char_of b]
      else if b = 9 then [CHR 0x5C, CHR ''t''] else if b = 10 then [CHR 0x5C, CHR ''n'']
      else if b = 13 then [CHR 0x5C, CHR ''r'']
      else if b < 32 \<or> 127 \<le> b then [CHR 0x5C, CHR ''x'', hex_digit (b div 16), hex_digit (b mod 16)]
      else [char_of b])"

definition repr_bytes :: "nat list \<Rightarrow> string" where
  "repr_bytes bs =
     (let quote = (if 39 \<in> set bs \<and> 34 \<notin> set bs then 34 else 39) in
      CHR ''b'' # char_of quote # concat (map (repr_byte quote) bs) @ [char_of quote])"

definition str_cell :: "cell \<Rightarrow> string" where
  "str_cell v = (case v of CNull \<Rightarrow> ''None'' | CInt i \<Rightarrow> show_int i | CStr s \<Rightarrow> s | CBlob bs \<Rightarrow> repr_bytes bs)"

definition safe_record :: "row \<Rightarrow> row" where
  "safe_record r = filter (\<lambda>(k, v). case v of CBlob _ \<Rightarrow> False | _ \<Rightarrow> True) r"

definition build_row_id :: "(row \<Rightarrow> string) \<Rightarrow> pk_col \<Rightarrow> row \<Rightarrow> string" where
  "build_row_id md5 p r =
     (if (case p of Pks cs \<Rightarrow> length cs > 1 \<and> list_all (has_col r) cs | Pk _ \<Rightarrow> False)
      then join ''|'' (map (\<lambda>c. str_cell (get_col r c)) (pk_cols p))
      else if (case p of Pk c \<Rightarrow> has_col r c | Pks _ \<Rightarrow> False)
      then str_cell (get_col r (hd (pk_cols p)))
      else if has_col r ''id'' then str_cell (get_col r ''id'')
      else if has_col r ''rowid'' then str_cell (get_col r ''rowid'')
      else md5 (safe_record r))"

text \<open>\<open>_route_failed_batch_to_dlq\<close>: the inserts it hands to the operational writer.\<close>

definition route_failed_batch :: "(row \<Rightarrow> string) \<Rightarrow> string \<Rightarrow> pk_col \<Rightarrow> row list \<Rightarrow> cloud_world \<Rightarrow> cloud_world" where
  "route_failed_batch md5 table p rs w =
     w\<lparr>dead_letters := dead_letters w @
         map (\<lambda>r. \<lparr>dlq_table = table, dlq_row_id = build_row_id md5 p r, dlq_row = safe_record r\<rparr>) rs\<rparr>"

section \<open>Flushing one group\<close>

type_synonym push_vectors =
  "string \<Rightarrow> string list \<Rightarrow> row list \<Rightarrow> pk_col \<Rightarrow> row list \<Rightarrow> row list option"

text \<open>The statements of a delete, \<open>None\<close> when one of them raises.\<close>

fun delete_each :: "string list \<Rightarrow> row list \<Rightarrow> row list \<Rightarrow> row list option" where
  "delete_each cs [] t = Some t"
| "delete_each cs (r # rs) t =
     (case delete_where cs r t of None \<Rightarrow> None | Some t' \<Rightarrow> delete_each cs rs t')"

definition run_delete :: "pk_col \<Rightarrow> row list \<Rightarrow> row list \<Rightarrow> row list option" where
  "run_delete p rs t =
     (case p of
        Pk c \<Rightarrow>
          (let vals = map (\<lambda>r. get_col r c) (filter (\<lambda>r. has_col r c) rs) in
           if vals = [] then Some t else Some (delete_in c vals t))
      | Pks cs \<Rightarrow> delete_each cs rs t)"

text \<open>
  The statements of an upsert on the deduplicated records; the columns are those of the first record
  before the deduplication. \<open>sanitize_snowflake_params\<close> leaves values of these types as they are.
\<close>

definition run_upsert :: "push_vectors \<Rightarrow> string \<Rightarrow> pk_col \<Rightarrow> string list \<Rightarrow> row list \<Rightarrow> row list \<Rightarrow> row list option" where
  "run_upsert vec table p columns rs t =
     (if ''embedding'' \<in> set columns then vec table columns rs p t
      else (case stage_rows columns rs of
              None \<Rightarrow> None
            | Some stage \<Rightarrow> merge_rows (pk_cols p) columns stage t))"

definition next_outcome :: "cloud_world \<Rightarrow> net_outcome \<times> cloud_world" where
  "next_outcome w = (case network w of [] \<Rightarrow> (Goes_Through, w) | n # ns \<Rightarrow> (n, w\<lparr>network := ns\<rparr>))"

text \<open>
  The body of the \<open>try\<close>: the records as the variable holds them afterwards, and the committed table
  unless something raised.
\<close>

definition flush_attempt :: "push_vectors \<Rightarrow> group_key \<Rightarrow> net_outcome \<Rightarrow> row list \<Rightarrow> row list \<Rightarrow>
    row list \<times> row list option" where
  "flush_attempt vec key n rs t =
     (case key of (table, op, p) \<Rightarrow>
      if n = Begin_Fails then (rs, None)
      else if op = DELETE then (rs, if n = Goes_Through then run_delete p rs t else None)
      else if rs = [] then (rs, if n = Goes_Through then Some t else None)
      else (let columns = map fst (hd rs); rs' = dedup p rs in
            (rs', if n = Goes_Through then run_upsert vec table p columns rs' t else None)))"

definition RETRY_LIMIT :: nat where "RETRY_LIMIT = 1"

function flush_group :: "push_vectors \<Rightarrow> (row \<Rightarrow> string) \<Rightarrow> nat \<Rightarrow> group_key \<Rightarrow> row list \<Rightarrow> cloud_world \<Rightarrow> cloud_world" where
  "flush_group vec md5 depth key rs w =
     (case next_outcome w of (n, w) \<Rightarrow>
      (case flush_attempt vec key n rs (cloud_tables w (fst key)) of
         (_, Some t) \<Rightarrow> w\<lparr>cloud_tables := (cloud_tables w)(fst key := t)\<rparr>
       | (rs', None) \<Rightarrow>
           if depth < RETRY_LIMIT then flush_group vec md5 (depth + 1) key rs' w
           else route_failed_batch md5 (fst key) (snd (snd key)) rs' w))"
  by pat_completeness auto
termination by (relation "measure (\<lambda>(vec, md5, depth, key, rs, w). RETRY_LIMIT - depth)") auto

declare flush_group.simps [simp del]

definition flush_batch :: "push_vectors \<Rightarrow> (row \<Rightarrow> string) \<Rightarrow> buffer \<Rightarrow> cloud_world \<Rightarrow> cloud_world" where
  "flush_batch vec md5 buf w = foldl (\<lambda>w (key, rs). flush_group vec md5 0 key rs w) w buf"

section \<open>The writer thread\<close>

text \<open>\<open>batch_buffer.setdefault(key, []); batch_buffer[key].extend(task.records)\<close>.\<close>

definition task_key :: "cloud_task \<Rightarrow> group_key" where
  "task_key t = (task_table t, task_op t, task_pk t)"

definition buffer_task :: "cloud_task \<Rightarrow> buffer \<Rightarrow> buffer" where
  "buffer_task t buf =
     AList.update (task_key t)
       ((case map_of buf (task_key t) of None \<Rightarrow> [] | Some rs \<Rightarrow> rs) @ task_records t) buf"

definition FLUSH_INTERVAL :: int where "FLUSH_INTERVAL = 5000"

definition MAX_BATCH_SIZE :: nat where "MAX_BATCH_SIZE = 100"

record cloud_writer =
  cw_queue :: cloud_queue
  batch_buffer :: buffer
  last_flush :: int
  cw_world :: cloud_world
  cw_alive :: bool

definition should_flush :: "int \<Rightarrow> cloud_writer \<Rightarrow> bool" where
  "should_flush now w \<longleftrightarrow>
     list_ex (\<lambda>(k, rs). length rs \<ge> MAX_BATCH_SIZE) (batch_buffer w) \<or>
     (now - last_flush w \<ge> FLUSH_INTERVAL \<and> list_ex (\<lambda>(k, rs). rs \<noteq> []) (batch_buffer w))"

definition flush_if_due :: "push_vectors \<Rightarrow> (row \<Rightarrow> string) \<Rightarrow> int \<Rightarrow> cloud_writer \<Rightarrow> cloud_writer" where
  "flush_if_due vec md5 now w =
     (if should_flush now w \<and> batch_buffer w \<noteq> []
      then w\<lparr>cw_world := flush_batch vec md5 (batch_buffer w) (cw_world w),
             batch_buffer := [], last_flush := now\<rparr>
      else w)"

text \<open>The statements behind the loop.\<close>

definition final_flush :: "push_vectors \<Rightarrow> (row \<Rightarrow> string) \<Rightarrow> cloud_writer \<Rightarrow> cloud_writer" where
  "final_flush vec md5 w =
     w\<lparr>cw_world := flush_batch vec md5 (batch_buffer w) (cw_world w), cw_alive := False\<rparr>"

text \<open>
  One turn of the loop at \<open>now\<close> (in milliseconds): an empty queue is the timeout of \<open>get\<close>, the sentinel
  leaves the loop. \<open>get\<close> takes an item without \<open>task_done\<close>.
\<close>

definition writer_turn :: "push_vectors \<Rightarrow> (row \<Rightarrow> string) \<Rightarrow> int \<Rightarrow> cloud_writer \<Rightarrow> cloud_writer" where
  "writer_turn vec md5 now w =
     (if \<not> cw_alive w then w
      else (case q_items (cw_queue w) of
              [] \<Rightarrow> flush_if_due vec md5 now w
            | None # q \<Rightarrow> final_flush vec md5 (w\<lparr>cw_queue := (cw_queue w)\<lparr>q_items := q\<rparr>\<rparr>)
            | Some t # q \<Rightarrow>
                flush_if_due vec md5 now
                  (w\<lparr>cw_queue := (cw_queue w)\<lparr>q_items := q\<rparr>,
                     batch_buffer := buffer_task t (batch_buffer w)\<rparr>)))"

datatype cw_event =
    Write bool string row pk_col
  | Write_Batch bool string "row list" pk_col
  | Delete string delete_arg
  | Turn int

definition cw_step :: "push_vectors \<Rightarrow> (row \<Rightarrow> string) \<Rightarrow> cw_event \<Rightarrow> cloud_writer \<Rightarrow> cloud_writer" where
  "cw_step vec md5 ev w =
     (case ev of
        Write en t r p \<Rightarrow> w\<lparr>cw_queue := enqueue_cloud_write en t r p (cw_queue w)\<rparr>
      | Write_Batch en t rs p \<Rightarrow> w\<lparr>cw_queue := enqueue_cloud_write_batch en t rs p (cw_queue w)\<rparr>
      | Delete t a \<Rightarrow> (case enqueue_cloud_delete t a (cw_queue w) of None \<Rightarrow> w | Some q \<Rightarrow> w\<lparr>cw_queue := q\<rparr>)
      | Turn now \<Rightarrow> writer_turn vec md5 now w)"

definition start_cloud_writer :: "int \<Rightarrow> cloud_queue \<Rightarrow> cloud_world \<Rightarrow> cloud_writer" where
  "start_cloud_writer now q world =
     \<lparr>cw_queue = q, batch_buffer = [], last_flush = now, cw_world = world, cw_alive = True\<rparr>"

text \<open>
  \<open>app.py\<close>, shutdown: sleep half a second while tasks are unfinished, for ten seconds at most. \<open>evs i\<close> is
  what happens during the \<open>i\<close>-th sleep; the result is the number of sleeps.
\<close>

function drain_sleeps :: "push_vectors \<Rightarrow> (row \<Rightarrow> string) \<Rightarrow> nat \<Rightarrow> (nat \<Rightarrow> cw_event list) \<Rightarrow> cloud_writer \<Rightarrow> nat" where
  "drain_sleeps vec md5 i evs w =
     (if unfinished_tasks (cw_queue w) > 0 \<and> i < 20
      then 1 + drain_sleeps vec md5 (i + 1) evs (fold (cw_step vec md5) (evs i) w) else 0)"
  by pat_completeness auto
termination by (relation "measure (\<lambda>(vec, md5, i, evs, w). 20 - i)") auto

declare drain_sleeps.simps [simp del]

section \<open>The queue is bounded and never finished\<close>

definition queue_ok :: "cloud_writer \<Rightarrow> bool" where
  "queue_ok w \<longleftrightarrow> length (q_items (cw_queue w)) \<le> queue_max"

lemma put_or_drop_bound: "length (q_items q) \<le> queue_max \<Longrightarrow> length (q_items (put_or_drop t q)) \<le> queue_max"
  by (simp add: put_or_drop_def put_nowait_def)

lemma put_or_drop_unfinished: "unfinished_tasks q \<le> unfinished_tasks (put_or_drop t q)"
  by (simp add: put_or_drop_def put_nowait_def)

lemmas enqueue_defs =
  enqueue_cloud_write_def enqueue_cloud_write_batch_def enqueue_cloud_delete_def

lemma flush_if_due_queue [simp]:
  "cw_queue (flush_if_due vec md5 now w) = cw_queue w" "cw_queue (final_flush vec md5 w) = cw_queue w"
  by (simp_all add: flush_if_due_def final_flush_def)

interpretation cw: monotone_step "cw_step vec md5" queue_ok "\<lambda>w. unfinished_tasks (cw_queue w)"
  for vec md5
proof
  fix w :: cloud_writer and e assume ok: "queue_ok w"
  show "queue_ok (cw_step vec md5 e w)"
  proof (cases e)
    case (Turn now)
    then show ?thesis using ok
      by (auto simp: cw_step_def writer_turn_def queue_ok_def split: list.split option.split)
  qed (use ok in \<open>auto simp: cw_step_def queue_ok_def enqueue_defs put_or_drop_bound
        split: delete_arg.split\<close>)
  show "unfinished_tasks (cw_queue w) \<le> unfinished_tasks (cw_queue (cw_step vec md5 e w))"
  proof (cases e)
    case (Turn now)
    then show ?thesis
      by (auto simp: cw_step_def writer_turn_def split: list.split option.split)
  qed (auto simp: cw_step_def enqueue_defs put_or_drop_unfinished split: delete_arg.split)
qed

text \<open>
  The writer thread takes tasks without \<open>task_done\<close>, so once anything was queued the drain loop of the
  application's shutdown never sees an empty queue: whatever the thread does meanwhile, it sleeps all
  twenty half seconds.
\<close>

theorem shutdown_waits_in_full:
  assumes "queue_ok w" and "0 < unfinished_tasks (cw_queue w)"
  shows "drain_sleeps vec md5 0 evs w = 20"
proof -
  have "drain_sleeps vec md5 i evs w' = 20 - i"
    if "queue_ok w'" "0 < unfinished_tasks (cw_queue w')" "i \<le> 20" for i w'
    using that
  proof (induction "20 - i" arbitrary: i w')
    case 0
    then show ?case by (simp add: drain_sleeps.simps)
  next
    case (Suc n)
    let ?w = "fold (cw_step vec md5) (evs i) w'"
    have "drain_sleeps vec md5 (i + 1) evs ?w = 20 - (i + 1)"
      using Suc.hyps Suc.prems cw.run_keeps [of w' vec md5 "evs i"] cw.run_mono [of w' vec md5 "evs i"]
      by (intro Suc.hyps(1)) auto
    moreover have "i < 20" using Suc.hyps(2) by simp
    ultimately show ?case using Suc.prems by (subst drain_sleeps.simps) (simp add: Suc_diff_Suc)
  qed
  from this [of w 0] show ?thesis using assms by simp
qed

text \<open>A writer whose only task was written to the cloud long before the shutdown.\<close>

definition idle_writer :: cloud_writer where
  "idle_writer = fold (cw_step (\<lambda>_ _ _ _ t. Some t) (\<lambda>_. []))
     [Write True ''sf_tickers'' [(''ticker'', CStr ''A''), (''cik'', CInt 1)] (Pk ''ticker''), Turn 1, Turn 5000]
     (start_cloud_writer 0 \<lparr>q_items = [], unfinished_tasks = 0\<rparr>
        \<lparr>cloud_tables = (\<lambda>_. []), network = [], dead_letters = []\<rparr>)"

lemma shutdown_waits_in_full_witness:
  "q_items (cw_queue idle_writer) = [] \<and> batch_buffer idle_writer = [] \<and>
   cloud_tables (cw_world idle_writer) ''sf_tickers'' = [[(''ticker'', CStr ''A''), (''cik'', CInt 1)]] \<and>
   drain_sleeps (\<lambda>_ _ _ _ t. Some t) (\<lambda>_. []) 0 (\<lambda>_. []) idle_writer = 20"
proof (intro conjI)
  show "drain_sleeps (\<lambda>_ _ _ _ t. Some t) (\<lambda>_. []) 0 (\<lambda>_. []) idle_writer = 20"
    by (rule shutdown_waits_in_full) code_simp+
qed code_simp+

text \<open>
  With the database integration switched off, upserts never enter the queue, but a delete does and
  the writer executes it on the cloud table, against the toggle's promise that all three operations are
  skipped.
\<close>

theorem disabled_delete_reaches_cloud:
  assumes "cw_alive w" and "q_items (cw_queue w) = []" and "batch_buffer w = []"
    and "network (cw_world w) = []" and "5000 \<le> now - last_flush w"
  shows "cw_step vec md5 (Write False table r p) w = w \<and> cw_step vec md5 (Write_Batch False table rs p) w = w \<and>
     cloud_tables (cw_world (fold (cw_step vec md5) [Delete table (By_Value c v), Turn now] w)) table =
       delete_in c [v] (cloud_tables (cw_world w) table)"
  using assms
  by (simp add: cw_step_def enqueue_defs put_or_drop_def put_nowait_def queue_max_def writer_turn_def
      buffer_task_def task_key_def flush_if_due_def should_flush_def FLUSH_INTERVAL_def flush_batch_def
      flush_group.simps next_outcome_def flush_attempt_def run_delete_def has_col_def get_col_def)

lemma disabled_delete_reaches_cloud_witness:
  "cloud_tables (cw_world (fold (cw_step (\<lambda>_ _ _ _ t. Some t) (\<lambda>_. []))
      [Delete ''sf_tickers'' (By_Value ''ticker'' (CStr ''A'')), Turn 10000] idle_writer)) ''sf_tickers'' = []"
proof -
  have t: "cloud_tables (cw_world idle_writer) ''sf_tickers'' = [[(''ticker'', CStr ''A''), (''cik'', CInt 1)]]"
    by code_simp
  have "cloud_tables (cw_world (fold (cw_step (\<lambda>_ _ _ _ t. Some t) (\<lambda>_. []))
      [Delete ''sf_tickers'' (By_Value ''ticker'' (CStr ''A'')), Turn 10000] idle_writer)) ''sf_tickers''
      = delete_in ''ticker'' [CStr ''A''] (cloud_tables (cw_world idle_writer) ''sf_tickers'')"
    by (rule conjunct2 [OF conjunct2 [OF disabled_delete_reaches_cloud]]) code_simp+
  also have "\<dots> = []" unfolding t by code_simp
  finally show ?thesis .
qed

section \<open>What a flush does to the cloud\<close>

lemma next_outcome_tables [simp]:
  "cloud_tables (snd (next_outcome w)) = cloud_tables w" "dead_letters (snd (next_outcome w)) = dead_letters w"
  by (simp_all add: next_outcome_def split: list.split)

lemma flush_group_first:
  assumes "depth < RETRY_LIMIT"
  shows "flush_group vec md5 depth key rs w =
     (case next_outcome w of (n, w) \<Rightarrow>
      (case flush_attempt vec key n rs (cloud_tables w (fst key)) of
         (_, Some t) \<Rightarrow> w\<lparr>cloud_tables := (cloud_tables w)(fst key := t)\<rparr>
       | (rs', None) \<Rightarrow> flush_group vec md5 (depth + 1) key rs' w))"
  using assms by (subst flush_group.simps) simp

lemma flush_group_last:
  assumes "\<not> depth < RETRY_LIMIT"
  shows "flush_group vec md5 depth key rs w =
     (case next_outcome w of (n, w) \<Rightarrow>
      (case flush_attempt vec key n rs (cloud_tables w (fst key)) of
         (_, Some t) \<Rightarrow> w\<lparr>cloud_tables := (cloud_tables w)(fst key := t)\<rparr>
       | (rs', None) \<Rightarrow> route_failed_batch md5 (fst key) (snd (snd key)) rs' w))"
  using assms by (subst flush_group.simps) simp

text \<open>
  The two attempts as one alternative: the group commits with records \<open>rs'\<close>, or both attempts fail and
  the records as the second left them are dead letters.
\<close>

lemma flush_group_cases:
  obtains (commit) n rs' rs'' t where "rs' = rs \<or> (\<exists>m. rs' = fst (flush_attempt vec key m rs (cloud_tables w (fst key))))"
      "flush_attempt vec key n rs' (cloud_tables w (fst key)) = (rs'', Some t)"
      "cloud_tables (flush_group vec md5 0 key rs w) = (cloud_tables w)(fst key := t)"
  | (dead) m n rs' rs'' where "rs' = fst (flush_attempt vec key m rs (cloud_tables w (fst key)))"
      "flush_attempt vec key n rs' (cloud_tables w (fst key)) = (rs'', None)"
      "dead_letters (flush_group vec md5 0 key rs w) = dead_letters w @
         map (\<lambda>r. \<lparr>dlq_table = fst key, dlq_row_id = build_row_id md5 (snd (snd key)) r, dlq_row = safe_record r\<rparr>) rs''"
proof -
  obtain n1 w1 where n1: "next_outcome w = (n1, w1)" by fastforce
  have w1: "cloud_tables w1 = cloud_tables w" "dead_letters w1 = dead_letters w"
    using next_outcome_tables [of w] n1 by simp_all
  obtain rs1 t1 where a1: "flush_attempt vec key n1 rs (cloud_tables w (fst key)) = (rs1, t1)" by fastforce
  show thesis
  proof (cases t1)
    case (Some t)
    then show ?thesis using n1 w1 a1
      by (intro commit [of rs n1 rs1 t]) (auto simp: flush_group_first RETRY_LIMIT_def)
  next
    case None
    obtain n2 w2 where n2: "next_outcome w1 = (n2, w2)" by fastforce
    have w2: "cloud_tables w2 = cloud_tables w" "dead_letters w2 = dead_letters w"
      using next_outcome_tables [of w1] n2 w1 by simp_all
    obtain rs2 t2 where a2: "flush_attempt vec key n2 rs1 (cloud_tables w (fst key)) = (rs2, t2)" by fastforce
    have r: "flush_group vec md5 0 key rs w = flush_group vec md5 1 key rs1 w1"
      using n1 w1 a1 None by (simp add: flush_group_first RETRY_LIMIT_def)
    show ?thesis
    proof (cases t2)
      case (Some t)
      then show ?thesis using r n2 w1 w2 a1 a2
        by (intro commit [of rs1 n2 rs2 t] disjI2 exI [of _ n1])
          (auto simp: flush_group_last RETRY_LIMIT_def)
    next
      case None
      then show ?thesis using r n2 w1 w2 a1 a2
        by (intro dead [of rs1 n1 n2 rs2])
          (auto simp: flush_group_last RETRY_LIMIT_def route_failed_batch_def)
    qed
  qed
qed

text \<open>The record that must survive among those with the key of \<open>l\<close>, in records of the columns \<open>cols\<close>.\<close>

definition newest :: "pk_col \<Rightarrow> string list \<Rightarrow> row \<Rightarrow> row list \<Rightarrow> bool" where
  "newest p cols l rs \<longleftrightarrow> (\<forall>r \<in> set rs. map fst r = cols) \<and> l \<in> set rs \<and>
     last (filter (\<lambda>x. dedup_key p x = dedup_key p l) rs) = l"

definition full_key :: "pk_col \<Rightarrow> string list \<Rightarrow> row \<Rightarrow> bool" where
  "full_key p cols r \<longleftrightarrow> set (pk_cols p) \<subseteq> set cols \<and> (\<forall>c \<in> set (pk_cols p). get_col r c \<noteq> CNull)"

lemma has_col_fst: "map fst r = cols \<Longrightarrow> c \<in> set cols \<Longrightarrow> has_col r c"
  using map_of_eq_None_iff [of r c] by (auto simp: has_col_def)

lemma full_key_dedup:
  assumes "full_key p cols r" "map fst r = cols"
  shows "dedup_key p r = Some (map (get_col r) (pk_cols p))"
  using assms
  by (cases p) (auto simp: full_key_def dedup_key_def pk_cols_def list_all_iff intro!: has_col_fst)

lemma newest_dedup:
  assumes n: "newest p cols l rs" and k: "dedup_key p l = Some k"
  shows "newest p cols l (dedup p rs)"
proof -
  let ?f = "filter (\<lambda>x. dedup_key p x = dedup_key p l)"
  have l: "l \<in> set (dedup p rs)"
    using n k dedup_keeps_last [of l rs p k] by (auto simp: newest_def)
  have "last (?f (dedup p rs)) \<in> set (dedup p rs)" "dedup_key p (last (?f (dedup p rs))) = Some k"
    using last_filter_in [of "dedup p rs" "\<lambda>x. dedup_key p x = dedup_key p l"] l k by auto
  from dedup_only_last [OF this] have "last (?f (dedup p rs)) = l"
    using n k by (simp add: newest_def)
  then show ?thesis using n l dedup_subset [of p rs] by (auto simp: newest_def)
qed

lemma upsert_attempt:
  assumes n: "newest p cols l rs" and f: "full_key p cols l" and e: "''embedding'' \<notin> set cols"
    and a: "flush_attempt vec (table, UPSERT, p) m rs t = (rs', res)"
  shows "newest p cols l rs'"
    and "res = Some t' \<Longrightarrow>
       \<exists>x \<in> set t'. on_match (pk_cols p) x l \<and> (\<forall>c \<in> set cols. get_col x c = get_col l c)"
proof -
  have ne: "rs \<noteq> []" and cols: "map fst (hd rs) = cols" and lc: "map fst l = cols"
    using n by (cases rs; auto simp: newest_def)+
  obtain k where k: "dedup_key p l = Some k" and keq: "k = map (get_col l) (pk_cols p)"
    using full_key_dedup [OF f lc] by simp
  have nd: "newest p cols l (dedup p rs)" by (rule newest_dedup [OF n k])
  show "newest p cols l rs'"
    using a n nd ne by (auto simp: flush_attempt_def Let_def split: if_splits)
  assume res: "res = Some t'"
  let ?st = "\<lambda>r. map (\<lambda>c. (c, get_col r c)) cols"
  have m: "merge_rows (pk_cols p) cols (map ?st (dedup p rs)) t = Some t'"
    using a res ne cols e
    by (auto simp: flush_attempt_def Let_def run_upsert_def stage_rows_def split: if_splits option.splits)
  have sub: "set (pk_cols p) \<subseteq> set cols" using f by (simp add: full_key_def)
  have "\<exists>x \<in> set t'. on_match (pk_cols p) x (?st l) \<and> (\<forall>c \<in> set cols. get_col x c = get_col (?st l) c)"
  proof (rule merge_establishes [OF m _ sub])
    show "?st l \<in> set (map ?st (dedup p rs))" using nd by (auto simp: newest_def)
    show "\<forall>c \<in> set (pk_cols p). get_col (?st l) c \<noteq> CNull"
      using f sub by (auto simp: full_key_def get_col_staged)
    fix s' assume s': "s' \<in> set (map ?st (dedup p rs))" and om: "on_match (pk_cols p) (?st l) s'"
    then obtain x where x: "x \<in> set (dedup p rs)" "s' = ?st x" by auto
    have eq: "\<forall>c \<in> set (pk_cols p). get_col x c = get_col l c"
      using on_match_get [OF om] x(2) sub by (fastforce simp: get_col_staged)
    then have "full_key p cols x" using f by (simp add: full_key_def)
    moreover have "map fst x = cols" using nd x(1) by (simp add: newest_def)
    ultimately have "dedup_key p x = Some k"
      using full_key_dedup [of p cols x] eq by (simp add: keq)
    then have "x = l" using dedup_only_last [OF x(1)] n k by (simp add: newest_def)
    then show "s' = ?st l" using x by simp
  qed
  then show "\<exists>x \<in> set t'. on_match (pk_cols p) x l \<and> (\<forall>c \<in> set cols. get_col x c = get_col l c)"
    using sub by (auto simp: get_col_staged on_match_def list_all_iff subset_iff)
qed

text \<open>
  C21: No upsert is lost without a trace: after a group of records with the same columns was flushed, the
  newest record of every complete key is in the cloud table with all its columns, or it is in the dead
  letter queue, whatever the network did to the two attempts.
\<close>

theorem upsert_lands_or_dead_letter:
  assumes "\<forall>r \<in> set rs. map fst r = cols" and "''embedding'' \<notin> set cols"
    and "r \<in> set rs" and "full_key p cols r"
    and "l = last (filter (\<lambda>x. dedup_key p x = dedup_key p r) rs)"
    and "w' = flush_group vec md5 0 (table, UPSERT, p) rs w"
  shows "(\<exists>x \<in> set (cloud_tables w' table). on_match (pk_cols p) x l \<and> (\<forall>c \<in> set cols. get_col x c = get_col l c))
    \<or> \<lparr>dlq_table = table, dlq_row_id = build_row_id md5 p l, dlq_row = safe_record l\<rparr> \<in> set (dead_letters w')"
proof -
  have l: "l \<in> set rs" "dedup_key p l = dedup_key p r"
    using last_filter_in [of rs "\<lambda>x. dedup_key p x = dedup_key p r"] assms(3,5) by auto
  have n: "newest p cols l rs" using assms(1,5) l by (simp add: newest_def)
  have f: "full_key p cols l"
    using full_key_dedup [of p cols r] l assms(1,3,4)
    by (cases p) (auto simp: full_key_def dedup_key_def pk_cols_def list_all_iff split: if_splits)
  show ?thesis
  proof (cases rule: flush_group_cases [of rs vec "(table, UPSERT, p)" w md5])
    case (commit m rs' rs'' t)
    have "newest p cols l rs'"
      using commit(1) n upsert_attempt(1) [OF n f assms(2)] by (metis prod.collapse)
    from upsert_attempt(2) [OF this f assms(2), of vec table m _ rs'' "Some t" t] commit(2)
    show ?thesis using commit(3) assms(6) by auto
  next
    case (dead m n' rs' rs'')
    have "newest p cols l rs'"
      using dead(1) upsert_attempt(1) [OF n f assms(2)] by (metis prod.collapse)
    then have "newest p cols l rs''"
      using upsert_attempt(1) [of p cols l rs' vec table n' _ rs'' None] f assms(2) dead(2) by simp
    then show ?thesis using dead(3) assms(6) by (auto simp: newest_def)
  qed
qed

definition demo_world :: "net_outcome list \<Rightarrow> cloud_world" where
  "demo_world net = \<lparr>cloud_tables = (\<lambda>_. [[(''id'', CInt 1), (''v'', CStr ''old'')]]), network = net, dead_letters = []\<rparr>"

definition demo_rows :: "row list" where
  "demo_rows = [[(''id'', CInt 1), (''v'', CStr ''a'')], [(''id'', CInt 2), (''v'', CStr ''b'')],
     [(''id'', CInt 1), (''v'', CStr ''c'')]]"

lemma upsert_lands_or_dead_letter_witness:
  "(\<exists>x \<in> set (cloud_tables (flush_group (\<lambda>_ _ _ _ _. None) (\<lambda>_. []) 0 (''t'', UPSERT, Pk ''id'') demo_rows
        (demo_world [Exec_Fails])) ''t'').
      on_match [''id''] x [(''id'', CInt 1), (''v'', CStr ''c'')] \<and> get_col x ''v'' = CStr ''c'')"
proof -
  let ?w = "flush_group (\<lambda>_ _ _ _ _. None) (\<lambda>_. []) 0 (''t'', UPSERT, Pk ''id'') demo_rows (demo_world [Exec_Fails])"
  let ?l = "[(''id'', CInt 1), (''v'', CStr ''c'')]"
  have "(\<exists>x \<in> set (cloud_tables ?w ''t''). on_match (pk_cols (Pk ''id'')) x ?l \<and>
      (\<forall>c \<in> set [''id'', ''v'']. get_col x c = get_col ?l c))
    \<or> \<lparr>dlq_table = ''t'', dlq_row_id = build_row_id (\<lambda>_. []) (Pk ''id'') ?l, dlq_row = safe_record ?l\<rparr>
        \<in> set (dead_letters ?w)"
    by (rule upsert_lands_or_dead_letter [where rs = demo_rows and r = "hd demo_rows"])
      (simp_all add: demo_rows_def full_key_def pk_cols_def get_col_def dedup_key_def)
  moreover have "dead_letters ?w = []" by code_simp
  moreover have "get_col ?l ''v'' = CStr ''c''" by (simp add: get_col_def)
  moreover have "pk_cols (Pk ''id'') = [''id'']" by (simp add: pk_cols_def)
  ultimately show ?thesis by auto
qed

section \<open>Groups are executed in the order of their first task\<close>

lemma flush_delete_value:
  assumes "network w = []"
  shows "flush_group vec md5 0 (table, DELETE, Pk c) [[(c, v)]] w =
     w\<lparr>cloud_tables := (cloud_tables w)(table := delete_in c [v] (cloud_tables w table))\<rparr>"
  using assms
  by (simp add: flush_group_first RETRY_LIMIT_def next_outcome_def flush_attempt_def run_delete_def
      has_col_def get_col_def)

lemma flush_group_network: "network w = [] \<Longrightarrow> network (flush_group vec md5 d key rs w) = []"
proof (induction "RETRY_LIMIT - d" arbitrary: d rs w)
  case 0
  then show ?case
    by (subst flush_group.simps)
      (auto simp: next_outcome_def route_failed_batch_def split: prod.split option.split)
next
  case (Suc n)
  have "network (flush_group vec md5 (Suc d) key rs' w) = []" for rs'
    using Suc.hyps(2) Suc.prems by (intro Suc.hyps(1)) auto
  then show ?case using Suc.prems
    by (subst flush_group.simps)
      (auto simp: next_outcome_def route_failed_batch_def split: prod.split option.split)
qed

lemma delete_in_none: "x \<in> set (delete_in c [v] t) \<Longrightarrow> \<not> cell_eq (get_col x c) v"
  by (simp add: delete_in_def)

text \<open>
  The buffer groups tasks by table and operation and executes the groups in the order in which each
  began, so a delete that was queued between two batches of upserts of its table is executed after
  both: when all three are flushed together, with a working network, no row with the deleted value is
  left in the cloud, not even the rows that were upserted after the delete.
\<close>

theorem delete_overtakes_later_upsert:
  assumes "network w = []"
    and "buf = fold buffer_task
       [\<lparr>task_table = table, task_op = UPSERT, task_records = rs1, task_pk = p\<rparr>,
        \<lparr>task_table = table, task_op = DELETE, task_records = [[(c, v)]], task_pk = Pk c\<rparr>,
        \<lparr>task_table = table, task_op = UPSERT, task_records = rs2, task_pk = p\<rparr>] []"
  shows "\<forall>x \<in> set (cloud_tables (flush_batch vec md5 buf w) table). \<not> cell_eq (get_col x c) v"
proof -
  have buf: "buf = [((table, UPSERT, p), rs1 @ rs2), ((table, DELETE, Pk c), [[(c, v)]])]"
    using assms(2) by (simp add: buffer_task_def task_key_def)
  show ?thesis
    unfolding buf flush_batch_def
    using flush_group_network [OF assms(1)]
    by (auto simp: flush_delete_value dest: delete_in_none)
qed

text \<open>
  \<open>extract_and_persist\<close> of ticker \<open>A\<close>, then a refresh of ticker \<open>B\<close>: a delete by ticker and the fresh facts.
\<close>

definition fact :: "string \<Rightarrow> string \<Rightarrow> row" where
  "fact ticker v = [(''ticker'', CStr ticker), (''quarter'', CStr ''Q1''), (''value'', CStr v)]"

definition two_tickers :: "cloud_task list" where
  "two_tickers =
     [\<lparr>task_table = ''facts'', task_op = UPSERT, task_records = [fact ''A'' ''1''],
       task_pk = Pks [''ticker'', ''quarter'']\<rparr>,
      \<lparr>task_table = ''facts'', task_op = DELETE, task_records = [[(''ticker'', CStr ''B'')]], task_pk = Pk ''ticker''\<rparr>,
      \<lparr>task_table = ''facts'', task_op = UPSERT, task_records = [fact ''B'' ''2''],
       task_pk = Pks [''ticker'', ''quarter'']\<rparr>]"

definition empty_cloud :: cloud_world where
  "empty_cloud = \<lparr>cloud_tables = (\<lambda>_. []), network = [], dead_letters = []\<rparr>"

text \<open>In one buffer the facts of \<open>B\<close> are lost; flushed one task at a time they arrive.\<close>

lemma delete_overtakes_later_upsert_witness:
  "cloud_tables (flush_batch (\<lambda>_ _ _ _ _. None) (\<lambda>_. []) (fold buffer_task two_tickers []) empty_cloud) ''facts''
     = [fact ''A'' ''1''] \<and>
   cloud_tables (fold (\<lambda>t. flush_batch (\<lambda>_ _ _ _ _. None) (\<lambda>_. []) (buffer_task t [])) two_tickers empty_cloud) ''facts''
     = [fact ''A'' ''1'', fact ''B'' ''2''] \<and>
   \<not> cell_eq (get_col (fact ''A'' ''1'') ''ticker'') (CStr ''B'')"
proof -
  let ?t = "cloud_tables (flush_batch (\<lambda>_ _ _ _ _. None) (\<lambda>_. []) (fold buffer_task two_tickers []) empty_cloud) ''facts''"
  have "\<forall>x \<in> set ?t. \<not> cell_eq (get_col x ''ticker'') (CStr ''B'')"
    unfolding two_tickers_def
    by (rule delete_overtakes_later_upsert [OF _ refl]) (simp add: empty_cloud_def)
  moreover have eq: "?t = [fact ''A'' ''1'']" by code_simp
  ultimately have "\<not> cell_eq (get_col (fact ''A'' ''1'') ''ticker'') (CStr ''B'')" by simp
  moreover have "cloud_tables (fold (\<lambda>t. flush_batch (\<lambda>_ _ _ _ _. None) (\<lambda>_. []) (buffer_task t [])) two_tickers
      empty_cloud) ''facts'' = [fact ''A'' ''1'', fact ''B'' ''2'']" by code_simp
  ultimately show ?thesis using eq by blast
qed

text \<open>After a turn no group is due: none has reached the batch size, and none has waited too long.\<close>

lemma turn_leaves_nothing_due:
  assumes "cw_alive (writer_turn vec md5 now w)" and "cw_alive w"
  shows "\<not> should_flush now (writer_turn vec md5 now w)"
  using assms
  by (auto simp: writer_turn_def flush_if_due_def final_flush_def should_flush_def
      split: list.splits option.splits)

end
