(* ===== verification/Diff_Sync.thy ===== *)
theory Diff_Sync
  imports Cloud_Writer
begin

text \<open>
  \<open>database/backup/sync\<close>: the diff of a table against its cloud copy (\<open>diff_engine.py\<close>), the resolution of a
  conflict (\<open>resolution.py\<close>) and the recommendation shown to the operator (\<open>smart_recommender.py\<close>).

  A row enters the diff as the values of its key, its content hash and its timestamp. The reading of a
  timestamp by \<open>datetime\<close> is an argument; the comparison of raw texts is the order on strings.
\<close>

section \<open>The diff tables\<close>

record diff_row =
  dr_key :: "cell list"
  dr_hash :: cell
  dr_ts :: cell

text \<open>\<open>str(v or "")\<close>.\<close>

definition str_or_empty :: "cell \<Rightarrow> string" where
  "str_or_empty v =
     (if v \<in> {CNull, CInt 0, CStr [], CBlob []} then [] else str_cell v)"

text \<open>The key as a text: the value itself, or the values joined with a bar.\<close>

definition pk_text :: "cell list \<Rightarrow> string" where
  "pk_text vs = join ''|'' (map str_cell vs)"

type_synonym diff_table = "(string \<times> string \<times> string) list"

text \<open>\<open>INSERT OR IGNORE\<close>: the first row of a key stays.\<close>

definition insert_diff_row :: "diff_table \<Rightarrow> diff_row \<Rightarrow> diff_table" where
  "insert_diff_row d r =
     (let k = pk_text (dr_key r) in
      if k \<in> fst ` set d then d else d @ [(k, str_or_empty (dr_hash r), str_or_empty (dr_ts r))])"

definition insert_diff_rows :: "diff_row list \<Rightarrow> diff_table" where
  "insert_diff_rows rs = foldl insert_diff_row [] rs"

section \<open>Classification\<close>

definition safe_ts_compare :: "(string \<Rightarrow> int) \<Rightarrow> string \<Rightarrow> string \<Rightarrow> int" where
  "safe_ts_compare parse a b = (if parse a > parse b then 1 else if parse a < parse b then -1 else 0)"

datatype classification = Timestamp_Drift | Genuine_Conflict | Legacy_Timestamp_Conflict

record conflict =
  conflict_id :: string
  op_ts :: string
  cloud_ts :: string
  conflict_class :: classification

record deltas =
  op_only :: "string list"
  cloud_only :: "string list"
  content_identical :: "string list"
  timestamp_drift :: "conflict list"
  genuine_conflicts :: "conflict list"

definition no_deltas :: deltas where
  "no_deltas = \<lparr>op_only = [], cloud_only = [], content_identical = [], timestamp_drift = [], genuine_conflicts = []\<rparr>"

text \<open>One row of the join: the key, the local side and the cloud side.\<close>

type_synonym join_row = "string \<times> (string \<times> string) option \<times> (string \<times> string) option"

definition diff_join :: "diff_table \<Rightarrow> diff_table \<Rightarrow> join_row list" where
  "diff_join op cl =
     map (\<lambda>(k, v). (k, Some v, map_of cl k)) op @
     map (\<lambda>(k, v). (k, None, Some v)) (filter (\<lambda>(k, v). map_of op k = None) cl)"

definition classify :: "(string \<Rightarrow> int) \<Rightarrow> bool \<Rightarrow> deltas \<Rightarrow> join_row \<Rightarrow> deltas" where
  "classify parse both_hashed d r =
     (case r of
        (k, Some _, None) \<Rightarrow> d\<lparr>op_only := op_only d @ [k]\<rparr>
      | (k, None, Some _) \<Rightarrow> d\<lparr>cloud_only := cloud_only d @ [k]\<rparr>
      | (k, None, None) \<Rightarrow> d
      | (k, Some (oh, ot), Some (ch, ct)) \<Rightarrow>
          if both_hashed \<and> oh \<noteq> [] \<and> ch \<noteq> [] then
            if oh = ch then
              (let d = d\<lparr>content_identical := content_identical d @ [k]\<rparr> in
               if safe_ts_compare parse ot ct \<noteq> 0
               then d\<lparr>timestamp_drift := timestamp_drift d @ [\<lparr>conflict_id = k, op_ts = ot, cloud_ts = ct, conflict_class = Timestamp_Drift\<rparr>]\<rparr>
               else d)
            else d\<lparr>genuine_conflicts := genuine_conflicts d @ [\<lparr>conflict_id = k, op_ts = ot, cloud_ts = ct, conflict_class = Genuine_Conflict\<rparr>]\<rparr>
          else if safe_ts_compare parse ot ct \<noteq> 0
          then d\<lparr>genuine_conflicts := genuine_conflicts d @ [\<lparr>conflict_id = k, op_ts = ot, cloud_ts = ct, conflict_class = Legacy_Timestamp_Conflict\<rparr>]\<rparr>
          else d\<lparr>content_identical := content_identical d @ [k]\<rparr>)"

definition compute_deltas :: "(string \<Rightarrow> int) \<Rightarrow> bool \<Rightarrow> bool \<Rightarrow> diff_row list \<Rightarrow> diff_row list \<Rightarrow> deltas" where
  "compute_deltas parse hashed_op hashed_cloud op_rows cloud_rows =
     foldl (classify parse (hashed_op \<and> hashed_cloud)) no_deltas
       (diff_join (insert_diff_rows op_rows) (insert_diff_rows cloud_rows))"

definition total_rows :: "deltas \<Rightarrow> nat" where
  "total_rows d = length (op_only d) + length (cloud_only d) + length (content_identical d)"

section \<open>What the diff means\<close>

lemma insert_diff_rows_keys:
  "fst ` set (insert_diff_rows rs) = (pk_text \<circ> dr_key) ` set rs \<and> distinct (map fst (insert_diff_rows rs))"
proof -
  have "fst ` set (foldl insert_diff_row d rs) = fst ` set d \<union> (pk_text \<circ> dr_key) ` set rs \<and>
      distinct (map fst (foldl insert_diff_row d rs))" if "distinct (map fst d)" for d
    using that
  proof (induction rs arbitrary: d)
    case (Cons r rs)
    have "distinct (map fst (insert_diff_row d r))"
      using Cons.prems by (auto simp: insert_diff_row_def Let_def)
    moreover have "fst ` set (insert_diff_row d r) = insert (pk_text (dr_key r)) (fst ` set d)"
      by (auto simp: insert_diff_row_def Let_def)
    ultimately show ?case using Cons.IH [of "insert_diff_row d r"] by auto
  qed simp
  from this [of "[]"] show ?thesis by (simp add: insert_diff_rows_def)
qed

text \<open>The classes as filters of the join.\<close>

definition is_op_only :: "join_row \<Rightarrow> bool" where "is_op_only r \<longleftrightarrow> (case r of (k, o1, c) \<Rightarrow> o1 \<noteq> None \<and> c = None)"
definition is_cloud_only :: "join_row \<Rightarrow> bool" where "is_cloud_only r \<longleftrightarrow> (case r of (k, o1, c) \<Rightarrow> o1 = None \<and> c \<noteq> None)"

definition is_conflict :: "(string \<Rightarrow> int) \<Rightarrow> bool \<Rightarrow> join_row \<Rightarrow> bool" where
  "is_conflict parse h r \<longleftrightarrow>
     (case r of (k, Some (oh, ot), Some (ch, ct)) \<Rightarrow>
        if h \<and> oh \<noteq> [] \<and> ch \<noteq> [] then oh \<noteq> ch else parse ot \<noteq> parse ct
      | _ \<Rightarrow> False)"

definition is_identical :: "(string \<Rightarrow> int) \<Rightarrow> bool \<Rightarrow> join_row \<Rightarrow> bool" where
  "is_identical parse h r \<longleftrightarrow> fst (snd r) \<noteq> None \<and> snd (snd r) \<noteq> None \<and> \<not> is_conflict parse h r"

lemma classify_op_only:
  "op_only (classify p h d r) = op_only d @ (if is_op_only r then [fst r] else [])"
  by (simp add: classify_def is_op_only_def Let_def split: prod.split option.split)

lemma classify_cloud_only:
  "cloud_only (classify p h d r) = cloud_only d @ (if is_cloud_only r then [fst r] else [])"
  by (simp add: classify_def is_cloud_only_def Let_def split: prod.split option.split)

lemma classify_conflict:
  "map conflict_id (genuine_conflicts (classify p h d r)) =
     map conflict_id (genuine_conflicts d) @ (if is_conflict p h r then [fst r] else [])"
  by (simp add: classify_def is_conflict_def safe_ts_compare_def Let_def split: prod.split option.split)

lemma classify_identical:
  "content_identical (classify p h d r) = content_identical d @ (if is_identical p h r then [fst r] else [])"
  by (simp add: classify_def is_identical_def is_conflict_def safe_ts_compare_def Let_def
      split: prod.split option.split)

lemmas classify_step = classify_op_only classify_cloud_only classify_conflict classify_identical

lemma classify_classes:
  "op_only (foldl (classify p h) d rs) = op_only d @ map fst (filter is_op_only rs)"
  "cloud_only (foldl (classify p h) d rs) = cloud_only d @ map fst (filter is_cloud_only rs)"
  "map conflict_id (genuine_conflicts (foldl (classify p h) d rs)) =
     map conflict_id (genuine_conflicts d) @ map fst (filter (is_conflict p h) rs)"
  "content_identical (foldl (classify p h) d rs) = content_identical d @ map fst (filter (is_identical p h) rs)"
  by (induction rs arbitrary: d) (simp_all add: classify_step)

definition key_texts :: "diff_row list \<Rightarrow> string set" where
  "key_texts rs = (\<lambda>r. pk_text (dr_key r)) ` set rs"

lemma join_classes:
  "map fst (filter is_op_only (diff_join op cl)) = filter (\<lambda>k. map_of cl k = None) (map fst op)"
  "map fst (filter is_cloud_only (diff_join op cl)) = filter (\<lambda>k. map_of op k = None) (map fst cl)"
  "map fst (filter (\<lambda>r. fst (snd r) \<noteq> None \<and> snd (snd r) \<noteq> None) (diff_join op cl)) =
     filter (\<lambda>k. map_of cl k \<noteq> None) (map fst op)"
  by (simp_all add: diff_join_def filter_map comp_def is_op_only_def is_cloud_only_def case_prod_unfold)

lemma diff_classes:
  "let d = compute_deltas parse ho hc op_rows cloud_rows in
     set (op_only d) = key_texts op_rows - key_texts cloud_rows \<and>
     set (cloud_only d) = key_texts cloud_rows - key_texts op_rows \<and>
     conflict_id ` set (genuine_conflicts d) \<union> set (content_identical d) =
       key_texts op_rows \<inter> key_texts cloud_rows \<and>
     conflict_id ` set (genuine_conflicts d) \<inter> set (content_identical d) = {}"
proof -
  define d where "d = compute_deltas parse ho hc op_rows cloud_rows"
  let ?o = "insert_diff_rows op_rows" and ?c = "insert_diff_rows cloud_rows"
  let ?J = "diff_join ?o ?c"
  let ?h = "ho \<and> hc"
  have ko: "fst ` set ?o = key_texts op_rows" "distinct (map fst ?o)"
    and kc: "fst ` set ?c = key_texts cloud_rows"
    using insert_diff_rows_keys [of op_rows] insert_diff_rows_keys [of cloud_rows]
    by (auto simp: key_texts_def comp_def)
  have mo: "map_of ?o k = None \<longleftrightarrow> k \<notin> key_texts op_rows" for k
    unfolding ko(1) [symmetric] by (rule map_of_eq_None_iff)
  have mc: "map_of ?c k = None \<longleftrightarrow> k \<notin> key_texts cloud_rows" for k
    unfolding kc [symmetric] by (rule map_of_eq_None_iff)
  have uniq: "distinct (map fst (filter (\<lambda>r. fst (snd r) \<noteq> None) ?J))"
  proof -
    have "map fst (filter (\<lambda>r. fst (snd r) \<noteq> None) ?J) = map fst ?o"
      by (simp add: diff_join_def filter_map comp_def case_prod_unfold)
    then show ?thesis using ko(2) by simp
  qed
  have eq: "op_only d = map fst (filter is_op_only ?J)"
    "cloud_only d = map fst (filter is_cloud_only ?J)"
    "map conflict_id (genuine_conflicts d) = map fst (filter (is_conflict parse ?h) ?J)"
    "content_identical d = map fst (filter (is_identical parse ?h) ?J)"
    unfolding d_def compute_deltas_def by (simp_all add: classify_classes no_deltas_def)
  have both: "is_conflict parse ?h r \<or> is_identical parse ?h r \<longleftrightarrow> fst (snd r) \<noteq> None \<and> snd (snd r) \<noteq> None" for r
    by (cases r) (auto simp: is_identical_def is_conflict_def split: option.splits)
  have 1: "set (op_only d) = key_texts op_rows - key_texts cloud_rows"
    unfolding eq join_classes using mc ko(1) by auto
  have 2: "set (cloud_only d) = key_texts cloud_rows - key_texts op_rows"
    unfolding eq join_classes using mo kc by auto
  have cid: "conflict_id ` set (genuine_conflicts d) = fst ` set (filter (is_conflict parse ?h) ?J)"
    using arg_cong [OF eq(3), of set] by simp
  have 3: "conflict_id ` set (genuine_conflicts d) \<union> set (content_identical d) = key_texts op_rows \<inter> key_texts cloud_rows"
  proof -
    have "conflict_id ` set (genuine_conflicts d) \<union> set (content_identical d) =
        set (map fst (filter (\<lambda>r. fst (snd r) \<noteq> None \<and> snd (snd r) \<noteq> None) ?J))"
    proof -
      have "x \<in> set (filter (is_conflict parse ?h) ?J) \<or> x \<in> set (filter (is_identical parse ?h) ?J) \<longleftrightarrow>
          x \<in> set (filter (\<lambda>r. fst (snd r) \<noteq> None \<and> snd (snd r) \<noteq> None) ?J)" for x
        using both [of x] unfolding set_filter by blast
      then have "set (filter (is_conflict parse ?h) ?J) \<union> set (filter (is_identical parse ?h) ?J) =
          set (filter (\<lambda>r. fst (snd r) \<noteq> None \<and> snd (snd r) \<noteq> None) ?J)"
        by blast
      then show ?thesis unfolding cid eq(4) set_map image_Un [symmetric] by (rule arg_cong)
    qed
    also have "\<dots> = key_texts op_rows \<inter> key_texts cloud_rows"
      unfolding join_classes using mc ko(1) by auto
    finally show ?thesis .
  qed
  have 4: "conflict_id ` set (genuine_conflicts d) \<inter> set (content_identical d) = {}"
  proof (rule ccontr)
    assume "\<not> ?thesis"
    then obtain k where k: "k \<in> fst ` set (filter (is_conflict parse ?h) ?J)"
        "k \<in> fst ` set (filter (is_identical parse ?h) ?J)"
      unfolding cid eq(4) set_map by blast
    from k(1) obtain r where r1: "r \<in> set ?J" "is_conflict parse ?h r" "k = fst r"
      unfolding set_filter by blast
    from k(2) obtain r' where r2: "r' \<in> set ?J" "is_identical parse ?h r'" "k = fst r'"
      unfolding set_filter by blast
    note r = r1(1,2) r2(1,2) trans [OF r1(3) [symmetric] r2(3)]
    have inj: "inj_on fst {r \<in> set ?J. fst (snd r) \<noteq> None}"
      using uniq unfolding distinct_map set_filter by blast
    have "fst (snd r) \<noteq> None" "fst (snd r') \<noteq> None" using both r by blast+
    then have "r = r'" using inj_onD [OF inj r(5)] r(1,3) by blast
    then show False using r by (simp add: is_identical_def)
  qed
  from 1 2 3 4 show ?thesis unfolding Let_def d_def by blast
qed

text \<open>
  C28: The diff sorts the keys into four classes: the keys of one side only are exactly the key texts
  that the other side lacks; a key of both sides is a conflict or identical, never both; and every key
  text of either side is in exactly one class.
\<close>

theorem diff_partitions_keys:
  "let d = compute_deltas parse ho hc op_rows cloud_rows in
     set (op_only d) = key_texts op_rows - key_texts cloud_rows \<and>
     set (cloud_only d) = key_texts cloud_rows - key_texts op_rows \<and>
     conflict_id ` set (genuine_conflicts d) \<union> set (content_identical d) =
       key_texts op_rows \<inter> key_texts cloud_rows \<and>
     conflict_id ` set (genuine_conflicts d) \<inter> set (content_identical d) = {}"
  by (rule diff_classes)

section \<open>Key texts\<close>

text \<open>
  Without bars in the values the key text determines the key; with bars two different keys can share
  their text, and \<open>INSERT OR IGNORE\<close> then drops the second row from the diff.
\<close>

lemma append_bar_inj:
  "CHR ''|'' \<notin> set x \<Longrightarrow> CHR ''|'' \<notin> set y \<Longrightarrow> x @ CHR ''|'' # xs = y @ CHR ''|'' # ys \<Longrightarrow> x = y \<and> xs = ys"
proof (induction x arbitrary: y)
  case Nil then show ?case by (cases y) auto
next
  case (Cons a x) then show ?case by (cases y) auto
qed

lemma bar_join: "1 < length xs \<Longrightarrow> CHR ''|'' \<in> set (join ''|'' xs)"
  by (cases xs; cases "tl xs") auto

lemma join_bar_inj:
  "\<forall>x \<in> set xs \<union> set ys. CHR ''|'' \<notin> set x \<Longrightarrow> length xs = length ys \<Longrightarrow> join ''|'' xs = join ''|'' ys \<Longrightarrow> xs = ys"
proof (induction xs arbitrary: ys)
  case (Cons x xs)
  obtain y ys' where ys: "ys = y # ys'" using Cons.prems(2) by (cases ys) auto
  show ?case
  proof (cases xs)
    case Nil
    then show ?thesis using Cons.prems ys by simp
  next
    case (Cons x2 xs2)
    then obtain y2 ys2 where y2: "ys' = y2 # ys2" using Cons.prems(2) ys by (cases ys') auto
    have "x @ CHR ''|'' # join ''|'' xs = y @ CHR ''|'' # join ''|'' ys'"
      using Cons.prems(3) ys y2 Cons by simp
    from append_bar_inj [OF _ _ this] have "x = y" "join ''|'' xs = join ''|'' ys'"
      using Cons.prems(1) ys by auto
    then show ?thesis using Cons.IH [of ys'] Cons.prems(1,2) ys by auto
  qed
qed simp

lemma key_text_collision:
  "pk_text [CStr (a @ ''|'' @ b), CStr c] = pk_text [CStr a, CStr (b @ ''|'' @ c)]"
  by (simp add: pk_text_def str_cell_def)

section \<open>Resolving a conflict\<close>

datatype strategy = Newest_Overall_Wins | Operational_Wins | Cloud_Wins | Abort_Sync

datatype side = Operational | Cloud_Side | Manual | Skip_Row

definition resolve_conflict :: "strategy \<Rightarrow> conflict \<Rightarrow> side" where
  "resolve_conflict s c =
     (case s of
        Operational_Wins \<Rightarrow> Operational
      | Cloud_Wins \<Rightarrow> Cloud_Side
      | Newest_Overall_Wins \<Rightarrow>
          if conflict_class c = Timestamp_Drift then (if op_ts c > cloud_ts c then Operational else Cloud_Side)
          else if op_ts c > cloud_ts c then Operational
          else if cloud_ts c > op_ts c then Cloud_Side
          else Manual
      | Abort_Sync \<Rightarrow> Manual)"

text \<open>The operator's answer to a conflict, stripped and upper-cased; \<open>None\<close> is the end of the input.\<close>

definition operator_choice :: "string option \<Rightarrow> side" where
  "operator_choice a =
     (if a = Some ''O'' then Operational else if a = Some ''C'' then Cloud_Side else Skip_Row)"

definition strategy_choice :: "string option \<Rightarrow> strategy" where
  "strategy_choice a =
     (if a = Some ''N'' then Newest_Overall_Wins else if a = Some ''O'' then Operational_Wins
      else if a = Some ''C'' then Cloud_Wins else Abort_Sync)"

lemma text_less_at: "c < c' \<Longrightarrow> d @ c # x < d @ c' # (y :: string)"
  by (induction d) (simp_all add: Cons_less_Cons)

text \<open>
  Newest-wins compares the raw texts. SQLite's \<open>CURRENT_TIMESTAMP\<close> separates date and time by a
  blank, the rows pulled from the cloud carry \<open>isoformat\<close> with a \<open>T\<close>: for two timestamps of one day in
  these formats the cloud side always wins, whichever is newer; swapped formats favour the local side.
\<close>

theorem newest_wins_ignores_time_of_day:
  "resolve_conflict Newest_Overall_Wins
     \<lparr>conflict_id = k, op_ts = day @ '' '' @ t1, cloud_ts = day @ ''T'' @ t2, conflict_class = cls\<rparr> = Cloud_Side \<and>
   resolve_conflict Newest_Overall_Wins
     \<lparr>conflict_id = k, op_ts = day @ ''T'' @ t1, cloud_ts = day @ '' '' @ t2, conflict_class = cls\<rparr> = Operational"
proof -
  have lt: "day @ CHR '' '' # x < day @ CHR ''T'' # y" for x y
    by (rule text_less_at) (simp add: less_char_def)
  have nlt: "\<not> day @ CHR ''T'' # y < day @ CHR '' '' # x" for x y
    using lt less_asym by blast
  from lt nlt show ?thesis by (simp add: resolve_conflict_def)
qed

section \<open>The recommendation\<close>

text \<open>
  What the recommender reads of a table's metrics: missing entries of the dict are 0 or the empty list.
\<close>

record table_metrics =
  m_op_only :: nat
  m_cloud_only :: nat
  m_identical :: nat
  m_genuine_conflicts :: nat
  m_drift :: "(string \<times> string) list"

record breakdown =
  b_op_only :: nat
  b_cloud_only :: nat
  b_identical :: nat
  b_conflicts :: nat
  b_op_newer :: nat
  b_cloud_newer :: nat
  b_drift :: nat

definition compute_breakdown :: "table_metrics \<Rightarrow> breakdown" where
  "compute_breakdown m =
     \<lparr>b_op_only = m_op_only m, b_cloud_only = m_cloud_only m, b_identical = m_identical m,
      b_conflicts = m_genuine_conflicts m,
      b_op_newer = length (filter (\<lambda>(o1, c). o1 > c) (m_drift m)),
      b_cloud_newer = length (filter (\<lambda>(o1, c). c > o1) (m_drift m)),
      b_drift = length (m_drift m)\<rparr>"

text \<open>
  The thresholds on the conflict rate as exact ratios: \<open>c / n * 100 < 5.0\<close> in double precision agrees with
  them for all counts below \<open>2 ^ 40\<close>. The confidence is in percent.
\<close>

definition recommend :: "table_metrics list \<Rightarrow> strategy \<times> nat" where
  "recommend ms =
     (let ts = map compute_breakdown ms;
          conflicts = sum_list (map b_conflicts ts);
          cloud = sum_list (map b_cloud_only ts);
          n = sum_list (map (\<lambda>t. b_op_only t + b_cloud_only t + b_identical t + b_conflicts t) ts)
      in if conflicts = 0 \<and> cloud = 0 then (Operational_Wins, 95)
         else if conflicts = 0 then (Newest_Overall_Wins, 90)
         else if n = 0 \<or> conflicts * 100 < 5 * n then (Newest_Overall_Wins, 85)
         else if conflicts * 100 < 20 * n then (Newest_Overall_Wins, 60)
         else (Abort_Sync, 90))"

record outcome =
  o_op_to_cloud :: nat
  o_cloud_to_op :: nat
  o_op_deletes :: nat
  o_cloud_deletes :: nat
  o_conflict_op_wins :: nat
  o_conflict_cloud_wins :: nat

definition compute_outcome :: "breakdown list \<Rightarrow> strategy \<Rightarrow> outcome" where
  "compute_outcome ts s =
     (let none = \<lparr>o_op_to_cloud = 0, o_cloud_to_op = 0, o_op_deletes = 0, o_cloud_deletes = 0,
                  o_conflict_op_wins = 0, o_conflict_cloud_wins = 0\<rparr> in
      case s of
        Operational_Wins \<Rightarrow>
          none\<lparr>o_op_to_cloud := sum_list (map b_op_only ts),
               o_cloud_deletes := sum_list (map b_cloud_only ts),
               o_conflict_op_wins := sum_list (map b_conflicts ts)\<rparr>
      | Cloud_Wins \<Rightarrow>
          none\<lparr>o_cloud_to_op := sum_list (map b_cloud_only ts),
               o_op_deletes := sum_list (map b_op_only ts),
               o_conflict_cloud_wins := sum_list (map b_conflicts ts)\<rparr>
      | Newest_Overall_Wins \<Rightarrow>
          none\<lparr>o_op_to_cloud := sum_list (map b_op_only ts),
               o_cloud_to_op := sum_list (map b_cloud_only ts),
               o_conflict_op_wins := sum_list (map (\<lambda>t. b_op_newer t + (b_conflicts t - b_op_newer t - b_cloud_newer t)) ts),
               o_conflict_cloud_wins := sum_list (map b_cloud_newer ts)\<rparr>
      | Abort_Sync \<Rightarrow> none)"

text \<open>
  The metrics \<open>sync_bidirectional\<close> hands to the prompt for the deltas of a table: the keys \<open>op_only\<close>,
  \<open>cloud_only\<close> and \<open>conflicts\<close>. The recommender reads the first two and \<open>genuine_conflicts\<close>, which is missing.
\<close>

definition bidirectional_metrics :: "deltas \<Rightarrow> table_metrics" where
  "bidirectional_metrics d =
     \<lparr>m_op_only = length (op_only d), m_cloud_only = length (cloud_only d), m_identical = 0,
      m_genuine_conflicts = 0, m_drift = []\<rparr>"

text \<open>The metrics as the recommender is written for them.\<close>

definition intended_metrics :: "deltas \<Rightarrow> table_metrics" where
  "intended_metrics d =
     \<lparr>m_op_only = length (op_only d), m_cloud_only = length (cloud_only d),
      m_identical = length (content_identical d),
      m_genuine_conflicts = length (genuine_conflicts d),
      m_drift = map (\<lambda>c. (op_ts c, cloud_ts c)) (timestamp_drift d)\<rparr>"

text \<open>
  The recommendation shown by a bidirectional sync is blind to conflicts: whatever the deltas, it is
  given with at least 90 percent confidence, never to abort, and no outcome predicts a conflict; with
  the metrics the recommender is written for, a set of deltas that are conflicts only gets the
  recommendation to abort.
\<close>

theorem recommendation_blind_to_conflicts:
  "recommend (map bidirectional_metrics ds) \<in> {(Operational_Wins, 95), (Newest_Overall_Wins, 90)} \<and>
   o_conflict_op_wins (compute_outcome (map (compute_breakdown \<circ> bidirectional_metrics) ds) s) = 0 \<and>
   o_conflict_cloud_wins (compute_outcome (map (compute_breakdown \<circ> bidirectional_metrics) ds) s) = 0 \<and>
   recommend [intended_metrics (no_deltas\<lparr>genuine_conflicts := c # cs\<rparr>)] = (Abort_Sync, 90)"
proof -
  have "recommend (map bidirectional_metrics ds) \<in> {(Operational_Wins, 95), (Newest_Overall_Wins, 90)}"
    by (simp add: recommend_def Let_def comp_def compute_breakdown_def bidirectional_metrics_def)
  moreover have "o_conflict_op_wins (compute_outcome (map (compute_breakdown \<circ> bidirectional_metrics) ds) s) = 0 \<and>
      o_conflict_cloud_wins (compute_outcome (map (compute_breakdown \<circ> bidirectional_metrics) ds) s) = 0"
    by (cases s)
      (simp_all add: compute_outcome_def Let_def comp_def compute_breakdown_def bidirectional_metrics_def)
  moreover have "recommend [intended_metrics (no_deltas\<lparr>genuine_conflicts := c # cs\<rparr>)] = (Abort_Sync, 90)"
    by (simp add: recommend_def Let_def compute_breakdown_def intended_metrics_def no_deltas_def)
  ultimately show ?thesis by blast
qed

end
