(* ===== verification/Sync_Engine.thy ===== *)
theory Sync_Engine
  imports Diff_Sync
begin

text \<open>
  \<open>database/backup/engine/sync_engine.py\<close>: the decision at startup and what it does, the periodic push with
  its watermarks, and the plan of a bidirectional sync, the transaction it hands to the writer.

  Counting rows, pulling and pushing are results given as arguments; the operator's answers are
  functions. Logs, durations and the validation, which only logs, are left out.
\<close>

section \<open>The decision at startup\<close>

type_synonym proofs = "(string \<times> int) list"

datatype action = Skip | Push_Only | Pull_Only | Bidirectional | Abort

record decision =
  d_action :: action
  divergence_detected :: bool
  hitl_required :: bool
  hitl_outcome :: "strategy option"
  recommended_strategy :: strategy

definition decided :: "action \<Rightarrow> bool \<Rightarrow> strategy \<Rightarrow> decision" where
  "decided a dv s = \<lparr>d_action = a, divergence_detected = dv, hitl_required = dv, hitl_outcome = None,
     recommended_strategy = s\<rparr>"

definition has_data :: "proofs \<Rightarrow> bool" where
  "has_data ps \<longleftrightarrow> list_ex (\<lambda>(t, n). n > 0) ps"

text \<open>\<open>proofs.get(t, {}).get("total_rows", 0)\<close>.\<close>

definition rows_of :: "proofs \<Rightarrow> string \<Rightarrow> int" where
  "rows_of ps t = (case map_of ps t of None \<Rightarrow> 0 | Some n \<Rightarrow> n)"

definition divergence_tables :: "proofs \<Rightarrow> proofs \<Rightarrow> string list" where
  "divergence_tables local_ps cloud_ps =
     filter (\<lambda>t. rows_of local_ps t \<noteq> rows_of cloud_ps t) (map fst local_ps)"

definition decide_startup_action :: "proofs \<Rightarrow> proofs \<Rightarrow> decision" where
  "decide_startup_action local_ps cloud_ps =
     (if cloud_ps = [] then decided Skip False Operational_Wins
      else if \<not> has_data local_ps \<and> \<not> has_data cloud_ps then decided Skip False Operational_Wins
      else if \<not> has_data local_ps \<and> has_data cloud_ps then decided Pull_Only True Cloud_Wins
      else if has_data local_ps \<and> \<not> has_data cloud_ps then decided Push_Only False Operational_Wins
      else if divergence_tables local_ps cloud_ps = [] then decided Skip False Operational_Wins
      else decided Bidirectional True Newest_Overall_Wins)"

text \<open>What the startup does, in order: the calls of the engine's operations.\<close>

datatype startup_effect = Sync_All | Ask | Restore_Pipeline | Sync_Bidirectional strategy

definition sync_startup :: "strategy \<Rightarrow> proofs \<Rightarrow> proofs \<Rightarrow> decision \<times> startup_effect list" where
  "sync_startup answer local_ps cloud_ps =
     (let d = decide_startup_action local_ps cloud_ps in
      case d_action d of
        Push_Only \<Rightarrow> (d, [Sync_All])
      | Pull_Only \<Rightarrow>
          if hitl_required d then
            (let d = d\<lparr>hitl_outcome := Some answer\<rparr> in
             if answer = Abort_Sync then (d\<lparr>d_action := Abort\<rparr>, [Ask])
             else if answer \<in> {Cloud_Wins, Newest_Overall_Wins} then (d, [Ask, Restore_Pipeline])
             else (d, [Ask]))
          else (d, [])
      | Bidirectional \<Rightarrow>
          if hitl_required d then
            (let d = d\<lparr>hitl_outcome := Some answer\<rparr> in
             if answer = Abort_Sync then (d\<lparr>d_action := Abort\<rparr>, [Ask])
             else (d, [Ask, Sync_Bidirectional answer]))
          else (d, [])
      | _ \<Rightarrow> (d, []))"

text \<open>The metrics of the startup prompt.\<close>

definition startup_metrics :: "proofs \<Rightarrow> proofs \<Rightarrow> table_metrics list" where
  "startup_metrics local_ps cloud_ps =
     map (\<lambda>(t, _). let l = rows_of local_ps t; c = rows_of cloud_ps t in
            \<lparr>m_op_only = nat (max 0 (l - c)), m_cloud_only = nat (max 0 (c - l)), m_identical = 0,
             m_genuine_conflicts = (if l > 0 \<and> c > 0 then nat \<bar>l - c\<bar> else 0), m_drift = []\<rparr>)
       (filter (\<lambda>(t, _). rows_of local_ps t \<noteq> rows_of cloud_ps t \<or> rows_of cloud_ps t > 0) local_ps)"

text \<open>
  The startup changes local data only after an operator who did not abort: a restore or a bidirectional
  sync is always preceded by the question, and a restore additionally happens only into an empty local
  database while the cloud has rows; without cloud proofs nothing happens at all.
\<close>

theorem startup_asks_before_overwriting:
  "(case sync_startup answer local_ps cloud_ps of (d, effects) \<Rightarrow>
      (cloud_ps = [] \<longrightarrow> effects = []) \<and>
      (Restore_Pipeline \<in> set effects \<longrightarrow>
         hd effects = Ask \<and> answer \<noteq> Abort_Sync \<and> hitl_outcome d = Some answer \<and>
         \<not> has_data local_ps \<and> has_data cloud_ps) \<and>
      (\<forall>s. Sync_Bidirectional s \<in> set effects \<longrightarrow>
         hd effects = Ask \<and> s = answer \<and> answer \<noteq> Abort_Sync \<and> divergence_tables local_ps cloud_ps \<noteq> []))"
  by (auto simp: sync_startup_def decide_startup_action_def decided_def Let_def split: strategy.split)

lemma startup_asks_before_overwriting_witness:
  "snd (sync_startup Cloud_Wins [(''jobs'', 0)] [(''jobs'', 5)]) = [Ask, Restore_Pipeline] \<and>
   hitl_outcome (fst (sync_startup Cloud_Wins [(''jobs'', 0)] [(''jobs'', 5)])) = Some Cloud_Wins"
proof -
  obtain d es where r: "sync_startup Cloud_Wins [(''jobs'', 0)] [(''jobs'', 5)] = (d, es)" by fastforce
  have es: "es = [Ask, Restore_Pipeline]"
    using r by (simp add: sync_startup_def decide_startup_action_def decided_def has_data_def Let_def)
  from startup_asks_before_overwriting [where answer = Cloud_Wins and local_ps = "[(''jobs'', 0)]" and
      cloud_ps = "[(''jobs'', 5)]", unfolded r prod.case]
  have "hitl_outcome d = Some Cloud_Wins" unfolding es by simp
  then show ?thesis using r es by simp
qed

section \<open>The periodic push\<close>

record ledger_entry =
  le_table :: string
  le_state :: string
  le_completed :: string

definition epoch :: string where "epoch = ''1970-01-01T00:00:00''"

definition max_text :: "string list \<Rightarrow> string" where
  "max_text xs = foldr max xs []"

definition get_table_watermark :: "ledger_entry list \<Rightarrow> string \<Rightarrow> string" where
  "get_table_watermark ledger t =
     (let v = max_text (map le_completed (filter (\<lambda>e. le_state e = ''COMPLETED'' \<and> (le_table e = t \<or> le_table e = ''ALL'')) ledger))
      in if v = [] then epoch else v)"

text \<open>
  A local table: virtual or not, the number of its rows, and their \<open>updated_at\<close> where the table has the
  column.
\<close>

record local_table =
  lt_name :: string
  lt_virtual :: bool
  lt_rows :: nat
  lt_updated :: "string option list option"

definition pending_count :: "bool \<Rightarrow> ledger_entry list \<Rightarrow> local_table \<Rightarrow> nat" where
  "pending_count delta ledger t =
     (let wm = (if delta then get_table_watermark ledger (lt_name t) else epoch) in
      case lt_updated t of
        None \<Rightarrow> lt_rows t
      | Some us \<Rightarrow> length (filter (\<lambda>u. case u of None \<Rightarrow> False | Some s \<Rightarrow> s > wm) us))"

datatype sync_result = Disabled | No_Pending_Changes | Pushed nat | Cloud_Error

text \<open>
  \<open>sync_all\<close>: the result, whether the push ran, and the ledger. \<open>push\<close> is the number of rows
  \<open>sync_data\<close> reports, \<open>None\<close> when it raises.
\<close>

definition sync_all :: "bool \<Rightarrow> bool \<Rightarrow> string \<Rightarrow> nat option \<Rightarrow> local_table list \<Rightarrow> ledger_entry list \<Rightarrow>
    sync_result \<times> bool \<times> ledger_entry list" where
  "sync_all enabled delta now push tables ledger =
     (let total_pending = sum_list (map (pending_count delta ledger) (filter (\<lambda>t. \<not> lt_virtual t) tables)) in
      if \<not> enabled then (Disabled, False, ledger)
      else if total_pending = 0 then (No_Pending_Changes, False, ledger)
      else (case push of
              None \<Rightarrow> (Cloud_Error, True, ledger)
            | Some n \<Rightarrow> (Pushed n, True,
                ledger @ [\<lparr>le_table = ''ALL'', le_state = ''COMPLETED'', le_completed = now\<rparr>])))"

lemma max_text_ge: "x \<in> set xs \<Longrightarrow> x \<le> max_text xs"
  by (induction xs) (auto simp: max_text_def le_max_iff_disj)

lemma max_text_mem: "max_text xs = [] \<or> max_text xs \<in> set xs"
  by (induction xs) (auto simp: max_text_def max_def)

text \<open>
  After a push completed on some day (the ledger holds \<open>isoformat\<close>, with a \<open>T\<close>), no row stamped by
  SQLite's \<open>CURRENT_TIMESTAMP\<close> (with a blank) on that day counts as pending, however late it was changed:
  if every row has such a stamp, every further delta sync of that day skips the push.
\<close>

theorem same_day_changes_not_pushed:
  assumes "\<lparr>le_table = ''ALL'', le_state = ''COMPLETED'', le_completed = day @ ''T'' @ t\<rparr> \<in> set ledger"
    and "\<forall>tb \<in> set tables. \<exists>us. lt_updated tb = Some us \<and>
           (\<forall>u \<in> set us. u = None \<or> (\<exists>x. u = Some (day @ '' '' @ x)))"
  shows "sync_all True True now push tables ledger = (No_Pending_Changes, False, ledger)"
proof -
  have wm: "day @ ''T'' @ t \<le> get_table_watermark ledger n" for n
  proof -
    let ?xs = "map le_completed (filter (\<lambda>e. le_state e = ''COMPLETED'' \<and> (le_table e = n \<or> le_table e = ''ALL'')) ledger)"
    have "day @ ''T'' @ t \<in> set ?xs"
      using assms(1) by (force simp: image_iff)
    from max_text_ge [OF this] have ge: "day @ ''T'' @ t \<le> max_text ?xs" .
    have "max_text ?xs \<noteq> []"
    proof
      assume "max_text ?xs = []"
      with ge have "day @ ''T'' @ t \<le> []" by simp
      then show False by (cases day) simp_all
    qed
    with ge show ?thesis unfolding get_table_watermark_def Let_def by simp
  qed
  have z: "pending_count True ledger tb = 0" if "tb \<in> set tables" for tb
  proof -
    from bspec [OF assms(2) that] obtain us where us': "lt_updated tb = Some us \<and>
        (\<forall>u \<in> set us. u = None \<or> (\<exists>x. u = Some (day @ '' '' @ x)))" ..
    note us = conjunct1 [OF us'] conjunct2 [OF us']
    have "\<not> get_table_watermark ledger (lt_name tb) < day @ CHR '' '' # x" for x
    proof -
      have "day @ CHR '' '' # x < day @ CHR ''T'' # t" by (rule text_less_at) (simp add: less_char_def)
      then show ?thesis using wm [of "lt_name tb"] by (simp add: not_less)
    qed
    then have "filter (\<lambda>u. case u of None \<Rightarrow> False | Some s \<Rightarrow> s > get_table_watermark ledger (lt_name tb)) us = []"
      using us(2) by (auto simp: filter_empty_conv)
    then show ?thesis using us(1) by (simp add: pending_count_def Let_def)
  qed
  have "sum_list (map (pending_count True ledger) (filter (\<lambda>t. \<not> lt_virtual t) tables)) = 0"
    using z by auto
  then show ?thesis by (simp add: sync_all_def Let_def)
qed

lemma same_day_changes_not_pushed_witness:
  "sync_all True True ''2024-05-02T23:30:00'' (Some 1)
     [\<lparr>lt_name = ''jobs'', lt_virtual = False, lt_rows = 1, lt_updated = Some [Some ''2024-05-02 23:00:00'']\<rparr>]
     [\<lparr>le_table = ''ALL'', le_state = ''COMPLETED'', le_completed = ''2024-05-02T01:00:00''\<rparr>]
   = (No_Pending_Changes, False, [\<lparr>le_table = ''ALL'', le_state = ''COMPLETED'', le_completed = ''2024-05-02T01:00:00''\<rparr>])"
  by (rule same_day_changes_not_pushed [of "''2024-05-02''" "''01:00:00''"]) simp_all

section \<open>The bidirectional sync\<close>

text \<open>A table with its key, its deltas and the rows pulled from the cloud.\<close>

record bi_table =
  bt_name :: string
  bt_pk :: pk_col
  bt_deltas :: deltas
  bt_cloud :: "row list"

datatype op_stmt = Replace_Row string row | Delete_Row string row

record sync_plan =
  op_transactions :: "op_stmt list"
  op_restored :: nat
  op_deleted :: nat

fun chunks :: "nat \<Rightarrow> 'a list \<Rightarrow> 'a list list" where
  "chunks 0 xs = []"
| "chunks (Suc n) [] = []"
| "chunks (Suc n) (x # xs) = (x # take n xs) # chunks (Suc n) (drop n xs)"

text \<open>\<open>pk_col = ?\<close> with a text parameter, under the column's affinity.\<close>

definition text_eq :: "cell \<Rightarrow> string \<Rightarrow> bool" where
  "text_eq v s \<longleftrightarrow> v \<noteq> CNull \<and> str_cell v = s"

definition key_eq :: "string list \<Rightarrow> row \<Rightarrow> cell list \<Rightarrow> bool" where
  "key_eq cs r vs \<longleftrightarrow> list_all2 (\<lambda>c v. cell_eq (get_col r c) v) cs vs"

text \<open>
  \<open>loads\<close> is \<open>json.loads\<close> on a key text, \<open>None\<close> its \<open>ValueError\<close>; a JSON text is taken to be an array of
  scalars.
\<close>

definition select_chunk :: "(string \<Rightarrow> cell list option) \<Rightarrow> pk_col \<Rightarrow> row list \<Rightarrow> string list \<Rightarrow> row list" where
  "select_chunk loads p cloud chunk =
     (case p of
        Pk c \<Rightarrow> filter (\<lambda>r. list_ex (text_eq (get_col r c)) chunk) cloud
      | Pks cs \<Rightarrow>
          (let keys = filter (\<lambda>vs. length vs = length cs) (List.map_filter loads chunk) in
           if keys = [] then [] else filter (\<lambda>r. list_ex (key_eq cs r) keys) cloud))"

definition restore_rows :: "(string \<Rightarrow> cell list option) \<Rightarrow> bi_table \<Rightarrow> row list" where
  "restore_rows loads t =
     concat (map (select_chunk loads (bt_pk t) (bt_cloud t))
       (chunks (900 div max 1 (length (pk_cols (bt_pk t)))) (cloud_only (bt_deltas t))))"

definition delete_stmts :: "(string \<Rightarrow> cell list option) \<Rightarrow> bi_table \<Rightarrow> op_stmt list" where
  "delete_stmts loads t =
     (case bt_pk t of
        Pk c \<Rightarrow> map (\<lambda>k. Delete_Row (bt_name t) [(c, CStr k)]) (op_only (bt_deltas t))
      | Pks cs \<Rightarrow>
          map (\<lambda>vs. Delete_Row (bt_name t) (zip cs vs))
            (filter (\<lambda>vs. length vs = length cs) (List.map_filter loads (op_only (bt_deltas t)))))"

text \<open>The row of a conflict the cloud wins, if it can be found.\<close>

definition conflict_row :: "(string \<Rightarrow> cell list option) \<Rightarrow> bi_table \<Rightarrow> conflict \<Rightarrow> row option" where
  "conflict_row loads t c =
     (case bt_pk t of
        Pk col \<Rightarrow> List.find (\<lambda>r. text_eq (get_col r col) (conflict_id c)) (bt_cloud t)
      | Pks cs \<Rightarrow>
          (case loads (conflict_id c) of
             None \<Rightarrow> None
           | Some vs \<Rightarrow> List.find (\<lambda>r. key_eq cs r vs) (bt_cloud t)))"

definition conflict_verdict :: "strategy \<Rightarrow> (conflict \<Rightarrow> side) \<Rightarrow> conflict \<Rightarrow> side" where
  "conflict_verdict s operator c =
     (let v = resolve_conflict s c in if v = Manual then operator c else v)"

definition conflict_rows :: "(string \<Rightarrow> cell list option) \<Rightarrow> strategy \<Rightarrow> (conflict \<Rightarrow> side) \<Rightarrow> bi_table \<Rightarrow> row list" where
  "conflict_rows loads s operator t =
     List.map_filter (\<lambda>c. if conflict_verdict s operator c = Cloud_Side then conflict_row loads t c else None)
       (genuine_conflicts (bt_deltas t))"

definition plan_table :: "(string \<Rightarrow> cell list option) \<Rightarrow> strategy \<Rightarrow> (conflict \<Rightarrow> side) \<Rightarrow> bi_table \<Rightarrow> sync_plan" where
  "plan_table loads s operator t =
     (let restored = (if s \<in> {Cloud_Wins, Newest_Overall_Wins} \<and> cloud_only (bt_deltas t) \<noteq> []
                      then restore_rows loads t else []);
          deletes = (if s = Cloud_Wins \<and> op_only (bt_deltas t) \<noteq> [] then delete_stmts loads t else []);
          resolved = conflict_rows loads s operator t
      in \<lparr>op_transactions = map (Replace_Row (bt_name t)) restored @ deletes @ map (Replace_Row (bt_name t)) resolved,
          op_restored = length restored + length resolved,
          op_deleted = (if s = Cloud_Wins then length (op_only (bt_deltas t)) else 0)\<rparr>)"

record hitl_settings =
  interactive :: bool
  auto_accept_on_no_conflict :: bool

definition select_strategy :: "hitl_settings \<Rightarrow> strategy \<Rightarrow> (table_metrics list \<Rightarrow> strategy) \<Rightarrow> deltas list \<Rightarrow> strategy" where
  "select_strategy h default_strategy prompt ds =
     (if \<not> interactive h then default_strategy
      else if auto_accept_on_no_conflict h \<and> sum_list (map (length \<circ> genuine_conflicts) ds) = 0 \<and>
              sum_list (map (length \<circ> cloud_only) ds) = 0
      then Operational_Wins
      else prompt (map bidirectional_metrics ds))"

text \<open>\<open>None\<close> is the aborted sync; otherwise the transaction and the counts of the results.\<close>

definition sync_bidirectional :: "(string \<Rightarrow> cell list option) \<Rightarrow> hitl_settings \<Rightarrow> strategy \<Rightarrow>
    (table_metrics list \<Rightarrow> strategy) \<Rightarrow> (string \<Rightarrow> conflict \<Rightarrow> side) \<Rightarrow> bi_table list \<Rightarrow> sync_plan option" where
  "sync_bidirectional loads h default_strategy prompt operator ts =
     (let s = select_strategy h default_strategy prompt (map bt_deltas ts) in
      if s = Abort_Sync then None
      else (let ps = map (\<lambda>t. plan_table loads s (operator (bt_name t)) t) ts in
            Some \<lparr>op_transactions = concat (map op_transactions ps),
                  op_restored = sum_list (map op_restored ps),
                  op_deleted = sum_list (map op_deleted ps)\<rparr>))"

text \<open>An interactive sync does not use the answer the operator gave at the startup.\<close>

lemma startup_answer_unused:
  "interactive h \<Longrightarrow>
   sync_bidirectional loads h s prompt operator ts = sync_bidirectional loads h s' prompt operator ts"
  by (simp add: sync_bidirectional_def select_strategy_def)

section \<open>What a single-column key restores\<close>

lemma concat_chunks: "concat (chunks (Suc n) xs) = xs"
  by (induction "Suc n" xs rule: chunks.induct) auto

lemma set_chunks: "0 < n \<Longrightarrow> (\<Union>ch \<in> set (chunks n xs). set ch) = set xs"
  using arg_cong [OF concat_chunks [of "n - 1" xs], of set] by simp

text \<open>The rows of a table as the diff sees them.\<close>

definition diff_rows_of :: "string \<Rightarrow> row list \<Rightarrow> diff_row list" where
  "diff_rows_of c rs =
     map (\<lambda>r. \<lparr>dr_key = [get_col r c], dr_hash = get_col r ''content_hash'', dr_ts = get_col r ''updated_at''\<rparr>) rs"

lemma key_texts_rows: "key_texts (diff_rows_of c rs) = (\<lambda>r. str_cell (get_col r c)) ` set rs"
  by (auto simp: key_texts_def diff_rows_of_def pk_text_def image_image)

lemma restore_rows_single:
  assumes "bt_pk t = Pk c"
  shows "set (restore_rows loads t) =
     {r \<in> set (bt_cloud t). get_col r c \<noteq> CNull \<and> str_cell (get_col r c) \<in> set (cloud_only (bt_deltas t))}"
proof -
  let ?n = "900 div max 1 (length (pk_cols (bt_pk t)))"
  have "0 < ?n" using assms by (simp add: pk_cols_def)
  note ch = set_chunks [OF this, of "cloud_only (bt_deltas t)"]
  have "set (restore_rows loads t) = {r \<in> set (bt_cloud t). get_col r c \<noteq> CNull \<and>
      str_cell (get_col r c) \<in> (\<Union>ch \<in> set (chunks ?n (cloud_only (bt_deltas t))). set ch)}"
    unfolding restore_rows_def by (auto simp: select_chunk_def assms text_eq_def list_ex_iff)
  then show ?thesis unfolding ch .
qed


definition demo_local :: "row list" where
  "demo_local = [[(''id'', CInt 1), (''v'', CStr ''a'')]]"

definition demo_pulled :: bi_table where
  "demo_pulled =
     (let cloud = [[(''id'', CInt 1), (''v'', CStr ''a'')], [(''id'', CInt 2), (''v'', CStr ''b'')]] in
      \<lparr>bt_name = ''t'', bt_pk = Pk ''id'',
       bt_deltas = compute_deltas (\<lambda>_. 0) False False (diff_rows_of ''id'' demo_local) (diff_rows_of ''id'' cloud),
       bt_cloud = cloud\<rparr>)"


section \<open>What a composite key restores\<close>

text \<open>
  A bar outside the string literals of a JSON text; no JSON text has one (RFC 8259).
\<close>

fun bare_bar :: "bool \<Rightarrow> string \<Rightarrow> bool" where
  "bare_bar q [] = False"
| "bare_bar False (c # s) = (c = CHR ''|'' \<or> bare_bar (c = CHR 0x22) s)"
| "bare_bar True (c # s) =
     (if c = CHR 0x5C then (case s of [] \<Rightarrow> False | _ # s' \<Rightarrow> bare_bar True s') else bare_bar (c \<noteq> CHR 0x22) s)"

lemma bare_bar_unquoted: "CHR 0x22 \<notin> set s \<Longrightarrow> bare_bar False s \<longleftrightarrow> CHR ''|'' \<in> set s"
  by (induction s) auto

definition composite_table :: "diff_row list \<Rightarrow> bool" where
  "composite_table rs \<longleftrightarrow> (\<forall>r \<in> set rs. 1 < length (dr_key r) \<and> CHR 0x22 \<notin> set (pk_text (dr_key r)))"

lemma composite_key_rejected:
  assumes "\<forall>s. bare_bar False s \<longrightarrow> loads s = None" and "composite_table rs" and "k \<in> key_texts rs"
  shows "loads k = None"
proof -
  obtain r where r: "r \<in> set rs" "k = pk_text (dr_key r)" using assms(3) by (auto simp: key_texts_def)
  then have "1 < length (dr_key r)" and q: "CHR 0x22 \<notin> set k" using assms(2) by (auto simp: composite_table_def)
  then have "CHR ''|'' \<in> set k"
    using r(2) bar_join [of "map str_cell (dr_key r)"] by (simp add: pk_text_def)
  then show ?thesis using assms(1) bare_bar_unquoted [OF q] by blast
qed

lemma map_filter_none: "(\<And>x. x \<in> set xs \<Longrightarrow> f x = None) \<Longrightarrow> List.map_filter f xs = []"
  by (induction xs) (auto simp: List.map_filter_simps)

lemma set_chunks_subset: "ch \<in> set (chunks n xs) \<Longrightarrow> set ch \<subseteq> set xs"
  using set_chunks [of n xs] by (cases n) auto

text \<open>
  A table with a composite key takes no part in a bidirectional sync: the diff joins the key values with
  a bar while the sync decodes the key as JSON, so for keys without quotes every restore, delete and
  cloud-won conflict is skipped and the transaction has no statement for the table, although the
  result counts every local-only row as deleted.
\<close>

theorem composite_tables_not_synced:
  assumes "\<forall>s. bare_bar False s \<longrightarrow> loads s = None"
    and "bt_pk t = Pks cs" and "composite_table op_rows" and "composite_table cloud_rows"
    and "bt_deltas t = compute_deltas parse ho hc op_rows cloud_rows"
  shows "op_transactions (plan_table loads s operator t) = [] \<and>
     op_restored (plan_table loads s operator t) = 0 \<and>
     op_deleted (plan_table loads Cloud_Wins operator t) = length (op_only (bt_deltas t))"
proof -
  have cl: "set (op_only (bt_deltas t)) \<subseteq> key_texts op_rows" "set (cloud_only (bt_deltas t)) \<subseteq> key_texts cloud_rows"
    "conflict_id ` set (genuine_conflicts (bt_deltas t)) \<subseteq> key_texts op_rows"
    unfolding assms(5) using diff_classes [of parse ho hc op_rows cloud_rows]
    by (auto simp: Let_def)
  note rej = composite_key_rejected [OF assms(1)]
  have "select_chunk loads (bt_pk t) (bt_cloud t) ch = []" if "set ch \<subseteq> set (cloud_only (bt_deltas t))" for ch
  proof -
    have "List.map_filter loads ch = []"
      by (rule map_filter_none) (use that cl(2) rej [OF assms(4)] in blast)
    then show ?thesis by (simp add: select_chunk_def assms(2))
  qed
  then have r: "restore_rows loads t = []"
    using set_chunks_subset by (fastforce simp: restore_rows_def)
  have "List.map_filter loads (op_only (bt_deltas t)) = []"
    by (rule map_filter_none) (use cl(1) rej [OF assms(3)] in blast)
  then have d: "delete_stmts loads t = []" by (simp add: delete_stmts_def assms(2))
  have "conflict_row loads t c = None" if "c \<in> set (genuine_conflicts (bt_deltas t))" for c
    using that cl(3) rej [OF assms(3)] by (auto simp: conflict_row_def assms(2))
  then have c: "conflict_rows loads s operator t = []"
    unfolding conflict_rows_def by (intro map_filter_none) simp
  show ?thesis using r d c by (simp add: plan_table_def Let_def)
qed

definition demo_composite :: bi_table where
  "demo_composite =
     \<lparr>bt_name = ''sf_quarterly_facts'', bt_pk = Pks [''ticker'', ''quarter''],
      bt_deltas = compute_deltas (\<lambda>_. 0) False False
        [\<lparr>dr_key = [CStr ''A'', CStr ''Q1''], dr_hash = CNull, dr_ts = CNull\<rparr>]
        [\<lparr>dr_key = [CStr ''B'', CStr ''Q2''], dr_hash = CNull, dr_ts = CNull\<rparr>],
      bt_cloud = [[(''ticker'', CStr ''B''), (''quarter'', CStr ''Q2'')]]\<rparr>"

lemma composite_tables_not_synced_witness:
  "op_transactions (plan_table (\<lambda>s. if s = ''[]'' then Some [] else None) Cloud_Wins (\<lambda>_. Skip_Row) demo_composite) = [] \<and>
   cloud_only (bt_deltas demo_composite) = [''B|Q2''] \<and>
   op_deleted (plan_table (\<lambda>s. if s = ''[]'' then Some [] else None) Cloud_Wins (\<lambda>_. Skip_Row) demo_composite) = 1"
proof -
  let ?loads = "\<lambda>s. if s = ''[]'' then Some [] else (None :: cell list option)"
  have "op_transactions (plan_table ?loads Cloud_Wins (\<lambda>_. Skip_Row) demo_composite) = [] \<and>
      op_restored (plan_table ?loads Cloud_Wins (\<lambda>_. Skip_Row) demo_composite) = 0 \<and>
      op_deleted (plan_table ?loads Cloud_Wins (\<lambda>_. Skip_Row) demo_composite) = length (op_only (bt_deltas demo_composite))"
  proof (rule composite_tables_not_synced)
    show "\<forall>s. bare_bar False s \<longrightarrow> ?loads s = None" by simp
    show "bt_pk demo_composite = Pks [''ticker'', ''quarter'']" by (simp add: demo_composite_def)
    show "bt_deltas demo_composite = compute_deltas (\<lambda>_. 0) False False
        [\<lparr>dr_key = [CStr ''A'', CStr ''Q1''], dr_hash = CNull, dr_ts = CNull\<rparr>]
        [\<lparr>dr_key = [CStr ''B'', CStr ''Q2''], dr_hash = CNull, dr_ts = CNull\<rparr>]"
      by (simp add: demo_composite_def)
  qed (simp_all add: composite_table_def pk_text_def str_cell_def)
  moreover have "cloud_only (bt_deltas demo_composite) = [''B|Q2'']" "op_only (bt_deltas demo_composite) = [''A|Q1'']"
    by code_simp+
  ultimately show ?thesis by simp
qed

end
