(* ===== verification/Cloud_Sync.thy ===== *)
theory Cloud_Sync
  imports Cloud_Writer "HOL-Library.Product_Lexorder"
begin

text \<open>
  \<open>database/backup/engine/sync_operations.py\<close> and \<open>database/backup/sync/helpers.py\<close>: what a table's keys
  are, the push of local rows to the cloud (manifest, difference, fetch in chunks, \<open>MERGE\<close>) and the
  pull of cloud rows into the local database.

  A local table has its \<open>PRAGMA table_info\<close> and its rows, each with the columns of the table in order; a
  cloud table its column names and its rows. \<open>None\<close> is an exception that leaves the function. What the
  exception does to the surrounding transaction is the session's business, \<open>Resilience\<close> has the retry and the
  circuit breaker around it. The dead letters and the push of embeddings are in \<open>Vector_Sync\<close>.
\<close>

section \<open>Keys and columns of a table\<close>

record col_info =
  col_name :: string
  col_pk :: nat

text \<open>\<open>pk_cols_with_pos\<close> and the flag, over the rows \<open>PRAGMA table_info\<close> returns; \<open>None\<close> when it raises.\<close>

definition scan_columns :: "col_info list option \<Rightarrow> (nat \<times> string) list \<times> bool" where
  "scan_columns infos =
     foldl (\<lambda>(ks, h) c. (if col_pk c > 0 then ks @ [(col_pk c, col_name c)] else ks, h \<or> col_name c = ''content_hash''))
       ([], False) (case infos of None \<Rightarrow> [] | Some cs \<Rightarrow> cs)"

definition detect_pk_columns :: "col_info list option \<Rightarrow> pk_col \<times> bool" where
  "detect_pk_columns infos =
     (case scan_columns infos of (ks, h) \<Rightarrow>
      (let pk_cols = (if sort ks \<noteq> [] then map snd (sort ks) else [''id'']) in
       (if length pk_cols = 1 then Pk (hd pk_cols) else Pks pk_cols, h)))"

definition introspect_table_columns :: "col_info list option \<Rightarrow> pk_col \<times> string \<times> bool" where
  "introspect_table_columns infos =
     (case foldl (\<lambda>(ks, hc, h) c.
          (if col_pk c > 0 then ks @ [(col_pk c, col_name c)] else ks,
           if col_name c = ''content_hash'' then (''content_hash'', True) else (hc, h)))
        ([], (CHR 0x27 # [CHR 0x27], False)) (case infos of None \<Rightarrow> [] | Some cs \<Rightarrow> cs) of
      (ks, hc, h) \<Rightarrow>
       (case sort ks of
          [] \<Rightarrow> (Pk ''id'', hc, h)
        | k # rest \<Rightarrow> (if rest = [] then Pk (snd k) else Pks (map snd (k # rest)), hc, h)))"

definition SQLITE_HOST_PARAM_LIMIT :: nat where "SQLITE_HOST_PARAM_LIMIT = 999"
definition MAX_CHUNK_SIZE :: nat where "MAX_CHUNK_SIZE = 900"

definition compute_chunk_size :: "string list \<Rightarrow> nat \<Rightarrow> nat" where
  "compute_chunk_size pks total_params_per_row =
     (let n_cols = max 1 (length pks);
          params_per_row = (if total_params_per_row > 0 then total_params_per_row else n_cols) in
      min (SQLITE_HOST_PARAM_LIMIT div max 1 params_per_row) MAX_CHUNK_SIZE)"

text \<open>The slices \<open>xs[i : i + n]\<close> for \<open>i\<close> in \<open>range(0, len(xs), n)\<close>; a step of 0 raises.\<close>

function chunks :: "nat \<Rightarrow> 'a list \<Rightarrow> 'a list list option" where
  "chunks n xs =
     (if n = 0 then None else if xs = [] then Some []
      else map_option ((#) (take n xs)) (chunks n (drop n xs)))"
  by pat_completeness auto
termination by (relation "measure (\<lambda>(n, xs). length xs)") auto

declare chunks.simps [simp del]

section \<open>The push\<close>

record local_table =
  local_infos :: "col_info list"
  local_rows :: "row list"

record cloud_table =
  cloud_cols :: "string list"
  cloud_rows :: "row list"

definition local_cols :: "local_table \<Rightarrow> string list" where
  "local_cols t = map col_name (local_infos t)"

text \<open>\<open>str(v) if v is not None else None\<close>, and \<open>CAST(v AS VARCHAR)\<close>.\<close>

definition as_text :: "cell \<Rightarrow> cell" where
  "as_text v = (case v of CNull \<Rightarrow> CNull | _ \<Rightarrow> CStr (str_cell v))"

definition manifest_row :: "string list \<Rightarrow> bool \<Rightarrow> row \<Rightarrow> row" where
  "manifest_row pks has_hash r =
     AList.update ''content_hash'' (if has_hash then as_text (get_col r ''content_hash'') else CStr [])
       (foldl (\<lambda>d c. AList.update c (as_text (get_col r c)) d) [] pks)"

text \<open>
  \<open>upload_local_manifest\<close>: the rows of the temporary table. A \<open>SELECT\<close> that fails, for want of a key
  column, leaves it empty. The rows are inserted 10000 at a time.
\<close>

definition upload_local_manifest :: "local_table \<Rightarrow> string list \<Rightarrow> bool \<Rightarrow> row list" where
  "upload_local_manifest t pks has_hash =
     (let rows = (if set pks \<subseteq> set (local_cols t) then map (manifest_row pks has_hash) (local_rows t) else []) in
      concat (the (chunks 10000 rows)))"

text \<open>\<open>COALESCE(a, '') != COALESCE(b, '')\<close>.\<close>

definition hash_differs :: "row \<Rightarrow> row \<Rightarrow> bool" where
  "hash_differs m c =
     (let f = (\<lambda>v. case v of CNull \<Rightarrow> CStr [] | _ \<Rightarrow> v) in
      f (get_col m ''content_hash'') \<noteq> f (get_col c ''content_hash''))"

text \<open>The rows a manifest row joins with: those of the cloud whose keys have its texts.\<close>

definition joined :: "string list \<Rightarrow> row list \<Rightarrow> row \<Rightarrow> row list" where
  "joined pks cs m = filter (\<lambda>c. list_all (\<lambda>k. cell_eq (get_col m k) (as_text (get_col c k))) pks) cs"

text \<open>The rows of the query for one manifest row.\<close>

definition dirty_ids :: "string list \<Rightarrow> bool \<Rightarrow> row list \<Rightarrow> row \<Rightarrow> cell list list" where
  "dirty_ids pks has_hash cs m =
     (case joined pks cs m of
        [] \<Rightarrow> [map (get_col m) pks]
      | js \<Rightarrow> map (\<lambda>c. map (get_col m) pks) (filter (\<lambda>c. has_hash \<and> hash_differs m c) js))"

definition push_diff :: "string list \<Rightarrow> bool \<Rightarrow> row list \<Rightarrow> cloud_table \<Rightarrow> cell list list option" where
  "push_diff pks has_hash manifest t =
     (if \<not> set pks \<subseteq> set (cloud_cols t) \<or> has_hash \<and> ''content_hash'' \<notin> set (cloud_cols t) then None
      else Some (concat (map (dirty_ids pks has_hash (cloud_rows t)) manifest)))"

text \<open>
  A parameter compared with a column of SQLite: a text that reads as an integer takes the affinity of an
  integer column.
\<close>

definition sqlite_eq :: "cell \<Rightarrow> cell \<Rightarrow> bool" where
  "sqlite_eq v p \<longleftrightarrow> v \<noteq> CNull \<and> (case (v, p) of (CInt i, CStr s) \<Rightarrow> show_int i = s | _ \<Rightarrow> v = p)"

definition fetch_chunk :: "string list \<Rightarrow> row list \<Rightarrow> cell list list \<Rightarrow> row list" where
  "fetch_chunk pks rows ids =
     filter (\<lambda>r. list_ex (\<lambda>i. list_all2 (\<lambda>c p. sqlite_eq (get_col r c) p) pks i) ids) rows"

text \<open>The dirty rows, chunk by chunk; a table without columns has no \<open>cursor.description\<close>.\<close>

definition fetch_dirty :: "string list \<Rightarrow> local_table \<Rightarrow> cell list list \<Rightarrow> row list option" where
  "fetch_dirty pks t ids =
     map_option (\<lambda>cs. concat (map (fetch_chunk pks (local_rows t)) cs)) (chunks (compute_chunk_size pks 0) ids)"

text \<open>
  The source of the \<open>MERGE\<close>: of the stage rows that agree on the keys, \<open>NULL\<close>s alike, the one \<open>first\<close> in the
  order of the \<open>QUALIFY\<close> clause.
\<close>

fun qualify :: "(row list \<Rightarrow> row) \<Rightarrow> string list \<Rightarrow> row list \<Rightarrow> row list" where
  "qualify first pks [] = []"
| "qualify first pks (r # rs) =
     (let same = (\<lambda>x. map (get_col x) pks = map (get_col r) pks) in
      first (r # filter same rs) # qualify first pks (filter (\<lambda>x. \<not> same x) rs))"

text \<open>\<open>result.rowcount\<close>: the rows updated and inserted.\<close>

definition merge_count :: "string list \<Rightarrow> row list \<Rightarrow> row list \<Rightarrow> nat" where
  "merge_count cs source t =
     length (filter (\<lambda>x. list_ex (on_match cs x) source) t) +
     length (filter (\<lambda>s. \<not> list_ex (\<lambda>x. on_match cs x s) t) source)"

definition merge_to_cloud ::
    "(row list \<Rightarrow> row) \<Rightarrow> pk_col \<Rightarrow> string list \<Rightarrow> row list \<Rightarrow> cloud_table \<Rightarrow> (nat \<times> cloud_table) option" where
  "merge_to_cloud first pk columns dict_rows t =
     (let rs = dedup pk dict_rows in
      if rs = [] then Some (0, t)
      else if \<not> set columns \<subseteq> set (cloud_cols t) then None
      else (case stage_rows columns rs of
              None \<Rightarrow> None
            | Some stage \<Rightarrow>
                let source = qualify first (pk_cols pk) stage in
                (case merge_rows (pk_cols pk) columns source (cloud_rows t) of
                   None \<Rightarrow> None
                 | Some rows' \<Rightarrow> Some (merge_count (pk_cols pk) source (cloud_rows t), t\<lparr>cloud_rows := rows'\<rparr>))))"

type_synonym vector_push =
  "pk_col \<Rightarrow> string list \<Rightarrow> row list \<Rightarrow> cloud_table \<Rightarrow> (nat \<times> cloud_table) option"

text \<open>The keys of every row: what is pushed when the query of the difference fails.\<close>

definition all_ids :: "string list \<Rightarrow> local_table \<Rightarrow> cell list list option" where
  "all_ids pks t = (if set pks \<subseteq> set (local_cols t) then Some (map (\<lambda>r. map (get_col r) pks) (local_rows t)) else None)"

text \<open>One table of \<open>sync_data\<close>; a cloud table that does not exist is \<open>None\<close>.\<close>

definition sync_table ::
    "(row list \<Rightarrow> row) \<Rightarrow> vector_push \<Rightarrow> bool \<Rightarrow> local_table \<Rightarrow> cloud_table option \<Rightarrow>
     (nat \<times> cloud_table option) option" where
  "sync_table first vec native t c =
     (case detect_pk_columns (Some (local_infos t)) of (pk, has_hash) \<Rightarrow>
      (let pks = pk_cols pk;
           manifest = upload_local_manifest t pks has_hash;
           ids = (case Option.bind c (push_diff pks has_hash manifest) of
                    Some is \<Rightarrow> Some is | None \<Rightarrow> all_ids pks t) in
       Option.bind ids (\<lambda>ids.
         if ids = [] then Some (0, c)
         else Option.bind (fetch_dirty pks t ids) (\<lambda>rows.
           if rows = [] \<or> local_cols t = [] then Some (0, c)
           else Option.bind c (\<lambda>ct.
             map_option (\<lambda>(n, ct'). (n, Some ct'))
               (if ''embedding'' \<in> set (local_cols t) \<and> native then vec pk (local_cols t) rows ct
                else merge_to_cloud first pk (local_cols t) rows ct))))))"

section \<open>Keys and chunks\<close>

lemma scan_columns_eq:
  "foldl (\<lambda>(ks, h) c. (if col_pk c > 0 then ks @ [(col_pk c, col_name c)] else ks, h \<or> col_name c = ''content_hash'')) (ks, h) cs =
     (ks @ map (\<lambda>c. (col_pk c, col_name c)) (filter (\<lambda>c. col_pk c > 0) cs), h \<or> (\<exists>c \<in> set cs. col_name c = ''content_hash''))"
  by (induction cs arbitrary: ks h) auto

lemma introspect_fold_eq:
  "foldl (\<lambda>(ks, hc, h) c.
       (if col_pk c > 0 then ks @ [(col_pk c, col_name c)] else ks,
        if col_name c = ''content_hash'' then (''content_hash'', True) else (hc, h))) (ks, q) cs =
     (ks @ map (\<lambda>c. (col_pk c, col_name c)) (filter (\<lambda>c. col_pk c > 0) cs),
      if \<exists>c \<in> set cs. col_name c = ''content_hash'' then (''content_hash'', True) else q)"
  by (induction cs arbitrary: ks q) (auto split: prod.splits)

definition pk_order :: "col_info list \<Rightarrow> string list" where
  "pk_order cs = map snd (sort (map (\<lambda>c. (col_pk c, col_name c)) (filter (\<lambda>c. col_pk c > 0) cs)))"

lemma detect_pk_columns_eq:
  "detect_pk_columns (Some cs) =
     (if pk_order cs = [] then Pk ''id'' else if length (pk_order cs) = 1 then Pk (hd (pk_order cs)) else Pks (pk_order cs),
      \<exists>c \<in> set cs. col_name c = ''content_hash'')"
  by (simp add: detect_pk_columns_def scan_columns_def scan_columns_eq pk_order_def Let_def)

lemma introspect_eq:
  "introspect_table_columns (Some cs) =
     (if pk_order cs = [] then Pk ''id'' else if length (pk_order cs) = 1 then Pk (hd (pk_order cs)) else Pks (pk_order cs),
      if \<exists>c \<in> set cs. col_name c = ''content_hash'' then (''content_hash'', True) else ([CHR 0x27, CHR 0x27], False))"
proof -
  define ks where "ks = sort (map (\<lambda>c. (col_pk c, col_name c)) (filter (\<lambda>c. col_pk c > 0) cs))"
  have "pk_order cs = map snd ks" by (simp add: pk_order_def ks_def)
  then show ?thesis
    unfolding introspect_table_columns_def option.case introspect_fold_eq append_Nil prod.case ks_def [symmetric]
    by (cases ks) auto
qed

text \<open>
  The two readings of a table's schema, the one of the push and pull (\<open>_detect_pk_columns\<close>) and the one
  of the difference engine and the fillers (\<open>introspect_table_columns\<close>), agree on every answer of the
  \<open>PRAGMA\<close>, an error included, and both name the key columns in the order of the key.
\<close>
theorem key_detections_agree:
  "introspect_table_columns infos =
     (let (pk, h) = detect_pk_columns infos in (pk, if h then ''content_hash'' else [CHR 0x27, CHR 0x27], h))
   \<and> pk_cols (fst (detect_pk_columns infos)) =
       (let ks = pk_order (case infos of None \<Rightarrow> [] | Some cs \<Rightarrow> cs) in if ks = [] then [''id''] else ks)"
proof (cases infos)
  case None
  then show ?thesis
    by (simp add: introspect_table_columns_def detect_pk_columns_def scan_columns_def pk_cols_def pk_order_def)
next
  case (Some cs)
  then show ?thesis
    by (cases "pk_order cs" rule: remdups_adj.cases)
      (auto simp: detect_pk_columns_eq introspect_eq pk_cols_def Let_def)
qed

lemma chunks_concat: "0 < n \<Longrightarrow> map_option concat (chunks n xs) = Some xs"
proof (induction n xs rule: chunks.induct)
  case (1 n xs)
  show ?case
  proof (cases "xs = []")
    case False
    with 1 obtain cs where "chunks n (drop n xs) = Some cs" "concat cs = drop n xs" by auto
    then show ?thesis using 1 False by (subst chunks.simps) simp
  qed (use 1 in \<open>simp add: chunks.simps\<close>)
qed

lemma chunks_length:
  "chunks n xs = Some cs \<Longrightarrow> c \<in> set cs \<Longrightarrow> 0 < length c \<and> length c \<le> n"
proof (induction n xs arbitrary: cs rule: chunks.induct)
  case (1 n xs)
  show ?case
  proof (cases "n = 0 \<or> xs = []")
    case False
    with 1(2) obtain ds where ds: "chunks n (drop n xs) = Some ds" "cs = take n xs # ds"
      by (subst (asm) chunks.simps) auto
    then show ?thesis using 1(1) [of ds] 1(3) False by auto
  next
    case True
    then show ?thesis using 1(2,3) by (subst (asm) chunks.simps) (auto split: if_splits)
  qed
qed

lemma chunk_size_eq: "compute_chunk_size pks 0 = min (999 div max 1 (length pks)) 900"
  by (simp add: compute_chunk_size_def SQLITE_HOST_PARAM_LIMIT_def MAX_CHUNK_SIZE_def)

lemma chunk_size_zero: "compute_chunk_size pks 0 = 0 \<longleftrightarrow> 999 < length pks"
proof -
  have "999 div k = 0 \<longleftrightarrow> k = 0 \<or> 999 < k" for k :: nat by (auto simp: div_eq_0_iff)
  from this [of "max 1 (length pks)"] show ?thesis unfolding chunk_size_eq by linarith
qed

lemma chunk_size_params: "n \<le> compute_chunk_size pks 0 \<Longrightarrow> n \<le> 900 \<and> n * length pks \<le> 999"
proof -
  let ?k = "max 1 (length pks)"
  assume "n \<le> compute_chunk_size pks 0"
  then have n: "n \<le> 999 div ?k" "n \<le> 900" unfolding chunk_size_eq by simp_all
  have "n * length pks \<le> 999 div ?k * ?k" using n(1) by (intro mult_le_mono) auto
  also have "\<dots> \<le> 999" by (rule div_times_less_eq_dividend)
  finally show ?thesis using n(2) by simp
qed

text \<open>
  For a key of up to 999 columns the fetch asks for every dirty key exactly once and in order, and every
  statement of it binds at most 999 parameters and at most 900 keys; with more columns the step of the loop is 0
  and the push fails.
\<close>
theorem fetch_within_parameter_limit:
  "(chunks (compute_chunk_size pks 0) ids = None) = (999 < length pks)
   \<and> (\<forall>cs. chunks (compute_chunk_size pks 0) ids = Some cs \<longrightarrow>
        concat cs = ids \<and> list_all (\<lambda>c. length c \<le> 900 \<and> length c * length pks \<le> 999) cs)"
proof -
  let ?n = "compute_chunk_size pks 0"
  have ok: "concat cs = ids \<and> list_all (\<lambda>c. length c \<le> 900 \<and> length c * length pks \<le> 999) cs"
    if cs: "chunks ?n ids = Some cs" for cs
  proof -
    have n: "0 < ?n" using cs by (cases "?n = 0") (simp_all add: chunks.simps)
    have "length c \<le> 900 \<and> length c * length pks \<le> 999" if "c \<in> set cs" for c
      using chunks_length [OF cs that] by (intro chunk_size_params) simp
    then show ?thesis using chunks_concat [OF n, of ids] cs by (simp add: list_all_iff)
  qed
  have "chunks ?n ids = None \<longleftrightarrow> ?n = 0"
  proof (cases "?n = 0")
    case True
    then show ?thesis by (simp add: chunks.simps)
  next
    case False
    then show ?thesis using chunks_concat [of ?n ids] by auto
  qed
  then show ?thesis using ok unfolding chunk_size_zero by blast
qed

lemma fetch_within_parameter_limit_witness:
  "concat (the (chunks (compute_chunk_size [''a'', ''b'', ''c'', ''d''] 0) [0::nat, 1, 2])) = [0, 1, 2]"
proof -
  obtain cs where cs: "chunks (compute_chunk_size [''a'', ''b'', ''c'', ''d''] 0) [0::nat, 1, 2] = Some cs"
    using fetch_within_parameter_limit [of "[''a'', ''b'', ''c'', ''d'']" "[0::nat, 1, 2]"] by auto
  then show ?thesis
    using fetch_within_parameter_limit [of "[''a'', ''b'', ''c'', ''d'']" "[0::nat, 1, 2]"] by simp
qed

section \<open>The push converges\<close>

text \<open>
  What a table of SQLite guarantees: every row has the columns of the table, the key columns are among them,
  are never \<open>NULL\<close> and identify the row; the hash is a text and no key.
\<close>

definition table_ok :: "local_table \<Rightarrow> string list \<Rightarrow> bool" where
  "table_ok t pks \<longleftrightarrow> distinct (local_cols t) \<and> set pks \<subseteq> set (local_cols t) \<and> ''content_hash'' \<notin> set pks
     \<and> distinct pks \<and> distinct (map (\<lambda>r. map (get_col r) pks) (local_rows t))
     \<and> (\<forall>r \<in> set (local_rows t). map fst r = local_cols t \<and> (\<forall>k \<in> set pks. get_col r k \<noteq> CNull)
          \<and> get_col r ''content_hash'' \<in> insert CNull (range CStr))"

text \<open>The keys have one type on both sides: equal as texts, they are equal.\<close>

definition keys_alike :: "string list \<Rightarrow> row list \<Rightarrow> row list \<Rightarrow> bool" where
  "keys_alike pks rs cs \<longleftrightarrow> (\<forall>r \<in> set rs. \<forall>c \<in> set cs. \<forall>k \<in> set pks.
     as_text (get_col r k) = as_text (get_col c k) \<longrightarrow> get_col r k = get_col c k)"

lemma as_text_null [simp]: "as_text v = CNull \<longleftrightarrow> v = CNull" "as_text CNull = CNull" "as_text (CStr s) = CStr s"
  by (cases v) (simp_all add: as_text_def str_cell_def)

lemma get_col_fold_update:
  "get_col (foldl (\<lambda>d c. AList.update c (f c) d) d cs) k = (if k \<in> set cs then f k else get_col d k)"
  by (induction cs arbitrary: d) auto

lemma manifest_row_key [simp]:
  "k \<in> set pks \<Longrightarrow> k \<noteq> ''content_hash'' \<Longrightarrow> get_col (manifest_row pks h r) k = as_text (get_col r k)"
  by (simp add: manifest_row_def get_col_fold_update)

lemma manifest_row_hash [simp]:
  "get_col (manifest_row pks h r) ''content_hash'' = (if h then as_text (get_col r ''content_hash'') else CStr [])"
  by (simp add: manifest_row_def)

lemma upload_manifest_rows:
  "set pks \<subseteq> set (local_cols t) \<Longrightarrow> upload_local_manifest t pks h = map (manifest_row pks h) (local_rows t)"
  using chunks_concat [of 10000 "map (manifest_row pks h) (local_rows t)"]
  by (auto simp: upload_local_manifest_def)

lemma sqlite_eq_text: "sqlite_eq v (as_text w) \<Longrightarrow> as_text v = as_text w"
  by (cases v; cases w) (auto simp: sqlite_eq_def as_text_def str_cell_def)

lemma sqlite_eq_own: "v \<noteq> CNull \<Longrightarrow> (\<forall>bs. v \<noteq> CBlob bs) \<Longrightarrow> sqlite_eq v (as_text v) \<and> sqlite_eq v v"
  by (cases v) (auto simp: sqlite_eq_def as_text_def str_cell_def)

definition row_key :: "string list \<Rightarrow> row \<Rightarrow> cell list" where
  "row_key pks r = map (get_col r) pks"

definition text_key :: "string list \<Rightarrow> row \<Rightarrow> cell list" where
  "text_key pks r = map (\<lambda>k. as_text (get_col r k)) pks"

text \<open>The rows that share their key texts are what a manifest row joins with.\<close>

lemma joined_eq:
  assumes "\<forall>k \<in> set pks. get_col r k \<noteq> CNull" "''content_hash'' \<notin> set pks"
  shows "joined pks cs (manifest_row pks h r) = filter (\<lambda>c. text_key pks c = text_key pks r) cs"
proof -
  have "list_all (\<lambda>k. cell_eq (get_col (manifest_row pks h r) k) (as_text (get_col c k))) pks
      \<longleftrightarrow> text_key pks c = text_key pks r" for c
  proof -
    have "get_col (manifest_row pks h r) k = as_text (get_col r k)" "as_text (get_col r k) \<noteq> CNull" if "k \<in> set pks" for k
      using that assms by (metis manifest_row_key, simp)
    then show ?thesis by (auto simp: list_all_iff text_key_def cell_eq_def)
  qed
  then show ?thesis by (simp add: joined_def)
qed

definition dirty :: "string list \<Rightarrow> bool \<Rightarrow> row list \<Rightarrow> row \<Rightarrow> bool" where
  "dirty pks h cs r \<longleftrightarrow> (let js = filter (\<lambda>c. text_key pks c = text_key pks r) cs in
     js = [] \<or> h \<and> (\<exists>c \<in> set js. hash_differs (manifest_row pks h r) c))"

lemma manifest_key_text:
  "''content_hash'' \<notin> set pks \<Longrightarrow> map (get_col (manifest_row pks h r)) pks = text_key pks r"
  by (auto simp: text_key_def manifest_row_def get_col_fold_update)

lemma push_diff_set:
  assumes "table_ok t pks" "push_diff pks h (upload_local_manifest t pks h) ct = Some ids"
  shows "set ids = text_key pks ` {r \<in> set (local_rows t). dirty pks h (cloud_rows ct) r}"
proof -
  have "set pks \<subseteq> set (local_cols t)" using assms(1) by (simp add: table_ok_def)
  then have ids: "ids = concat (map (\<lambda>r. dirty_ids pks h (cloud_rows ct) (manifest_row pks h r)) (local_rows t))"
    using assms(2) by (simp add: push_diff_def upload_manifest_rows comp_def split: if_splits)
  have "set (dirty_ids pks h (cloud_rows ct) (manifest_row pks h r)) =
      (if dirty pks h (cloud_rows ct) r then {text_key pks r} else {})"
    if "r \<in> set (local_rows t)" for r
  proof -
    define js where "js = filter (\<lambda>c. text_key pks c = text_key pks r) (cloud_rows ct)"
    have "joined pks (cloud_rows ct) (manifest_row pks h r) = js"
      unfolding js_def using that assms(1) by (intro joined_eq) (auto simp: table_ok_def)
    moreover have "dirty pks h (cloud_rows ct) r \<longleftrightarrow> js = [] \<or> h \<and> (\<exists>c \<in> set js. hash_differs (manifest_row pks h r) c)"
      by (simp add: dirty_def js_def)
    moreover have "map (get_col (manifest_row pks h r)) pks = text_key pks r"
      using assms(1) by (intro manifest_key_text) (simp add: table_ok_def)
    ultimately show ?thesis
      by (cases js) (auto simp: dirty_ids_def filter_empty_conv)
  qed
  then show ?thesis unfolding ids by auto
qed

lemma text_key_inj:
  assumes "table_ok t pks" "keys_alike pks (local_rows t) (local_rows t)"
    "r \<in> set (local_rows t)" "s \<in> set (local_rows t)" "text_key pks r = text_key pks s"
  shows "r = s"
proof -
  have "map (get_col r) pks = map (get_col s) pks"
    using assms by (auto simp: keys_alike_def text_key_def)
  then show ?thesis using assms(1,3,4) by (auto simp: table_ok_def distinct_map dest: inj_onD)
qed

lemma fetched_set:
  assumes ok: "table_ok t pks" "keys_alike pks (local_rows t) (local_rows t)"
    and keys: "\<forall>r \<in> set (local_rows t). \<forall>k \<in> set pks. \<forall>bs. get_col r k \<noteq> CBlob bs"
    and out: "fetch_dirty pks t ids = Some out"
    and ids: "set ids = text_key pks ` D" "D \<subseteq> set (local_rows t)"
  shows "set out = D"
proof -
  obtain cs where cs: "chunks (compute_chunk_size pks 0) ids = Some cs"
      "out = concat (map (fetch_chunk pks (local_rows t)) cs)"
    using out by (auto simp: fetch_dirty_def)
  have "compute_chunk_size pks 0 \<noteq> 0"
    using cs(1) by (cases "compute_chunk_size pks 0 = 0") (simp_all add: chunks.simps)
  then have "concat cs = ids" using chunks_concat [of "compute_chunk_size pks 0" ids] cs(1) by simp
  then have "set out = {r \<in> set (local_rows t). \<exists>i \<in> set ids. list_all2 (\<lambda>c p. sqlite_eq (get_col r c) p) pks i}"
    unfolding cs(2) by (simp add: fetch_chunk_def list_ex_iff flip: \<open>concat cs = ids\<close>) blast
  also have "\<dots> = {r \<in> set (local_rows t). \<exists>q \<in> D. \<forall>k \<in> set pks. sqlite_eq (get_col r k) (as_text (get_col q k))}"
    by (simp add: ids(1) text_key_def list.rel_map list_all2_same)
  also have "\<dots> = D"
  proof (intro equalityI subsetI)
    fix r assume "r \<in> {r \<in> set (local_rows t). \<exists>q \<in> D. \<forall>k \<in> set pks. sqlite_eq (get_col r k) (as_text (get_col q k))}"
    then obtain q where q: "r \<in> set (local_rows t)" "q \<in> D" "\<forall>k \<in> set pks. sqlite_eq (get_col r k) (as_text (get_col q k))"
      by blast
    then have "text_key pks r = text_key pks q" by (auto simp: text_key_def dest: sqlite_eq_text)
    then have "r = q" using text_key_inj [OF ok q(1)] q(2) ids(2) by blast
    then show "r \<in> D" using q(2) by simp
  next
    fix r assume r: "r \<in> D"
    then have "r \<in> set (local_rows t)" using ids(2) by blast
    then show "r \<in> {r \<in> set (local_rows t). \<exists>q \<in> D. \<forall>k \<in> set pks. sqlite_eq (get_col r k) (as_text (get_col q k))}"
      using r ok(1) keys by (auto simp: table_ok_def intro!: bexI [of _ r] sqlite_eq_own [THEN conjunct1])
  qed
  finally show ?thesis .
qed

lemma detected_nonempty: "pk_cols (fst (detect_pk_columns infos)) \<noteq> []"
  using key_detections_agree [of infos] by (auto simp: Let_def split: if_splits)

text \<open>Rows with distinct complete keys go through the deduplications and the stage as they are.\<close>

lemma dedup_complete:
  assumes "\<forall>r \<in> set rs. dedup_key pk r = Some (row_key pks r)" "inj_on (row_key pks) (set rs)"
  shows "set (dedup pk rs) = set rs \<and> distinct (map (row_key pks) (dedup pk rs))"
proof -
  have "r \<in> set (dedup pk rs)" if r: "r \<in> set rs" for r
  proof -
    let ?P = "\<lambda>x. dedup_key pk x = Some (row_key pks r)"
    have "last (filter ?P rs) \<in> set rs \<and> ?P (last (filter ?P rs))"
      by (rule last_filter_in) (use r assms(1) in auto)
    then have "last (filter ?P rs) = r" using assms r by (auto dest: inj_onD)
    then show ?thesis using dedup_keeps_last [OF r, of pk "row_key pks r"] assms(1) r by simp
  qed
  then have set: "set (dedup pk rs) = set rs" using dedup_subset [of pk rs] by blast
  have keys: "map (dedup_key pk) (dedup pk rs) = map Some (map (row_key pks) (dedup pk rs))"
    unfolding map_map by (rule map_cong) (use assms(1) set in simp_all)
  have "filter (\<lambda>k. k \<noteq> None) (map Some xs) = map Some xs" for xs :: "cell list list"
    by (induction xs) simp_all
  then have "distinct (map Some (map (row_key pks) (dedup pk rs)))"
    using dedup_keys_distinct [of pk rs] unfolding keys by simp
  then have "distinct (map (row_key pks) (dedup pk rs))" unfolding distinct_map [of Some] by blast
  then show ?thesis using set by (simp add: distinct_map)
qed

lemma stage_own: "map fst r = columns \<Longrightarrow> distinct columns \<Longrightarrow> map (\<lambda>c. (c, get_col r c)) columns = r"
proof -
  assume a: "map fst r = columns" "distinct columns"
  have "map (\<lambda>c. (c, get_col r c)) (map fst r) = r"
    unfolding map_map by (rule map_idI) (use a in \<open>auto simp: get_col_def\<close>)
  then show ?thesis using a by simp
qed

lemma stage_rows_own:
  assumes "\<forall>r \<in> set rs. map fst r = columns" "distinct columns"
  shows "stage_rows columns rs = Some rs"
proof -
  have "has_col r c" if "r \<in> set rs" "c \<in> set columns" for r c
    using that assms(1) by (auto simp: has_col_def map_of_eq_None_iff simp flip: list.set_map)
  moreover have "map (\<lambda>r. map (\<lambda>c. (c, get_col r c)) columns) rs = rs"
    by (rule map_idI) (use assms stage_own in blast)
  ultimately show ?thesis by (simp add: stage_rows_def list_all_iff)
qed

lemma qualify_distinct:
  "distinct (map (row_key pks) rs) \<Longrightarrow> \<forall>xs. xs \<noteq> [] \<longrightarrow> first xs \<in> set xs \<Longrightarrow> qualify first pks rs = rs"
proof (induction rs)
  case (Cons r rs)
  have same: "filter (\<lambda>x. map (get_col x) pks = map (get_col r) pks) rs = []"
    using Cons.prems(1) by (auto simp: filter_empty_conv row_key_def image_iff) metis
  have rest: "filter (\<lambda>x. map (get_col x) pks \<noteq> map (get_col r) pks) rs = rs"
    using same by (auto simp: filter_id_conv filter_empty_conv)
  have "first [r] = r" using Cons.prems(2) by (metis empty_iff empty_set list.distinct(1) set_ConsD)
  then show ?case using Cons unfolding qualify.simps Let_def same rest by simp
qed simp

lemma on_match_row_key: "on_match pks x s \<Longrightarrow> row_key pks x = row_key pks s"
  by (auto simp: row_key_def on_match_get)

lemma on_match_of_key: "row_key pks x = row_key pks s \<Longrightarrow> \<forall>k \<in> set pks. get_col s k \<noteq> CNull \<Longrightarrow> on_match pks x s"
  by (auto simp: row_key_def on_match_def list_all_iff cell_eq_def)

text \<open>The table after the \<open>MERGE\<close> of rows with distinct keys, as a set.\<close>

lemma merge_rows_set:
  assumes d: "distinct (map (row_key pks) stage)" and upd: "\<exists>c \<in> set columns. c \<notin> set pks"
  shows "\<exists>t'. merge_rows pks columns stage t = Some t' \<and> (t = [] \<longrightarrow> t' = stage) \<and> set t' =
     {x \<in> set t. \<forall>s \<in> set stage. \<not> on_match pks x s} \<union>
     {set_cols (filter (\<lambda>c. c \<notin> set pks) columns) s x |s x. x \<in> set t \<and> s \<in> set stage \<and> on_match pks x s} \<union>
     {s \<in> set stage. \<forall>x \<in> set t. \<not> on_match pks x s}"
proof -
  let ?upd = "filter (\<lambda>c. c \<notin> set pks) columns"
  let ?f = "\<lambda>x. case List.find (on_match pks x) stage of None \<Rightarrow> x | Some s \<Rightarrow> set_cols ?upd s x"
  have inj: "inj_on (row_key pks) (set stage)" and ds: "distinct stage" using d by (simp_all add: distinct_map)
  have uniq: "s = s'" if "s \<in> set stage" "s' \<in> set stage" "on_match pks x s" "on_match pks x s'" for s s' x
    using that on_match_row_key inj by (metis inj_onD)
  have single: "length (filter (on_match pks x) stage) \<le> 1" for x
  proof -
    have "distinct (filter (on_match pks x) stage)" using ds by simp
    then have "length (filter (on_match pks x) stage) = card (set (filter (on_match pks x) stage))"
      by (simp only: distinct_card)
    also have "\<dots> \<le> 1"
      by (subst One_nat_def, subst card_le_Suc0_iff_eq) (auto intro: uniq)
    finally show ?thesis .
  qed
  have found: "List.find (on_match pks x) stage = Some s \<longleftrightarrow> s \<in> set stage \<and> on_match pks x s" for x s
  proof
    assume "s \<in> set stage \<and> on_match pks x s"
    moreover then obtain s' where "List.find (on_match pks x) stage = Some s'"
      by (metis find_None_iff option.exhaust)
    moreover then have "s' \<in> set stage \<and> on_match pks x s'" by (auto simp: find_Some_iff)
    ultimately show "List.find (on_match pks x) stage = Some s" using uniq by blast
  qed (auto simp: find_Some_iff)
  have "?f ` set t = {x \<in> set t. \<forall>s \<in> set stage. \<not> on_match pks x s} \<union>
     {set_cols ?upd s x |s x. x \<in> set t \<and> s \<in> set stage \<and> on_match pks x s}"
  proof (intro equalityI subsetI)
    fix y assume "y \<in> ?f ` set t"
    then obtain x where x: "x \<in> set t" "y = ?f x" by blast
    show "y \<in> {x \<in> set t. \<forall>s \<in> set stage. \<not> on_match pks x s} \<union>
       {set_cols ?upd s x |s x. x \<in> set t \<and> s \<in> set stage \<and> on_match pks x s}"
    proof (cases "List.find (on_match pks x) stage")
      case None
      then have "y = x" "\<forall>s \<in> set stage. \<not> on_match pks x s"
        using x(2) find_None_iff [of "on_match pks x" stage] by auto
      then show ?thesis using x(1) by blast
    next
      case (Some s)
      then have "y = set_cols ?upd s x" using x(2) by simp
      moreover have "s \<in> set stage \<and> on_match pks x s" using Some found by simp
      ultimately show ?thesis using x(1) by blast
    qed
  next
    fix y assume "y \<in> {x \<in> set t. \<forall>s \<in> set stage. \<not> on_match pks x s} \<union>
       {set_cols ?upd s x |s x. x \<in> set t \<and> s \<in> set stage \<and> on_match pks x s}"
    then consider "y \<in> set t" "\<forall>s \<in> set stage. \<not> on_match pks y s"
      | s x where "y = set_cols ?upd s x" "x \<in> set t" "s \<in> set stage" "on_match pks x s" by blast
    then show "y \<in> ?f ` set t"
    proof cases
      case 1
      then have "List.find (on_match pks y) stage = None" by (simp add: find_None_iff)
      then show ?thesis using 1(1) by (intro image_eqI [where x = y]) simp_all
    next
      case (2 s x)
      then have "List.find (on_match pks x) stage = Some s" by (simp add: found)
      then show ?thesis using 2(1,2) by (intro image_eqI [where x = x]) simp_all
    qed
  qed
  moreover have "?upd \<noteq> []" using upd by (auto simp: filter_empty_conv)
  moreover have "\<not> list_ex (\<lambda>x. length (filter (on_match pks x) stage) > 1) t"
    using single by (simp add: list_ex_iff not_less)
  ultimately show ?thesis by (auto simp: merge_rows_def Let_def list_ex_iff)
qed

text \<open>What the push of one table needs besides: text keys, a column to set, and the columns in the cloud.\<close>

definition push_ok :: "local_table \<Rightarrow> cloud_table \<Rightarrow> bool" where
  "push_ok t ct \<longleftrightarrow>
     (let pks = pk_cols (fst (detect_pk_columns (Some (local_infos t)))) in
      table_ok t pks \<and> length pks \<le> 999 \<and> ''embedding'' \<notin> set (local_cols t)
      \<and> (\<exists>c \<in> set (local_cols t). c \<notin> set pks) \<and> set (local_cols t) \<subseteq> set (cloud_cols ct)
      \<and> (\<forall>r \<in> set (local_rows t). \<forall>k \<in> set pks. \<forall>bs. get_col r k \<noteq> CBlob bs)
      \<and> keys_alike pks (local_rows t) (local_rows t) \<and> keys_alike pks (local_rows t) (cloud_rows ct))"

lemma merge_to_cloud_set:
  assumes first: "\<forall>xs. xs \<noteq> [] \<longrightarrow> first xs \<in> set xs"
    and keys: "\<forall>r \<in> set rs. map fst r = columns \<and> full_key pk columns r"
    and inj: "inj_on (row_key (pk_cols pk)) (set rs)"
    and cols: "distinct columns" "\<exists>c \<in> set columns. c \<notin> set (pk_cols pk)" "set columns \<subseteq> set (cloud_cols ct)"
    and ne: "rs \<noteq> []"
  shows "\<exists>n rows'. merge_to_cloud first pk columns rs ct = Some (n, ct\<lparr>cloud_rows := rows'\<rparr>)
     \<and> (cloud_rows ct = [] \<longrightarrow> distinct (map (row_key (pk_cols pk)) rows')) \<and> set rows' =
     {x \<in> set (cloud_rows ct). \<forall>s \<in> set rs. \<not> on_match (pk_cols pk) x s} \<union>
     {set_cols (filter (\<lambda>c. c \<notin> set (pk_cols pk)) columns) s x |s x.
        x \<in> set (cloud_rows ct) \<and> s \<in> set rs \<and> on_match (pk_cols pk) x s} \<union>
     {s \<in> set rs. \<forall>x \<in> set (cloud_rows ct). \<not> on_match (pk_cols pk) x s}"
proof -
  have "\<forall>r \<in> set rs. dedup_key pk r = Some (row_key (pk_cols pk) r)"
    using keys full_key_dedup by (auto simp: row_key_def)
  from dedup_complete [OF this inj]
  have d: "set (dedup pk rs) = set rs" "distinct (map (row_key (pk_cols pk)) (dedup pk rs))" by simp_all
  have st: "stage_rows columns (dedup pk rs) = Some (dedup pk rs)"
    by (rule stage_rows_own) (use d(1) keys cols(1) in auto)
  have q: "qualify first (pk_cols pk) (dedup pk rs) = dedup pk rs" by (rule qualify_distinct [OF d(2) first])
  have dne: "dedup pk rs \<noteq> []" using d(1) ne by (metis set_empty)
  obtain t' where t': "merge_rows (pk_cols pk) columns (dedup pk rs) (cloud_rows ct) = Some t'"
    "cloud_rows ct = [] \<longrightarrow> t' = dedup pk rs"
    "set t' = {x \<in> set (cloud_rows ct). \<forall>s \<in> set rs. \<not> on_match (pk_cols pk) x s} \<union>
     {set_cols (filter (\<lambda>c. c \<notin> set (pk_cols pk)) columns) s x |s x.
        x \<in> set (cloud_rows ct) \<and> s \<in> set rs \<and> on_match (pk_cols pk) x s} \<union>
     {s \<in> set rs. \<forall>x \<in> set (cloud_rows ct). \<not> on_match (pk_cols pk) x s}"
    using merge_rows_set [OF d(2) cols(2), of "cloud_rows ct"] unfolding d(1) by auto
  have "merge_to_cloud first pk columns rs ct =
      Some (merge_count (pk_cols pk) (dedup pk rs) (cloud_rows ct), ct\<lparr>cloud_rows := t'\<rparr>)"
    using dne cols(3) by (simp add: merge_to_cloud_def Let_def st q t'(1))
  then show ?thesis using t'(2,3) d(2) by blast
qed

text \<open>After the dirty rows were merged, every row of the table has a clean counterpart.\<close>

lemma merged_clean:
  assumes ok: "table_ok t pks" and alike: "keys_alike pks (local_rows t) (local_rows t)" "keys_alike pks (local_rows t) cs"
    and h: "h \<Longrightarrow> ''content_hash'' \<in> set (local_cols t)"
    and D: "D = {r \<in> set (local_rows t). dirty pks h cs r}"
    and cs': "set cs' = {x \<in> set cs. \<forall>s \<in> D. \<not> on_match pks x s} \<union>
      {set_cols (filter (\<lambda>c. c \<notin> set pks) (local_cols t)) s x |s x. x \<in> set cs \<and> s \<in> D \<and> on_match pks x s} \<union>
      {s \<in> D. \<forall>x \<in> set cs. \<not> on_match pks x s}"
    and r: "r \<in> set (local_rows t)"
  shows "\<not> dirty pks h cs' r"
    and "\<exists>x \<in> set cs'. on_match pks x r \<and> (r \<in> D \<longrightarrow> (\<forall>c \<in> set (local_cols t). get_col x c = get_col r c))"
proof -
  let ?upd = "filter (\<lambda>c. c \<notin> set pks) (local_cols t)"
  have nn: "\<forall>k \<in> set pks. get_col s k \<noteq> CNull" if "s \<in> set (local_rows t)" for s
    using ok that by (auto simp: table_ok_def)
  have key_text: "on_match pks x s \<longleftrightarrow> text_key pks x = text_key pks s"
    if "s \<in> set (local_rows t)" "x \<in> set cs" for x s
  proof
    assume "text_key pks x = text_key pks s"
    then have "as_text (get_col s k) = as_text (get_col x k)" if "k \<in> set pks" for k
      using that by (simp add: text_key_def)
    then have "get_col s k = get_col x k" if "k \<in> set pks" for k
      using alike(2) \<open>s \<in> set (local_rows t)\<close> \<open>x \<in> set cs\<close> that by (simp add: keys_alike_def)
    then have "row_key pks x = row_key pks s" by (simp add: row_key_def)
    then show "on_match pks x s" using nn that(1) by (intro on_match_of_key)
  qed (auto simp: text_key_def on_match_get)
  have self: "on_match pks s s" if "s \<in> set (local_rows t)" for s
    using nn [OF that] by (simp add: on_match_refl)
  have setk: "get_col (set_cols ?upd s x) c = get_col s c" if "on_match pks x s" "c \<in> set (local_cols t)" for s x c
    using that by (auto simp: get_set_cols dest: on_match_get)
  have pk_in: "set pks \<subseteq> set (local_cols t)" using ok by (simp add: table_ok_def)
  have key_set: "text_key pks (set_cols ?upd s x) = text_key pks s" if "on_match pks x s" for s x
    using setk [OF that] pk_in by (auto simp: text_key_def subset_iff)
  have inj: "s = r" if "s \<in> D" "text_key pks s = text_key pks r" for s
    using text_key_inj [OF ok alike(1)] that r D by blast
  have hash_own: "\<not> hash_differs (manifest_row pks h r) x" if "get_col x ''content_hash'' = get_col r ''content_hash''" h for x
  proof -
    have "get_col r ''content_hash'' \<in> insert CNull (range CStr)" using ok r by (auto simp: table_ok_def)
    then show ?thesis using that by (auto simp: hash_differs_def Let_def)
  qed
  have clean: "\<not> hash_differs (manifest_row pks h r) y" if y: "y \<in> set cs'" "text_key pks y = text_key pks r" h for y
  proof -
    consider "y \<in> set cs" "\<forall>s \<in> D. \<not> on_match pks y s"
      | s x where "y = set_cols ?upd s x" "x \<in> set cs" "s \<in> D" "on_match pks x s"
      | "y \<in> D" using y(1) cs' by blast
    then show ?thesis
    proof cases
      case 1
      then have "r \<notin> D" using key_text [OF r] y(2) by blast
      then have "\<not> dirty pks h cs r" using D r by blast
      then show ?thesis using 1(1) y(2,3) by (auto simp: dirty_def Let_def)
    next
      case (2 s x)
      then have "s = r" using inj key_set y(2) by metis
      then show ?thesis using 2 setk h y(3) by (intro hash_own) simp_all
    next
      case 3
      then have "y = r" using inj y(2) by blast
      then show ?thesis using y(3) by (intro hash_own) simp_all
    qed
  qed
  show ex: "\<exists>x \<in> set cs'. on_match pks x r \<and> (r \<in> D \<longrightarrow> (\<forall>c \<in> set (local_cols t). get_col x c = get_col r c))"
  proof (cases "r \<in> D")
    case True
    show ?thesis
    proof (cases "\<exists>x \<in> set cs. on_match pks x r")
      case True
      then obtain x where x: "x \<in> set cs" "on_match pks x r" by blast
      have "on_match pks (set_cols ?upd r x) r"
        using setk [OF x(2)] pk_in nn [OF r] by (auto simp: on_match_def list_all_iff cell_eq_def subset_iff)
      moreover have "set_cols ?upd r x \<in> set cs'" using x \<open>r \<in> D\<close> unfolding cs' by blast
      ultimately show ?thesis using setk [OF x(2)] by blast
    next
      case False
      then have "r \<in> set cs'" using \<open>r \<in> D\<close> unfolding cs' by blast
      then show ?thesis using self [OF r] by blast
    qed
  next
    case False
    then have "\<not> dirty pks h cs r" using D r by blast
    then obtain x where x: "x \<in> set cs" "text_key pks x = text_key pks r"
      by (auto simp: dirty_def Let_def filter_empty_conv)
    then have m: "on_match pks x r" using key_text [OF r] by blast
    have "\<not> on_match pks x s" if "s \<in> D" for s
    proof
      assume "on_match pks x s"
      then have "text_key pks s = text_key pks r" using key_text x that D by force
      then show False using inj that False by blast
    qed
    then have "x \<in> set cs'" using x(1) unfolding cs' by blast
    then show ?thesis using m False by blast
  qed
  then obtain x where "x \<in> set cs'" "text_key pks x = text_key pks r"
    by (auto simp: text_key_def on_match_get)
  then have "filter (\<lambda>c. text_key pks c = text_key pks r) cs' \<noteq> []" by (auto simp: filter_empty_conv)
  then show "\<not> dirty pks h cs' r" using clean by (auto simp: dirty_def Let_def)
qed

lemma detected_hash: "snd (detect_pk_columns (Some (local_infos t))) \<longleftrightarrow> ''content_hash'' \<in> set (local_cols t)"
  by (force simp: detect_pk_columns_eq local_cols_def)

definition table_key :: "local_table \<Rightarrow> string list" where
  "table_key t = pk_cols (fst (detect_pk_columns (Some (local_infos t))))"

definition table_hashed :: "local_table \<Rightarrow> bool" where
  "table_hashed t \<longleftrightarrow> snd (detect_pk_columns (Some (local_infos t)))"

lemma push_diff_defined:
  assumes "set pks \<subseteq> set (local_cols t)" "set (local_cols t) \<subseteq> set (cloud_cols c)"
    "h \<Longrightarrow> ''content_hash'' \<in> set (local_cols t)"
  shows "\<exists>ids. push_diff pks h m c = Some ids"
proof -
  have "set pks \<subseteq> set (cloud_cols c)" "h \<Longrightarrow> ''content_hash'' \<in> set (cloud_cols c)" using assms by blast+
  then show ?thesis by (auto simp: push_diff_def)
qed

text \<open>One push of a table that \<open>push_ok\<close> admits, on the rows the query of the difference names.\<close>

lemma sync_table_result:
  assumes ok: "push_ok t ct" and first: "\<forall>xs. xs \<noteq> [] \<longrightarrow> first xs \<in> set xs"
    and D: "D = {r \<in> set (local_rows t). dirty (table_key t) (table_hashed t) (cloud_rows ct) r}"
  shows "if D = {} then sync_table first vec native t (Some ct) = Some (0, Some ct)
    else \<exists>n rows'. sync_table first vec native t (Some ct) = Some (n, Some (ct\<lparr>cloud_rows := rows'\<rparr>))
     \<and> (cloud_rows ct = [] \<longrightarrow> distinct (map (row_key (table_key t)) rows')) \<and> set rows' =
     {x \<in> set (cloud_rows ct). \<forall>s \<in> D. \<not> on_match (table_key t) x s} \<union>
     {set_cols (filter (\<lambda>c. c \<notin> set (table_key t)) (local_cols t)) s x |s x.
        x \<in> set (cloud_rows ct) \<and> s \<in> D \<and> on_match (table_key t) x s} \<union>
     {s \<in> D. \<forall>x \<in> set (cloud_rows ct). \<not> on_match (table_key t) x s}"
proof -
  obtain pk h where pk: "detect_pk_columns (Some (local_infos t)) = (pk, h)" by (cases "detect_pk_columns (Some (local_infos t))")
  let ?pks = "pk_cols pk"
  have tk: "table_key t = ?pks" "table_hashed t = h" by (simp_all add: table_key_def table_hashed_def pk)
  have tok: "table_ok t ?pks" and len: "length ?pks \<le> 999" and emb: "''embedding'' \<notin> set (local_cols t)"
    and upd: "\<exists>c \<in> set (local_cols t). c \<notin> set ?pks" and sub: "set (local_cols t) \<subseteq> set (cloud_cols ct)"
    and blob: "\<forall>r \<in> set (local_rows t). \<forall>k \<in> set ?pks. \<forall>bs. get_col r k \<noteq> CBlob bs"
    and alike: "keys_alike ?pks (local_rows t) (local_rows t)"
    using ok by (simp_all add: push_ok_def pk Let_def)
  have hash: "h \<Longrightarrow> ''content_hash'' \<in> set (local_cols t)" using detected_hash [of t] pk by auto
  have pk_in: "set ?pks \<subseteq> set (local_cols t)" using tok by (simp add: table_ok_def)
  obtain ids where ids: "push_diff ?pks h (upload_local_manifest t ?pks h) ct = Some ids"
    using push_diff_defined [OF pk_in sub hash] by blast
  have D': "D = {r \<in> set (local_rows t). dirty ?pks h (cloud_rows ct) r}" by (simp add: D tk)
  have ids_set: "set ids = text_key ?pks ` D" using push_diff_set [OF tok ids] by (simp add: D')
  have sync: "sync_table first vec native t (Some ct) =
     (if ids = [] then Some (0, Some ct)
      else Option.bind (fetch_dirty ?pks t ids) (\<lambda>rows. if rows = [] \<or> local_cols t = [] then Some (0, Some ct)
        else map_option (\<lambda>(n, ct'). (n, Some ct')) (merge_to_cloud first pk (local_cols t) rows ct)))"
    using emb by (simp add: sync_table_def pk Let_def ids cong: if_cong bind_option_cong)
  show ?thesis
  proof (cases "D = {}")
    case True
    then have "ids = []" using ids_set by simp
    then show ?thesis using True sync by simp
  next
    case False
    have "chunks (compute_chunk_size ?pks 0) ids \<noteq> None"
      using chunks_concat [of "compute_chunk_size ?pks 0" ids] chunk_size_zero [of ?pks] len by fastforce
    then obtain out where out: "fetch_dirty ?pks t ids = Some out" by (auto simp: fetch_dirty_def)
    have "D \<subseteq> set (local_rows t)" by (simp add: D)
    then have oset: "set out = D" by (rule fetched_set [OF tok alike blob out ids_set])
    have rows: "\<forall>r \<in> set out. map fst r = local_cols t \<and> full_key pk (local_cols t) r"
      using tok unfolding oset D' by (auto simp: table_ok_def full_key_def)
    have inj: "inj_on (row_key ?pks) (set out)"
    proof -
      have "inj_on (row_key ?pks) (set (local_rows t))"
        using tok by (simp add: table_ok_def distinct_map row_key_def [abs_def])
      then show ?thesis by (rule inj_on_subset) (simp add: oset D)
    qed
    have dist: "distinct (local_cols t)" using tok by (simp add: table_ok_def)
    have ne: "out \<noteq> []" "ids \<noteq> []" "local_cols t \<noteq> []" using oset ids_set False upd by auto
    from merge_to_cloud_set [OF first rows inj dist upd sub ne(1)] show ?thesis
      using False ne unfolding sync out tk oset by auto
  qed
qed

text \<open>A table without dirty rows sends nothing.\<close>

lemma sync_table_clean:
  assumes tok: "table_ok t (table_key t)" and sub: "set (local_cols t) \<subseteq> set (cloud_cols c)"
    and clean: "\<And>r. r \<in> set (local_rows t) \<Longrightarrow> \<not> dirty (table_key t) (table_hashed t) (cloud_rows c) r"
  shows "sync_table first vec native t (Some c) = Some (0, Some c)"
proof -
  let ?pks = "table_key t" and ?h = "table_hashed t"
  obtain pk where pk: "detect_pk_columns (Some (local_infos t)) = (pk, ?h)" "pk_cols pk = ?pks"
    by (cases "detect_pk_columns (Some (local_infos t))") (simp add: table_hashed_def table_key_def)
  have h: "?h \<Longrightarrow> ''content_hash'' \<in> set (local_cols t)" by (simp add: table_hashed_def detected_hash)
  have "set ?pks \<subseteq> set (local_cols t)" using tok by (simp add: table_ok_def)
  from push_diff_defined [OF this sub h]
  obtain ids where ids: "push_diff ?pks ?h (upload_local_manifest t ?pks ?h) c = Some ids" by blast
  then have "set ids = {}" unfolding push_diff_set [OF tok ids] using clean by blast
  then have "ids = []" by simp
  then show ?thesis using ids by (simp add: sync_table_def pk Let_def)
qed

lemma push_result:
  assumes ok: "push_ok t ct" and first: "\<forall>xs. xs \<noteq> [] \<longrightarrow> first xs \<in> set xs"
  shows "\<exists>n ct'. sync_table first vec native t (Some ct) = Some (n, Some ct') \<and> cloud_cols ct' = cloud_cols ct
    \<and> (\<forall>r \<in> set (local_rows t). \<not> dirty (table_key t) (table_hashed t) (cloud_rows ct') r
         \<and> (\<exists>x \<in> set (cloud_rows ct'). on_match (table_key t) x r
              \<and> (dirty (table_key t) (table_hashed t) (cloud_rows ct) r \<longrightarrow>
                   (\<forall>c \<in> set (local_cols t). get_col x c = get_col r c))))"
proof -
  let ?pks = "table_key t" and ?h = "table_hashed t"
  define D where "D = {r \<in> set (local_rows t). dirty ?pks ?h (cloud_rows ct) r}"
  note res = sync_table_result [OF ok first D_def, of vec native]
  have tok: "table_ok t ?pks" and alike: "keys_alike ?pks (local_rows t) (local_rows t)" "keys_alike ?pks (local_rows t) (cloud_rows ct)"
    using ok by (simp_all add: push_ok_def table_key_def Let_def)
  have h: "?h \<Longrightarrow> ''content_hash'' \<in> set (local_cols t)" by (simp add: table_hashed_def detected_hash)
  show ?thesis
  proof (cases "D = {}")
    case True
    have "\<exists>x \<in> set (cloud_rows ct). on_match ?pks x r" if "r \<in> set (local_rows t)" for r
      using merged_clean(2) [OF tok alike h D_def _ that, of "cloud_rows ct"] True by auto
    then show ?thesis using res True D_def by (intro exI [of _ 0] exI [of _ ct]) auto
  next
    case False
    then obtain n rows' where n: "sync_table first vec native t (Some ct) = Some (n, Some (ct\<lparr>cloud_rows := rows'\<rparr>))"
      and set: "set rows' = {x \<in> set (cloud_rows ct). \<forall>s \<in> D. \<not> on_match ?pks x s} \<union>
        {set_cols (filter (\<lambda>c. c \<notin> set ?pks) (local_cols t)) s x |s x.
          x \<in> set (cloud_rows ct) \<and> s \<in> D \<and> on_match ?pks x s} \<union>
        {s \<in> D. \<forall>x \<in> set (cloud_rows ct). \<not> on_match ?pks x s}"
      using res by auto
    note clean = merged_clean [OF tok alike h D_def set]
    show ?thesis using n clean by (intro exI [of _ n] exI [of _ "ct\<lparr>cloud_rows := rows'\<rparr>"]) (auto simp: D_def)
  qed
qed

text \<open>
  C22: The push of a table converges. When SQLite's guarantees hold of the local table and its columns are in the
  cloud, a push returns; every row of the local table is then in the cloud, and every row it found dirty with all
  its columns; and a second push finds nothing to send and leaves the cloud alone.
\<close>
theorem push_converges:
  assumes ok: "push_ok t ct" and first: "\<forall>xs. xs \<noteq> [] \<longrightarrow> first xs \<in> set xs"
  shows "\<exists>n ct'. sync_table first vec native t (Some ct) = Some (n, Some ct')
    \<and> sync_table first vec native t (Some ct') = Some (0, Some ct')
    \<and> (\<forall>r \<in> set (local_rows t). \<exists>x \<in> set (cloud_rows ct'). on_match (table_key t) x r
         \<and> (dirty (table_key t) (table_hashed t) (cloud_rows ct) r \<longrightarrow>
              (\<forall>c \<in> set (local_cols t). get_col x c = get_col r c)))"
proof -
  obtain n ct' where r: "sync_table first vec native t (Some ct) = Some (n, Some ct')" "cloud_cols ct' = cloud_cols ct"
    "\<forall>r \<in> set (local_rows t). \<not> dirty (table_key t) (table_hashed t) (cloud_rows ct') r
         \<and> (\<exists>x \<in> set (cloud_rows ct'). on_match (table_key t) x r
              \<and> (dirty (table_key t) (table_hashed t) (cloud_rows ct) r \<longrightarrow>
                   (\<forall>c \<in> set (local_cols t). get_col x c = get_col r c)))"
    using push_result [OF ok first, of vec native] by blast
  have "sync_table first vec native t (Some ct') = Some (0, Some ct')"
    using ok r(2,3) by (intro sync_table_clean) (auto simp: push_ok_def table_key_def Let_def)
  then show ?thesis using r(1,3) by blast
qed

text \<open>
  A row is dirty or not by its key and its hash alone.
\<close>

lemma dirty_cong:
  assumes "\<forall>c \<in> insert ''content_hash'' (set pks). get_col r c = get_col s c"
  shows "dirty pks h cs r = dirty pks h cs s"
proof -
  have "text_key pks r = text_key pks s" using assms by (simp add: text_key_def)
  moreover have "hash_differs (manifest_row pks h r) x = hash_differs (manifest_row pks h s) x" for x
  proof -
    have "get_col (manifest_row pks h r) ''content_hash'' = get_col (manifest_row pks h s) ''content_hash''"
      using assms by simp
    then show ?thesis unfolding hash_differs_def by (simp only:)
  qed
  ultimately show ?thesis by (simp add: dirty_def)
qed

text \<open>
  What the hash does not show is never pushed. After a push, let the local rows change in any columns except
  the key and \<open>content_hash\<close>: the next push sends nothing and the cloud keeps the old values. A table without a
  \<open>content_hash\<close> column, or one whose updates do not recompute it, never has an update in the cloud.
\<close>
theorem unhashed_update_not_pushed:
  assumes ok: "push_ok t ct" and first: "\<forall>xs. xs \<noteq> [] \<longrightarrow> first xs \<in> set xs"
    and pushed: "sync_table first vec native t (Some ct) = Some (n, Some ct')"
    and upd: "\<forall>r \<in> set (local_rows t). map fst (f r) = local_cols t \<and>
      (\<forall>c \<in> insert ''content_hash'' (set (table_key t)). get_col (f r) c = get_col r c)"
  shows "sync_table first vec native (t\<lparr>local_rows := map f (local_rows t)\<rparr>) (Some ct') = Some (0, Some ct')"
proof -
  let ?t = "t\<lparr>local_rows := map f (local_rows t)\<rparr>"
  have same: "table_key ?t = table_key t" "table_hashed ?t = table_hashed t" "local_cols ?t = local_cols t"
    by (simp_all add: table_key_def table_hashed_def local_cols_def)
  have tok: "table_ok t (table_key t)" and sub: "set (local_cols t) \<subseteq> set (cloud_cols ct)"
    using ok by (simp_all add: push_ok_def table_key_def Let_def)
  have "map (\<lambda>r. map (get_col r) (table_key t)) (map f (local_rows t)) =
      map (\<lambda>r. map (get_col r) (table_key t)) (local_rows t)" using upd by simp
  moreover have "distinct (map (\<lambda>r. map (get_col r) (table_key t)) (local_rows t))" using tok by (simp add: table_ok_def)
  ultimately have "distinct (map (\<lambda>r. map (get_col r) (table_key t)) (map f (local_rows t)))" by (simp only:)
  then have tok': "table_ok ?t (table_key ?t)" using tok upd unfolding same table_ok_def by (simp add: local_cols_def comp_def)
  obtain n' ct2 where r: "sync_table first vec native t (Some ct) = Some (n', Some ct2)" "cloud_cols ct2 = cloud_cols ct"
    "\<forall>r \<in> set (local_rows t). \<not> dirty (table_key t) (table_hashed t) (cloud_rows ct2) r"
    using push_result [OF ok first, of vec native] by blast
  have [simp]: "ct2 = ct'" using r(1) pushed by simp
  show ?thesis
  proof (rule sync_table_clean [OF tok'])
    show "set (local_cols ?t) \<subseteq> set (cloud_cols ct')" using sub r(2) same by simp
    fix r' assume "r' \<in> set (local_rows ?t)"
    then obtain r0 where r0: "r0 \<in> set (local_rows t)" "r' = f r0" by auto
    then have "dirty (table_key t) (table_hashed t) (cloud_rows ct') r' = dirty (table_key t) (table_hashed t) (cloud_rows ct') r0"
      using upd by (intro dirty_cong) simp
    then show "\<not> dirty (table_key ?t) (table_hashed ?t) (cloud_rows ct') r'" using r(3) r0 same by simp
  qed
qed

definition batches_table :: "row list \<Rightarrow> local_table" where
  "batches_table rows = \<lparr>local_infos = [\<lparr>col_name = ''batch_id'', col_pk = 1\<rparr>, \<lparr>col_name = ''status'', col_pk = 0\<rparr>,
     \<lparr>col_name = ''content_hash'', col_pk = 0\<rparr>], local_rows = rows\<rparr>"

definition batch_record :: "string \<Rightarrow> string \<Rightarrow> row" where
  "batch_record b s = [(''batch_id'', CStr b), (''status'', CStr s), (''content_hash'', CStr [])]"

definition empty_cloud_batches :: cloud_table where
  "empty_cloud_batches = \<lparr>cloud_cols = [''batch_id'', ''status'', ''content_hash''], cloud_rows = []\<rparr>"

lemma batches_push_ok: "push_ok (batches_table [batch_record ''B1'' ''PENDING'']) empty_cloud_batches"
  by (simp add: push_ok_def table_ok_def keys_alike_def batches_table_def batch_record_def empty_cloud_batches_def
      local_cols_def detect_pk_columns_def scan_columns_def pk_cols_def get_col_def Let_def)

lemma batches_pushed:
  "sync_table hd vec native (batches_table [batch_record ''B1'' ''PENDING'']) (Some empty_cloud_batches) =
     Some (1, Some (empty_cloud_batches\<lparr>cloud_rows := [batch_record ''B1'' ''PENDING'']\<rparr>))"
  by code_simp

definition no_vectors :: vector_push where
  "no_vectors pk cols rows t = None"

theorem push_converges_witness:
  "sync_table hd no_vectors False (batches_table [batch_record ''B1'' ''PENDING''])
     (Some (empty_cloud_batches\<lparr>cloud_rows := [batch_record ''B1'' ''PENDING'']\<rparr>)) =
   Some (0, Some (empty_cloud_batches\<lparr>cloud_rows := [batch_record ''B1'' ''PENDING'']\<rparr>))"
proof -
  have "\<forall>xs. xs \<noteq> [] \<longrightarrow> hd xs \<in> set (xs :: row list)" by simp
  from push_converges [OF batches_push_ok this, of no_vectors False] show ?thesis
    unfolding batches_pushed by auto
qed

text \<open>A batch is pushed while it is pending and published afterwards: the cloud says it is pending.\<close>

theorem unhashed_update_not_pushed_witness:
  "sync_table hd no_vectors False (batches_table [batch_record ''B1'' ''COMPLETED''])
     (Some (empty_cloud_batches\<lparr>cloud_rows := [batch_record ''B1'' ''PENDING'']\<rparr>)) =
   Some (0, Some (empty_cloud_batches\<lparr>cloud_rows := [batch_record ''B1'' ''PENDING'']\<rparr>))"
proof -
  let ?t = "batches_table [batch_record ''B1'' ''PENDING'']"
  have first: "\<forall>xs. xs \<noteq> [] \<longrightarrow> hd xs \<in> set (xs :: row list)" by simp
  have upd: "\<forall>r \<in> set (local_rows ?t). map fst (AList.update ''status'' (CStr ''COMPLETED'') r) = local_cols ?t \<and>
      (\<forall>c \<in> insert ''content_hash'' (set (table_key ?t)).
         get_col (AList.update ''status'' (CStr ''COMPLETED'') r) c = get_col r c)"
    by (simp add: batches_table_def batch_record_def local_cols_def table_key_def detect_pk_columns_def
        scan_columns_def pk_cols_def get_col_def)
  have "?t\<lparr>local_rows := map (AList.update ''status'' (CStr ''COMPLETED'')) (local_rows ?t)\<rparr> =
      batches_table [batch_record ''B1'' ''COMPLETED'']"
    by (simp add: batches_table_def batch_record_def)
  then show ?thesis
    using unhashed_update_not_pushed [OF batches_push_ok first batches_pushed upd] by simp
qed

section \<open>All tables\<close>

text \<open>
  \<open>sync_data\<close> over the tables of the registry, a virtual table being skipped: the number of rows sent per table.
  A table that raises ends the run; what it leaves of the cloud is then not stated.
\<close>

type_synonym local_db = "string \<Rightarrow> local_table"
type_synonym cloud_db = "string \<Rightarrow> cloud_table option"

fun sync_tables ::
    "(row list \<Rightarrow> row) \<Rightarrow> (string \<Rightarrow> vector_push) \<Rightarrow> bool \<Rightarrow> local_db \<Rightarrow> (string \<times> bool) list \<Rightarrow>
     (string \<times> nat) list \<times> cloud_db \<Rightarrow> ((string \<times> nat) list \<times> cloud_db) option" where
  "sync_tables first vec native db [] st = Some st"
| "sync_tables first vec native db ((name, virtual) # tabs) st =
     (if virtual then sync_tables first vec native db tabs st
      else (case sync_table first (vec name) native (db name) (snd st name) of
              None \<Rightarrow> None
            | Some (n, c) \<Rightarrow>
                sync_tables first vec native db tabs (AList.update name n (fst st), (snd st)(name := c))))"

lemma sync_tables_append:
  "sync_tables first vec native db (xs @ ys) st =
     Option.bind (sync_tables first vec native db xs st) (sync_tables first vec native db ys)"
  by (induction xs arbitrary: st) (auto split: option.split)

lemma sync_tables_other:
  "name \<notin> fst ` set tabs \<Longrightarrow> sync_tables first vec native db tabs st = Some st' \<Longrightarrow> snd st' name = snd st name"
  by (induction tabs arbitrary: st) (fastforce split: if_splits option.splits)+

end
