(* ===== verification/Cloud_Pull.thy ===== *)
theory Cloud_Pull
  imports Cloud_Sync
begin

text \<open>
  The way back: \<open>pull_to_local\<close> of \<open>sync_operations.py\<close> with the hash of \<open>sync/foundation.py\<close> that it
  fills in, and the filler of \<open>schemas/column_defaults.py\<close> beside it. SHA-256 is an argument. The values are cells:
  the conversion of the connector's decimals, dates and lists (\<open>_normalize_cloud_rows\<close>) has been done. The
  \<open>NOT NULL\<close> and \<open>CHECK\<close> constraints of the local table are not modelled.
\<close>

section \<open>The hash of a row\<close>

definition EXCLUDE_COLUMNS :: "string list" where
  "EXCLUDE_COLUMNS = [''updated_at'', ''content_hash'', ''scraped_at'', ''embedding'', ''vec_rowid'', ''created_at'']"

text \<open>
  \<open>BackupSchemaRegistry.get_checksum_columns\<close>: the columns the schema declares (\<open>None\<close> for a table it does not
  know); the registry raising is the second \<open>None\<close>.
\<close>

definition registry_checksum_columns :: "string list option \<Rightarrow> string list" where
  "registry_checksum_columns ddl =
     (case ddl of None \<Rightarrow> [] | Some cs \<Rightarrow> filter (\<lambda>c. lower c \<notin> {''embedding'', ''vec_rowid''}) cs)"

definition checksum_columns :: "string list option option \<Rightarrow> string list" where
  "checksum_columns registry =
     (case registry of None \<Rightarrow> []
      | Some ddl \<Rightarrow> filter (\<lambda>c. lower c \<notin> set EXCLUDE_COLUMNS) (registry_checksum_columns ddl))"

text \<open>\<open>val or ""\<close>, then \<open>str\<close> and \<open>strip\<close>.\<close>

definition falsy :: "cell \<Rightarrow> bool" where
  "falsy v \<longleftrightarrow> v \<in> {CNull, CInt 0, CStr [], CBlob []}"

definition hash_part :: "cell \<Rightarrow> string" where
  "hash_part v = strip (if falsy v then [] else str_cell v)"

definition hash_text :: "string list \<Rightarrow> row \<Rightarrow> string" where
  "hash_text cols r = join ''||'' (map (\<lambda>c. hash_part (get_col r c)) cols)"

definition compute_row_hash :: "(string \<Rightarrow> string) \<Rightarrow> string list option option \<Rightarrow> row \<Rightarrow> string" where
  "compute_row_hash sha registry r = sha (hash_text (checksum_columns registry) r)"

text \<open>
  \<open>_fill_content_hash\<close>: the rows whose hash is empty get one over the columns of the registry itself. The key
  column is interpolated into the statement: a composite key makes it fail. \<open>None\<close> is that error.
\<close>

definition fill_content_hash ::
    "(string \<Rightarrow> string) \<Rightarrow> string list option \<Rightarrow> local_table \<Rightarrow> (nat \<times> local_table) option" where
  "fill_content_hash sha ddl t =
     (let cols = registry_checksum_columns ddl;
          empty = (\<lambda>r. get_col r ''content_hash'' \<in> {CStr [], CNull}) in
      if cols = [] then Some (0, t)
      else (case introspect_table_columns (Some (local_infos t)) of
              (Pks _, _) \<Rightarrow> None
            | (Pk c, _) \<Rightarrow>
                if \<not> set (c # ''content_hash'' # cols) \<subseteq> set (local_cols t) then None
                else Some (length (filter empty (local_rows t)),
                  t\<lparr>local_rows := map (\<lambda>r. if empty r
                       then AList.update ''content_hash'' (CStr (sha (hash_text cols r))) r else r) (local_rows t)\<rparr>)))"

section \<open>The pull\<close>

definition pull_joined :: "string list \<Rightarrow> row list \<Rightarrow> row \<Rightarrow> row list" where
  "pull_joined pks manifest c = filter (\<lambda>m. list_all (\<lambda>k. cell_eq (get_col m k) (as_text (get_col c k))) pks) manifest"

definition pull_copies :: "string list \<Rightarrow> bool \<Rightarrow> row list \<Rightarrow> row \<Rightarrow> row list" where
  "pull_copies pks has_hash manifest c =
     (case pull_joined pks manifest c of
        [] \<Rightarrow> [c]
      | ms \<Rightarrow> map (\<lambda>m. c) (filter (\<lambda>m. has_hash \<and> hash_differs c m) ms))"

definition pull_diff :: "string list \<Rightarrow> bool \<Rightarrow> row list \<Rightarrow> cloud_table \<Rightarrow> row list option" where
  "pull_diff pks has_hash manifest t =
     (if \<not> set pks \<subseteq> set (cloud_cols t) \<or> has_hash \<and> ''content_hash'' \<notin> set (cloud_cols t) then None
      else Some (concat (map (pull_copies pks has_hash manifest) (cloud_rows t))))"

definition lower_keys :: "row \<Rightarrow> row" where
  "lower_keys r = map (\<lambda>(c, v). (lower c, v)) r"

definition fill_hash :: "(row \<Rightarrow> string) \<Rightarrow> row \<Rightarrow> row" where
  "fill_hash hash r = (if falsy (get_col r ''content_hash'') then AList.update ''content_hash'' (CStr (hash r)) r else r)"

text \<open>
  \<open>INSERT OR REPLACE\<close>: the rows that share a unique key with the new one go. A column that is not
  bound takes its default.
\<close>

definition replaces :: "string list list \<Rightarrow> row \<Rightarrow> row \<Rightarrow> bool" where
  "replaces uniques r x \<longleftrightarrow> list_ex (\<lambda>u. on_match u x r) uniques"

definition insert_or_replace :: "string list list \<Rightarrow> row \<Rightarrow> row list \<Rightarrow> row list" where
  "insert_or_replace uniques r rows = filter (\<lambda>x. \<not> replaces uniques r x) rows @ [r]"

definition bound_row :: "string list \<Rightarrow> (string \<Rightarrow> cell) \<Rightarrow> string list \<Rightarrow> row \<Rightarrow> row" where
  "bound_row table_cols dflt cols r =
     map (\<lambda>c. (c, if c \<in> set cols then get_col r c else dflt c)) table_cols"

definition insert_records ::
    "string list list \<Rightarrow> (string \<Rightarrow> cell) \<Rightarrow> row list \<Rightarrow> local_table \<Rightarrow> local_table option" where
  "insert_records uniques dflt records t =
     (if records = [] then Some t
      else (let cols = map fst (hd records) in
        if \<not> set cols \<subseteq> set (local_cols t) then None
        else Some (t\<lparr>local_rows :=
          fold (\<lambda>r. insert_or_replace uniques (bound_row (local_cols t) dflt cols r)) records (local_rows t)\<rparr>)))"

text \<open>
  One table of \<open>pull_to_local\<close>: the number of records written, the table, and the rows the vector
  conversion refused, which go to the dead letter queue.
\<close>

type_synonym vector_pull = "row list \<Rightarrow> row list \<times> row list"

definition pull_table ::
    "(row \<Rightarrow> string) \<Rightarrow> vector_pull \<Rightarrow> bool \<Rightarrow> string list list \<Rightarrow> (string \<Rightarrow> cell) \<Rightarrow>
     local_table \<Rightarrow> cloud_table option \<Rightarrow> (nat \<times> local_table \<times> row list) option" where
  "pull_table hash vec native uniques dflt t c =
     (case detect_pk_columns (Some (local_infos t)) of (pk, has_hash) \<Rightarrow>
      (let pks = pk_cols pk;
           manifest = upload_local_manifest t pks has_hash in
       Option.bind (Option.bind c (pull_diff pks has_hash manifest)) (\<lambda>rows.
         if rows = [] then Some (0, t, [])
         else (let columns = map (lower \<circ> fst) (hd rows);
                   (records, refused) = (if ''embedding'' \<in> set columns \<and> native then vec (map lower_keys rows)
                                         else (map lower_keys rows, []));
                   records = (if ''content_hash'' \<in> set columns then map (fill_hash hash) records else records) in
               map_option (\<lambda>t'. (length records, t', refused)) (insert_records uniques dflt records t)))))"

text \<open>\<open>_route_dlq_rows\<close>: the dead letters the operational writer is given.\<close>

definition get_or_empty :: "row \<Rightarrow> string \<Rightarrow> string" where
  "get_or_empty r c = (case map_of r c of None \<Rightarrow> [] | Some v \<Rightarrow> str_cell v)"

definition route_dlq_rows :: "string \<Rightarrow> pk_col \<Rightarrow> row list \<Rightarrow> dead_letter list" where
  "route_dlq_rows table pk refused =
     map (\<lambda>r. \<lparr>dlq_table = table,
       dlq_row_id = (case pk of Pk c \<Rightarrow> get_or_empty r c | Pks cs \<Rightarrow> join ''|'' (map (get_or_empty r) cs)),
       dlq_row = filter (\<lambda>(k, v). k \<noteq> ''_error_msg'' \<and> (case v of CBlob _ \<Rightarrow> False | _ \<Rightarrow> True)) r\<rparr>) refused"

section \<open>What the hash sees\<close>

lemma hash_text_cong: "(\<And>c. c \<in> set cols \<Longrightarrow> hash_part (get_col r c) = hash_part (get_col s c)) \<Longrightarrow> hash_text cols r = hash_text cols s"
  by (simp add: hash_text_def cong: map_cong)

text \<open>
  What the content hash cannot see. It is the same when columns that are kept out of it change (time stamps,
  embeddings, the hash itself), and also when a value changes between \<open>NULL\<close>, 0, the empty text and white space:
  such an update of a row is, to the difference queries, no update.
\<close>
lemma hash_blind_spots:
  "(lower c \<in> set EXCLUDE_COLUMNS \<longrightarrow>
      compute_row_hash sha registry (AList.update c v r) = compute_row_hash sha registry r)
   \<and> compute_row_hash sha registry (AList.update c (CInt 0) r) = compute_row_hash sha registry (AList.update c CNull r)
   \<and> (list_all is_space ws \<longrightarrow>
      compute_row_hash sha registry (AList.update c (CStr ws) r) = compute_row_hash sha registry (AList.update c CNull r))"
proof (intro conjI impI)
  assume "lower c \<in> set EXCLUDE_COLUMNS"
  then have "c \<notin> set (checksum_columns registry)"
    by (auto simp: checksum_columns_def split: option.split)
  then show "compute_row_hash sha registry (AList.update c v r) = compute_row_hash sha registry r"
    unfolding compute_row_hash_def by (metis hash_text_cong get_col_update)
next
  have "hash_part (CInt 0) = hash_part CNull" by (simp add: hash_part_def falsy_def)
  then show "compute_row_hash sha registry (AList.update c (CInt 0) r) = compute_row_hash sha registry (AList.update c CNull r)"
    unfolding compute_row_hash_def by (intro arg_cong [of _ _ sha] hash_text_cong) simp
next
  assume ws: "list_all is_space ws"
  then have "strip ws = []" by (auto simp: strip_def lstrip_def list_all_iff dest: set_dropWhileD)
  then have "hash_part (CStr ws) = hash_part CNull"
    by (simp add: hash_part_def falsy_def str_cell_def strip_def lstrip_def)
  then show "compute_row_hash sha registry (AList.update c (CStr ws) r) = compute_row_hash sha registry (AList.update c CNull r)"
    unfolding compute_row_hash_def by (intro arg_cong [of _ _ sha] hash_text_cong) simp
qed

text \<open>
  The filler of a new \<open>content_hash\<close> column hashes the time stamps too, which the hash of the backup leaves out, and
  it fails on a composite key.
\<close>

lemma filler_hash_differs:
  assumes "inj sha"
  shows "sha (hash_text (registry_checksum_columns (Some [''id'', ''updated_at''])) [(''id'', CStr ''x''), (''updated_at'', CStr ''t'')])
     \<noteq> compute_row_hash sha (Some (Some [''id'', ''updated_at''])) [(''id'', CStr ''x''), (''updated_at'', CStr ''t'')]"
proof -
  have "hash_text (registry_checksum_columns (Some [''id'', ''updated_at''])) [(''id'', CStr ''x''), (''updated_at'', CStr ''t'')]
      \<noteq> hash_text (checksum_columns (Some (Some [''id'', ''updated_at'']))) [(''id'', CStr ''x''), (''updated_at'', CStr ''t'')]"
    by code_simp
  then show ?thesis unfolding compute_row_hash_def using assms by (auto dest: injD)
qed

lemma filler_fails_on_composite_key:
  "introspect_table_columns (Some (local_infos t)) = (Pks cs, q) \<Longrightarrow> registry_checksum_columns ddl \<noteq> [] \<Longrightarrow>
   fill_content_hash sha ddl t = None"
  by (simp add: fill_content_hash_def)

section \<open>Push, then pull\<close>

lemma insert_records_fresh:
  assumes "\<forall>r \<in> set rs. \<forall>x \<in> set rows. \<not> replaces uniques (f r) x"
    "\<forall>i < length rs. \<forall>j < i. \<not> replaces uniques (f (rs ! i)) (f (rs ! j))"
  shows "fold (\<lambda>r. insert_or_replace uniques (f r)) rs rows = rows @ map f rs"
  using assms
proof (induction rs arbitrary: rows rule: rev_induct)
  case (snoc r rs)
  have "fold (\<lambda>r. insert_or_replace uniques (f r)) rs rows = rows @ map f rs"
  proof (rule snoc.IH)
    show "\<forall>i < length rs. \<forall>j < i. \<not> replaces uniques (f (rs ! i)) (f (rs ! j))"
    proof (intro allI impI)
      fix i j assume "i < length rs" "j < i"
      then show "\<not> replaces uniques (f (rs ! i)) (f (rs ! j))"
        using snoc.prems(2) [rule_format, of i j] by (simp add: nth_append)
    qed
  qed (use snoc.prems(1) in simp)
  moreover have "\<not> replaces uniques (f r) (f x)" if x: "x \<in> set rs" for x
  proof -
    obtain j where "j < length rs" "x = rs ! j" using x by (metis in_set_conv_nth)
    then show ?thesis using snoc.prems(2) [rule_format, of "length rs" j] by (simp add: nth_append)
  qed
  moreover have "fold (\<lambda>r. insert_or_replace uniques (f r)) (rs @ [r]) rows =
      insert_or_replace uniques (f r) (fold (\<lambda>r. insert_or_replace uniques (f r)) rs rows)" by simp
  moreover have "insert_or_replace uniques (f r) (rows @ map f rs) = (rows @ map f rs) @ [f r]"
    if "\<forall>x \<in> set rs. \<not> replaces uniques (f r) (f x)"
    using snoc.prems(1) that by (simp add: insert_or_replace_def filter_id_conv)
  ultimately show ?case by simp
qed simp

lemma lower_keys_own: "list_all (\<lambda>c. lower c = c) (map fst r) \<Longrightarrow> lower_keys r = r"
  by (induction r) (auto simp: lower_keys_def)

lemma bound_own:
  assumes "map fst r = cols" "distinct cols"
  shows "bound_row cols dflt cols r = r"
proof -
  have "bound_row cols dflt cols r = map (\<lambda>c. (c, get_col r c)) cols" by (simp add: bound_row_def)
  then show ?thesis using stage_own [OF assms] by simp
qed

text \<open>A pull into an empty table of the same columns writes the rows of the cloud as they are.\<close>

lemma pull_into_empty:
  assumes t: "local_rows t = []" and cols: "distinct (local_cols t)" "list_all (\<lambda>c. lower c = c) (local_cols t)"
    "set (local_cols t) \<subseteq> set (cloud_cols ct)" "set (table_key t) \<subseteq> set (local_cols t)" "''embedding'' \<notin> set (local_cols t)"
    and rows: "\<forall>r \<in> set (cloud_rows ct). map fst r = local_cols t \<and>
      (table_hashed t \<longrightarrow> \<not> falsy (get_col r ''content_hash''))"
    and uniq: "\<forall>i < length (cloud_rows ct). \<forall>j < i. \<not> replaces uniques (cloud_rows ct ! i) (cloud_rows ct ! j)"
  shows "pull_table hash vec native uniques dflt t (Some ct) =
     Some (length (cloud_rows ct), t\<lparr>local_rows := cloud_rows ct\<rparr>, [])"
proof -
  obtain pk where pk: "detect_pk_columns (Some (local_infos t)) = (pk, table_hashed t)" "pk_cols pk = table_key t"
    by (cases "detect_pk_columns (Some (local_infos t))") (simp add: table_hashed_def table_key_def)
  have h: "table_hashed t \<longleftrightarrow> ''content_hash'' \<in> set (local_cols t)" by (simp add: table_hashed_def detected_hash)
  have man: "upload_local_manifest t (table_key t) (table_hashed t) = []"
    by (simp add: upload_local_manifest_def t chunks.simps)
  have copies: "pull_copies (table_key t) (table_hashed t) [] c = [c]" for c by (simp add: pull_copies_def pull_joined_def)
  have "set (table_key t) \<subseteq> set (cloud_cols ct)" "table_hashed t \<longrightarrow> ''content_hash'' \<in> set (cloud_cols ct)"
    using cols h by blast+
  then have diff: "pull_diff (table_key t) (table_hashed t) [] ct = Some (cloud_rows ct)"
    using copies by (simp add: pull_diff_def concat_map_singleton [where f = "\<lambda>c. c", simplified] cong: map_cong)
  show ?thesis
  proof (cases "cloud_rows ct")
    case Nil
    then show ?thesis using t by (simp add: pull_table_def pk man diff Let_def)
  next
    case (Cons r0 rest)
    have names: "map (lower \<circ> fst) r0 = local_cols t"
      using rows cols(2) Cons by (simp add: list_all_iff map_idI flip: map_map)
    have low: "map lower_keys (cloud_rows ct) = cloud_rows ct"
      by (rule map_idI) (use rows cols(2) in \<open>auto intro!: lower_keys_own\<close>)
    have fill: "map (fill_hash hash) (cloud_rows ct) = cloud_rows ct" if "''content_hash'' \<in> set (local_cols t)"
      by (rule map_idI) (use rows h that in \<open>auto simp: fill_hash_def\<close>)
    have own1: "bound_row (local_cols t) dflt (local_cols t) r = r" if "r \<in> set (cloud_rows ct)" for r
      using that rows cols(1) by (intro bound_own) auto
    have own: "map (bound_row (local_cols t) dflt (local_cols t)) (cloud_rows ct) = cloud_rows ct"
      by (rule map_idI) (rule own1)
    have "fold (\<lambda>r. insert_or_replace uniques (bound_row (local_cols t) dflt (local_cols t) r)) (cloud_rows ct) [] =
        [] @ map (bound_row (local_cols t) dflt (local_cols t)) (cloud_rows ct)"
      by (rule insert_records_fresh) (use uniq own1 in \<open>auto dest: less_trans\<close>)
    then have ins: "insert_records uniques dflt (cloud_rows ct) t = Some (t\<lparr>local_rows := cloud_rows ct\<rparr>)"
      using Cons rows t own by (simp add: insert_records_def)
    have hd: "map (lower \<circ> fst) (hd (cloud_rows ct)) = local_cols t" "cloud_rows ct \<noteq> []" using names Cons by simp_all
    show ?thesis
      unfolding pull_table_def pk prod.case Let_def man Option.bind.simps diff hd(1) low
      using fill ins cols(5) hd(2) by simp
  qed
qed


definition hashed_record :: row where
  "hashed_record = [(''batch_id'', CStr ''B1''), (''status'', CStr ''PENDING''), (''content_hash'', CStr ''h'')]"


end
