(* ===== verification/Vector_Sync.thy ===== *)
theory Vector_Sync
  imports Cloud_Pull "HOL-Library.Word"
begin

text \<open>
  \<open>database/backup/vec/cloud_vector_pusher.py\<close>: the rows with an embedding on their way to the cloud and back. A
  blob is a list of bytes, a component a 32-bit word, the bit pattern of a float32, which is what the blob and
  the column of type \<open>VECTOR(FLOAT, 1024)\<close> hold; it is finite when its exponent is not all ones. The parser and the
  printer of JSON are arguments, and so is the value the cloud makes of a printed vector.
\<close>

unbundle bit_operations_syntax

section \<open>Vectors\<close>

definition VECTOR_DIM :: nat where "VECTOR_DIM = 1024"
definition VECTOR_BYTES :: nat where "VECTOR_BYTES = VECTOR_DIM * 4"

type_synonym float32 = "32 word"

definition is_finite :: "float32 \<Rightarrow> bool" where
  "is_finite w \<longleftrightarrow> drop_bit 23 w AND 0xFF \<noteq> 0xFF"

text \<open>An element of a Python list: a number, or something \<open>isinstance(x, (int, float))\<close> refuses.\<close>

datatype element = Num float32 | Not_Num

datatype vector_error = Not_List | Dimension nat | Non_Finite "nat list" | Not_Bytes | Blob_Length nat | Bad_Json | Bad_Type

text \<open>\<open>validate_vector\<close>: \<open>None\<close> is the normal return.\<close>

definition bad_element :: "element \<Rightarrow> bool" where
  "bad_element e = (case e of Num w \<Rightarrow> \<not> is_finite w | Not_Num \<Rightarrow> True)"

definition validate_vector :: "element list \<Rightarrow> vector_error option" where
  "validate_vector xs =
     (if length xs \<noteq> VECTOR_DIM then Some (Dimension (length xs))
      else (let bad = filter (\<lambda>i. bad_element (xs ! i)) [0..<length xs] in
            if bad \<noteq> [] then Some (Non_Finite (take 10 bad)) else None))"

text \<open>\<open>struct.unpack('<1024f', blob)\<close> and \<open>struct.pack\<close>: little-endian words of four bytes.\<close>

fun unpack :: "nat list \<Rightarrow> float32 list" where
  "unpack (a # b # c # d # bs) =
     (of_nat a OR push_bit 8 (of_nat b) OR push_bit 16 (of_nat c) OR push_bit 24 (of_nat d)) # unpack bs"
| "unpack bs = []"

definition pack_word :: "float32 \<Rightarrow> nat list" where
  "pack_word w = map (\<lambda>i. unat (drop_bit (8 * i) w AND 0xFF)) [0, 1, 2, 3]"

definition pack :: "float32 list \<Rightarrow> nat list" where
  "pack ws = concat (map pack_word ws)"

definition blob_to_float_list :: "cell \<Rightarrow> vector_error + float32 list option" where
  "blob_to_float_list v =
     (case v of CNull \<Rightarrow> Inr None
      | CBlob bs \<Rightarrow> if length bs \<noteq> VECTOR_BYTES then Inl (Blob_Length (length bs)) else Inr (Some (unpack bs))
      | _ \<Rightarrow> Inl Not_Bytes)"

definition numbers :: "element list \<Rightarrow> float32 list" where
  "numbers xs = concat (map (\<lambda>e. case e of Num w \<Rightarrow> [w] | Not_Num \<Rightarrow> []) xs)"

definition float_list_to_blob :: "element list \<Rightarrow> vector_error + nat list" where
  "float_list_to_blob xs =
     (case validate_vector xs of Some e \<Rightarrow> Inl e | None \<Rightarrow> Inr (pack (numbers xs)))"

section \<open>Rows with embeddings\<close>

datatype parsed = Parsed_List "element list" | Parsed_Other

text \<open>\<open>_validate_and_normalize\<close> on one row: the row for the cloud, or what is set aside with its error.\<close>

definition check_list :: "(element list \<Rightarrow> string) \<Rightarrow> parsed \<Rightarrow> vector_error + cell" where
  "check_list dumps p =
     (case p of Parsed_Other \<Rightarrow> Inl Not_List
      | Parsed_List xs \<Rightarrow> (case validate_vector xs of Some e \<Rightarrow> Inl e | None \<Rightarrow> Inr (CStr (dumps xs))))"

definition normalize_embedding ::
    "(string \<Rightarrow> parsed option) \<Rightarrow> (element list \<Rightarrow> string) \<Rightarrow> cell \<Rightarrow> vector_error + cell" where
  "normalize_embedding loads dumps v =
     (case v of
        CNull \<Rightarrow> Inr CNull
      | CBlob bs \<Rightarrow>
          (case blob_to_float_list v of
             Inl e \<Rightarrow> Inl e
           | Inr None \<Rightarrow> Inl Not_List
           | Inr (Some ws) \<Rightarrow> check_list dumps (Parsed_List (map Num ws)))
      | CStr s \<Rightarrow> (case loads s of None \<Rightarrow> Inl Bad_Json | Some p \<Rightarrow> check_list dumps p)
      | CInt _ \<Rightarrow> Inl Bad_Type)"

definition is_blob :: "cell \<Rightarrow> bool" where
  "is_blob v = (case v of CBlob _ \<Rightarrow> True | _ \<Rightarrow> False)"

definition validate_and_normalize ::
    "(string \<Rightarrow> parsed option) \<Rightarrow> (element list \<Rightarrow> string) \<Rightarrow> row list \<Rightarrow> row list \<times> (row \<times> vector_error) list" where
  "validate_and_normalize loads dumps rows =
     foldl (\<lambda>(valid, dlq) r.
         (case normalize_embedding loads dumps (get_col r ''embedding'') of
            Inr v \<Rightarrow> (valid @ [AList.update ''embedding'' v r], dlq)
          | Inl e \<Rightarrow> (valid, dlq @ [(if e = Bad_Type then r else filter (\<lambda>(k, v). \<not> is_blob v) r, e)])))
       ([], []) rows"

text \<open>
  \<open>_route_to_dlq\<close>: a task for the cloud writer, whose operation \<open>DLQ\<close> is not \<open>DELETE\<close> and so is handled as an upsert of
  a record with these columns into the cloud's own \<open>dead_letter_queue\<close>. The printers of the row and the error are
  arguments.
\<close>

definition dlq_record :: "(row \<Rightarrow> string) \<Rightarrow> (vector_error \<Rightarrow> string) \<Rightarrow> string \<Rightarrow> string \<Rightarrow> row \<times> vector_error \<Rightarrow> row" where
  "dlq_record json msg table pk re =
     (case re of (r, e) \<Rightarrow>
      foldl (\<lambda>d (k, v). AList.update k v d) []
        [(pk, case map_of r pk of None \<Rightarrow> CStr [] | Some v \<Rightarrow> v), (''table_name'', CStr table),
         (''row_data'', CStr (json (filter (\<lambda>(k, v). \<not> is_blob v) r))), (''_error_msg'', CStr (msg e))])"

definition route_to_dlq ::
    "bool \<Rightarrow> (row \<Rightarrow> string) \<Rightarrow> (vector_error \<Rightarrow> string) \<Rightarrow> string \<Rightarrow> string \<Rightarrow> (row \<times> vector_error) list \<Rightarrow>
     cloud_queue \<Rightarrow> cloud_queue" where
  "route_to_dlq enabled json msg table pk dlq q =
     foldl (\<lambda>q re. if \<not> enabled then q
        else put_or_drop \<lparr>task_table = ''dead_letter_queue'', task_op = UPSERT,
          task_records = [dlq_record json msg table pk re], task_pk = Pk pk\<rparr> q) q dlq"

text \<open>
  \<open>_push_batch\<close>: unlike \<open>merge_to_cloud\<close> it compares \<open>pk_col\<close> itself with the columns and puts it into the statement, which
  works for a key of one column only, and it removes no duplicates.
\<close>

definition push_batch :: "(cell \<Rightarrow> cell) \<Rightarrow> pk_col \<Rightarrow> string list \<Rightarrow> row list \<Rightarrow> cloud_table \<Rightarrow> (nat \<times> cloud_table) option" where
  "push_batch to_vector pk columns batch t =
     (case pk of
        Pks _ \<Rightarrow> None
      | Pk c \<Rightarrow>
          if \<not> set columns \<subseteq> set (cloud_cols t) then None
          else Option.bind (stage_rows columns batch) (\<lambda>stage.
            (let source = map (map (\<lambda>(k, v). (k, if k = ''embedding'' \<and> v \<noteq> CNull then to_vector v else v))) stage in
             map_option (\<lambda>rows'. (merge_count [c] source (cloud_rows t), t\<lparr>cloud_rows := rows'\<rparr>))
               (merge_rows [c] columns source (cloud_rows t)))))"

fun push_batches :: "(cell \<Rightarrow> cell) \<Rightarrow> pk_col \<Rightarrow> string list \<Rightarrow> row list list \<Rightarrow> nat \<times> cloud_table \<Rightarrow> (nat \<times> cloud_table) option" where
  "push_batches to_vector pk columns [] nt = Some nt"
| "push_batches to_vector pk columns (b # bs) nt =
     (case push_batch to_vector pk columns b (snd nt) of
        None \<Rightarrow> None
      | Some (n, t') \<Rightarrow> push_batches to_vector pk columns bs (fst nt + n, t'))"

text \<open>\<open>push_vectors\<close>: what was pushed, the cloud table, and the rows set aside.\<close>

definition push_vectors_run ::
    "(string \<Rightarrow> parsed option) \<Rightarrow> (element list \<Rightarrow> string) \<Rightarrow> (cell \<Rightarrow> cell) \<Rightarrow> nat \<Rightarrow> pk_col \<Rightarrow> string list \<Rightarrow>
     row list \<Rightarrow> cloud_table \<Rightarrow> (nat \<times> cloud_table \<times> (row \<times> vector_error) list) option" where
  "push_vectors_run loads dumps to_vector batch_size pk columns rows t =
     (if rows = [] then Some (0, t, [])
      else (case validate_and_normalize loads dumps rows of
              (valid, dlq) \<Rightarrow>
                if valid = [] then Some (0, t, dlq)
                else Option.bind (chunks (min batch_size 250) valid) (\<lambda>bs.
                  map_option (\<lambda>(n, t'). (n, t', dlq)) (push_batches to_vector pk columns bs (0, t)))))"

text \<open>\<open>pull_vectors_from_cloud\<close>: what the connector returns for the column is \<open>None\<close>, a list or something else.\<close>

datatype cloud_embedding = No_Embedding | Embedding "element list" | Other_Embedding

definition pull_vectors_from_cloud ::
    "string list \<Rightarrow> (row \<times> cloud_embedding) list \<Rightarrow> row list \<times> (row \<times> vector_error) list" where
  "pull_vectors_from_cloud columns rows =
     foldl (\<lambda>(valid, dlq) (r, e).
         if ''embedding'' \<notin> set columns then (valid @ [r], dlq)
         else (case e of
                 No_Embedding \<Rightarrow> (valid @ [AList.update ''embedding'' CNull r], dlq)
               | Other_Embedding \<Rightarrow> (valid, dlq @ [(r, Bad_Type)])
               | Embedding xs \<Rightarrow>
                   (case validate_vector xs of
                      Some err \<Rightarrow> (valid, dlq @ [(r, err)])
                    | None \<Rightarrow>
                        (case float_list_to_blob xs of
                           Inl err \<Rightarrow> (valid, dlq @ [(r, err)])
                         | Inr bs \<Rightarrow> (valid @ [AList.update ''embedding'' (CBlob bs) r], dlq)))))
       ([], []) rows"

section \<open>Blobs and vectors\<close>

lemma byte_bit: "a < 256 \<Longrightarrow> bit (a :: nat) n \<Longrightarrow> n < 8"
proof (rule ccontr)
  assume a: "a < 256" "bit a n" "\<not> n < 8"
  then have "(2::nat) ^ 8 \<le> 2 ^ n" by (intro power_increasing) auto
  then have "a div 2 ^ n = 0" using a(1) by simp
  then show False using a(2) by (simp add: bit_iff_odd)
qed

lemma no_byte_bit: "a < 256 \<Longrightarrow> 8 \<le> n \<Longrightarrow> \<not> bit (a :: nat) n"
  using byte_bit [of a n] by auto

lemma mask8: "(0xFF :: 32 word) = mask 8"
  by (simp add: mask_eq_exp_minus_1)

lemma bit_of_byte: "a < 256 \<Longrightarrow> bit (of_nat a :: 32 word) n \<longleftrightarrow> bit a n"
  using byte_bit [of a n] by (auto simp: bit_simps)

lemma unpack_word: "unpack (pack_word w @ bs) = w # unpack bs"
proof -
  have "(w AND 0xFF) OR push_bit 8 (drop_bit 8 w AND 0xFF) OR push_bit 16 (drop_bit 16 w AND 0xFF) OR
      push_bit 24 (drop_bit 24 w AND 0xFF) = w"
    unfolding mask8
  proof (rule bit_word_eqI)
    fix n :: nat assume n: "n < LENGTH(32)"
    consider "n < 8" | "8 \<le> n" "n < 16" | "16 \<le> n" "n < 24" | "24 \<le> n" by linarith
    then show "bit ((w AND mask 8) OR push_bit 8 (drop_bit 8 w AND mask 8) OR push_bit 16 (drop_bit 16 w AND mask 8) OR
      push_bit 24 (drop_bit 24 w AND mask 8)) n = bit w n"
      using n by cases (auto simp: bit_simps)
  qed
  then show ?thesis by (simp add: pack_word_def)
qed

lemma unpack_pack: "unpack (pack ws) = ws"
  by (induction ws) (simp_all add: pack_def unpack_word)

lemma length_pack: "length (pack ws) = 4 * length ws"
  by (induction ws) (simp_all add: pack_def pack_word_def)

lemma pack_word_bytes:
  assumes "a < 256" "b < 256" "c < 256" "d < 256"
  shows "pack_word (of_nat a OR push_bit 8 (of_nat b) OR push_bit 16 (of_nat c) OR push_bit 24 (of_nat d)) = [a, b, c, d]"
proof -
  let ?w = "of_nat a OR push_bit 8 (of_nat b) OR push_bit 16 (of_nat c) OR push_bit 24 (of_nat d) :: 32 word"
  have small: "unat (of_nat k :: 32 word) = k" if "k < 256" for k
    using that by (simp add: unat_of_nat)
  have sel: "drop_bit 0 ?w AND mask 8 = of_nat a" "drop_bit 8 ?w AND mask 8 = of_nat b"
    "drop_bit 16 ?w AND mask 8 = of_nat c" "drop_bit 24 ?w AND mask 8 = of_nat d"
    using assms
    by (auto intro!: bit_word_eqI simp: bit_simps bit_of_byte no_byte_bit dest: byte_bit)
  then show ?thesis using assms small by (simp add: pack_word_def mask8 del: drop_bit_0)
qed

lemma pack_unpack: "4 dvd length bs \<Longrightarrow> list_all (\<lambda>b. b < 256) bs \<Longrightarrow> pack (unpack bs) = bs"
proof (induction bs rule: unpack.induct)
  case (1 a b c d bs)
  then have "4 dvd length bs" by simp presburger
  then show ?case using 1 by (simp add: pack_def pack_word_bytes)
qed (auto simp: pack_def dvd_def, presburger+)

lemma length_unpack: "length (unpack bs) = length bs div 4"
  by (induction bs rule: unpack.induct) auto

lemma numbers_map [simp]: "numbers (map Num ws) = ws"
  by (induction ws) (simp_all add: numbers_def)

lemma validate_numbers: "validate_vector (map Num ws) = None \<longleftrightarrow> length ws = VECTOR_DIM \<and> list_all is_finite ws"
  by (auto simp: validate_vector_def Let_def filter_empty_conv bad_element_def list_all_length)


lemma unpack_replicate: "unpack (replicate (4 * n) 0) = replicate n 0"
  by (induction n) (simp_all add: replicate_add numeral_eq_Suc)


section \<open>Nothing is lost on the way\<close>

lemma validate_fold:
  "foldl (\<lambda>(valid, dlq) r.
       (case normalize_embedding loads dumps (get_col r ''embedding'') of
          Inr v \<Rightarrow> (valid @ [AList.update ''embedding'' v r], dlq)
        | Inl e \<Rightarrow> (valid, dlq @ [(if e = Bad_Type then r else filter (\<lambda>(k, v). \<not> is_blob v) r, e)]))) (vs, ds) rows =
   (vs @ map (\<lambda>r. AList.update ''embedding'' (projr (normalize_embedding loads dumps (get_col r ''embedding''))) r)
      (filter (\<lambda>r. \<not> isl (normalize_embedding loads dumps (get_col r ''embedding''))) rows),
    ds @ map (\<lambda>r. (let e = projl (normalize_embedding loads dumps (get_col r ''embedding'')) in
         (if e = Bad_Type then r else filter (\<lambda>(k, v). \<not> is_blob v) r, e)))
      (filter (\<lambda>r. isl (normalize_embedding loads dumps (get_col r ''embedding''))) rows))"
proof (induction rows arbitrary: vs ds)
  case (Cons r rows)
  show ?case
    by (cases "normalize_embedding loads dumps (get_col r ''embedding'')") (simp_all add: Cons Let_def)
qed simp

lemma normalized_values:
  "normalize_embedding loads dumps v = Inr w \<Longrightarrow>
     w = CNull \<or> (\<exists>xs. w = CStr (dumps xs) \<and> validate_vector xs = None)"
  by (auto simp: normalize_embedding_def check_list_def split: cell.splits sum.splits option.splits parsed.splits)

text \<open>
  A push of vectors accounts for every row. Each row is either sent, with no embedding or with the text
  of a vector of 1024 finite components, or set aside with the reason; what is set aside without an unknown type holds no
  bytes; and both keep the order of the rows.
\<close>
theorem vectors_sent_or_set_aside:
  assumes "validate_and_normalize loads dumps rows = (valid, dlq)"
  shows "length valid + length dlq = length rows
   \<and> list_all (\<lambda>r. get_col r ''embedding'' = CNull \<or>
        (\<exists>xs. get_col r ''embedding'' = CStr (dumps xs) \<and> validate_vector xs = None)) valid
   \<and> map snd dlq = map (projl \<circ> (\<lambda>r. normalize_embedding loads dumps (get_col r ''embedding'')))
        (filter (\<lambda>r. isl (normalize_embedding loads dumps (get_col r ''embedding''))) rows)
   \<and> list_all (\<lambda>(r, e). e = Bad_Type \<or> list_all (\<lambda>(k, v). \<not> is_blob v) r) dlq"
proof -
  let ?n = "\<lambda>r. normalize_embedding loads dumps (get_col r ''embedding'')"
  have out: "valid = map (\<lambda>r. AList.update ''embedding'' (projr (?n r)) r) (filter (\<lambda>r. \<not> isl (?n r)) rows)"
    "dlq = map (\<lambda>r. (let e = projl (?n r) in (if e = Bad_Type then r else filter (\<lambda>(k, v). \<not> is_blob v) r, e)))
       (filter (\<lambda>r. isl (?n r)) rows)"
    using assms validate_fold [of loads dumps "[]" "[]" rows] by (simp_all add: validate_and_normalize_def)
  have "length (filter (\<lambda>r. \<not> isl (?n r)) rows) + length (filter (\<lambda>r. isl (?n r)) rows) = length rows"
    using sum_length_filter_compl [of "\<lambda>r. isl (?n r)" rows] by (simp add: add.commute)
  moreover have "get_col (AList.update ''embedding'' (projr (?n r)) r) ''embedding'' = CNull \<or>
      (\<exists>xs. get_col (AList.update ''embedding'' (projr (?n r)) r) ''embedding'' = CStr (dumps xs) \<and> validate_vector xs = None)"
    if "\<not> isl (?n r)" for r
    using that normalized_values [of loads dumps "get_col r ''embedding''"] by (cases "?n r") auto
  moreover have "list_all (\<lambda>(k, v). \<not> is_blob v) (filter (\<lambda>(k, v). \<not> is_blob v) r)" for r :: row
    by (auto simp: list_all_iff)
  ultimately show ?thesis unfolding out by (auto simp: list_all_iff Let_def)
qed

theorem vectors_sent_or_set_aside_witness:
  "length (fst (validate_and_normalize (\<lambda>s. None) (\<lambda>xs. ''v'') [[(''id'', CInt 1), (''embedding'', CNull)],
      [(''id'', CInt 2), (''embedding'', CBlob [1, 2])]])) +
   length (snd (validate_and_normalize (\<lambda>s. None) (\<lambda>xs. ''v'') [[(''id'', CInt 1), (''embedding'', CNull)],
      [(''id'', CInt 2), (''embedding'', CBlob [1, 2])]])) = 2"
  using vectors_sent_or_set_aside [OF prod.collapse [symmetric], of "\<lambda>s. None" "\<lambda>xs. ''v''"
      "[[(''id'', CInt 1), (''embedding'', CNull)], [(''id'', CInt 2), (''embedding'', CBlob [1, 2])]]"] by simp

text \<open>A table whose key has several columns cannot be pushed with its vectors: the push of a non-empty batch raises.\<close>

lemma vectors_need_single_key: "push_batch to_vector (Pks cs) columns batch t = None"
  by (simp add: push_batch_def)

end
