(* ===== verification/Schema_Types.thy ===== *)
theory Schema_Types
  imports Prelude
begin

text \<open>
  Column types: the affinities of \<open>database/management/schema_introspector.py\<close>, its map to the types of
  Snowflake, and the comparison of \<open>database/backup/engine/type_normalizer.py\<close>.
\<close>

text \<open>\<open>str.upper\<close> on ASCII.\<close>

definition upper_char :: "char \<Rightarrow> char" where
  "upper_char c = (let n = of_char c :: nat in if 97 \<le> n \<and> n \<le> 122 then char_of (n - 32) else c)"

definition upper :: "string \<Rightarrow> string" where
  "upper s = map upper_char s"

datatype affinity = INTEGER | TEXT | BLOB | REAL | NUMERIC

definition normalize_type_affinity :: "string \<Rightarrow> affinity" where
  "normalize_type_affinity type_str =
     (let t = upper type_str in
      if contains ''INT'' t then INTEGER
      else if contains ''CHAR'' t \<or> contains ''CLOB'' t \<or> contains ''TEXT'' t then TEXT
      else if contains ''BLOB'' t \<or> t = [] then BLOB
      else if contains ''REAL'' t \<or> contains ''FLOA'' t \<or> contains ''DOUB'' t then REAL
      else NUMERIC)"

definition sqlite_type_to_snowflake :: "string option \<Rightarrow> string" where
  "sqlite_type_to_snowflake sqlite_type =
     (let t = upper (case sqlite_type of None \<Rightarrow> [] | Some s \<Rightarrow> s) in
      if contains ''INT'' t then ''NUMBER''
      else if contains ''CHAR'' t \<or> contains ''CLOB'' t \<or> contains ''TEXT'' t then ''VARCHAR''
      else if contains ''BLOB'' t \<or> t = [] then ''BINARY''
      else if contains ''REAL'' t \<or> contains ''FLOA'' t \<or> contains ''DOUB'' t then ''FLOAT''
      else ''NUMBER'')"

text \<open>
  \<open>_PARAM_SUFFIX.sub("", type_str.strip()).upper()\<close>: the match starts at the first parenthesis, with the blanks
  before it, and reaches the end, so there is one exactly when a closing parenthesis follows there and ends the text.
\<close>

definition rstrip :: "string \<Rightarrow> string" where
  "rstrip s = rev (lstrip (rev s))"

definition drop_parameters :: "string \<Rightarrow> string" where
  "drop_parameters s =
     (if CHR ''('' \<in> set s \<and> s \<noteq> [] \<and> last s = CHR '')''
      then rstrip (takeWhile (\<lambda>c. c \<noteq> CHR ''('') s) else s)"

definition normalize_snowflake_type :: "string \<Rightarrow> string" where
  "normalize_snowflake_type type_str =
     (if type_str = [] then [] else upper (drop_parameters (strip type_str)))"

definition types_match :: "string \<Rightarrow> string \<Rightarrow> bool" where
  "types_match expected actual \<longleftrightarrow> normalize_snowflake_type expected = normalize_snowflake_type actual"

text \<open>The two maps read a declared type the same way: the type in Snowflake is a function of the affinity.\<close>

definition affinity_snowflake :: "affinity \<Rightarrow> string" where
  "affinity_snowflake a =
     (case a of INTEGER \<Rightarrow> ''NUMBER'' | TEXT \<Rightarrow> ''VARCHAR'' | BLOB \<Rightarrow> ''BINARY'' | REAL \<Rightarrow> ''FLOAT'' | NUMERIC \<Rightarrow> ''NUMBER'')"

lemma snowflake_of_affinity: "sqlite_type_to_snowflake (Some t) = affinity_snowflake (normalize_type_affinity t)"
  by (simp add: sqlite_type_to_snowflake_def normalize_type_affinity_def affinity_snowflake_def Let_def)

section \<open>Normalising twice\<close>

lemma upper_char_code: "(of_char (upper_char c) :: nat) = (let n = of_char c in if 97 \<le> n \<and> n \<le> 122 then n - 32 else n)"
  by (auto simp: upper_char_def Let_def of_char_of)

lemma upper_char_idem [simp]: "upper_char (upper_char c) = upper_char c"
  by (auto simp: upper_char_def Let_def of_char_of)

lemma upper_char_paren [simp]: "upper_char c = CHR ''('' \<longleftrightarrow> c = CHR ''(''" "upper_char c = CHR '')'' \<longleftrightarrow> c = CHR '')''"
proof -
  have "c = d" if "upper_char c = d" "(of_char d :: nat) \<in> {40, 41}" for d
  proof (rule ccontr)
    assume "c \<noteq> d"
    then have "97 \<le> (of_char c :: nat) \<and> (of_char c :: nat) \<le> 122" using that(1) by (simp add: upper_char_def Let_def split: if_splits)
    then have "65 \<le> (of_char (upper_char c) :: nat)" by (simp add: upper_char_code Let_def, linarith)
    then show False using that by simp
  qed
  from this [of "CHR ''(''"] this [of "CHR '')''"]
  show "upper_char c = CHR ''('' \<longleftrightarrow> c = CHR ''(''" "upper_char c = CHR '')'' \<longleftrightarrow> c = CHR '')''"
    by (auto simp: upper_char_def)
qed

lemma upper_char_space [simp]: "is_space (upper_char c) = is_space c"
proof (cases "97 \<le> (of_char c :: nat) \<and> (of_char c :: nat) \<le> 122")
  case True
  then have "65 \<le> (of_char (upper_char c) :: nat)" "(of_char (upper_char c) :: nat) \<le> 90" by (simp_all add: upper_char_code Let_def, linarith+)
  then show ?thesis using True by (simp add: is_space_def Let_def)
qed (auto simp: upper_char_def Let_def)

text \<open>A text without blanks at its ends.\<close>

definition trimmed :: "string \<Rightarrow> bool" where
  "trimmed s \<longleftrightarrow> s = [] \<or> \<not> is_space (hd s) \<and> \<not> is_space (last s)"

lemma dropWhile_kept: "s = [] \<or> \<not> P (hd s) \<Longrightarrow> dropWhile P s = s"
  by (cases s) auto

lemma trimmed_strip: "trimmed s \<Longrightarrow> strip s = s"
  by (auto simp: trimmed_def strip_def dropWhile_kept hd_rev)

lemma dropWhile_hd: "dropWhile P s \<noteq> [] \<Longrightarrow> \<not> P (hd (dropWhile P s))"
  by (induction s) auto

lemma rstrip_trimmed: "s = [] \<or> \<not> is_space (hd s) \<Longrightarrow> trimmed (rstrip s)"
proof -
  assume s: "s = [] \<or> \<not> is_space (hd s)"
  show ?thesis
  proof (cases "rstrip s = []")
    case False
    have pre: "prefix (rstrip s) s"
      by (metis lstrip_suffix rev_rev_ident rstrip_def suffix_to_prefix)
    then obtain zs where "s = rstrip s @ zs" by (auto simp: prefix_def)
    then have "hd (rstrip s) = hd s" "s \<noteq> []" using False by (metis hd_append2, auto)
    moreover have "\<not> is_space (last (rstrip s))"
      using dropWhile_hd [of is_space "rev s"] False by (simp add: rstrip_def lstrip_def last_rev)
    ultimately show ?thesis using s by (simp add: trimmed_def)
  qed (simp add: trimmed_def)
qed

lemma strip_trimmed: "trimmed (strip s)"
proof -
  have "strip s = rstrip (dropWhile is_space s)" by (simp add: strip_def rstrip_def lstrip_def)
  moreover have "dropWhile is_space s = [] \<or> \<not> is_space (hd (dropWhile is_space s))" using dropWhile_hd by blast
  ultimately show ?thesis using rstrip_trimmed by simp
qed

lemma takeWhile_hd: "takeWhile P s \<noteq> [] \<Longrightarrow> hd (takeWhile P s) = hd s"
  by (cases s) auto

lemma drop_parameters_trimmed: "trimmed s \<Longrightarrow> trimmed (drop_parameters s)"
proof -
  assume s: "trimmed s"
  let ?h = "takeWhile (\<lambda>c. c \<noteq> CHR ''('') s"
  have "?h = [] \<or> \<not> is_space (hd ?h)"
  proof (cases "?h = []")
    case False
    then have "hd ?h = hd s" "s \<noteq> []" using takeWhile_hd by (blast, cases s, simp_all)
    then show ?thesis using s by (simp add: trimmed_def)
  qed simp
  then show ?thesis using s rstrip_trimmed by (simp add: drop_parameters_def)
qed

text \<open>The normal form has no parameters left to drop.\<close>

lemma drop_parameters_done:
  "CHR ''('' \<notin> set (drop_parameters s) \<or> last (drop_parameters s) \<noteq> CHR '')''"
proof -
  have "CHR ''('' \<notin> set (rstrip (takeWhile (\<lambda>c. c \<noteq> CHR ''('') s))"
    using set_dropWhileD [of "CHR ''(''" is_space "rev (takeWhile (\<lambda>c. c \<noteq> CHR ''('') s)"]
    by (auto simp: rstrip_def lstrip_def dest: set_takeWhileD)
  then show ?thesis by (auto simp: drop_parameters_def)
qed

theorem type_normal_form:
  "normalize_snowflake_type (normalize_snowflake_type s) = normalize_snowflake_type s
   \<and> types_match s (normalize_snowflake_type s)"
proof -
  let ?d = "drop_parameters (strip s)"
  have "trimmed ?d" by (rule drop_parameters_trimmed [OF strip_trimmed])
  then have "trimmed (upper ?d)" by (auto simp: trimmed_def upper_def hd_map last_map)
  then have st: "strip (upper ?d) = upper ?d" by (rule trimmed_strip)
  have "CHR ''('' \<in> set (upper ?d) \<longleftrightarrow> CHR ''('' \<in> set ?d"
    unfolding upper_def set_map image_iff by (metis upper_char_paren(1))
  moreover have "?d \<noteq> [] \<Longrightarrow> last (upper ?d) = CHR '')'' \<longleftrightarrow> last ?d = CHR '')''" by (simp add: upper_def last_map)
  ultimately have "\<not> (CHR ''('' \<in> set (upper ?d) \<and> upper ?d \<noteq> [] \<and> last (upper ?d) = CHR '')'')"
    using drop_parameters_done [of "strip s"] by (cases "?d = []") (auto simp: upper_def)
  then have "drop_parameters (upper ?d) = upper ?d" unfolding drop_parameters_def by (simp only: if_False)
  moreover have "upper (upper ?d) = upper ?d" by (simp add: upper_def)
  ultimately show ?thesis by (simp add: normalize_snowflake_type_def types_match_def st)
qed

end
