(* ===== verification/Schema_Reconcile.thy ===== *)
theory Schema_Reconcile
  imports Schema_Types Cloud_Rows
begin

text \<open>
  The schema of the operational database at startup: \<open>database/management/schema_introspector.py\<close>,
  \<open>reconciler.py\<close>, \<open>migration_coordinator.py\<close>, \<open>health.py\<close> and \<open>lifecycle.py\<close>.

  A database is the list of its tables in the order of \<open>sqlite_master\<close>; a table has its columns, as \<open>PRAGMA table_info\<close>
  returns them, and its rows. What a declaration in the registry creates is its columns, \<open>None\<close> where executing it
  in memory fails (the virtual tables), and the names and columns of its indexes; the names of indexes are unique in a
  database. Which other statements SQLite refuses is an argument (\<open>sqlite\<close>). Of the triggers there are the names. Shadow
  tables and log lines are left out.
\<close>

record column =
  cname :: string
  ctype :: string
  cnotnull :: bool
  cdflt :: "string option"
  cpk :: nat

type_synonym indexes = "(string \<times> string list) list"

record stored =
  columns :: "column list"
  indexes :: indexes
  is_virtual :: bool
  srows :: "row list"

type_synonym db = "(string \<times> stored) list"

record declared =
  dcolumns :: "column list option"
  dindexes :: indexes
  dvirtual :: bool
  dvec0 :: bool

type_synonym registry = "(string \<times> declared) list"

section \<open>Comparing schemas\<close>

definition col_map :: "column list \<Rightarrow> (string \<times> column) list" where
  "col_map cs = foldl (\<lambda>d c. AList.update (lower (cname c)) c d) [] cs"

definition same_column :: "column \<Rightarrow> column \<Rightarrow> bool" where
  "same_column a d \<longleftrightarrow> normalize_type_affinity (ctype a) = normalize_type_affinity (ctype d)
     \<and> cnotnull a = cnotnull d \<and> cpk a = cpk d"

definition schema_matches :: "db \<Rightarrow> string \<Rightarrow> column list option \<Rightarrow> bool \<Rightarrow> bool" where
  "schema_matches db name desired virtual =
     (case map_of db name of
        None \<Rightarrow> False
      | Some t \<Rightarrow>
          if virtual then True
          else (case desired of
                  None \<Rightarrow> True
                | Some ds \<Rightarrow>
                    if length (columns t) \<noteq> length ds then False
                    else (let am = col_map (columns t); dm = col_map ds in
                      if fst ` set am \<noteq> fst ` set dm then False
                      else list_all (\<lambda>(n, d). case map_of am n of None \<Rightarrow> True | Some a \<Rightarrow> same_column a d) dm)))"

section \<open>The reconciler\<close>

datatype action = Created | Unchanged | Added string | Dropped string | Needs_Migration | Pruned | Recreated

text \<open>A constraint that drifted is reported by its column; only a type drift is a mismatch of the plan.\<close>

record plan =
  plan_table :: string
  new_ddl :: declared
  columns_to_skip :: "string list"
  pk_column :: string
  total_rows :: nat

record report =
  actions :: "(string \<times> action) list"
  plans :: "plan list"

record world =
  disk :: db
  bak :: "db option"
  trigs :: "string list"

text \<open>
  What SQLite accepts: adding a column, dropping one, renaming a table, inserting rows into a new table, reading a virtual
  table, copying the database to the file of the backup.
\<close>

record sqlite =
  can_add :: "string \<Rightarrow> string \<Rightarrow> bool"
  can_drop :: "string \<Rightarrow> string \<Rightarrow> bool"
  can_rename :: "string \<Rightarrow> bool"
  accepts :: "column list \<Rightarrow> row list \<Rightarrow> bool"
  can_read :: "string \<Rightarrow> bool"
  can_backup :: bool

datatype error = Attribute_Error | Drop_Failed string string | Sql_Error string

type_synonym 'a outcome = "(error \<times> world) + 'a"

definition is_prefix :: "string \<Rightarrow> string \<Rightarrow> bool" where
  "is_prefix p s = (take (length p) s = p)"

text \<open>Executing a declaration: an index whose name is taken makes it fail.\<close>

definition index_names :: "db \<Rightarrow> string set" where
  "index_names db = (\<Union>(n, t) \<in> set db. fst ` set (indexes t))"

definition fresh_table :: "declared \<Rightarrow> stored" where
  "fresh_table d = \<lparr>columns = (case dcolumns d of None \<Rightarrow> [] | Some cs \<Rightarrow> cs), indexes = dindexes d,
     is_virtual = dvirtual d, srows = []\<rparr>"

definition create_table :: "string \<Rightarrow> declared \<Rightarrow> db \<Rightarrow> db option" where
  "create_table name d db =
     (if fst ` set (dindexes d) \<inter> index_names db \<noteq> {} \<or> map_of db name \<noteq> None then None
      else Some (db @ [(name, fresh_table d)]))"

text \<open>\<open>_prune_unexpected\<close>: what a table must look like to be dropped.\<close>

definition prunable :: "registry \<Rightarrow> string \<Rightarrow> bool" where
  "prunable reg name \<longleftrightarrow> \<not> is_prefix ''sqlite_'' name
     \<and> \<not> list_ex (\<lambda>(b, d). is_prefix (b @ ''_'') name) reg
     \<and> \<not> is_prefix ''_migrate_'' name \<and> \<not> is_prefix ''_old_'' name \<and> \<not> is_prefix ''sn_dt_'' name
     \<and> map_of reg name = None"

definition prune_unexpected :: "registry \<Rightarrow> db \<times> report \<Rightarrow> db \<times> report" where
  "prune_unexpected reg s =
     (case s of (db, rep) \<Rightarrow>
       (filter (\<lambda>(n, t). \<not> prunable reg n) db,
        rep\<lparr>actions := actions rep @ map (\<lambda>(n, t). (n, Pruned)) (filter (\<lambda>(n, t). prunable reg n) db)\<rparr>))"

text \<open>The declared default of a column, and the one the reconciler makes up for a \<open>NOT NULL\<close> column without.\<close>

definition default_text :: "column \<Rightarrow> string option" where
  "default_text d =
     (if cnotnull d
      then Some (case cdflt d of
             Some v \<Rightarrow> v
           | None \<Rightarrow> (case normalize_type_affinity (if ctype d = [] then ''TEXT'' else ctype d) of
                       INTEGER \<Rightarrow> ''0'' | REAL \<Rightarrow> ''0.0'' | _ \<Rightarrow> [CHR 0x27, CHR 0x27]))
      else cdflt d)"

text \<open>
  \<open>ALTER TABLE ADD COLUMN\<close>: the column under the name in lower case, not part of any key; \<open>literal\<close> is the value SQLite
  makes of a default.
\<close>

definition added_column :: "string \<Rightarrow> column \<Rightarrow> column" where
  "added_column name d =
     \<lparr>cname = name, ctype = (if ctype d = [] then ''TEXT'' else ctype d), cnotnull = cnotnull d,
      cdflt = default_text d, cpk = 0\<rparr>"

definition add_column :: "(string \<Rightarrow> cell) \<Rightarrow> string \<Rightarrow> column \<Rightarrow> stored \<Rightarrow> stored" where
  "add_column literal name d t =
     t\<lparr>columns := columns t @ [added_column name d],
       srows := map (\<lambda>r. r @ [(name, case default_text d of None \<Rightarrow> CNull | Some v \<Rightarrow> literal v)]) (srows t)\<rparr>"

definition on_table :: "string \<Rightarrow> (stored \<Rightarrow> stored) \<Rightarrow> db \<Rightarrow> db" where
  "on_table name f db = map (\<lambda>(n, t). (n, if n = name then f t else t)) db"

definition add_missing_columns ::
    "sqlite \<Rightarrow> (string \<Rightarrow> cell) \<Rightarrow> string \<Rightarrow> (string \<times> column) list \<Rightarrow> db \<times> report \<Rightarrow> bool \<times> db \<times> report" where
  "add_missing_columns sq literal table missing s =
     foldl (\<lambda>(added, db, rep) (c, d).
         if can_add sq table c
         then (True, on_table table (add_column literal c d) db, rep\<lparr>actions := actions rep @ [(table, Added c)]\<rparr>)
         else (added, db, rep)) (False, s) missing"

text \<open>
  \<open>_drop_extra_columns\<close>: a copy of the database beside it before each column; it is put back when the drop
  fails, and it stays there when the drop succeeds. Without a copy a failed drop is passed over.
\<close>

definition drop_column :: "string \<Rightarrow> stored \<Rightarrow> stored" where
  "drop_column c t =
     t\<lparr>columns := filter (\<lambda>k. lower (cname k) \<noteq> c) (columns t),
       indexes := filter (\<lambda>(i, cs). \<not> (c \<in> lower ` set cs \<and> \<not> is_prefix ''sqlite_autoindex'' i)) (indexes t),
       srows := map (filter (\<lambda>(k, v). lower k \<noteq> c)) (srows t)\<rparr>"

fun drop_extra_columns ::
    "sqlite \<Rightarrow> string \<Rightarrow> string list \<Rightarrow> world \<times> report \<Rightarrow> (bool \<times> world \<times> report) outcome" where
  "drop_extra_columns sq table [] (w, rep) = Inr (False, w, rep)"
| "drop_extra_columns sq table (c # cs) (w, rep) =
     (let w1 = (if can_backup sq then w\<lparr>bak := Some (disk w)\<rparr> else w) in
      if can_drop sq table c
      then (case drop_extra_columns sq table cs
              (w1\<lparr>disk := on_table table (drop_column c) (disk w1)\<rparr>, rep\<lparr>actions := actions rep @ [(table, Dropped c)]\<rparr>) of
              Inl e \<Rightarrow> Inl e | Inr (_, w', rep') \<Rightarrow> Inr (True, w', rep'))
      else if can_backup sq then Inl (Drop_Failed table c, w1\<lparr>disk := the (bak w1)\<rparr>)
      else drop_extra_columns sq table cs (w1, rep))"

text \<open>
  \<open>_compute_mismatch_plan\<close>: the drifts of a type are triples of names and types, of which the code asks for an
  attribute \<open>type\<close>: with one of them it raises.
\<close>

definition compute_mismatch_plan ::
    "string \<Rightarrow> declared \<Rightarrow> (string \<times> string \<times> string) list \<Rightarrow> stored \<Rightarrow> plan option" where
  "compute_mismatch_plan table d type_mismatches t =
     (if type_mismatches \<noteq> [] then None
      else Some \<lparr>plan_table = table, new_ddl = d, columns_to_skip = [],
        pk_column = foldl (\<lambda>pk c. if cpk c > 0 then cname c else pk) ''id'' (columns t),
        total_rows = length (srows t)\<rparr>)"

definition type_mismatches :: "(string \<times> column) list \<Rightarrow> (string \<times> column) list \<Rightarrow> (string \<times> string \<times> string) list" where
  "type_mismatches actual desired =
     concat (map (\<lambda>(n, d). case map_of actual n of
         None \<Rightarrow> []
       | Some a \<Rightarrow> if normalize_type_affinity (ctype a) \<noteq> normalize_type_affinity (ctype d)
                   then [(n, ctype a, ctype d)] else []) desired)"

definition constraint_drift :: "(string \<times> column) list \<Rightarrow> (string \<times> column) list \<Rightarrow> bool" where
  "constraint_drift actual desired \<longleftrightarrow>
     list_ex (\<lambda>(n, d). case map_of actual n of
         None \<Rightarrow> False | Some a \<Rightarrow> cnotnull a \<noteq> cnotnull d \<or> cpk a \<noteq> cpk d) desired"

text \<open>One table of \<open>_validate_structures\<close>; the result has the columns to fill.\<close>

definition validate_table ::
    "sqlite \<Rightarrow> (string \<Rightarrow> cell) \<Rightarrow> string \<times> declared \<Rightarrow> world \<times> report \<Rightarrow> (string list \<times> world \<times> report) outcome" where
  "validate_table sq literal nd s =
     (case nd of (name, d) \<Rightarrow> (case s of (w, rep) \<Rightarrow>
      (let done = (\<lambda>a. rep\<lparr>actions := actions rep @ [(name, a)]\<rparr>) in
       (case map_of (disk w) name of
          None \<Rightarrow>
            (case create_table name d (disk w) of
               None \<Rightarrow> Inl (Sql_Error name, w) | Some db \<Rightarrow> Inr ([], w\<lparr>disk := db\<rparr>, done Created))
        | Some t \<Rightarrow>
            if is_virtual t then Inr ([], w, done Unchanged)
            else (let actual = col_map (columns t);
                      desired = col_map (case dcolumns d of None \<Rightarrow> [] | Some cs \<Rightarrow> cs);
                      missing = filter (\<lambda>(c, _). map_of actual c = None) desired;
                      extra = filter (\<lambda>c. map_of desired c = None) (map fst actual);
                      tm = type_mismatches actual desired in
              if tm \<noteq> [] \<or> constraint_drift actual desired
              then (case compute_mismatch_plan name d tm t of
                      None \<Rightarrow> Inl (Attribute_Error, w)
                    | Some p \<Rightarrow> Inr ([], w, rep\<lparr>plans := plans rep @ [p],
                        actions := actions rep @ [(name, Needs_Migration)]\<rparr>))
              else (case (if missing = [] then (False, disk w, rep)
                          else add_missing_columns sq literal name missing (disk w, rep)) of
                (altered, db1, rep1) \<Rightarrow>
                  (case (if extra = [] then Inr (False, w\<lparr>disk := db1\<rparr>, rep1)
                         else drop_extra_columns sq name extra (w\<lparr>disk := db1\<rparr>, rep1)) of
                     Inl e \<Rightarrow> Inl e
                   | Inr (dropped, w2, rep2) \<Rightarrow>
                       Inr (if altered then map fst missing else [], w2,
                            if altered \<or> dropped then rep2
                            else rep2\<lparr>actions := actions rep2 @ [(name, Unchanged)]\<rparr>))))))))"

text \<open>\<open>_validate_structures\<close>: all tables of the registry, with the columns to fill by table.\<close>

fun validate_structures ::
    "sqlite \<Rightarrow> (string \<Rightarrow> cell) \<Rightarrow> registry \<Rightarrow> world \<times> report \<Rightarrow> ((string \<times> string list) list \<times> world \<times> report) outcome" where
  "validate_structures sq literal [] s = Inr ([], s)"
| "validate_structures sq literal (nd # reg) s =
     (case validate_table sq literal nd s of
        Inl e \<Rightarrow> Inl e
      | Inr (fills, s1) \<Rightarrow>
          (case validate_structures sq literal reg s1 of
             Inl e \<Rightarrow> Inl e
           | Inr (pending, s2) \<Rightarrow> Inr (if fills = [] then pending else (fst nd, fills) # pending, s2)))"

definition validate_triggers :: "string list \<Rightarrow> world \<times> report \<Rightarrow> world \<times> report" where
  "validate_triggers names s =
     foldl (\<lambda>(w, rep) n. if n \<in> set (trigs w) then (w, rep\<lparr>actions := actions rep @ [(n, Unchanged)]\<rparr>)
        else (w\<lparr>trigs := trigs w @ [n]\<rparr>, rep\<lparr>actions := actions rep @ [(n, Created)]\<rparr>)) s names"

text \<open>
  \<open>_run_pending_auto_fills\<close>: a filler of a column, which may fail (\<open>None\<close>) and is then passed over.
\<close>

definition run_fills ::
    "(string \<Rightarrow> string \<Rightarrow> (stored \<Rightarrow> stored option) option) \<Rightarrow> (string \<times> string list) list \<Rightarrow> db \<Rightarrow> db" where
  "run_fills filler pending db =
     foldl (\<lambda>db (table, cols).
        foldl (\<lambda>db c. case filler table c of
            None \<Rightarrow> db
          | Some f \<Rightarrow> on_table table (\<lambda>t. if srows t = [] then t else (case f t of None \<Rightarrow> t | Some t' \<Rightarrow> t')) db) db cols)
       db pending"

text \<open>\<open>_verify_vec0_readability\<close>: a vector table that cannot be read is removed and created empty.\<close>

definition verify_vec0 :: "sqlite \<Rightarrow> registry \<Rightarrow> db \<times> report \<Rightarrow> db \<times> report" where
  "verify_vec0 sq reg s =
     foldl (\<lambda>(db, rep) (n, d).
         (case map_of db n of
            None \<Rightarrow> (db, rep)
          | Some t \<Rightarrow>
              if \<not> is_virtual t \<or> \<not> dvec0 d \<or> can_read sq n then (db, rep)
              else (filter (\<lambda>(m, t). m \<noteq> n) db @ [(n, fresh_table d)],
                    rep\<lparr>actions := actions rep @ [(n, Recreated)]\<rparr>))) s reg"

definition reconcile ::
    "sqlite \<Rightarrow> (string \<Rightarrow> cell) \<Rightarrow> (string \<Rightarrow> string \<Rightarrow> (stored \<Rightarrow> stored option) option) \<Rightarrow> registry \<Rightarrow> string list \<Rightarrow>
     world \<Rightarrow> (world \<times> report) outcome" where
  "reconcile sq literal filler reg triggers w =
     (case prune_unexpected reg (disk w, \<lparr>actions = [], plans = []\<rparr>) of (db0, rep0) \<Rightarrow>
      (case validate_structures sq literal reg (w\<lparr>disk := db0\<rparr>, rep0) of
         Inl e \<Rightarrow> Inl e
       | Inr (pending, s1) \<Rightarrow>
           (case validate_triggers triggers s1 of (w2, rep2) \<Rightarrow>
             (case verify_vec0 sq reg (run_fills filler pending (disk w2), rep2) of (db3, rep3) \<Rightarrow>
               Inr (w2\<lparr>disk := db3\<rparr>, rep3)))))"

section \<open>Migrations\<close>

datatype migration_status = SUCCESS | ROLLED_BACK | FAILED

text \<open>\<open>ALTER TABLE a RENAME TO b\<close>.\<close>

definition rename_table :: "string \<Rightarrow> string \<Rightarrow> db \<Rightarrow> db option" where
  "rename_table a b db =
     (if map_of db a = None \<or> map_of db b \<noteq> None then None
      else Some (map (\<lambda>(n, t). (if n = a then b else n, t)) db))"

text \<open>\<open>_repopulate_from_clone\<close>: the columns of the insert with what is selected for them.\<close>

datatype source = From_Column | Constant string

definition repopulate_columns :: "plan \<Rightarrow> stored \<Rightarrow> stored \<Rightarrow> (string \<times> source) list" where
  "repopulate_columns p clone new =
     (let clone_cols = map (lower \<circ> cname) (columns clone);
          skip = map lower (columns_to_skip p);
          desired = (case dcolumns (new_ddl p) of None \<Rightarrow> [] | Some cs \<Rightarrow> cs) in
      concat (map (\<lambda>k. let c = lower (cname k) in
          if c \<in> set clone_cols \<and> c \<notin> set skip then [(c, From_Column)]
          else if c \<in> set skip
          then (case List.find (\<lambda>d. lower (cname d) = c) desired of
                  Some d \<Rightarrow> if cnotnull d
                    then [(c, Constant (case cdflt d of Some v \<Rightarrow> v
                       | None \<Rightarrow> if normalize_type_affinity (ctype d) \<in> {INTEGER, REAL, NUMERIC} then ''0''
                                 else [CHR 0x27, CHR 0x27]))]
                    else []
                | None \<Rightarrow> [])
          else []) (columns new)))"

definition lower_col :: "row \<Rightarrow> string \<Rightarrow> cell" where
  "lower_col r c = (case List.find (\<lambda>(k, v). lower k = c) r of None \<Rightarrow> CNull | Some (k, v) \<Rightarrow> v)"

definition repopulated_row :: "(string \<Rightarrow> cell) \<Rightarrow> (string \<times> source) list \<Rightarrow> column list \<Rightarrow> row \<Rightarrow> row" where
  "repopulated_row literal ins cs r =
     map (\<lambda>k. (cname k,
        case map_of ins (lower (cname k)) of
          Some From_Column \<Rightarrow> lower_col r (lower (cname k))
        | Some (Constant v) \<Rightarrow> literal v
        | None \<Rightarrow> (case cdflt k of None \<Rightarrow> CNull | Some v \<Rightarrow> literal v))) cs"

definition repopulate :: "sqlite \<Rightarrow> (string \<Rightarrow> cell) \<Rightarrow> plan \<Rightarrow> string \<Rightarrow> db \<Rightarrow> (nat \<times> db) option" where
  "repopulate sq literal p clone db =
     (case (map_of db clone, map_of db (plan_table p)) of
        (Some old, Some new) \<Rightarrow>
          (let ins = repopulate_columns p old new;
               rows = map (repopulated_row literal ins (columns new)) (srows old) in
           if ins = [] then Some (0, db)
           else if \<not> accepts sq (columns new) rows then None
           else Some (length rows, on_table (plan_table p) (\<lambda>t. t\<lparr>srows := srows t @ rows\<rparr>) db))
      | _ \<Rightarrow> None)"

text \<open>\<open>_validate_operational\<close>.\<close>

definition validate_operational :: "plan \<Rightarrow> db \<Rightarrow> bool" where
  "validate_operational p db =
     (case map_of db (plan_table p) of
        None \<Rightarrow> dcolumns (new_ddl p) = None \<or> dcolumns (new_ddl p) = Some []
      | Some t \<Rightarrow>
          list_all (\<lambda>d. case map_of (col_map (columns t)) (lower (cname d)) of
              None \<Rightarrow> False
            | Some a \<Rightarrow> normalize_type_affinity (ctype a) = normalize_type_affinity (ctype d))
            (case dcolumns (new_ddl p) of None \<Rightarrow> [] | Some cs \<Rightarrow> cs))"

definition autofill_skipped ::
    "(string \<Rightarrow> string \<Rightarrow> (stored \<Rightarrow> stored option) option) \<Rightarrow> plan \<Rightarrow> db \<Rightarrow> db" where
  "autofill_skipped filler p db =
     foldl (\<lambda>db c. case filler (plan_table p) c of
         None \<Rightarrow> db
       | Some f \<Rightarrow> on_table (plan_table p) (\<lambda>t. case f t of None \<Rightarrow> t | Some t' \<Rightarrow> t') db) db (columns_to_skip p)"

definition rollback_from_clone :: "string \<Rightarrow> string \<Rightarrow> db \<Rightarrow> db" where
  "rollback_from_clone table clone db =
     (let db1 = filter (\<lambda>(n, t). n \<noteq> table) db in
      (case rename_table clone table db1 of None \<Rightarrow> db1 | Some db2 \<Rightarrow> db2))"

text \<open>
  \<open>_migrate_operational\<close>: the table is renamed, created anew and filled from its old self; an exception anywhere
  leads to \<open>_rollback_from_clone\<close>, on whatever has been done by then.
\<close>

definition attempt_migration ::
    "sqlite \<Rightarrow> (string \<Rightarrow> cell) \<Rightarrow> (string \<Rightarrow> string \<Rightarrow> (stored \<Rightarrow> stored option) option) \<Rightarrow> string \<Rightarrow> plan \<Rightarrow> db \<Rightarrow> db + nat \<times> db" where
  "attempt_migration sq literal filler clone p db =
     (case (if can_rename sq (plan_table p) then rename_table (plan_table p) clone db else None) of
        None \<Rightarrow> Inl db
      | Some db1 \<Rightarrow>
          (case create_table (plan_table p) (new_ddl p) db1 of
             None \<Rightarrow> Inl (if map_of db1 (plan_table p) = None
                          then db1 @ [(plan_table p, (fresh_table (new_ddl p))\<lparr>indexes :=
                            takeWhile (\<lambda>(i, cs). i \<notin> index_names db1) (dindexes (new_ddl p))\<rparr>)] else db1)
           | Some db2 \<Rightarrow>
               (case repopulate sq literal p clone db2 of
                  None \<Rightarrow> Inl db2
                | Some (n, db3) \<Rightarrow>
                    (let db4 = autofill_skipped filler p db3 in
                     if validate_operational p db4 then Inr (n, db4) else Inl db4))))"

definition migrate_operational ::
    "sqlite \<Rightarrow> (string \<Rightarrow> cell) \<Rightarrow> (string \<Rightarrow> string \<Rightarrow> (stored \<Rightarrow> stored option) option) \<Rightarrow> string \<Rightarrow> plan \<Rightarrow> db \<Rightarrow>
     (migration_status \<times> nat) \<times> db" where
  "migrate_operational sq literal filler clone p db =
     (case attempt_migration sq literal filler clone p db of
        Inr (n, db') \<Rightarrow> ((SUCCESS, n), db')
      | Inl db' \<Rightarrow> ((ROLLED_BACK, 0), rollback_from_clone (plan_table p) clone db'))"

text \<open>
  \<open>execute\<close>: the plans in the order of \<open>PERSISTED_TABLES\<close>, up to the first whose status is \<open>FAILED\<close>. The clone's
  name has the table's and the time of the plan.
\<close>

fun execute_plans ::
    "sqlite \<Rightarrow> (string \<Rightarrow> cell) \<Rightarrow> (string \<Rightarrow> string \<Rightarrow> (stored \<Rightarrow> stored option) option) \<Rightarrow> string \<Rightarrow> plan list \<Rightarrow> db \<Rightarrow>
     (string \<times> migration_status) list \<times> db" where
  "execute_plans sq literal filler time [] db = ([], db)"
| "execute_plans sq literal filler time (p # ps) db =
     (case migrate_operational sq literal filler (''_migrate_'' @ plan_table p @ ''_'' @ time) p db of
        ((st, n), db') \<Rightarrow>
          if st = FAILED then ([(plan_table p, st)], db')
          else (case execute_plans sq literal filler time ps db' of
                  (recs, db2) \<Rightarrow> ((plan_table p, st) # recs, db2)))"

definition plan_order :: "string list \<Rightarrow> plan \<Rightarrow> nat" where
  "plan_order persisted p = (case List.find (\<lambda>i. persisted ! i = plan_table p) [0..<length persisted] of None \<Rightarrow> 999 | Some i \<Rightarrow> i)"

definition migrate_all ::
    "sqlite \<Rightarrow> (string \<Rightarrow> cell) \<Rightarrow> (string \<Rightarrow> string \<Rightarrow> (stored \<Rightarrow> stored option) option) \<Rightarrow> string list \<Rightarrow> string \<Rightarrow> plan list \<Rightarrow>
     db \<Rightarrow> (string \<times> migration_status) list \<times> db" where
  "migrate_all sq literal filler persisted time ps db =
     execute_plans sq literal filler time (sort_key (plan_order persisted) ps) db"

section \<open>The files at startup\<close>

datatype main_file = Absent | Corrupt | Good db
datatype bak_file = Zero_Bytes | Copy db

record files =
  main :: main_file
  backup :: "bak_file option"

datatype startup_error = Empty_Backup | Database_Corrupted | Validation_Failed error

definition restore_orphaned_backup :: "files \<Rightarrow> startup_error + files" where
  "restore_orphaned_backup f =
     (case backup f of
        None \<Rightarrow> Inr f
      | Some Zero_Bytes \<Rightarrow> Inl Empty_Backup
      | Some (Copy d) \<Rightarrow> Inr \<lparr>main = Good d, backup = None\<rparr>)"

text \<open>The declarations executed one after the other on an empty file; one that fails ends the script.\<close>

fun run_script :: "registry \<Rightarrow> db \<Rightarrow> db" where
  "run_script [] db = db"
| "run_script ((n, d) # reg) db = (case create_table n d db of None \<Rightarrow> db | Some db' \<Rightarrow> run_script reg db')"

definition initial_db :: "registry \<Rightarrow> db" where
  "initial_db reg = run_script reg []"

text \<open>
  \<open>_validate_single_db\<close>. The reconciler copies to the very file the next start looks for: \<open>sumanal.db.bak\<close> is both
  \<open>f"{db_path}.bak"\<close> and \<open>db_path.with_suffix(".db.bak")\<close>.
\<close>

definition validate_single_db ::
    "bool \<Rightarrow> sqlite \<Rightarrow> (string \<Rightarrow> cell) \<Rightarrow> (string \<Rightarrow> string \<Rightarrow> (stored \<Rightarrow> stored option) option) \<Rightarrow> registry \<Rightarrow>
     string list \<Rightarrow> string list \<Rightarrow> string \<Rightarrow> string list \<Rightarrow> files \<Rightarrow> (startup_error \<times> files) + files" where
  "validate_single_db allow_reset sq literal filler reg triggers persisted time trs f =
     (case restore_orphaned_backup f of
        Inl e \<Rightarrow> Inl (e, f)
      | Inr f1 \<Rightarrow>
          (case main f1 of
             Absent \<Rightarrow> Inr (f1\<lparr>main := Good (initial_db reg)\<rparr>)
           | Corrupt \<Rightarrow>
               if allow_reset then Inr \<lparr>main = Good (initial_db reg), backup = None\<rparr>
               else Inl (Database_Corrupted, f1)
           | Good d \<Rightarrow>
               (case reconcile sq literal filler reg triggers \<lparr>disk = d, bak = None, trigs = trs\<rparr> of
                  Inl (e, w) \<Rightarrow> Inl (Validation_Failed e, \<lparr>main = Good (disk w), backup = map_option Copy (bak w)\<rparr>)
                | Inr (w, rep) \<Rightarrow>
                    Inr \<lparr>main = Good (snd (migrate_all sq literal filler persisted time (plans rep) (disk w))),
                         backup = map_option Copy (bak w)\<rparr>)))"

section \<open>A dropped column and the next start\<close>

text \<open>
  The invariant of a reconciliation: once a column was dropped, the copy beside the database holds a table that still
  has a dropped column.
\<close>

definition col_names :: "stored \<Rightarrow> string set" where
  "col_names t = (lower \<circ> cname) ` set (columns t)"

definition bak_inv :: "world \<Rightarrow> report \<Rightarrow> bool" where
  "bak_inv w rep \<longleftrightarrow> ((\<exists>t c. (t, Dropped c) \<in> set (actions rep)) \<longrightarrow>
     (\<exists>old t c st. bak w = Some old \<and> (t, Dropped c) \<in> set (actions rep) \<and> map_of old t = Some st \<and> c \<in> col_names st))"

lemma map_of_on_table: "map_of (on_table name f db) n = (if n = name then map_option f (map_of db n) else map_of db n)"
  by (induction db) (auto simp: on_table_def)

lemma drop_column_names: "col_names (drop_column c t) = col_names t - {c}"
  by (auto simp: col_names_def drop_column_def)

lemma bak_inv_add: "bak_inv w rep \<Longrightarrow> \<forall>c. a \<noteq> Dropped c \<Longrightarrow> bak_inv (w\<lparr>disk := d\<rparr>) (rep\<lparr>actions := actions rep @ [(t, a)]\<rparr>)"
  unfolding bak_inv_def by auto

lemma bak_inv_disk: "bak_inv w rep \<Longrightarrow> bak_inv (w\<lparr>disk := d\<rparr>) rep"
  unfolding bak_inv_def by simp

lemma drop_extra_bak:
  assumes "drop_extra_columns sq table cs (w, rep) = Inr (b, w', rep')" "can_backup sq" "bak_inv w rep"
    "map_of (disk w) table = Some t" "set cs \<subseteq> col_names t" "distinct cs"
  shows "bak_inv w' rep'"
  using assms
proof (induction cs arbitrary: w rep b w' rep' t)
  case (Cons c cs)
  show ?case
  proof (cases "can_drop sq table c")
    case True
    let ?w = "w\<lparr>bak := Some (disk w), disk := on_table table (drop_column c) (disk w)\<rparr>"
    let ?rep = "rep\<lparr>actions := actions rep @ [(table, Dropped c)]\<rparr>"
    obtain b' where r: "drop_extra_columns sq table cs (?w, ?rep) = Inr (b', w', rep')"
      using Cons.prems True by (auto simp: Let_def split: sum.splits)
    have "bak_inv ?w ?rep"
      unfolding bak_inv_def using Cons.prems(4,5)
      by (intro impI exI [of _ "disk w"] exI [of _ table] exI [of _ c] exI [of _ t]) auto
    then show ?thesis
    proof (rule Cons.IH [OF r Cons.prems(2)])
      show "map_of (disk ?w) table = Some (drop_column c t)" using Cons.prems(4) by (simp add: map_of_on_table)
      show "set cs \<subseteq> col_names (drop_column c t)" using Cons.prems(5,6) by (auto simp: drop_column_names)
    qed (use Cons.prems(6) in simp)
  next
    case False
    then show ?thesis using Cons.prems by (simp add: Let_def)
  qed
qed simp

lemma add_missing_fold:
  "foldl (\<lambda>(added, db, rep) (c, d).
       if can_add sq table c
       then (True, on_table table (add_column literal c d) db, rep\<lparr>actions := actions rep @ [(table, Added c)]\<rparr>)
       else (added, db, rep)) (a, db, rep) missing =
   (a \<or> (\<exists>(c, d) \<in> set missing. can_add sq table c),
    fold (\<lambda>(c, d). on_table table (add_column literal c d)) (filter (\<lambda>(c, d). can_add sq table c) missing) db,
    rep\<lparr>actions := actions rep @ map (\<lambda>(c, d). (table, Added c)) (filter (\<lambda>(c, d). can_add sq table c) missing)\<rparr>)"
  by (induction missing arbitrary: a db rep) auto

lemma add_missing_eq:
  "add_missing_columns sq literal table missing (db, rep) =
   ((\<exists>(c, d) \<in> set missing. can_add sq table c),
    fold (\<lambda>(c, d). on_table table (add_column literal c d)) (filter (\<lambda>(c, d). can_add sq table c) missing) db,
    rep\<lparr>actions := actions rep @ map (\<lambda>(c, d). (table, Added c)) (filter (\<lambda>(c, d). can_add sq table c) missing)\<rparr>)"
  unfolding add_missing_columns_def add_missing_fold by simp

lemma option_map_id [simp]: "map_option id x = x"
  by (cases x) simp_all

lemma add_columns_fold:
  "map_of (fold (\<lambda>(c, d). on_table table (add_column literal c d)) cds db) n =
     (if n = table then map_option (fold (\<lambda>(c, d). add_column literal c d) cds) (map_of db n) else map_of db n)"
  by (induction cds arbitrary: db) (auto simp: map_of_on_table option.map_comp comp_def option.map_ident)

lemma fold_add_names: "col_names (fold (\<lambda>(c, d). add_column literal c d) cds t) = col_names t \<union> lower ` fst ` set cds"
  by (induction cds arbitrary: t) (auto simp: col_names_def add_column_def added_column_def)

text \<open>The parts of \<open>validate_table\<close> on a table that exists and is no virtual one.\<close>

definition desired_cols :: "declared \<Rightarrow> (string \<times> column) list" where
  "desired_cols d = col_map (case dcolumns d of None \<Rightarrow> [] | Some cs \<Rightarrow> cs)"

definition missing_cols :: "declared \<Rightarrow> stored \<Rightarrow> (string \<times> column) list" where
  "missing_cols d t = filter (\<lambda>(c, _). map_of (col_map (columns t)) c = None) (desired_cols d)"

definition extra_cols :: "declared \<Rightarrow> stored \<Rightarrow> string list" where
  "extra_cols d t = filter (\<lambda>c. map_of (desired_cols d) c = None) (map fst (col_map (columns t)))"

definition drifted :: "declared \<Rightarrow> stored \<Rightarrow> bool" where
  "drifted d t \<longleftrightarrow> type_mismatches (col_map (columns t)) (desired_cols d) \<noteq> [] \<or> constraint_drift (col_map (columns t)) (desired_cols d)"

definition altered_world :: "sqlite \<Rightarrow> (string \<Rightarrow> cell) \<Rightarrow> string \<Rightarrow> declared \<Rightarrow> stored \<Rightarrow> world \<times> report \<Rightarrow> world \<times> report" where
  "altered_world sq literal name d t s =
     (case s of (w, rep) \<Rightarrow>
      (let ok = filter (\<lambda>(c, _). can_add sq name c) (missing_cols d t) in
       (w\<lparr>disk := fold (\<lambda>(c, d). on_table name (add_column literal c d)) ok (disk w)\<rparr>,
        rep\<lparr>actions := actions rep @ map (\<lambda>(c, d). (name, Added c)) ok\<rparr>)))"

lemma validate_existing:
  assumes "map_of (disk w) name = Some t" "\<not> is_virtual t" "\<not> drifted d t"
  shows "validate_table sq literal (name, d) (w, rep) =
     (case altered_world sq literal name d t (w, rep) of (w1, rep1) \<Rightarrow>
      (case (if extra_cols d t = [] then Inr (False, w1, rep1) else drop_extra_columns sq name (extra_cols d t) (w1, rep1)) of
         Inl e \<Rightarrow> Inl e
       | Inr (dropped, w2, rep2) \<Rightarrow>
           (let altered = (\<exists>(c, d) \<in> set (missing_cols d t). can_add sq name c) in
            Inr (if altered then map fst (missing_cols d t) else [], w2,
              if altered \<or> dropped then rep2 else rep2\<lparr>actions := actions rep2 @ [(name, Unchanged)]\<rparr>))))"
proof -
  have nd: "type_mismatches (col_map (columns t)) (desired_cols d) = []" "\<not> constraint_drift (col_map (columns t)) (desired_cols d)"
    using assms(3) by (simp_all add: drifted_def)
  have alt: "(if missing_cols d t = [] then (False, disk w, rep)
       else add_missing_columns sq literal name (missing_cols d t) (disk w, rep)) =
     ((\<exists>(c, d) \<in> set (missing_cols d t). can_add sq name c), disk (fst (altered_world sq literal name d t (w, rep))),
      snd (altered_world sq literal name d t (w, rep)))"
    by (simp add: add_missing_eq altered_world_def Let_def case_prod_unfold)
  have w1: "fst (altered_world sq literal name d t (w, rep)) = w\<lparr>disk := disk (fst (altered_world sq literal name d t (w, rep)))\<rparr>"
    by (simp add: altered_world_def Let_def)
  show ?thesis
    unfolding validate_table_def prod.case Let_def assms(1) option.case if_not_P [OF assms(2)]
      desired_cols_def [symmetric] missing_cols_def [symmetric] extra_cols_def [symmetric] nd alt
    using w1 nd(2) by (simp add: case_prod_unfold)
qed

lemma bak_inv_weaken:
  assumes "bak_inv w rep" "bak w' = bak w" "\<exists>new. actions rep' = actions rep @ new \<and> (\<forall>t c. (t, Dropped c) \<notin> set new)"
  shows "bak_inv w' rep'"
  using assms unfolding bak_inv_def by (auto, blast)

lemma altered_bak:
  "bak (fst (altered_world sq literal name d t (w, rep))) = bak w"
  "\<exists>new. actions (snd (altered_world sq literal name d t (w, rep))) = actions rep @ new \<and> (\<forall>t c. (t, Dropped c) \<notin> set new)"
  by (auto simp: altered_world_def Let_def)

lemma altered_table:
  "map_of (disk w) name = Some t \<Longrightarrow>
   map_of (disk (fst (altered_world sq literal name d t (w, rep)))) name =
     Some (fold (\<lambda>(c, d). add_column literal c d) (filter (\<lambda>(c, _). can_add sq name c) (missing_cols d t)) t)"
  by (simp add: altered_world_def Let_def add_columns_fold)

lemma col_map_fold: "fst ` set (foldl (\<lambda>d c. AList.update (lower (cname c)) c d) d0 cs) = fst ` set d0 \<union> (lower \<circ> cname) ` set cs"
  by (induction cs arbitrary: d0) (auto simp: dom_update)

lemma col_map_keys: "fst ` set (col_map cs) = (lower \<circ> cname) ` set cs" "distinct (map fst (col_map cs))"
proof -
  show "fst ` set (col_map cs) = (lower \<circ> cname) ` set cs" by (simp add: col_map_def col_map_fold)
  have "distinct (map fst d0) \<Longrightarrow> distinct (map fst (foldl (\<lambda>d c. AList.update (lower (cname c)) c d) d0 cs))" for d0
    by (induction cs arbitrary: d0) (simp_all add: distinct_update)
  then show "distinct (map fst (col_map cs))" by (simp add: col_map_def)
qed

lemma extra_cols_in: "set (extra_cols d t) \<subseteq> col_names t" "distinct (extra_cols d t)"
  using col_map_keys [of "columns t"] by (auto simp: extra_cols_def col_names_def)

lemma validate_table_bak:
  assumes "validate_table sq literal (name, d) (w, rep) = Inr (fills, w', rep')" "can_backup sq" "bak_inv w rep"
  shows "bak_inv w' rep'"
proof (cases "map_of (disk w) name")
  case None
  then obtain db where "w' = w\<lparr>disk := db\<rparr>" "rep' = rep\<lparr>actions := actions rep @ [(name, Created)]\<rparr>"
    using assms(1) by (auto simp: validate_table_def split: option.splits)
  then show ?thesis using assms(3) by (simp add: bak_inv_add)
next
  case (Some t)
  show ?thesis
  proof (cases "is_virtual t \<or> drifted d t")
    case True
    then have "w' = w \<and> (\<exists>new. actions rep' = actions rep @ new \<and> (\<forall>t c. (t, Dropped c) \<notin> set new))"
      using assms(1) Some
      by (cases "is_virtual t")
        (auto simp: validate_table_def Let_def drifted_def desired_cols_def split: if_splits option.splits)
    then show ?thesis by (intro bak_inv_weaken [OF assms(3)]) simp_all
  next
    case False
    obtain w1 rep1 where w1: "altered_world sq literal name d t (w, rep) = (w1, rep1)"
      by (cases "altered_world sq literal name d t (w, rep)")
    have inv1: "bak_inv w1 rep1"
      using altered_bak [of sq literal name d t w rep] w1 by (intro bak_inv_weaken [OF assms(3)]) simp_all
    have tab: "\<exists>t1. map_of (disk w1) name = Some t1 \<and> col_names t \<subseteq> col_names t1"
      using altered_table [OF Some, of sq literal d rep] w1 by (auto simp: fold_add_names)
    then obtain t1 where t1: "map_of (disk w1) name = Some t1" "set (extra_cols d t) \<subseteq> col_names t1"
      using extra_cols_in(1) [of d t] by blast
    obtain dropped w2 rep2 where r: "(if extra_cols d t = [] then Inr (False, w1, rep1)
          else drop_extra_columns sq name (extra_cols d t) (w1, rep1)) = Inr (dropped, w2, rep2)"
      and out: "w' = w2" "rep' = rep2 \<or> rep' = rep2\<lparr>actions := actions rep2 @ [(name, Unchanged)]\<rparr>"
      using assms(1) False unfolding validate_existing [OF Some, of d sq literal rep, simplified] w1
      by (auto simp: validate_existing [OF Some] w1 Let_def split: sum.splits if_splits)
    have "bak_inv w2 rep2"
      using r inv1 drop_extra_bak [OF _ assms(2) inv1 t1 extra_cols_in(2)] by (auto split: if_splits)
    then show ?thesis using out by (auto intro: bak_inv_weaken)
  qed
qed

lemma validate_structures_bak:
  "validate_structures sq literal reg (w, rep) = Inr (p, w', rep') \<Longrightarrow> can_backup sq \<Longrightarrow> bak_inv w rep \<Longrightarrow> bak_inv w' rep'"
proof (induction reg arbitrary: w rep p w' rep')
  case (Cons nd reg)
  obtain name d where nd: "nd = (name, d)" by (cases nd)
  obtain fills w1 rep1 p2 where "validate_table sq literal (name, d) (w, rep) = Inr (fills, w1, rep1)"
    "validate_structures sq literal reg (w1, rep1) = Inr (p2, w', rep')"
    using Cons.prems(1) nd by (auto split: sum.splits prod.splits)
  then show ?case using Cons.IH Cons.prems(2,3) validate_table_bak by blast
qed simp

lemma triggers_result:
  "\<exists>new ts. validate_triggers names (w, rep) = (w\<lparr>trigs := ts\<rparr>, rep\<lparr>actions := actions rep @ new\<rparr>) \<and> (\<forall>t c. (t, Dropped c) \<notin> set new)"
proof (induction names arbitrary: w rep)
  case (Cons n names)
  show ?case
  proof (cases "n \<in> set (trigs w)")
    case True
    then show ?thesis using Cons.IH [of w "rep\<lparr>actions := actions rep @ [(n, Unchanged)]\<rparr>"]
      by (auto simp: validate_triggers_def)
  next
    case False
    then show ?thesis using Cons.IH [of "w\<lparr>trigs := trigs w @ [n]\<rparr>" "rep\<lparr>actions := actions rep @ [(n, Created)]\<rparr>"]
      by (auto simp: validate_triggers_def)
  qed
next
  case Nil
  show ?case by (rule exI [of _ "[]"], rule exI [of _ "trigs w"]) (simp add: validate_triggers_def)
qed

lemma vec0_actions:
  "\<exists>new. actions (snd (verify_vec0 sq reg (db, rep))) = actions rep @ new \<and> (\<forall>t c. (t, Dropped c) \<notin> set new)
     \<and> plans (snd (verify_vec0 sq reg (db, rep))) = plans rep"
proof (induction reg arbitrary: db rep)
  case (Cons nd reg)
  obtain n d where nd: "nd = (n, d)" by (cases nd)
  show ?case
  proof (cases "\<exists>t. map_of db n = Some t \<and> is_virtual t \<and> dvec0 d \<and> \<not> can_read sq n")
    case True
    then show ?thesis using nd
        Cons.IH [of "filter (\<lambda>(m, t). m \<noteq> n) db @ [(n, fresh_table d)]" "rep\<lparr>actions := actions rep @ [(n, Recreated)]\<rparr>"]
      by (auto simp: verify_vec0_def)
  next
    case False
    then show ?thesis using nd Cons.IH [of db rep] by (auto simp: verify_vec0_def split: option.split)
  qed
qed (simp add: verify_vec0_def)

text \<open>The phases of a reconciliation that returns.\<close>

lemma reconcile_phases:
  assumes "reconcile sq literal filler reg triggers w = Inr (w', rep)"
  shows "\<exists>rep0 pending w1 rep1. prune_unexpected reg (disk w, \<lparr>actions = [], plans = []\<rparr>) =
        (filter (\<lambda>(n, t). \<not> prunable reg n) (disk w), rep0)
     \<and> (\<forall>t c. (t, Dropped c) \<notin> set (actions rep0)) \<and> plans rep0 = []
     \<and> validate_structures sq literal reg (w\<lparr>disk := filter (\<lambda>(n, t). \<not> prunable reg n) (disk w)\<rparr>, rep0) = Inr (pending, w1, rep1)
     \<and> (\<exists>new. actions rep = actions rep1 @ new \<and> (\<forall>t c. (t, Dropped c) \<notin> set new)) \<and> plans rep = plans rep1
     \<and> bak w' = bak w1 \<and> disk w' = fst (verify_vec0 sq reg (run_fills filler pending (disk w1), snd (validate_triggers triggers (w1, rep1))))"
proof -
  let ?db0 = "filter (\<lambda>(n, t). \<not> prunable reg n) (disk w)"
  obtain rep0 where p: "prune_unexpected reg (disk w, \<lparr>actions = [], plans = []\<rparr>) = (?db0, rep0)"
    "\<forall>t c. (t, Dropped c) \<notin> set (actions rep0)" "plans rep0 = []"
  proof
    let ?rep0 = "\<lparr>actions = map (\<lambda>(n, t). (n, Pruned)) (filter (\<lambda>(n, t). prunable reg n) (disk w)), plans = []\<rparr>"
    show "prune_unexpected reg (disk w, \<lparr>actions = [], plans = []\<rparr>) = (?db0, ?rep0)"
      by (simp add: prune_unexpected_def)
  qed auto
  obtain pending w1 rep1 where v: "validate_structures sq literal reg (w\<lparr>disk := ?db0\<rparr>, rep0) = Inr (pending, w1, rep1)"
    using assms p(1) by (auto simp: reconcile_def split: sum.splits)
  obtain new ts where t: "validate_triggers triggers (w1, rep1) = (w1\<lparr>trigs := ts\<rparr>, rep1\<lparr>actions := actions rep1 @ new\<rparr>)"
    "\<forall>t c. (t, Dropped c) \<notin> set new" using triggers_result by blast
  let ?v = "verify_vec0 sq reg (run_fills filler pending (disk w1), rep1\<lparr>actions := actions rep1 @ new\<rparr>)"
  have out: "w' = w1\<lparr>trigs := ts, disk := fst ?v\<rparr>" "rep = snd ?v"
    using assms p(1) v t(1) by (simp_all add: reconcile_def case_prod_unfold)
  obtain new2 where "actions (snd ?v) = actions rep1 @ new @ new2" "\<forall>t c. (t, Dropped c) \<notin> set new2" "plans (snd ?v) = plans rep1"
    using vec0_actions [of sq reg "run_fills filler pending (disk w1)" "rep1\<lparr>actions := actions rep1 @ new\<rparr>"] by auto
  then show ?thesis using p v t out
    by (intro exI [of _ rep0] exI [of _ pending] exI [of _ w1] exI [of _ rep1] conjI exI [of _ "new @ new2"]) auto
qed

text \<open>
  Dropping a column makes the next start lose everything written since. When a start of the application drops an
  undeclared column, the copy it took before stays beside the database, still with such a column; and the next start,
  whatever the database holds by then, replaces it by that copy and removes the copy.
\<close>
theorem column_drop_reverts_next_start:
  assumes run: "reconcile sq literal filler reg triggers w = Inr (w', rep)" and sq: "can_backup sq"
    and dropped: "(t, Dropped c) \<in> set (actions rep)"
  shows "\<exists>old u k st. bak w' = Some old \<and> (u, Dropped k) \<in> set (actions rep) \<and> map_of old u = Some st \<and> k \<in> col_names st
    \<and> (\<lambda>later. restore_orphaned_backup \<lparr>main = Good later, backup = map_option Copy (bak w')\<rparr>) =
      (\<lambda>later. Inr \<lparr>main = Good old, backup = None\<rparr>)"
proof -
  obtain rep0 pending w1 rep1 new where ph: "\<forall>t c. (t, Dropped c) \<notin> set (actions rep0)"
    "validate_structures sq literal reg (w\<lparr>disk := filter (\<lambda>(n, t). \<not> prunable reg n) (disk w)\<rparr>, rep0) = Inr (pending, w1, rep1)"
    "actions rep = actions rep1 @ new" "\<forall>t c. (t, Dropped c) \<notin> set new" "bak w' = bak w1"
    using reconcile_phases [OF run] by blast
  have "bak_inv w1 rep1"
    using validate_structures_bak [OF ph(2) sq] ph(1) by (simp add: bak_inv_def)
  moreover have "(t, Dropped c) \<in> set (actions rep1)" using dropped ph(3,4) by auto
  ultimately obtain old u k st where "bak w' = Some old" "(u, Dropped k) \<in> set (actions rep)" "map_of old u = Some st" "k \<in> col_names st"
    unfolding bak_inv_def ph(5) [symmetric] ph(3) by auto
  then show ?thesis by (intro exI [of _ old] exI [of _ u] exI [of _ k] exI [of _ st]) (simp add: restore_orphaned_backup_def)
qed

section \<open>Conformance\<close>

text \<open>No column is missing, none is there that is not declared, and every one has the type declared.\<close>

definition conforms :: "declared \<Rightarrow> stored \<Rightarrow> bool" where
  "conforms d t \<longleftrightarrow> missing_cols d t = [] \<and> extra_cols d t = [] \<and>
     type_mismatches (col_map (columns t)) (desired_cols d) = []"

lemma map_of_col_map: "map_of (col_map cs) n = map_of (rev (map (\<lambda>c. (lower (cname c), c)) cs)) n"
proof -
  have "map_of (foldl (\<lambda>d c. AList.update (lower (cname c)) c d) d0 cs) n =
      (case map_of (rev (map (\<lambda>c. (lower (cname c), c)) cs)) n of None \<Rightarrow> map_of d0 n | Some c \<Rightarrow> Some c)" for d0
    by (induction cs arbitrary: d0) (auto simp: update_conv' map_add_def split: option.splits)
  from this [of "[]"] show ?thesis by (simp add: col_map_def split: option.splits)
qed

lemma no_mismatch_iff:
  "type_mismatches (col_map cs) (desired_cols d) = [] \<longleftrightarrow>
     (\<forall>n a c. map_of (col_map cs) n = Some a \<longrightarrow> map_of (desired_cols d) n = Some c \<longrightarrow>
        normalize_type_affinity (ctype a) = normalize_type_affinity (ctype c))"
proof -
  have "distinct (map fst (desired_cols d))" using col_map_keys(2) by (simp add: desired_cols_def)
  then show ?thesis by (auto simp: type_mismatches_def split: option.splits if_splits)
qed

lemma conforms_iff:
  "conforms d t \<longleftrightarrow> (\<forall>n. case (map_of (col_map (columns t)) n, map_of (desired_cols d) n) of
      (None, None) \<Rightarrow> True
    | (Some a, Some c) \<Rightarrow> normalize_type_affinity (ctype a) = normalize_type_affinity (ctype c)
    | _ \<Rightarrow> False)"
proof -
  let ?A = "col_map (columns t)" and ?D = "desired_cols d"
  have dD: "distinct (map fst ?D)" and dA: "distinct (map fst ?A)" using col_map_keys(2) by (simp_all add: desired_cols_def)
  have m: "missing_cols d t = [] \<longleftrightarrow> (\<forall>n. map_of ?D n \<noteq> None \<longrightarrow> map_of ?A n \<noteq> None)"
    by (auto simp: missing_cols_def filter_empty_conv map_of_eq_None_iff) force+
  have e: "extra_cols d t = [] \<longleftrightarrow> (\<forall>n. map_of ?A n \<noteq> None \<longrightarrow> map_of ?D n \<noteq> None)"
    by (auto simp: extra_cols_def filter_empty_conv map_of_eq_None_iff)
  show ?thesis unfolding conforms_def m e no_mismatch_iff by (auto split: option.splits)
qed

lemma conforms_fresh: "dcolumns d = Some ds \<Longrightarrow> conforms d (fresh_table d)"
  by (auto simp: conforms_iff fresh_table_def desired_cols_def split: option.split)

lemma drop_extra_result:
  "drop_extra_columns sq table cs (w, rep) = Inr (b, w', rep') \<Longrightarrow> can_backup sq \<Longrightarrow>
     map_of (disk w') n = (if n = table then map_option (fold drop_column cs) (map_of (disk w) table) else map_of (disk w) n)
     \<and> plans rep' = plans rep"
proof (induction cs arbitrary: w rep b)
  case (Cons c cs)
  show ?case
  proof (cases "can_drop sq table c")
    case True
    let ?w = "w\<lparr>bak := Some (disk w), disk := on_table table (drop_column c) (disk w)\<rparr>"
    let ?rep = "rep\<lparr>actions := actions rep @ [(table, Dropped c)]\<rparr>"
    obtain b' where "drop_extra_columns sq table cs (?w, ?rep) = Inr (b', w', rep')"
      using Cons.prems True by (auto simp: Let_def split: sum.splits)
    from Cons.IH [OF this Cons.prems(2)] show ?thesis
      by (simp add: map_of_on_table option.map_comp comp_def)
  next
    case False
    then show ?thesis using Cons.prems by (simp add: Let_def)
  qed
qed simp

lemma fold_drop_columns:
  "columns (fold drop_column cs t) = filter (\<lambda>k. lower (cname k) \<notin> set cs) (columns t)"
  "is_virtual (fold drop_column cs t) = is_virtual t" "length (srows (fold drop_column cs t)) = length (srows t)"
  by (induction cs arbitrary: t) (auto simp: drop_column_def intro!: filter_cong)

lemma fold_add_columns:
  "columns (fold (\<lambda>(c, d). add_column literal c d) cds t) = columns t @ map (\<lambda>(c, d). added_column c d) cds"
  "is_virtual (fold (\<lambda>(c, d). add_column literal c d) cds t) = is_virtual t"
  "length (srows (fold (\<lambda>(c, d). add_column literal c d) cds t)) = length (srows t)"
  by (induction cds arbitrary: t) (auto simp: add_column_def)

lemma added_affinity: "ctype d \<noteq> [] \<Longrightarrow> ctype (added_column n d) = ctype d" "cname (added_column n d) = n"
  by (simp_all add: added_column_def)

lemma desired_lower: "(n, c) \<in> set (desired_cols d) \<Longrightarrow> lower n = n"
  using col_map_keys(1) [of "case dcolumns d of None \<Rightarrow> [] | Some cs \<Rightarrow> cs"]
  by (force simp: desired_cols_def lower_idem)

lemma col_map_nil [simp]: "col_map [] = []"
  by (simp add: col_map_def)

lemma lookup_append: "map_of (col_map (xs @ ys)) n = (case map_of (col_map ys) n of None \<Rightarrow> map_of (col_map xs) n | Some c \<Rightarrow> Some c)"
  by (simp add: map_of_col_map map_add_def split: option.split)

lemma lookup_filter:
  "map_of (col_map (filter (\<lambda>k. lower (cname k) \<notin> E) cs)) n = (if n \<in> E then None else map_of (col_map cs) n)"
proof (induction cs rule: rev_induct)
  case (snoc c cs)
  have "map_of (col_map [c]) n = (if lower (cname c) = n then Some c else None)" by (simp add: map_of_col_map)
  then show ?case using snoc by (auto simp: lookup_append split: option.split)
qed (simp add: map_of_col_map)

lemma lookup_added:
  "distinct (map fst cds) \<Longrightarrow> \<forall>(n, c) \<in> set cds. lower n = n \<Longrightarrow>
   map_of (col_map (map (\<lambda>(c, d). added_column c d) cds)) n = map_option (added_column n) (map_of cds n)"
proof (induction cds rule: rev_induct)
  case (snoc cd cds)
  obtain m c where cd: "cd = (m, c)" by (cases cd)
  have m: "lower m = m" "m \<notin> fst ` set cds" using snoc.prems cd by auto
  have "map_of (col_map [added_column m c]) n = (if m = n then Some (added_column m c) else None)"
    using m(1) by (simp add: map_of_col_map added_column_def)
  moreover have "map_of cds m = None" using m(2) by (simp add: map_of_eq_None_iff)
  ultimately show ?case using snoc cd by (cases "m = n") (simp_all add: lookup_append map_add_def split: option.split)
qed (simp add: map_of_col_map)

text \<open>A table whose columns did not drift has the declared ones when the missing were added and the rest dropped.\<close>

lemma altered_conforms:
  assumes nd: "\<not> drifted d t" and ne: "\<forall>(n, c) \<in> set (desired_cols d). ctype c \<noteq> []"
  shows "conforms d (fold drop_column (extra_cols d t) (fold (\<lambda>(c, d). add_column literal c d) (missing_cols d t) t))"
    (is "conforms d ?t'")
proof -
  let ?A = "map_of (col_map (columns t))" and ?D = "map_of (desired_cols d)"
  have cols: "columns ?t' = filter (\<lambda>k. lower (cname k) \<notin> set (extra_cols d t)) (columns t @ map (\<lambda>(c, d). added_column c d) (missing_cols d t))"
    by (simp add: fold_drop_columns fold_add_columns)
  have D: "distinct (map fst (desired_cols d))" using col_map_keys(2) by (simp add: desired_cols_def)
  have M: "distinct (map fst (missing_cols d t))" "\<forall>(n, c) \<in> set (missing_cols d t). lower n = n"
    using D desired_lower [of _ _ d] by (auto simp: missing_cols_def distinct_map_filter)
  have extra: "n \<in> set (extra_cols d t) \<longleftrightarrow> ?A n \<noteq> None \<and> ?D n = None" for n
    by (auto simp: extra_cols_def map_of_eq_None_iff)
  have miss: "map_of (missing_cols d t) n = (if ?A n = None then ?D n else None)" for n
  proof -
    have "map_of (filter (\<lambda>(c, _). P c) xs) n = (if P n then map_of xs n else None)" for P and xs :: "(string \<times> column) list"
      by (induction xs) auto
    then show ?thesis by (simp add: missing_cols_def)
  qed
  have look: "map_of (col_map (columns ?t')) n =
      (if ?A n \<noteq> None \<and> ?D n = None then None
       else if ?A n = None then map_option (added_column n) (?D n) else ?A n)" for n
  proof -
    have "map_of (col_map (columns ?t')) n = (if n \<in> set (extra_cols d t) then None
        else (case map_option (added_column n) (if ?A n = None then ?D n else None) of None \<Rightarrow> ?A n | Some c \<Rightarrow> Some c))"
      unfolding cols lookup_filter lookup_append lookup_added [OF M] miss ..
    then show ?thesis unfolding extra by (auto split: option.split)
  qed
  have same: "normalize_type_affinity (ctype a) = normalize_type_affinity (ctype c)" if "?A n = Some a" "?D n = Some c" for n a c
    using nd that unfolding drifted_def no_mismatch_iff de_Morgan_disj not_not by blast
  have added: "ctype (added_column n c) = ctype c" if "?D n = Some c" for n c
    using ne map_of_SomeD [OF that] by (intro added_affinity) auto
  show ?thesis unfolding conforms_iff look
    by (auto split: option.splits simp: same added)
qed

lemma create_other: "create_table name d db = Some db' \<Longrightarrow> m \<noteq> name \<Longrightarrow> map_of db' m = map_of db m"
  by (auto simp: create_table_def map_add_def split: if_splits option.split)

lemma create_self: "create_table name d db = Some db' \<Longrightarrow> map_of db' name = Some (fresh_table d)"
  by (auto simp: create_table_def map_add_def split: if_splits option.split)

lemma altered_other: "m \<noteq> name \<Longrightarrow> map_of (disk (fst (altered_world sq literal name d t (w, rep)))) m = map_of (disk w) m"
  by (simp add: altered_world_def Let_def add_columns_fold)

lemma altered_plans: "plans (snd (altered_world sq literal name d t (w, rep))) = plans rep"
  by (simp add: altered_world_def Let_def)

text \<open>What \<open>validate_table\<close> does when it returns: a plan and nothing else, or the table as declared; never another table.\<close>

lemma validate_table_result:
  assumes r: "validate_table sq literal (name, d) (w, rep) = Inr (fills, w', rep')" and sq: "can_backup sq"
    and add: "\<forall>t c. can_add sq t c" and ne: "\<forall>(n, c) \<in> set (desired_cols d). ctype c \<noteq> []"
  shows "(\<forall>m. m \<noteq> name \<longrightarrow> map_of (disk w') m = map_of (disk w) m)
    \<and> (\<exists>new. plans rep' = plans rep @ new \<and> (\<forall>p \<in> set new. plan_table p = name)
        \<and> (case map_of (disk w) name of
             None \<Rightarrow> map_of (disk w') name = Some (fresh_table d)
           | Some t \<Rightarrow> (\<exists>t'. map_of (disk w') name = Some t' \<and> is_virtual t' = is_virtual t \<and> length (srows t') = length (srows t)
               \<and> (is_virtual t \<or> new \<noteq> [] \<or> conforms d t'))))"
proof (cases "map_of (disk w) name")
  case None
  then show ?thesis using r
    by (auto simp: validate_table_def dest: create_other create_self split: option.splits)
next
  case (Some t)
  show ?thesis
  proof (cases "is_virtual t \<or> drifted d t")
    case True
    then have "w' = w \<and> (\<exists>new. plans rep' = plans rep @ new \<and> (\<forall>p \<in> set new. plan_table p = name) \<and> (is_virtual t \<or> new \<noteq> []))"
      using r Some
      by (cases "is_virtual t")
        (auto simp: validate_table_def Let_def drifted_def desired_cols_def compute_mismatch_plan_def split: if_splits option.splits)
    then show ?thesis using Some by auto
  next
    case False
    obtain w1 rep1 where w1: "altered_world sq literal name d t (w, rep) = (w1, rep1)"
      by (cases "altered_world sq literal name d t (w, rep)")
    have ok: "filter (\<lambda>(c, _). can_add sq name c) (missing_cols d t) = missing_cols d t" using add by simp
    let ?t1 = "fold (\<lambda>(c, d). add_column literal c d) (missing_cols d t) t"
    have t1: "map_of (disk w1) name = Some ?t1" "plans rep1 = plans rep" "\<And>m. m \<noteq> name \<Longrightarrow> map_of (disk w1) m = map_of (disk w) m"
      using altered_table [OF Some, of sq literal d rep] altered_plans [of sq literal name d t w rep]
        altered_other [of _ name sq literal d t w rep] w1 ok by simp_all
    obtain dropped w2 rep2 where x: "(if extra_cols d t = [] then Inr (False, w1, rep1)
          else drop_extra_columns sq name (extra_cols d t) (w1, rep1)) = Inr (dropped, w2, rep2)"
      and out: "w' = w2" "plans rep' = plans rep2"
      using r False unfolding validate_existing [OF Some, of d sq literal rep, simplified] w1
      by (auto simp: validate_existing [OF Some] w1 Let_def split: sum.splits if_splits)
    let ?t2 = "fold drop_column (extra_cols d t) ?t1"
    have res: "map_of (disk w2) n = (if n = name then Some ?t2 else map_of (disk w) n) \<and> plans rep2 = plans rep" for n
    proof (cases "extra_cols d t = []")
      case True
      then have "w2 = w1" "rep2 = rep1" using x by simp_all
      then show ?thesis using True t1 by simp
    next
      case False
      then have y: "drop_extra_columns sq name (extra_cols d t) (w1, rep1) = Inr (dropped, w2, rep2)" using x by simp
      show ?thesis using drop_extra_result [OF y sq, of n] t1(1,2) t1(3) [of n] by simp
    qed
    have "conforms d ?t2" using False ne by (intro altered_conforms) simp_all
    moreover have "is_virtual ?t2 = is_virtual t" "length (srows ?t2) = length (srows t)"
      by (simp_all add: fold_drop_columns fold_add_columns)
    moreover have "map_of (disk w') name = Some ?t2" "plans rep' = plans rep @ []" using res out by simp_all
    moreover have "\<forall>m. m \<noteq> name \<longrightarrow> map_of (disk w') m = map_of (disk w) m" using res out(1) by simp
    ultimately show ?thesis unfolding Some option.case
      by (intro conjI exI [of _ "[]"] exI [of _ ?t2]) simp_all
  qed
qed

lemma validate_structures_result:
  assumes "validate_structures sq literal reg (w, rep) = Inr (p, w', rep')" "can_backup sq" "\<forall>t c. can_add sq t c"
    "distinct (map fst reg)" "\<forall>(n, d) \<in> set reg. \<forall>(n, c) \<in> set (desired_cols d). ctype c \<noteq> []"
  shows "(\<forall>m. m \<notin> fst ` set reg \<longrightarrow> map_of (disk w') m = map_of (disk w) m)
    \<and> (\<exists>new. plans rep' = plans rep @ new \<and> (\<forall>p \<in> set new. plan_table p \<in> fst ` set reg)
        \<and> (\<forall>(name, d) \<in> set reg. case map_of (disk w) name of
             None \<Rightarrow> map_of (disk w') name = Some (fresh_table d)
           | Some t \<Rightarrow> (\<exists>t'. map_of (disk w') name = Some t' \<and> is_virtual t' = is_virtual t \<and> length (srows t') = length (srows t)
               \<and> (is_virtual t \<or> name \<in> plan_table ` set new \<or> conforms d t'))))"
  using assms
proof (induction reg arbitrary: w rep p)
  case (Cons nd reg)
  obtain name d where nd: "nd = (name, d)" by (cases nd)
  obtain fills w1 rep1 p2 where r: "validate_table sq literal (name, d) (w, rep) = Inr (fills, w1, rep1)"
    "validate_structures sq literal reg (w1, rep1) = Inr (p2, w', rep')"
    using Cons.prems(1) nd by (auto split: sum.splits prod.splits)
  have ne: "\<forall>(n, c) \<in> set (desired_cols d). ctype c \<noteq> []" and ne2: "\<forall>(n, d) \<in> set reg. \<forall>(n, c) \<in> set (desired_cols d). ctype c \<noteq> []"
    using Cons.prems(5) nd by auto
  have fresh: "name \<notin> fst ` set reg" "distinct (map fst reg)" using Cons.prems(4) nd by auto
  obtain n1 where A: "\<forall>m. m \<noteq> name \<longrightarrow> map_of (disk w1) m = map_of (disk w) m" "plans rep1 = plans rep @ n1"
    "\<forall>p \<in> set n1. plan_table p = name"
    "case map_of (disk w) name of
       None \<Rightarrow> map_of (disk w1) name = Some (fresh_table d)
     | Some t \<Rightarrow> (\<exists>t'. map_of (disk w1) name = Some t' \<and> is_virtual t' = is_virtual t \<and> length (srows t') = length (srows t)
         \<and> (is_virtual t \<or> n1 \<noteq> [] \<or> conforms d t'))"
    using validate_table_result [OF r(1) Cons.prems(2,3) ne] by blast
  obtain n2 where B: "\<forall>m. m \<notin> fst ` set reg \<longrightarrow> map_of (disk w') m = map_of (disk w1) m" "plans rep' = plans rep1 @ n2"
    "\<forall>p \<in> set n2. plan_table p \<in> fst ` set reg"
    "\<forall>(name, d) \<in> set reg. case map_of (disk w1) name of
       None \<Rightarrow> map_of (disk w') name = Some (fresh_table d)
     | Some t \<Rightarrow> (\<exists>t'. map_of (disk w') name = Some t' \<and> is_virtual t' = is_virtual t \<and> length (srows t') = length (srows t)
         \<and> (is_virtual t \<or> name \<in> plan_table ` set n2 \<or> conforms d t'))"
    using Cons.IH [OF r(2) Cons.prems(2,3) fresh(2) ne2] by blast
  have same: "map_of (disk w') name = map_of (disk w1) name" using B(1) fresh(1) by blast
  have own: "case map_of (disk w) name of
       None \<Rightarrow> map_of (disk w') name = Some (fresh_table d)
     | Some t \<Rightarrow> (\<exists>t'. map_of (disk w') name = Some t' \<and> is_virtual t' = is_virtual t \<and> length (srows t') = length (srows t)
         \<and> (is_virtual t \<or> name \<in> plan_table ` set (n1 @ n2) \<or> conforms d t'))"
    using A(3,4) unfolding same by (cases n1) (auto split: option.splits)
  have rest: "case map_of (disk w) m of
       None \<Rightarrow> map_of (disk w') m = Some (fresh_table e)
     | Some t \<Rightarrow> (\<exists>t'. map_of (disk w') m = Some t' \<and> is_virtual t' = is_virtual t \<and> length (srows t') = length (srows t)
         \<and> (is_virtual t \<or> m \<in> plan_table ` set (n1 @ n2) \<or> conforms e t'))" if "(m, e) \<in> set reg" for m e
  proof -
    have "map_of (disk w1) m = map_of (disk w) m" using A(1) that fresh(1) by (metis fst_conv image_eqI)
    then show ?thesis using bspec [OF B(4) that] by (auto split: option.splits)
  qed
  show ?case
  proof (intro conjI exI [of _ "n1 @ n2"] ballI)
    show "\<forall>m. m \<notin> fst ` set (nd # reg) \<longrightarrow> map_of (disk w') m = map_of (disk w) m" using A(1) B(1) nd by auto
    show "plans rep' = plans rep @ n1 @ n2" using A(2) B(2) by simp
    show "plan_table p \<in> fst ` set (nd # reg)" if "p \<in> set (n1 @ n2)" for p using that A(3) B(3) nd by auto
    fix x assume "x \<in> set (nd # reg)"
    then show "case x of (name, d) \<Rightarrow> (case map_of (disk w) name of
             None \<Rightarrow> map_of (disk w') name = Some (fresh_table d)
           | Some t \<Rightarrow> (\<exists>t'. map_of (disk w') name = Some t' \<and> is_virtual t' = is_virtual t \<and> length (srows t') = length (srows t)
               \<and> (is_virtual t \<or> name \<in> plan_table ` set (n1 @ n2) \<or> conforms d t')))"
      using own rest nd by (cases x) auto
  qed
qed simp

text \<open>A filler changes values only.\<close>

definition fills_values :: "(string \<Rightarrow> string \<Rightarrow> (stored \<Rightarrow> stored option) option) \<Rightarrow> bool" where
  "fills_values filler \<longleftrightarrow> (\<forall>table c f t t'. filler table c = Some f \<longrightarrow> f t = Some t' \<longrightarrow>
     columns t' = columns t \<and> is_virtual t' = is_virtual t \<and> length (srows t') = length (srows t))"

definition same_shape :: "stored \<Rightarrow> stored \<Rightarrow> bool" where
  "same_shape t t' \<longleftrightarrow> columns t' = columns t \<and> is_virtual t' = is_virtual t \<and> length (srows t') = length (srows t)"

definition same_shapes :: "db \<Rightarrow> db \<Rightarrow> bool" where
  "same_shapes a b \<longleftrightarrow> (\<forall>n. rel_option same_shape (map_of a n) (map_of b n))"

lemma same_shape_refl [simp]: "same_shape t t" by (simp add: same_shape_def)

lemma same_shapes_refl [simp]: "same_shapes a a"
  by (simp add: same_shapes_def option.rel_refl)

lemma same_shapes_trans: "same_shapes a b \<Longrightarrow> same_shapes b c \<Longrightarrow> same_shapes a c"
  unfolding same_shapes_def
proof
  fix n assume ab: "\<forall>n. rel_option same_shape (map_of a n) (map_of b n)" and bc: "\<forall>n. rel_option same_shape (map_of b n) (map_of c n)"
  show "rel_option same_shape (map_of a n) (map_of c n)"
    using spec [OF ab, of n] spec [OF bc, of n]
    by (auto simp: rel_option_iff same_shape_def split: option.splits)
qed

lemma on_table_shapes: "(\<And>t. same_shape t (f t)) \<Longrightarrow> same_shapes db (on_table name f db)"
  unfolding same_shapes_def map_of_on_table
proof
  fix n assume "\<And>t. same_shape t (f t)"
  then show "rel_option same_shape (map_of db n) (if n = name then map_option f (map_of db n) else map_of db n)"
    by (cases "map_of db n") auto
qed

lemma run_fills_shapes:
  assumes "fills_values filler"
  shows "same_shapes db (run_fills filler pending db)"
proof -
  have one: "same_shapes db (case filler table c of None \<Rightarrow> db
      | Some f \<Rightarrow> on_table table (\<lambda>t. if srows t = [] then t else (case f t of None \<Rightarrow> t | Some t' \<Rightarrow> t')) db)" for table c db
    using assms by (auto simp: fills_values_def same_shape_def split: option.split intro!: on_table_shapes)
  have cols: "same_shapes db (foldl (\<lambda>db c. case filler table c of None \<Rightarrow> db
      | Some f \<Rightarrow> on_table table (\<lambda>t. if srows t = [] then t else (case f t of None \<Rightarrow> t | Some t' \<Rightarrow> t')) db) db cs)" for table cs db
    by (induction cs arbitrary: db) (auto intro: same_shapes_trans [OF one])
  have "same_shapes db (foldl (\<lambda>db (table, cs). foldl (\<lambda>db c. case filler table c of None \<Rightarrow> db
      | Some f \<Rightarrow> on_table table (\<lambda>t. if srows t = [] then t else (case f t of None \<Rightarrow> t | Some t' \<Rightarrow> t')) db) db cs) db ps)" for ps db
    by (induction ps arbitrary: db) (auto intro: same_shapes_trans [OF cols])
  then show ?thesis by (simp add: run_fills_def)
qed

lemma map_of_filter_neq: "m \<noteq> n \<Longrightarrow> map_of (filter (\<lambda>(k, t). k \<noteq> n) db) m = map_of db m"
  by (induction db) auto

lemma vec0_plain:
  "map_of db n = Some t \<Longrightarrow> \<not> is_virtual t \<Longrightarrow> map_of (fst (verify_vec0 sq reg (db, rep))) n = Some t"
proof (induction reg arbitrary: db rep)
  case (Cons nd reg)
  obtain m d where nd: "nd = (m, d)" by (cases nd)
  show ?case
  proof (cases "\<exists>u. map_of db m = Some u \<and> is_virtual u \<and> dvec0 d \<and> \<not> can_read sq m")
    case True
    then have "m \<noteq> n" using Cons.prems by auto
    then have "map_of (filter (\<lambda>(k, t). k \<noteq> m) db @ [(m, fresh_table d)]) n = Some t"
      using Cons.prems(1) map_of_filter_neq [of n m db] by (simp add: map_add_def)
    then show ?thesis using True nd Cons.prems(2)
        Cons.IH [of "filter (\<lambda>(k, t). k \<noteq> m) db @ [(m, fresh_table d)]" "rep\<lparr>actions := actions rep @ [(m, Recreated)]\<rparr>"]
      by (auto simp: verify_vec0_def)
  next
    case False
    then show ?thesis using nd Cons.IH [OF Cons.prems, of rep] by (auto simp: verify_vec0_def split: option.split)
  qed
qed (simp add: verify_vec0_def)

lemma conforms_shape: "same_shape t t' \<Longrightarrow> conforms d t' = conforms d t"
  by (simp add: conforms_iff same_shape_def)

lemma declared_not_pruned: "map_of reg n = Some d \<Longrightarrow> map_of (filter (\<lambda>(n, t). \<not> prunable reg n) db) n = map_of db n"
proof -
  assume "map_of reg n = Some d"
  then have "\<not> prunable reg n" by (simp add: prunable_def)
  then show ?thesis by (induction db) auto
qed


section \<open>A drifted type\<close>

lemma drop_extra_other:
  "drop_extra_columns sq table cs (w, rep) = Inr (b, w', rep') \<Longrightarrow> n \<noteq> table \<Longrightarrow> map_of (disk w') n = map_of (disk w) n"
proof (induction cs arbitrary: w rep b)
  case (Cons c cs)
  show ?case
  proof (cases "can_drop sq table c")
    case True
    then show ?thesis using Cons by (auto simp: Let_def map_of_on_table split: sum.splits)
  next
    case False
    then have "\<not> can_backup sq" using Cons.prems by (auto simp: Let_def)
    then show ?thesis using False Cons by (simp add: Let_def)
  qed
qed simp

lemma validate_table_other:
  assumes r: "validate_table sq literal (name, d) (w, rep) = Inr (fills, w', rep')" and m: "m \<noteq> name"
  shows "map_of (disk w') m = map_of (disk w) m"
proof (cases "map_of (disk w) name")
  case None
  then show ?thesis using r m by (auto simp: validate_table_def dest: create_other split: option.splits)
next
  case (Some t)
  show ?thesis
  proof (cases "is_virtual t \<or> drifted d t")
    case True
    then have "w' = w" using r Some
      by (cases "is_virtual t") (auto simp: validate_table_def Let_def drifted_def desired_cols_def split: if_splits option.splits)
    then show ?thesis by simp
  next
    case False
    obtain w1 rep1 where w1: "altered_world sq literal name d t (w, rep) = (w1, rep1)"
      by (cases "altered_world sq literal name d t (w, rep)")
    have "map_of (disk w1) m = map_of (disk w) m" using altered_other [OF m, of sq literal d t w rep] w1 by simp
    then show ?thesis
      using r False unfolding validate_existing [OF Some, of d sq literal rep, simplified] w1
      by (auto simp: validate_existing [OF Some] w1 Let_def drop_extra_other [OF _ m] split: sum.splits if_splits)
  qed
qed

lemma validate_structures_no_drift:
  "validate_structures sq literal reg (w, rep) = Inr (p, w', rep') \<Longrightarrow> distinct (map fst reg) \<Longrightarrow> (name, d) \<in> set reg \<Longrightarrow>
   map_of (disk w) name = Some t \<Longrightarrow> \<not> is_virtual t \<Longrightarrow> type_mismatches (col_map (columns t)) (desired_cols d) = []"
proof (induction reg arbitrary: w rep p)
  case (Cons nd reg)
  obtain m e where nd: "nd = (m, e)" by (cases nd)
  obtain fills w1 rep1 p2 where r: "validate_table sq literal (m, e) (w, rep) = Inr (fills, w1, rep1)"
    "validate_structures sq literal reg (w1, rep1) = Inr (p2, w', rep')"
    using Cons.prems(1) nd by (auto split: sum.splits prod.splits)
  show ?case
  proof (cases "(name, d) = nd")
    case True
    then show ?thesis using r(1) Cons.prems(4,5) nd
      by (auto simp: validate_table_def Let_def desired_cols_def compute_mismatch_plan_def split: if_splits option.splits)
  next
    case False
    then have mem: "(name, d) \<in> set reg" using Cons.prems(3) by simp
    then have "name \<noteq> m" using Cons.prems(2) nd by force
    then have "map_of (disk w1) name = Some t" using validate_table_other [OF r(1)] Cons.prems(4) by simp
    then show ?thesis using Cons.IH [OF r(2) _ mem] Cons.prems(2,5) by simp
  qed
qed simp

text \<open>
  A column whose type has drifted stops the application from starting: the reconciliation never returns, whatever else
  the database holds and whatever SQLite would accept. The plan for such a table is never made.
\<close>
theorem type_drift_stops_startup:
  assumes "distinct (map fst reg)" "(name, d) \<in> set reg" "map_of (disk w) name = Some t" "\<not> is_virtual t"
    and "type_mismatches (col_map (columns t)) (desired_cols d) \<noteq> []"
  shows "\<exists>e. reconcile sq literal filler reg triggers w = Inl e"
proof (cases "reconcile sq literal filler reg triggers w")
  case (Inr r)
  obtain w' rep where "r = (w', rep)" by (cases r)
  with Inr obtain rep0 pending w1 rep1 where v: "validate_structures sq literal reg
      (w\<lparr>disk := filter (\<lambda>(n, t). \<not> prunable reg n) (disk w)\<rparr>, rep0) = Inr (pending, w1, rep1)"
    using reconcile_phases by blast
  have "map_of reg name = Some d" using assms(1,2) by simp
  then have "map_of (filter (\<lambda>(n, t). \<not> prunable reg n) (disk w)) name = Some t"
    using declared_not_pruned assms(3) by metis
  then have "type_mismatches (col_map (columns t)) (desired_cols d) = []"
    using validate_structures_no_drift [OF v assms(1,2)] assms(4) by simp
  then show ?thesis using assms(5) by contradiction
qed simp

section \<open>Migrations are all or nothing, once the table is renamed\<close>

lemma rename_lookup:
  "rename_table a b db = Some db' \<Longrightarrow> a \<noteq> b \<Longrightarrow>
   map_of db' m = (if m = b then map_of db a else if m = a then None else map_of db m)"
proof -
  assume r: "rename_table a b db = Some db'" "a \<noteq> b"
  have "map_of xs b = None \<Longrightarrow> map_of (map (\<lambda>(n, t). (if n = a then b else n, t)) xs) m =
      (if m = b then map_of xs a else if m = a then None else map_of xs m)" for xs :: db
    using r(2) by (induction xs) (auto split: if_splits)
  then show ?thesis using r by (auto simp: rename_table_def split: if_splits)
qed

lemma rollback_restores:
  assumes clone: "map_of db' clone = Some old" and ne: "clone \<noteq> table"
  shows "map_of (rollback_from_clone table clone db') m =
     (if m = table then Some old else if m = clone then None else map_of db' m)"
proof -
  let ?db1 = "filter (\<lambda>(n, t). n \<noteq> table) db'"
  have f: "map_of ?db1 k = (if k = table then None else map_of db' k)" for k
    by (induction db') auto
  have "rename_table clone table ?db1 \<noteq> None" using clone ne by (simp add: rename_table_def f)
  then obtain db2 where db2: "rename_table clone table ?db1 = Some db2" by blast
  then show ?thesis using rename_lookup [OF db2 ne, of m] clone ne by (simp add: rollback_from_clone_def f)
qed

lemma shape_of: "rel_option same_shape (Some t) y \<Longrightarrow> \<exists>t'. y = Some t' \<and> same_shape t t'"
  by (cases y) simp_all

lemma migration_outcome:
  assumes old: "map_of db (plan_table p) = Some old" and clone: "map_of db clone = None" and rename: "can_rename sq (plan_table p)"
    and ne: "clone \<noteq> plan_table p" and skip: "columns_to_skip p = []"
    and run: "migrate_operational sq literal filler clone p db = ((st, n), db')"
  shows "(case st of
      SUCCESS \<Rightarrow> map_of db' clone = Some old \<and> (\<forall>m. m \<noteq> clone \<and> m \<noteq> plan_table p \<longrightarrow> map_of db' m = map_of db m)
        \<and> (\<exists>t'. map_of db' (plan_table p) = Some t' \<and> columns t' = columns (fresh_table (new_ddl p)) \<and> length (srows t') = n)
        \<and> (n = length (srows old) \<or> repopulate_columns p old (fresh_table (new_ddl p)) = [])
    | _ \<Rightarrow> st = ROLLED_BACK \<and> map_of db' = map_of db)"
proof -
  obtain db1 where db1: "rename_table (plan_table p) clone db = Some db1"
    using old clone by (simp add: rename_table_def)
  have look1: "map_of db1 m = (if m = clone then Some old else if m = plan_table p then None else map_of db m)" for m
    using rename_lookup [OF db1 ne [symmetric], of m] old by simp
  have undone: "map_of (rollback_from_clone (plan_table p) clone x) = map_of db"
    if "map_of x clone = Some old" "\<And>m. m \<noteq> clone \<Longrightarrow> m \<noteq> plan_table p \<Longrightarrow> map_of x m = map_of db m" for x
  proof
    fix m show "map_of (rollback_from_clone (plan_table p) clone x) m = map_of db m"
      using rollback_restores [OF that(1) ne, of m] that(2) [of m] old clone by simp
  qed
  have fresh_none: "map_of db1 (plan_table p) = None" using look1 [of "plan_table p"] ne by simp
  show ?thesis
  proof (cases "create_table (plan_table p) (new_ddl p) db1")
    case None
    let ?x = "db1 @ [(plan_table p, (fresh_table (new_ddl p))\<lparr>indexes :=
      takeWhile (\<lambda>(i, cs). i \<notin> index_names db1) (dindexes (new_ddl p))\<rparr>)]"
    have "st = ROLLED_BACK" "db' = rollback_from_clone (plan_table p) clone ?x"
      using run None db1 rename fresh_none by (simp_all add: migrate_operational_def attempt_migration_def)
    moreover have "map_of (rollback_from_clone (plan_table p) clone ?x) = map_of db"
      by (rule undone) (use look1 ne old in \<open>simp_all add: map_add_def split: option.split\<close>)
    ultimately show ?thesis by simp
  next
    case (Some db2)
    have look2: "map_of db2 m = (if m = plan_table p then Some (fresh_table (new_ddl p)) else if m = clone then Some old else map_of db m)" for m
      using create_self [OF Some] create_other [OF Some, of m] look1 [of m] old ne by simp
    show ?thesis
    proof (cases "repopulate sq literal p clone db2")
      case None
      have "st = ROLLED_BACK" "db' = rollback_from_clone (plan_table p) clone db2"
        using run None Some db1 rename by (simp_all add: migrate_operational_def attempt_migration_def)
      moreover have "map_of (rollback_from_clone (plan_table p) clone db2) = map_of db"
        by (rule undone) (use look2 ne in simp_all)
      ultimately show ?thesis by simp
    next
      case (Some nd)
      obtain k db3 where nd: "nd = (k, db3)" by (cases nd)
      let ?new = "fresh_table (new_ddl p)"
      let ?ins = "repopulate_columns p old ?new"
      let ?rows = "map (repopulated_row literal ?ins (columns ?new)) (srows old)"
      have rep: "(if ?ins = [] then k = 0 \<and> db3 = db2
          else k = length (srows old) \<and> db3 = on_table (plan_table p) (\<lambda>t. t\<lparr>srows := srows t @ ?rows\<rparr>) db2)"
        using Some nd look2 ne by (auto simp: repopulate_def Let_def split: if_splits)
      have fr: "srows ?new = []" by (simp add: fresh_table_def)
      have look3: "map_of db3 m = (if m = plan_table p then Some (if ?ins = [] then ?new else ?new\<lparr>srows := ?rows\<rparr>)
          else if m = clone then Some old else map_of db m)" for m
        using rep look2 [of m] look2 [of "plan_table p"] fr
        by (cases "?ins = []"; cases "m = plan_table p") (simp_all add: map_of_on_table)
      have same: "autofill_skipped filler p db3 = db3" by (simp add: autofill_skipped_def skip)
      show ?thesis
      proof (cases "validate_operational p db3")
        case True
        have "st = SUCCESS" "n = k" "db' = db3"
          using run True Some nd \<open>create_table _ _ _ = Some db2\<close> db1 rename same
          by (simp_all add: migrate_operational_def attempt_migration_def Let_def)
        then show ?thesis using look3 rep fr ne by (auto split: if_splits)
      next
        case False
        have "st = ROLLED_BACK" "db' = rollback_from_clone (plan_table p) clone db3"
          using run False Some nd \<open>create_table _ _ _ = Some db2\<close> db1 rename same
          by (simp_all add: migrate_operational_def attempt_migration_def Let_def)
        moreover have "map_of (rollback_from_clone (plan_table p) clone db3) = map_of db"
          by (rule undone) (use look3 ne in simp_all)
        ultimately show ?thesis by simp
      qed
    qed
  qed
qed


lemma renamed_indexes: "map_of db a = Some t \<Longrightarrow> rename_table a b db = Some db' \<Longrightarrow> fst ` set (indexes t) \<subseteq> index_names db'"
  by (force simp: rename_table_def index_names_def dest: map_of_SomeD split: if_splits)

text \<open>
  A table with an index is never migrated. Renaming a table keeps its indexes under their names, which the declaration of the new table
  then asks for again: the migration is rolled back at every start, whatever the rows, and the drift stays.
\<close>
theorem indexed_table_never_migrates:
  assumes "map_of db (plan_table p) = Some old" "map_of db clone = None" "can_rename sq (plan_table p)" "clone \<noteq> plan_table p"
    and "columns_to_skip p = []" and clash: "i \<in> fst ` set (indexes old)" "i \<in> fst ` set (dindexes (new_ddl p))"
  shows "fst (fst (migrate_operational sq literal filler clone p db)) = ROLLED_BACK
    \<and> map_of (snd (migrate_operational sq literal filler clone p db)) = map_of db"
proof -
  obtain st n db' where run: "migrate_operational sq literal filler clone p db = ((st, n), db')"
    by (metis surj_pair)
  obtain db1 where db1: "rename_table (plan_table p) clone db = Some db1"
    using assms(1,2) by (simp add: rename_table_def)
  have "i \<in> index_names db1" using renamed_indexes [OF assms(1) db1] clash(1) by blast
  then have "create_table (plan_table p) (new_ddl p) db1 = None" using clash(2) by (auto simp: create_table_def)
  then have "st = ROLLED_BACK" using run db1 assms(3) by (auto simp: migrate_operational_def attempt_migration_def split: if_splits)
  then show ?thesis using migration_outcome [OF assms(1-5) run] run by simp
qed

text \<open>
  A migration whose first step fails destroys the table. When the table cannot be renamed, the roll-back drops the
  table itself: it is gone, or, when a table with the clone's name is the reason, replaced by that one.
\<close>
theorem failed_rename_loses_table:
  assumes "\<not> can_rename sq (plan_table p) \<or> map_of db clone \<noteq> None" and ne: "clone \<noteq> plan_table p"
  shows "fst (fst (migrate_operational sq literal filler clone p db)) = ROLLED_BACK
    \<and> map_of (snd (migrate_operational sq literal filler clone p db)) (plan_table p) = map_of db clone"
proof -
  have r: "migrate_operational sq literal filler clone p db = ((ROLLED_BACK, 0), rollback_from_clone (plan_table p) clone db)"
    using assms(1) by (auto simp: migrate_operational_def attempt_migration_def rename_table_def)
  show ?thesis
  proof (cases "map_of db clone")
    case None
    have "map_of (filter (\<lambda>(n, t). n \<noteq> plan_table p) db) k = (if k = plan_table p then None else map_of db k)" for k
      by (induction db) auto
    then show ?thesis using None ne unfolding r
      by (simp add: rollback_from_clone_def rename_table_def)
  next
    case (Some s)
    then show ?thesis using rollback_restores [OF Some ne] unfolding r by simp
  qed
qed

text \<open>No plan's status is \<open>FAILED\<close> when it comes back: the run never stops at one.\<close>

lemma execute_never_aborts:
  "map fst (fst (execute_plans sq literal filler time ps db)) = map plan_table ps
   \<and> list_all (\<lambda>(t, st). st \<noteq> FAILED) (fst (execute_plans sq literal filler time ps db))"
proof (induction ps arbitrary: db)
  case (Cons p ps)
  let ?m = "migrate_operational sq literal filler (''_migrate_'' @ plan_table p @ ''_'' @ time) p db"
  have "fst (fst ?m) \<noteq> FAILED" by (simp add: migrate_operational_def split: sum.split prod.split)
  then show ?case using Cons [of "snd ?m"]
    by (cases ?m; cases "fst ?m") (auto split: prod.split)
qed simp

section \<open>Examples\<close>

definition permissive :: sqlite where
  "permissive = \<lparr>can_add = (\<lambda>t c. True), can_drop = (\<lambda>t c. True), can_rename = (\<lambda>t. True), accepts = (\<lambda>cs rs. True),
     can_read = (\<lambda>t. True), can_backup = True\<rparr>"

definition text_col :: "string \<Rightarrow> nat \<Rightarrow> column" where
  "text_col n k = \<lparr>cname = n, ctype = ''TEXT'', cnotnull = False, cdflt = None, cpk = k\<rparr>"

definition articles_declared :: declared where
  "articles_declared = \<lparr>dcolumns = Some [text_col ''id'' 1, text_col ''title'' 0], dindexes = [(''idx_title'', [''title''])],
     dvirtual = False, dvec0 = False\<rparr>"

text \<open>A table with a column the application no longer declares, and one with a title that was an integer.\<close>

definition stored_with :: "column list \<Rightarrow> stored" where
  "stored_with cs = \<lparr>columns = cs, indexes = [(''idx_title'', [''title''])], is_virtual = False,
     srows = [map (\<lambda>c. (cname c, CStr ''x'')) cs]\<rparr>"

definition db_with :: "column list \<Rightarrow> world" where
  "db_with cs = \<lparr>disk = [(''articles'', stored_with cs)], bak = None, trigs = []\<rparr>"

definition old_columns :: "column list" where
  "old_columns = [text_col ''id'' 1, text_col ''title'' 0, text_col ''legacy'' 0]"

definition no_filler :: "string \<Rightarrow> string \<Rightarrow> (stored \<Rightarrow> stored option) option" where
  "no_filler t c = None"

lemma demo_reconcile:
  "reconcile permissive CStr no_filler [(''articles'', articles_declared)] [] (db_with old_columns) =
     Inr (\<lparr>disk = [(''articles'', stored_with [text_col ''id'' 1, text_col ''title'' 0])],
            bak = Some [(''articles'', stored_with old_columns)], trigs = []\<rparr>,
          \<lparr>actions = [(''articles'', Dropped ''legacy'')], plans = []\<rparr>)"
  by code_simp

theorem column_drop_reverts_next_start_witness:
  "restore_orphaned_backup \<lparr>main = Good [], backup = map_option Copy (Some [(''articles'', stored_with old_columns)])\<rparr> =
     Inr \<lparr>main = Good [(''articles'', stored_with old_columns)], backup = None\<rparr>"
proof -
  have "can_backup permissive" by (simp add: permissive_def)
  from column_drop_reverts_next_start [OF demo_reconcile this, of "''articles''" "''legacy''"]
  obtain old where o: "Some [(''articles'', stored_with old_columns)] = Some old"
    "(\<lambda>later. restore_orphaned_backup \<lparr>main = Good later, backup = map_option Copy (Some [(''articles'', stored_with old_columns)])\<rparr>) =
       (\<lambda>later. Inr \<lparr>main = Good old, backup = None\<rparr>)"
    by auto
  from fun_cong [OF o(2), of "[]"] show ?thesis using o(1) by simp
qed


theorem type_drift_stops_startup_witness:
  "\<exists>e. reconcile permissive CStr no_filler [(''articles'', articles_declared)] []
     (db_with [text_col ''id'' 1, (text_col ''title'' 0)\<lparr>ctype := ''INTEGER''\<rparr>]) = Inl e"
proof (rule type_drift_stops_startup)
  show "map_of (disk (db_with [text_col ''id'' 1, (text_col ''title'' 0)\<lparr>ctype := ''INTEGER''\<rparr>])) ''articles'' =
      Some (stored_with [text_col ''id'' 1, (text_col ''title'' 0)\<lparr>ctype := ''INTEGER''\<rparr>])"
    by (simp add: db_with_def)
  show "type_mismatches (col_map (columns (stored_with [text_col ''id'' 1, (text_col ''title'' 0)\<lparr>ctype := ''INTEGER''\<rparr>])))
      (desired_cols articles_declared) \<noteq> []" by code_simp
qed (simp_all add: stored_with_def)

definition demo_plan :: plan where
  "demo_plan = \<lparr>plan_table = ''articles'', new_ddl = articles_declared, columns_to_skip = [], pk_column = ''id'', total_rows = 1\<rparr>"

theorem indexed_table_never_migrates_witness:
  "fst (fst (migrate_operational permissive CStr no_filler ''_migrate_articles_1'' demo_plan (disk (db_with old_columns)))) = ROLLED_BACK"
  using indexed_table_never_migrates [of "disk (db_with old_columns)" demo_plan "stored_with old_columns" "''_migrate_articles_1''"
      permissive "''idx_title''" CStr no_filler]
  by (simp add: demo_plan_def db_with_def permissive_def stored_with_def articles_declared_def)

theorem failed_rename_loses_table_witness:
  "map_of (snd (migrate_operational (permissive\<lparr>can_rename := \<lambda>t. False\<rparr>) CStr no_filler ''_migrate_articles_1'' demo_plan
     (disk (db_with old_columns)))) ''articles'' = None"
  using failed_rename_loses_table [of "permissive\<lparr>can_rename := \<lambda>t. False\<rparr>" demo_plan "disk (db_with old_columns)" "''_migrate_articles_1''"
      CStr no_filler]
  by (simp add: demo_plan_def db_with_def)


end
