(* ===== verification/Rate_Limits.thy ===== *)
theory Rate_Limits
  imports Prelude
begin

text \<open>
  The two sliding-window rate limiters: \<open>utils/telegram/rate_limiter.py\<close>, which reserves a time in the future and
  sleeps outside its lock, and \<open>utils/edgar_rate_limiter.py\<close>, which sleeps inside it. Time is an integer, in
  milliseconds, read from a clock that never goes back; a call is the readings it makes. The limits and periods are
  those of \<open>config.py\<close>.
\<close>

definition TELEGRAM_RATELIMIT_OVERALL_MAX :: nat where "TELEGRAM_RATELIMIT_OVERALL_MAX = 28"
definition TELEGRAM_RATELIMIT_OVERALL_PERIOD :: int where "TELEGRAM_RATELIMIT_OVERALL_PERIOD = 1000"
definition TELEGRAM_RATELIMIT_GROUP_MAX :: nat where "TELEGRAM_RATELIMIT_GROUP_MAX = 18"
definition TELEGRAM_RATELIMIT_GROUP_PERIOD :: int where "TELEGRAM_RATELIMIT_GROUP_PERIOD = 60000"
definition EDGAR_MAX_RATE :: nat where "EDGAR_MAX_RATE = 8"
definition EDGAR_TIME_PERIOD :: int where "EDGAR_TIME_PERIOD = 1000"

section \<open>The limiter of Telegram\<close>

record limiter =
  overall :: "int list"
  groups :: "(string \<times> int list) list"
  frozen_until :: int

definition new_limiter :: limiter where
  "new_limiter = \<lparr>overall = [], groups = [], frozen_until = 0\<rparr>"

definition prune :: "int \<Rightarrow> int list \<Rightarrow> int list" where
  "prune from_time ts = dropWhile (\<lambda>t. t < from_time) ts"

definition of_group :: "string \<Rightarrow> limiter \<Rightarrow> int list" where
  "of_group c l = (case map_of (groups l) c of None \<Rightarrow> [] | Some ts \<Rightarrow> ts)"

text \<open>\<open>max(target, ts[-n] + period)\<close> once there are \<open>n\<close>.\<close>

definition after_nth_last :: "nat \<Rightarrow> int \<Rightarrow> int list \<Rightarrow> int \<Rightarrow> int" where
  "after_nth_last n period ts target =
     (if n \<le> length ts then max target (ts ! (length ts - n) + period) else target)"

text \<open>\<open>wait_and_block\<close>: the slot it reserves, the time the call sleeps for, and the state with its reservation.\<close>

definition reserved_slot :: "int \<Rightarrow> int list \<Rightarrow> int list \<Rightarrow> bool \<Rightarrow> int \<Rightarrow> int" where
  "reserved_slot now ov gr is_group frozen =
     (let t1 = after_nth_last TELEGRAM_RATELIMIT_OVERALL_MAX TELEGRAM_RATELIMIT_OVERALL_PERIOD ov now;
          t2 = (if is_group then after_nth_last TELEGRAM_RATELIMIT_GROUP_MAX TELEGRAM_RATELIMIT_GROUP_PERIOD gr t1 else t1);
          t3 = (if \<not> is_group \<and> ov \<noteq> [] then max t2 (last ov + 1000) else t2) in
      (if t3 < frozen then frozen else t3))"

definition wait_and_block :: "int \<Rightarrow> string \<Rightarrow> bool \<Rightarrow> limiter \<Rightarrow> int \<times> limiter" where
  "wait_and_block now chat_id is_group l =
     (let ov = prune (now - TELEGRAM_RATELIMIT_OVERALL_PERIOD) (overall l);
          gr = prune (now - TELEGRAM_RATELIMIT_GROUP_PERIOD) (of_group chat_id l);
          target = reserved_slot now ov gr is_group (frozen_until l) in
      (target - now,
       l\<lparr>overall := ov @ [target],
         groups := (if is_group then AList.update chat_id (gr @ [target]) (groups l) else groups l)\<rparr>))"

definition record_retry_after :: "int \<Rightarrow> int \<Rightarrow> limiter \<Rightarrow> limiter" where
  "record_retry_after now retry_after l = l\<lparr>frozen_until := now + retry_after + 100\<rparr>"

record limiter_stats =
  active_overall :: nat
  tracked_groups :: nat
  frozen_remaining :: int

definition get_stats :: "int \<Rightarrow> limiter \<Rightarrow> limiter_stats" where
  "get_stats now l =
     \<lparr>active_overall = length (filter (\<lambda>t. now - TELEGRAM_RATELIMIT_OVERALL_PERIOD < t) (overall l)),
      tracked_groups = length (groups l), frozen_remaining = max 0 (frozen_until l - now)\<rparr>"

section \<open>The limiter of EDGAR\<close>

text \<open>\<open>wait\<close>: \<open>now\<close> is the reading at its start, \<open>then\<close> the one after the sleep, if there is one.\<close>

definition edgar_sleep :: "int \<Rightarrow> int list \<Rightarrow> int" where
  "edgar_sleep now ts = (if EDGAR_MAX_RATE \<le> length ts then max 0 (hd ts + EDGAR_TIME_PERIOD - now) else 0)"

definition edgar_wait :: "int \<times> int \<Rightarrow> int list \<Rightarrow> int list" where
  "edgar_wait r ts = (case r of (now, later) \<Rightarrow> prune (now - EDGAR_TIME_PERIOD) ts @ [later])"

section \<open>A log of times that are spaced\<close>

text \<open>
  What both limiters keep: with \<open>limit\<close> entries between them two entries of the log are a period apart, in the order of
  the log, which need not be the order of the times. \<open>kept\<close> is what is left of the log when a beginning of it that is
  older than a period has been thrown away.
\<close>

definition in_window :: "int \<Rightarrow> int \<Rightarrow> int list \<Rightarrow> nat" where
  "in_window a period ts = length (filter (\<lambda>t. a \<le> t \<and> t < a + period) ts)"

locale sliding_window =
  fixes limit :: nat and period :: int
  assumes limit_pos: "0 < limit" and period_pos: "0 < period"
begin

definition spaced :: "int list \<Rightarrow> bool" where
  "spaced h \<longleftrightarrow> (\<forall>i. i + limit < length h \<longrightarrow> h ! i + period \<le> h ! (i + limit))"

definition kept :: "int \<Rightarrow> int list \<Rightarrow> int list \<Rightarrow> bool" where
  "kept now h ts \<longleftrightarrow> (\<exists>d. h = d @ ts \<and> (\<forall>x \<in> set d. x < now - period))"

lemma spaced_multiple: "spaced h \<Longrightarrow> i + k * limit < length h \<Longrightarrow> h ! i + int k * period \<le> h ! (i + k * limit)"
proof (induction k)
  case (Suc k)
  have "h ! i + int k * period \<le> h ! (i + k * limit)" using Suc by simp
  moreover have "h ! (i + k * limit) + period \<le> h ! (i + k * limit + limit)"
    using Suc.prems(1) [unfolded spaced_def, rule_format, of "i + k * limit"] Suc.prems(2) by (simp add: algebra_simps)
  ultimately show ?case by (simp add: algebra_simps)
qed simp

text \<open>Of the entries that have one place modulo the limit at most one falls into a window.\<close>

lemma one_per_residue:
  assumes "spaced h" "i \<le> j" "j < length h" "i mod limit = j mod limit"
    "a \<le> h ! i" "h ! j < a + period"
  shows "i = j"
proof (rule ccontr)
  assume "i \<noteq> j"
  then have lt: "i < j" using assms(2) by simp
  obtain k where k: "j - i = k * limit"
    using assms(2,4) by (metis mod_eq_dvd_iff_nat dvd_def mult.commute)
  then have j: "j = i + k * limit" and "0 < k" using lt by (simp_all, cases k) auto
  have "h ! i + int k * period \<le> h ! j" using spaced_multiple [OF assms(1), of i k] assms(3) j by simp
  moreover have "period \<le> int k * period" using \<open>0 < k\<close> period_pos mult_right_mono [of 1 "int k" period] by simp
  ultimately show False using assms(5,6) by simp
qed

lemma window_bound: "spaced h \<Longrightarrow> in_window a period h \<le> limit"
proof -
  assume sp: "spaced h"
  let ?S = "{i. i < length h \<and> a \<le> h ! i \<and> h ! i < a + period}"
  have "inj_on (\<lambda>i. i mod limit) ?S"
  proof (rule inj_onI)
    fix i j assume "i \<in> ?S" "j \<in> ?S" "i mod limit = j mod limit"
    then show "i = j"
      using one_per_residue [OF sp, of i j a] one_per_residue [OF sp, of j i a] by (cases "i \<le> j") auto
  qed
  moreover have "(\<lambda>i. i mod limit) ` ?S \<subseteq> {..<limit}" using limit_pos by auto
  ultimately have "card ?S \<le> card {..<limit}" by (rule card_inj_on_le) simp
  then show ?thesis by (simp add: in_window_def length_filter_conv_card)
qed

lemma kept_prune: "kept earlier h ts \<Longrightarrow> earlier \<le> now \<Longrightarrow> kept now h (prune (now - period) ts)"
proof -
  assume "kept earlier h ts" and le: "earlier \<le> now"
  then obtain d where d: "h = d @ ts" "\<forall>x \<in> set d. x < earlier - period" by (auto simp: kept_def)
  let ?gone = "takeWhile (\<lambda>t. t < now - period) ts"
  have "h = (d @ ?gone) @ prune (now - period) ts" using d(1) by (simp add: prune_def)
  moreover have "\<forall>x \<in> set (d @ ?gone). x < now - period" using d(2) le by (fastforce dest: set_takeWhileD)
  ultimately show ?thesis unfolding kept_def by blast
qed

lemma reserve:
  assumes "kept now h ts" "spaced h" "now \<le> t" "limit \<le> length ts \<longrightarrow> ts ! (length ts - limit) + period \<le> t"
  shows "spaced (h @ [t]) \<and> kept now (h @ [t]) (ts @ [t])"
proof
  obtain d where d: "h = d @ ts" "\<forall>x \<in> set d. x < now - period" using assms(1) by (auto simp: kept_def)
  show "spaced (h @ [t])" unfolding spaced_def
  proof (intro allI impI)
    fix i assume i: "i + limit < length (h @ [t])"
    show "(h @ [t]) ! i + period \<le> (h @ [t]) ! (i + limit)"
    proof (cases "i + limit < length h")
      case True
      then show ?thesis using assms(2) by (simp add: spaced_def nth_append)
    next
      case False
      then have at_end: "i + limit = length h" using i by simp
      then have i_lt: "i < length h" using limit_pos by simp
      have "h ! i + period \<le> t"
      proof (cases "limit \<le> length ts")
        case True
        then have "i = length d + (length ts - limit)" using at_end d(1) by simp
        then have "h ! i = ts ! (length ts - limit)" using d(1) by (simp add: nth_append)
        then show ?thesis using assms(4) True by simp
      next
        case False
        then have "i < length d" using at_end d(1) by simp
        then have "h ! i < now - period" using d by (simp add: nth_append)
        then show ?thesis using assms(3) by simp
      qed
      then show ?thesis using at_end i_lt by (simp add: nth_append)
    qed
  qed
  show "kept now (h @ [t]) (ts @ [t])" using d unfolding kept_def by (intro exI [of _ d]) simp
qed

lemma kept_empty: "kept now [] []" "spaced []"
  by (simp_all add: kept_def spaced_def)

end

interpretation overall_window: sliding_window TELEGRAM_RATELIMIT_OVERALL_MAX TELEGRAM_RATELIMIT_OVERALL_PERIOD
  by unfold_locales (simp_all add: TELEGRAM_RATELIMIT_OVERALL_MAX_def TELEGRAM_RATELIMIT_OVERALL_PERIOD_def)

interpretation group_window: sliding_window TELEGRAM_RATELIMIT_GROUP_MAX TELEGRAM_RATELIMIT_GROUP_PERIOD
  by unfold_locales (simp_all add: TELEGRAM_RATELIMIT_GROUP_MAX_def TELEGRAM_RATELIMIT_GROUP_PERIOD_def)

interpretation edgar_window: sliding_window EDGAR_MAX_RATE EDGAR_TIME_PERIOD
  by unfold_locales (simp_all add: EDGAR_MAX_RATE_def EDGAR_TIME_PERIOD_def)

section \<open>The limits are kept\<close>

text \<open>A run: calls and answers 429, each at its time. \<open>grants\<close> are the times the calls were given.\<close>

datatype limiter_event = Call int string bool | Answer_429 int int

fun event_time :: "limiter_event \<Rightarrow> int" where
  "event_time (Call now c g) = now"
| "event_time (Answer_429 now r) = now"

fun limiter_step :: "limiter_event \<Rightarrow> limiter \<Rightarrow> limiter" where
  "limiter_step (Call now c g) l = snd (wait_and_block now c g l)"
| "limiter_step (Answer_429 now r) l = record_retry_after now r l"

fun granted :: "limiter_event \<Rightarrow> limiter \<Rightarrow> (string \<times> bool \<times> int) list" where
  "granted (Call now c g) l = [(c, g, now + fst (wait_and_block now c g l))]"
| "granted (Answer_429 now r) l = []"

fun grants :: "limiter_event list \<Rightarrow> limiter \<Rightarrow> (string \<times> bool \<times> int) list" where
  "grants [] l = []"
| "grants (e # es) l = granted e l @ grants es (limiter_step e l)"

definition times :: "(string \<times> bool \<times> int) list \<Rightarrow> int list" where
  "times h = map (\<lambda>(c, g, t). t) h"

definition times_of :: "string \<Rightarrow> (string \<times> bool \<times> int) list \<Rightarrow> int list" where
  "times_of c h = times (filter (\<lambda>(k, g, t). k = c \<and> g) h)"

lemma times_simps [simp]:
  "times [] = []" "times (h @ h') = times h @ times h'" "times [(c, g, t)] = [t]"
  "times_of c [] = []" "times_of c (h @ h') = times_of c h @ times_of c h'"
  "times_of c [(k, g, t)] = (if k = c \<and> g then [t] else [])"
  by (simp_all add: times_def times_of_def)

definition limiter_inv :: "int \<Rightarrow> (string \<times> bool \<times> int) list \<Rightarrow> limiter \<Rightarrow> bool" where
  "limiter_inv now h l \<longleftrightarrow>
     overall_window.kept now (times h) (overall l) \<and> overall_window.spaced (times h)
     \<and> (\<forall>c. group_window.kept now (times_of c h) (of_group c l) \<and> group_window.spaced (times_of c h))"

lemma after_nth_last_ge: "target \<le> after_nth_last n p ts target"
  "n \<le> length ts \<longrightarrow> ts ! (length ts - n) + p \<le> after_nth_last n p ts target"
  by (simp_all add: after_nth_last_def)

lemma of_group_update:
  "of_group c (l\<lparr>overall := ov, groups := AList.update k ts (groups l)\<rparr>) = (if c = k then ts else of_group c l)"
  by (simp add: of_group_def update_conv')

text \<open>A time that is granted lies after every bound the call computed.\<close>

lemma reserved_slot_bounds:
  "now \<le> reserved_slot now ov gr g frozen" "frozen \<le> reserved_slot now ov gr g frozen"
  "TELEGRAM_RATELIMIT_OVERALL_MAX \<le> length ov \<longrightarrow>
     ov ! (length ov - TELEGRAM_RATELIMIT_OVERALL_MAX) + TELEGRAM_RATELIMIT_OVERALL_PERIOD \<le> reserved_slot now ov gr g frozen"
  "g \<longrightarrow> TELEGRAM_RATELIMIT_GROUP_MAX \<le> length gr \<longrightarrow>
     gr ! (length gr - TELEGRAM_RATELIMIT_GROUP_MAX) + TELEGRAM_RATELIMIT_GROUP_PERIOD \<le> reserved_slot now ov gr g frozen"
proof -
  let ?t1 = "after_nth_last TELEGRAM_RATELIMIT_OVERALL_MAX TELEGRAM_RATELIMIT_OVERALL_PERIOD ov now"
  let ?t2 = "after_nth_last TELEGRAM_RATELIMIT_GROUP_MAX TELEGRAM_RATELIMIT_GROUP_PERIOD gr ?t1"
  have "?t1 \<le> ?t2" by (rule after_nth_last_ge)
  then have "?t1 \<le> reserved_slot now ov gr g frozen" "g \<Longrightarrow> ?t2 \<le> reserved_slot now ov gr g frozen"
    by (auto simp: reserved_slot_def Let_def max_def)
  then show "now \<le> reserved_slot now ov gr g frozen"
    "TELEGRAM_RATELIMIT_OVERALL_MAX \<le> length ov \<longrightarrow>
       ov ! (length ov - TELEGRAM_RATELIMIT_OVERALL_MAX) + TELEGRAM_RATELIMIT_OVERALL_PERIOD \<le> reserved_slot now ov gr g frozen"
    "g \<longrightarrow> TELEGRAM_RATELIMIT_GROUP_MAX \<le> length gr \<longrightarrow>
       gr ! (length gr - TELEGRAM_RATELIMIT_GROUP_MAX) + TELEGRAM_RATELIMIT_GROUP_PERIOD \<le> reserved_slot now ov gr g frozen"
    using after_nth_last_ge order_trans by blast+
  show "frozen \<le> reserved_slot now ov gr g frozen" by (simp add: reserved_slot_def Let_def)
qed

lemma granted_time:
  assumes "wait_and_block now c g l = (sleep, l')"
  defines "ov \<equiv> prune (now - TELEGRAM_RATELIMIT_OVERALL_PERIOD) (overall l)"
    and "gr \<equiv> prune (now - TELEGRAM_RATELIMIT_GROUP_PERIOD) (of_group c l)"
  shows "now \<le> now + sleep" "frozen_until l \<le> now + sleep"
    and "TELEGRAM_RATELIMIT_OVERALL_MAX \<le> length ov \<longrightarrow>
      ov ! (length ov - TELEGRAM_RATELIMIT_OVERALL_MAX) + TELEGRAM_RATELIMIT_OVERALL_PERIOD \<le> now + sleep"
    and "g \<longrightarrow> TELEGRAM_RATELIMIT_GROUP_MAX \<le> length gr \<longrightarrow>
      gr ! (length gr - TELEGRAM_RATELIMIT_GROUP_MAX) + TELEGRAM_RATELIMIT_GROUP_PERIOD \<le> now + sleep"
    and "overall l' = ov @ [now + sleep]"
    and "of_group k l' = (if g \<and> k = c then gr @ [now + sleep] else of_group k l)"
    and "frozen_until l' = frozen_until l"
proof -
  have r: "now + sleep = reserved_slot now ov gr g (frozen_until l)"
    and l': "l' = l\<lparr>overall := ov @ [now + sleep],
      groups := (if g then AList.update c (gr @ [now + sleep]) (groups l) else groups l)\<rparr>"
    using assms(1) unfolding wait_and_block_def Let_def ov_def gr_def by auto
  show "now \<le> now + sleep" "frozen_until l \<le> now + sleep"
    "TELEGRAM_RATELIMIT_OVERALL_MAX \<le> length ov \<longrightarrow>
      ov ! (length ov - TELEGRAM_RATELIMIT_OVERALL_MAX) + TELEGRAM_RATELIMIT_OVERALL_PERIOD \<le> now + sleep"
    "g \<longrightarrow> TELEGRAM_RATELIMIT_GROUP_MAX \<le> length gr \<longrightarrow>
      gr ! (length gr - TELEGRAM_RATELIMIT_GROUP_MAX) + TELEGRAM_RATELIMIT_GROUP_PERIOD \<le> now + sleep"
    unfolding r by (rule reserved_slot_bounds)+
  show "overall l' = ov @ [now + sleep]" "frozen_until l' = frozen_until l" by (simp_all add: l')
  show "of_group k l' = (if g \<and> k = c then gr @ [now + sleep] else of_group k l)"
    by (cases g) (simp_all add: l' of_group_update, simp add: of_group_def)
qed

lemma limiter_call:
  assumes inv: "limiter_inv earlier h l" and le: "earlier \<le> now" and call: "wait_and_block now c g l = (sleep, l')"
  shows "limiter_inv now (h @ [(c, g, now + sleep)]) l'"
proof -
  let ?ov = "prune (now - TELEGRAM_RATELIMIT_OVERALL_PERIOD) (overall l)"
  let ?gr = "prune (now - TELEGRAM_RATELIMIT_GROUP_PERIOD) (of_group c l)"
  note t = granted_time [OF call]
  have all: "overall_window.spaced (times h @ [now + sleep]) \<and>
      overall_window.kept now (times h @ [now + sleep]) (?ov @ [now + sleep])"
    by (rule overall_window.reserve [OF overall_window.kept_prune [OF _ le]]) (use inv t in \<open>auto simp: limiter_inv_def\<close>)
  have one: "group_window.spaced (times_of c h @ [now + sleep]) \<and>
      group_window.kept now (times_of c h @ [now + sleep]) (?gr @ [now + sleep])" if g
    by (rule group_window.reserve [OF group_window.kept_prune [OF _ le]]) (use inv t that in \<open>auto simp: limiter_inv_def\<close>)
  have stays: "group_window.kept now (times_of k h) (of_group k l)" for k
  proof -
    have "group_window.kept earlier (times_of k h) (of_group k l)" using inv by (simp add: limiter_inv_def)
    then show ?thesis using le by (force simp: group_window.kept_def)
  qed
  show ?thesis
    using all one stays inv t(5,6) by (auto simp: limiter_inv_def)
qed

lemma limiter_run:
  "limiter_inv earlier h l \<Longrightarrow> sorted (earlier # map event_time es) \<Longrightarrow>
     \<exists>now. limiter_inv now (h @ grants es l) (fold limiter_step es l)"
proof (induction es arbitrary: earlier h l)
  case (Cons e es)
  have step: "limiter_inv (event_time e) (h @ granted e l) (limiter_step e l)"
  proof (cases e)
    case (Call now c g)
    obtain sleep l' where "wait_and_block now c g l = (sleep, l')" by (cases "wait_and_block now c g l")
    then show ?thesis using limiter_call [OF Cons.prems(1)] Cons.prems(2) Call by simp
  next
    case (Answer_429 now r)
    have "earlier \<le> now" using Cons.prems(2) Answer_429 by simp
    then show ?thesis using Cons.prems(1) Answer_429
      by (auto simp: limiter_inv_def record_retry_after_def of_group_def overall_window.kept_def group_window.kept_def)
        (metis diff_right_mono less_le_trans)+
  qed
  then show ?case using Cons.IH [OF step] Cons.prems(2) by simp
qed auto

lemma limiter_inv_init: "limiter_inv now [] new_limiter"
  by (simp add: limiter_inv_def new_limiter_def of_group_def overall_window.kept_empty group_window.kept_empty)

text \<open>
  C13: Telegram's limits are kept. However the calls of the chats interleave and whatever answers 429 arrive, with a
  clock that does not go back: in no second are more than 28 calls let through, and in no minute more than 18 of one
  group. The reservations need not be in the order of their times: a chat that waits for its own limit does not
  make the overall limit fail.
\<close>
theorem telegram_limits_kept:
  assumes "sorted (map event_time es)"
  shows "in_window a TELEGRAM_RATELIMIT_OVERALL_PERIOD (times (grants es new_limiter)) \<le> TELEGRAM_RATELIMIT_OVERALL_MAX
    \<and> in_window a TELEGRAM_RATELIMIT_GROUP_PERIOD (times_of c (grants es new_limiter)) \<le> TELEGRAM_RATELIMIT_GROUP_MAX"
proof -
  let ?t0 = "case es of [] \<Rightarrow> 0 | e # _ \<Rightarrow> event_time e"
  have "sorted (?t0 # map event_time es)" using assms by (cases es) auto
  from limiter_run [OF limiter_inv_init this] obtain now where
    "limiter_inv now (grants es new_limiter) (fold limiter_step es new_limiter)" by auto
  then show ?thesis
    by (auto simp: limiter_inv_def intro: overall_window.window_bound group_window.window_bound)
qed

definition demo_burst :: "limiter_event list" where
  "demo_burst = map (\<lambda>i. Call 0 ''g'' True) [0..<19] @ [Answer_429 5 2000, Call 10 ''h'' False]"

theorem telegram_limits_kept_witness:
  "in_window 0 60000 (times_of ''g'' (grants demo_burst new_limiter)) = 18 \<and> map (\<lambda>(c, g, t). t) (drop 18 (grants demo_burst new_limiter)) = [60000, 61000]"
proof -
  have "sorted (map event_time demo_burst)" by code_simp
  from telegram_limits_kept [OF this, of 0 "''g''"]
  have "in_window 0 60000 (times_of ''g'' (grants demo_burst new_limiter)) \<le> 18"
    by (simp add: TELEGRAM_RATELIMIT_GROUP_PERIOD_def TELEGRAM_RATELIMIT_GROUP_MAX_def)
  moreover have "18 \<le> in_window 0 60000 (times_of ''g'' (grants demo_burst new_limiter))" by code_simp
  ultimately show ?thesis by (intro conjI, linarith, code_simp)
qed

text \<open>Nothing is let through while the limiter is frozen.\<close>

lemma frozen_waits: "frozen_until l \<le> now + fst (wait_and_block now c g l)"
  by (metis granted_time(2) prod.collapse)

section \<open>EDGAR\<close>

text \<open>The readings of one call: in order, and the sleep ends after the time that was asked for, not at it.\<close>

definition overslept :: "int \<times> int \<Rightarrow> int list \<Rightarrow> bool" where
  "overslept r ts \<longleftrightarrow> (case r of (now, later) \<Rightarrow>
     (let us = prune (now - EDGAR_TIME_PERIOD) ts in
      now \<le> later \<and> (EDGAR_MAX_RATE \<le> length us \<longrightarrow> hd us + EDGAR_TIME_PERIOD < later)))"

fun edgar_run :: "int \<Rightarrow> (int \<times> int) list \<Rightarrow> int list \<Rightarrow> bool" where
  "edgar_run earlier [] ts = True"
| "edgar_run earlier (r # rs) ts = (earlier \<le> fst r \<and> overslept r ts \<and> edgar_run (snd r) rs (edgar_wait r ts))"

definition edgar_inv :: "int \<Rightarrow> int list \<Rightarrow> int list \<Rightarrow> bool" where
  "edgar_inv now h ts \<longleftrightarrow> edgar_window.kept now h ts \<and> edgar_window.spaced h \<and>
     (length ts \<le> EDGAR_MAX_RATE \<or> length ts = Suc EDGAR_MAX_RATE \<and> hd ts + EDGAR_TIME_PERIOD < now)"

lemma edgar_step:
  assumes inv: "edgar_inv earlier h ts" and le: "earlier \<le> now" and r: "overslept (now, later) ts"
  shows "edgar_inv later (h @ [later]) (edgar_wait (now, later) ts)"
proof -
  let ?us = "prune (now - EDGAR_TIME_PERIOD) ts"
  have len: "length ?us \<le> EDGAR_MAX_RATE"
  proof (cases "length ts \<le> EDGAR_MAX_RATE")
    case True
    then show ?thesis using length_dropWhile_le [of _ ts] by (metis le_trans prune_def)
  next
    case False
    then have "length ts = Suc EDGAR_MAX_RATE" "hd ts < now - EDGAR_TIME_PERIOD" using inv le by (auto simp: edgar_inv_def)
    then show ?thesis
      by (cases ts) (auto simp: prune_def intro: le_trans [OF length_dropWhile_le])
  qed
  have k: "edgar_window.kept now h ?us" using edgar_window.kept_prune inv le by (auto simp: edgar_inv_def)
  have later: "now \<le> later" "EDGAR_MAX_RATE \<le> length ?us \<longrightarrow> hd ?us + EDGAR_TIME_PERIOD < later"
    using r by (simp_all add: overslept_def Let_def)
  have at: "EDGAR_MAX_RATE \<le> length ?us \<longrightarrow> ?us ! (length ?us - EDGAR_MAX_RATE) = hd ?us"
    using len by (cases ?us) (simp_all add: EDGAR_MAX_RATE_def)
  have "edgar_window.spaced (h @ [later]) \<and> edgar_window.kept now (h @ [later]) (?us @ [later])"
    by (rule edgar_window.reserve [OF k]) (use inv later at in \<open>auto simp: edgar_inv_def\<close>)
  moreover from this have "edgar_window.kept later (h @ [later]) (?us @ [later])"
    using later(1) by (force simp: edgar_window.kept_def)
  moreover have "length (?us @ [later]) \<le> EDGAR_MAX_RATE \<or>
      length (?us @ [later]) = Suc EDGAR_MAX_RATE \<and> hd (?us @ [later]) + EDGAR_TIME_PERIOD < later"
  proof (cases "length ?us < EDGAR_MAX_RATE")
    case False
    then have "length ?us = EDGAR_MAX_RATE" using len by simp
    moreover from this have "?us \<noteq> []" by (auto simp: EDGAR_MAX_RATE_def)
    ultimately show ?thesis using later(2) by (simp add: hd_append)
  qed simp
  ultimately show ?thesis by (simp add: edgar_inv_def edgar_wait_def)
qed

lemma edgar_runs:
  "edgar_inv earlier h ts \<Longrightarrow> edgar_run earlier rs ts \<Longrightarrow> edgar_window.spaced (h @ map snd rs)"
proof (induction rs arbitrary: earlier h ts)
  case (Cons r rs)
  obtain now later where r: "r = (now, later)" by (cases r)
  have "edgar_inv later (h @ [later]) (edgar_wait r ts)" using Cons.prems edgar_step r by auto
  then show ?case using Cons.IH [of later "h @ [later]" "edgar_wait r ts"] Cons.prems(2) r by simp
qed (simp add: edgar_inv_def)

text \<open>
  The limit of EDGAR is kept by a clock finer than a sleep: if every sleep ends after the time it was asked to
  last until, in no second more than 8 requests are made.
\<close>
theorem edgar_limit_kept:
  assumes "edgar_run t0 rs []"
  shows "in_window a EDGAR_TIME_PERIOD (map snd rs) \<le> EDGAR_MAX_RATE"
proof -
  have "edgar_inv t0 [] []" by (simp add: edgar_inv_def edgar_window.kept_empty)
  from edgar_runs [OF this assms] show ?thesis by (simp add: edgar_window.window_bound)
qed

definition demo_requests :: "(int \<times> int) list" where
  "demo_requests = [(0, 0), (1, 1), (2, 2), (3, 3), (4, 4), (5, 5), (6, 6), (7, 7), (8, 1001), (1001, 1002)]"

theorem edgar_limit_kept_witness:
  "edgar_run 0 demo_requests [] \<and> in_window 0 1000 (map snd demo_requests) = 8 \<and> in_window 3 1000 (map snd demo_requests) \<le> 8"
proof -
  have run: "edgar_run 0 demo_requests []" by code_simp
  moreover have "in_window 0 1000 (map snd demo_requests) = 8" by code_simp
  moreover have "in_window 3 1000 (map snd demo_requests) \<le> 8"
    using edgar_limit_kept [OF run, of 3] by (simp add: EDGAR_TIME_PERIOD_def EDGAR_MAX_RATE_def)
  ultimately show ?thesis by simp
qed

text \<open>
  With a coarse clock, whose readings after a sleep are exactly the time asked for, the oldest entry is not yet
  dropped by the next call, which then does not wait at all: nine requests in less than a second.
\<close>

definition coarse_requests :: "(int \<times> int) list" where
  "coarse_requests = (0, 0) # map (\<lambda>i. (990, 990)) [0..<7] @ [(990, 1000), (1000, 1000)]"

lemma edgar_exact_wakeup:
  "fold (\<lambda>r (ok, ts). (ok \<and> snd r = fst r + edgar_sleep (fst r) (prune (fst r - EDGAR_TIME_PERIOD) ts), edgar_wait r ts))
     coarse_requests (True, []) = (True, 0 # replicate 7 990 @ [1000, 1000])
   \<and> in_window 990 1000 (map snd coarse_requests) = 9"
  by code_simp

end
