(* ===== verification/Ulid.thy ===== *)
theory Ulid
  imports Prelude "HOL-Library.Word"
begin

unbundle bit_operations_syntax

text \<open>
  \<open>utils/id_generator.py\<close>, the ULIDs that name batches, jobs, articles and dead letters, and the integer key that
  \<open>tools/scraper/persistence.py\<close> and \<open>utils/vector_search.py\<close> derive from one. Times are milliseconds, the random part
  is a word of 80 bits. The readings of the clock and the random bytes are arguments of a call.
\<close>

section \<open>The generator\<close>

definition ENCODING :: string where
  "ENCODING = ''0123456789ABCDEFGHJKMNPQRSTVWXYZ''"

text \<open>\<open>_encode_128bit\<close>: \<open>n\<close> rounds of the loop, the last character first.\<close>

fun encode :: "nat \<Rightarrow> nat \<Rightarrow> string" where
  "encode 0 v = []"
| "encode (Suc n) v = encode n (drop_bit 5 v) @ [ENCODING ! (v AND 31)]"

record ulid_state =
  last_timestamp_ms :: int
  last_random :: "80 word"

definition fresh_ulid :: ulid_state where
  "fresh_ulid = \<lparr>last_timestamp_ms = -1, last_random = 0\<rparr>"

definition ulid_value :: "ulid_state \<Rightarrow> nat" where
  "ulid_value s = push_bit 80 (nat (last_timestamp_ms s)) OR unat (last_random s)"

text \<open>
  \<open>generate\<close>: \<open>reading\<close> is the first reading, \<open>readings\<close> are those of the waiting loop, which ends with the first
  one that is past the last time stamp; \<open>None\<close> if none of them is.
\<close>

record ulid_call =
  reading :: int
  readings :: "int list"
  urandom :: "80 word"

definition generate :: "ulid_call \<Rightarrow> ulid_state \<Rightarrow> ulid_state option" where
  "generate c s =
     (if last_timestamp_ms s < reading c then Some \<lparr>last_timestamp_ms = reading c, last_random = urandom c\<rparr>
      else (let r = last_random s + 1 in
        if r \<noteq> 0 then Some (s\<lparr>last_random := r\<rparr>)
        else map_option (\<lambda>t. \<lparr>last_timestamp_ms = t, last_random = urandom c\<rparr>)
               (List.find (\<lambda>t. last_timestamp_ms s < t) (reading c # readings c))))"

definition ulid_text :: "ulid_state \<Rightarrow> string" where
  "ulid_text s = encode 26 (ulid_value s)"

fun generate_all :: "ulid_call list \<Rightarrow> ulid_state \<Rightarrow> string list option" where
  "generate_all [] s = Some []"
| "generate_all (c # cs) s =
     Option.bind (generate c s) (\<lambda>s'. map_option ((#) (ulid_text s')) (generate_all cs s'))"

section \<open>The encoding keeps the order\<close>

lemma encoding_increasing: "i < j \<Longrightarrow> j < 32 \<Longrightarrow> ENCODING ! i < ENCODING ! j"
proof -
  have "sorted_wrt (<) ENCODING" by (simp add: ENCODING_def less_char_def)
  moreover have "length ENCODING = 32" by (simp add: ENCODING_def)
  ultimately show "i < j \<Longrightarrow> j < 32 \<Longrightarrow> ENCODING ! i < ENCODING ! j" by (simp add: sorted_wrt_nth_less)
qed

lemma low_bits: "(v :: nat) AND 31 = v mod 32"
proof -
  have "(31 :: nat) = mask 5" by (simp add: mask_eq_exp_minus_1)
  then have "v AND 31 = take_bit 5 v" by (simp add: take_bit_eq_mask)
  then show ?thesis by (simp add: take_bit_eq_mod)
qed

lemma encode_step: "encode (Suc n) v = encode n (v div 32) @ [ENCODING ! (v mod 32)]"
  by (simp add: low_bits drop_bit_eq_div)

declare encode.simps(2) [simp del]

lemma length_encode [simp]: "length (encode n v) = n"
  by (induction n arbitrary: v) (simp_all add: encode_step)

lemma less_append: "length xs = length ys \<Longrightarrow> (xs :: string) < ys \<Longrightarrow> xs @ us < ys @ vs"
proof (induction xs ys rule: list_induct2)
  case (Cons x xs y ys)
  then show ?case by (auto simp: Cons_less_Cons)
qed simp

lemma less_same_prefix: "(us :: string) < vs \<Longrightarrow> zs @ us < zs @ vs"
  by (induction zs) simp_all

lemma encode_mono: "v < w \<Longrightarrow> w < 32 ^ n \<Longrightarrow> encode n v < encode n w"
proof (induction n arbitrary: v w)
  case (Suc n)
  show ?case
  proof (cases "v div 32 < w div 32")
    case True
    have "w div 32 < 32 ^ n" using Suc.prems(2) by (simp add: less_mult_imp_div_less mult.commute)
    then show ?thesis using Suc.IH [OF True] by (simp add: encode_step less_append)
  next
    case False
    then have d: "v div 32 = w div 32" using Suc.prems(1) div_le_mono [of v w 32] by simp
    have "v mod 32 < w mod 32" using d Suc.prems(1) by (metis add_less_cancel_left mult_div_mod_eq)
    then have "ENCODING ! (v mod 32) < ENCODING ! (w mod 32)" by (simp add: encoding_increasing)
    then show ?thesis by (simp add: encode_step d less_same_prefix)
  qed
qed simp

lemma take_encode: "take k (encode (k + m) v) = encode k (v div 32 ^ m)"
proof (induction m arbitrary: v)
  case (Suc m)
  show ?case using Suc [of "v div 32"] by (simp add: encode_step div_mult2_eq)
qed simp

lemma ulid_value_sum: "ulid_value s = nat (last_timestamp_ms s) * 2 ^ 80 + unat (last_random s)"
proof -
  let ?t = "nat (last_timestamp_ms s)" and ?r = "unat (last_random s)"
  have "push_bit 80 ?t AND ?r = 0"
    by (rule bit_eqI) (auto simp: bit_simps dest: bit_imp_le_length)
  then have "push_bit 80 ?t OR ?r = push_bit 80 ?t + ?r" by (simp add: disjunctive_add_eq_or)
  then show ?thesis by (simp add: ulid_value_def push_bit_eq_mult)
qed

section \<open>Every ULID is after the ones before\<close>

definition stamped :: "ulid_state \<Rightarrow> bool" where
  "stamped s \<longleftrightarrow> 0 \<le> last_timestamp_ms s \<and> last_timestamp_ms s < 2 ^ 50"

definition readings_ok :: "ulid_call \<Rightarrow> bool" where
  "readings_ok c \<longleftrightarrow> list_all (\<lambda>t. 0 \<le> t \<and> t < 2 ^ 50) (reading c # readings c)"

lemma value_bound: "stamped s \<Longrightarrow> ulid_value s < 32 ^ 26"
proof -
  assume "stamped s"
  then have "nat (last_timestamp_ms s) < 2 ^ 50" by (simp add: stamped_def nat_less_iff)
  then have "Suc (nat (last_timestamp_ms s)) \<le> 2 ^ 50" by simp
  then have "Suc (nat (last_timestamp_ms s)) * 2 ^ 80 \<le> (2 ^ 50) * 2 ^ 80" by (rule mult_le_mono1)
  moreover have "unat (last_random s) < 2 ^ 80" using unsigned_less [of "last_random s", where 'a = nat] by simp
  ultimately show ?thesis by (simp add: ulid_value_sum)
qed

lemma find_SomeD: "List.find P xs = Some x \<Longrightarrow> x \<in> set xs \<and> P x"
  by (induction xs) (auto split: if_splits)

text \<open>The three ways to a new ULID: the clock has moved on, the random part is counted up, the loop waited.\<close>

lemma generate_cases:
  assumes "generate c s = Some s'"
  obtains (tick) t where "last_timestamp_ms s < t" "t \<in> set (reading c # readings c)"
      "s' = \<lparr>last_timestamp_ms = t, last_random = urandom c\<rparr>"
    | (count) "\<not> last_timestamp_ms s < reading c" "1 + last_random s \<noteq> 0" "s' = s\<lparr>last_random := 1 + last_random s\<rparr>"
  using assms by (auto simp: generate_def Let_def add.commute dest!: find_SomeD split: if_splits)

lemma unat_80: "unat (x :: 80 word) < 2 ^ 80"
  using unsigned_less [of x, where 'a = nat] by simp

lemma later_value:
  assumes "0 \<le> last_timestamp_ms s" "last_timestamp_ms s < last_timestamp_ms s'"
  shows "ulid_value s < ulid_value s'"
proof -
  have "Suc (nat (last_timestamp_ms s)) \<le> nat (last_timestamp_ms s')" using assms by linarith
  then have "Suc (nat (last_timestamp_ms s)) * 2 ^ 80 \<le> nat (last_timestamp_ms s') * 2 ^ 80" by (rule mult_le_mono1)
  then show ?thesis using unat_80 [of "last_random s"] unfolding ulid_value_sum mult_Suc by linarith
qed

lemma generate_later: "generate c s = Some s' \<Longrightarrow> stamped s \<Longrightarrow> ulid_value s < ulid_value s'"
proof (erule generate_cases)
  fix t assume "stamped s" "last_timestamp_ms s < t" "s' = \<lparr>last_timestamp_ms = t, last_random = urandom c\<rparr>"
  then show "ulid_value s < ulid_value s'" by (intro later_value) (simp_all add: stamped_def)
next
  assume "1 + last_random s \<noteq> 0" "s' = s\<lparr>last_random := 1 + last_random s\<rparr>"
  then show "ulid_value s < ulid_value s'" by (simp add: ulid_value_sum unatSuc)
qed

lemma generate_stamped: "generate c s = Some s' \<Longrightarrow> readings_ok c \<Longrightarrow> stamped s \<or> s = fresh_ulid \<Longrightarrow> stamped s'"
  by (erule generate_cases) (auto simp: stamped_def readings_ok_def list_all_iff fresh_ulid_def)

text \<open>The generator gives an answer unless the random part is exhausted and no reading gets past the last time stamp.\<close>

lemma generate_returns:
  "1 + last_random s \<noteq> 0 \<or> (\<exists>t \<in> set (reading c # readings c). last_timestamp_ms s < t) \<Longrightarrow> generate c s \<noteq> None"
  by (auto simp: generate_def Let_def add.commute) (metis find_None_iff option.exhaust)

lemma less_text: "stamped s' \<Longrightarrow> ulid_value s < ulid_value s' \<Longrightarrow> ulid_text s < ulid_text s'"
  unfolding ulid_text_def by (rule encode_mono [OF _ value_bound])

lemma generated_after:
  "generate_all cs s = Some us \<Longrightarrow> list_all readings_ok cs \<Longrightarrow> stamped s \<Longrightarrow>
     sorted_wrt (<) us \<and> (\<forall>u \<in> set us. ulid_text s < u)"
proof (induction cs arbitrary: s us)
  case (Cons c cs)
  obtain s' us' where s': "generate c s = Some s'" and us': "generate_all cs s' = Some us'" "us = ulid_text s' # us'"
    using Cons.prems(1) by (auto simp: bind_eq_Some_conv)
  have st: "stamped s'" using generate_stamped [OF s'] Cons.prems by simp
  have "ulid_text s < ulid_text s'" using less_text [OF st] generate_later [OF s'] Cons.prems by simp
  then show ?case using Cons.IH [OF us'(1) _ st] Cons.prems(2) us'(2) by (auto intro: less_trans)
qed simp

lemma encode_chars: "set (encode n v) \<subseteq> set ENCODING"
proof (induction n arbitrary: v)
  case (Suc n)
  have "ENCODING ! (v mod 32) \<in> set ENCODING" by (rule nth_mem) (simp add: ENCODING_def)
  then show ?case using Suc [of "v div 32"] by (simp add: encode_step)
qed simp

lemma generated_texts: "generate_all cs s = Some us \<Longrightarrow> length us = length cs \<and> (\<forall>u \<in> set us. \<exists>s. u = ulid_text s)"
  by (induction cs arbitrary: s us) (auto simp: bind_eq_Some_conv)

text \<open>
  C14: ULIDs are unique and sort by their age. Whatever the clock reads, standing still and going back included, and
  whatever the random bytes: the texts of the successive calls of a process are strictly increasing as
  texts, each of 26 characters of the alphabet; a call answers unless its random part is used up and its clock
  does not move on. (Until the year 37648, when the time stamp no longer fits.)
\<close>
theorem ulids_strictly_increase:
  assumes "list_all readings_ok cs" "generate_all cs fresh_ulid = Some us"
  shows "sorted_wrt (<) us \<and> length us = length cs \<and> list_all (\<lambda>u. length u = 26 \<and> set u \<subseteq> set ENCODING) us
    \<and> distinct us"
proof -
  have sorted: "sorted_wrt (<) us"
  proof (cases cs)
    case (Cons c rest)
    then obtain s' us' where s': "generate c fresh_ulid = Some s'" and us': "generate_all rest s' = Some us'" "us = ulid_text s' # us'"
      using assms(2) by (auto simp: bind_eq_Some_conv)
    have "stamped s'" using generate_stamped [OF s'] assms(1) Cons by simp
    from generated_after [OF us'(1) _ this] show ?thesis using assms(1) Cons us'(2) by simp
  qed (use assms in simp)
  then have "distinct us" by (simp add: strict_sorted_iff)
  then show ?thesis
    using sorted generated_texts [OF assms(2)] encode_chars by (fastforce simp: list_all_iff ulid_text_def)
qed

definition demo_calls_ulid :: "ulid_call list" where
  "demo_calls_ulid = [\<lparr>reading = 5, readings = [], urandom = -1\<rparr>, \<lparr>reading = 4, readings = [5, 7], urandom = 3\<rparr>,
     \<lparr>reading = 6, readings = [], urandom = 9\<rparr>]"

theorem ulids_strictly_increase_witness:
  "\<exists>us. generate_all demo_calls_ulid fresh_ulid = Some us \<and> sorted_wrt (<) us \<and> length us = 3"
proof -
  have ok: "list_all readings_ok demo_calls_ulid" by (simp add: demo_calls_ulid_def readings_ok_def)
  obtain us where us: "generate_all demo_calls_ulid fresh_ulid = Some us"
    by (simp add: demo_calls_ulid_def generate_def fresh_ulid_def)
  from ulids_strictly_increase [OF ok us] us show ?thesis by (simp add: demo_calls_ulid_def)
qed

section \<open>The integer key\<close>

text \<open>\<open>int.from_bytes(ulid[:8].encode(), "big") % 0x7FFFFFFFFFFFFFFE + 1\<close>.\<close>

definition from_bytes_big :: "string \<Rightarrow> nat" where
  "from_bytes_big s = foldl (\<lambda>n c. n * 256 + of_char c) 0 s"

definition vec_rowid_of :: "string \<Rightarrow> nat" where
  "vec_rowid_of ulid = from_bytes_big (take 8 ulid) mod 0x7FFFFFFFFFFFFFFE + 1"

lemma prefix_of_time: "take 8 (ulid_text s) = encode 8 (nat (last_timestamp_ms s) div 1024)"
proof -
  let ?t = "nat (last_timestamp_ms s)"
  have "ulid_value s div 2 ^ 90 = (?t * 2 ^ 80 + unat (last_random s)) div 2 ^ 80 div 2 ^ 10"
    by (simp add: ulid_value_sum flip: div_mult2_eq)
  also have "\<dots> = ?t div 2 ^ 10" using unat_80 [of "last_random s"] by simp
  finally have "ulid_value s div 32 ^ 18 = ?t div 1024" by simp
  then show ?thesis using take_encode [of 8 18 "ulid_value s"] by (simp add: ulid_text_def)
qed

text \<open>
  The integer key of an article, or of a memory, is no more than the second it was made in: the first eight characters
  hold the time stamp without its last ten bits, so two ULIDs of one stretch of 1024 milliseconds have the same
  key, whatever their random parts. The key is a positive integer that SQLite can hold.
\<close>
theorem rowids_shared_within_second:
  assumes "nat (last_timestamp_ms s) div 1024 = nat (last_timestamp_ms s') div 1024"
  shows "vec_rowid_of (ulid_text s) = vec_rowid_of (ulid_text s')
    \<and> 1 \<le> vec_rowid_of (ulid_text s) \<and> vec_rowid_of (ulid_text s) \<le> 2 ^ 63 - 2"
proof -
  have "from_bytes_big (take 8 (ulid_text s)) mod 0x7FFFFFFFFFFFFFFE < 0x7FFFFFFFFFFFFFFE" by (rule mod_less_divisor) simp
  then show ?thesis using assms by (simp add: vec_rowid_of_def prefix_of_time)
qed

theorem rowids_shared_within_second_witness:
  "vec_rowid_of (ulid_text \<lparr>last_timestamp_ms = 2048, last_random = 5\<rparr>) =
   vec_rowid_of (ulid_text \<lparr>last_timestamp_ms = 3071, last_random = 77\<rparr>)"
  using rowids_shared_within_second [of "\<lparr>last_timestamp_ms = 2048, last_random = 5\<rparr>"
    "\<lparr>last_timestamp_ms = 3071, last_random = 77\<rparr>"] by simp

end
