(* ===== verification/Article_Store.thy ===== *)
theory Article_Store
  imports Job_Queue Ulid "HOL-Library.Multiset"
begin

text \<open>
  \<open>database/articles/store.py\<close>, \<open>database/articles/writer.py\<close> and \<open>tools/scraper/persistence.py\<close>: the writing of a
  scraped article with its vector, over the tables and triggers of \<open>database/schemas/vector.py\<close> and, through the
  item that the transaction completes and the foreign keys to \<open>scraped_articles\<close>, the operational tables of
  \<open>Ops_Db\<close>. The writer's connection has foreign keys on (\<open>database/connection.py\<close>). Embeddings and content hashes
  come from elsewhere and are arguments; a text is what \<open>str\<close> gives.
\<close>

section \<open>Tables\<close>

datatype embedding_status = E_PENDING | E_EMBEDDED | E_SKIPPED

record article =
  art_id :: string
  vec_rowid :: int
  art_url :: string
  art_title :: "string option"
  art_conclusion :: "string option"
  art_summary :: "string option"
  metadata_json :: string
  embedded :: embedding_status
  content_hash :: string
  scraped_at :: string
  art_updated :: string

text \<open>
  The entries of the full-text table are rowid and texts; \<open>vectors\<close> is \<open>scraped_articles_vec\<close>, \<open>backups\<close>
  \<open>scraped_articles_vec_backup\<close>. \<open>articles\<close> of the operational tables lists the ids of \<open>scraped_articles\<close>.
\<close>

type_synonym fts_entry = "int \<times> string option \<times> string option \<times> string option"

record store_db =
  ops :: op_db
  art_rows :: "article list"
  fts :: "fts_entry list"
  vectors :: "int \<rightharpoonup> string"
  backups :: "int \<rightharpoonup> string \<times> string \<times> string"

definition fts_of :: "article \<Rightarrow> fts_entry" where
  "fts_of a = (vec_rowid a, art_title a, art_conclusion a, art_summary a)"

definition VOYAGE_EMBEDDING_BYTES :: nat where "VOYAGE_EMBEDDING_BYTES = 4096"

section \<open>Triggers\<close>

definition after_insert :: "article \<Rightarrow> store_db \<Rightarrow> store_db" where
  "after_insert a db = db\<lparr>fts := fts db @ [fts_of a]\<rparr>"

definition after_delete :: "article \<Rightarrow> store_db \<Rightarrow> store_db" where
  "after_delete a db = db\<lparr>fts := remove1 (fts_of a) (fts db), vectors := (vectors db)(vec_rowid a := None)\<rparr>"

definition after_update :: "article \<times> article \<Rightarrow> store_db \<Rightarrow> store_db" where
  "after_update = (\<lambda>(a, b) db.
     db\<lparr>fts := remove1 (fts_of a) (fts db) @ [fts_of b],
        vectors := (if vec_rowid a \<noteq> vec_rowid b \<or> embedded b = E_PENDING
                    then (vectors db)(vec_rowid a := None) else vectors db)\<rparr>)"

section \<open>Statements\<close>

datatype art_stmt =
    Upsert_Article "int option" article
  | Delete_Vector int
  | Insert_Vector int string
  | Mark_Embedded string
  | Put_Backup int string string string
  | Set_Hash string string
  | Delete_Article string
  | Op stmt

definition update_articles :: "(article \<Rightarrow> bool) \<Rightarrow> (article \<Rightarrow> article) \<Rightarrow> store_db \<Rightarrow> store_db" where
  "update_articles p f db =
     fold after_update (map (\<lambda>a. (a, f a)) (filter p (art_rows db)))
       (db\<lparr>art_rows := update_where p f (art_rows db)\<rparr>)"

text \<open>The \<open>DO UPDATE SET\<close> list: neither the id nor \<open>content_hash\<close> nor \<open>scraped_at\<close>.\<close>

definition do_update :: "int \<Rightarrow> article \<Rightarrow> article \<Rightarrow> article" where
  "do_update n r a = a\<lparr>vec_rowid := n, art_title := art_title r, art_conclusion := art_conclusion r,
     art_summary := art_summary r, metadata_json := metadata_json r, embedded := embedded r,
     art_updated := art_updated r\<rparr>"

text \<open>
  \<open>INSERT \<dots> ON CONFLICT(url) DO UPDATE\<close>: SQLite checks the conflict target first, so a known URL updates whatever the
  id is. \<open>ON DELETE CASCADE\<close> removes an article's backups and its entries in the batches.
\<close>

fun exec_store :: "art_stmt \<Rightarrow> store_db \<Rightarrow> string + store_db" where
  "exec_store (Upsert_Article None r) db = Inl ''NOT NULL constraint failed: scraped_articles.vec_rowid''"
| "exec_store (Upsert_Article (Some n) r) db =
     (if art_url r \<in> set (map art_url (art_rows db))
      then Inr (update_articles (\<lambda>a. art_url a = art_url r) (do_update n r) db)
      else if art_id r \<in> set (map art_id (art_rows db)) then Inl ''UNIQUE constraint failed: scraped_articles.id''
      else (let a = r\<lparr>vec_rowid := n, content_hash := []\<rparr> in
        Inr (after_insert a (db\<lparr>art_rows := art_rows db @ [a],
               ops := (ops db)\<lparr>articles := articles (ops db) @ [art_id a]\<rparr>\<rparr>))))"
| "exec_store (Delete_Vector n) db = Inr (db\<lparr>vectors := (vectors db)(n := None)\<rparr>)"
| "exec_store (Insert_Vector n e) db =
     (if length e \<noteq> VOYAGE_EMBEDDING_BYTES then Inl ''Dimension mismatch for inserted vector''
      else if vectors db n \<noteq> None then Inl ''UNIQUE constraint failed on scraped_articles_vec primary key''
      else Inr (db\<lparr>vectors := (vectors db)(n \<mapsto> e)\<rparr>))"
| "exec_store (Mark_Embedded i) db =
     Inr (update_articles (\<lambda>a. art_id a = i) (\<lambda>a. a\<lparr>embedded := E_EMBEDDED\<rparr>) db)"
| "exec_store (Put_Backup n i e at) db =
     (if i \<notin> set (map art_id (art_rows db)) then Inl ''FOREIGN KEY constraint failed''
      else Inr (db\<lparr>backups := (backups db)(n \<mapsto> (i, e, at))\<rparr>))"
| "exec_store (Set_Hash h i) db =
     Inr (update_articles (\<lambda>a. art_id a = i) (\<lambda>a. a\<lparr>content_hash := h\<rparr>) db)"
| "exec_store (Delete_Article i) db =
     Inr (fold after_delete (filter (\<lambda>a. art_id a = i) (art_rows db))
       (db\<lparr>art_rows := filter (\<lambda>a. art_id a \<noteq> i) (art_rows db),
          backups := (\<lambda>n. case backups db n of None \<Rightarrow> None | Some r \<Rightarrow> if fst r = i then None else Some r),
          ops := (ops db)\<lparr>articles := filter (\<lambda>j. j \<noteq> i) (articles (ops db)),
                     details := filter (\<lambda>d. article_id d \<noteq> i) (details (ops db))\<rparr>\<rparr>))"
| "exec_store (Op s) db = map_sum id (\<lambda>o'. db\<lparr>ops := o'\<rparr>) (exec_stmt s (ops db))"

section \<open>\<open>ArticleStore\<close>\<close>

text \<open>
  \<open>_ensure_unique_vec_rowid\<close>: ten attempts on the committed rows, each after the first with a random number;
  \<open>None\<close> is the \<open>RuntimeError\<close>.
\<close>

fun unique_vec_rowid :: "article list \<Rightarrow> string \<Rightarrow> nat \<Rightarrow> (nat \<Rightarrow> int) \<Rightarrow> int \<Rightarrow> int option" where
  "unique_vec_rowid rows i 0 rand cur = None"
| "unique_vec_rowid rows i (Suc n) rand cur =
     (case List.find (\<lambda>a. vec_rowid a = cur) rows of
        None \<Rightarrow> Some cur
      | Some a \<Rightarrow> if art_id a = i then Some cur else unique_vec_rowid rows i n rand (rand n))"

definition ensure_unique_vec_rowid :: "article list \<Rightarrow> (nat \<Rightarrow> int) \<Rightarrow> int \<Rightarrow> string \<Rightarrow> int option" where
  "ensure_unique_vec_rowid rows rand n i = unique_vec_rowid rows i 10 rand n"

text \<open>The \<open>meta\<close> dictionary; \<open>None\<close> where a key may be missing and the code falls back.\<close>

record article_meta =
  m_url :: string
  m_title :: "string option"
  m_conclusion :: "string option"
  m_summary :: "string option"
  m_metadata :: string
  m_status :: embedding_status
  m_rowid :: "int option"
  m_scraped :: "string option"
  m_updated :: "string option"

definition article_row :: "string \<Rightarrow> article_meta \<Rightarrow> string \<Rightarrow> article" where
  "article_row i m updated = \<lparr>art_id = i, vec_rowid = (case m_rowid m of Some n \<Rightarrow> n | None \<Rightarrow> 0), art_url = m_url m,
     art_title = m_title m, art_conclusion = m_conclusion m, art_summary = m_summary m,
     metadata_json = m_metadata m, embedded = m_status m, content_hash = [],
     scraped_at = (case m_scraped m of Some s \<Rightarrow> s | None \<Rightarrow> updated), art_updated = updated\<rparr>"

definition build_upsert_statements :: "string \<Rightarrow> article_meta \<Rightarrow> string \<Rightarrow> string option \<Rightarrow> art_stmt list" where
  "build_upsert_statements i m updated emb =
     Upsert_Article (m_rowid m) (article_row i m updated) #
     (case (emb, m_rowid m) of
        (Some e, Some n) \<Rightarrow>
          if e \<noteq> [] \<and> m_status m = E_EMBEDDED
          then [Delete_Vector n, Insert_Vector n e, Mark_Embedded i, Put_Backup n i e updated] else []
      | _ \<Rightarrow> [])"

text \<open>What is handed to the cloud writer.\<close>

datatype cloud_write =
    Cloud_Article "int option" article
  | Cloud_Vector int string string string
  | Cloud_Delete string

text \<open>
  \<open>upsert_article\<close>: \<open>t1\<close> and \<open>t2\<close> are its readings of the clock, \<open>hash\<close> the content hash (empty after an
  exception). The rowid is checked on the committed rows; the result is the transaction and the cloud writes, which
  \<open>upsert_writes\<close> gives for the time stamp and the final \<open>meta\<close>.
\<close>

definition upsert_writes :: "(string \<Rightarrow> article_meta \<Rightarrow> string) \<Rightarrow> string \<Rightarrow> string \<Rightarrow> string option \<Rightarrow> art_stmt list
    \<Rightarrow> string \<Rightarrow> article_meta \<Rightarrow> art_stmt list \<times> cloud_write list" where
  "upsert_writes hash t2 i emb extra updated m =
     (let h = hash i m in
      (build_upsert_statements i m updated emb @ (if h \<noteq> [] then [Set_Hash h i] else []) @ extra,
       Cloud_Article (m_rowid m) ((article_row i m updated)
         \<lparr>content_hash := h, scraped_at := (case m_scraped m of Some s \<Rightarrow> s | None \<Rightarrow> t2)\<rparr>) #
       (case (emb, m_rowid m) of
          (Some e, Some n) \<Rightarrow> if e \<noteq> [] \<and> m_status m = E_EMBEDDED then [Cloud_Vector n i e updated] else []
        | _ \<Rightarrow> [])))"

definition upsert_article :: "article list \<Rightarrow> (nat \<Rightarrow> int) \<Rightarrow> (string \<Rightarrow> article_meta \<Rightarrow> string) \<Rightarrow> string \<Rightarrow> string
    \<Rightarrow> string \<Rightarrow> article_meta \<Rightarrow> string option \<Rightarrow> art_stmt list \<Rightarrow> (art_stmt list \<times> cloud_write list) option" where
  "upsert_article rows rand hash t1 t2 i m emb extra =
     (let updated = (case m_updated m of Some u \<Rightarrow> u | None \<Rightarrow> t1);
          m1 = m\<lparr>m_updated := Some updated\<rparr>
      in case m_rowid m1 of
           None \<Rightarrow> Some (upsert_writes hash t2 i emb extra updated m1)
         | Some n \<Rightarrow> map_option (\<lambda>n'. upsert_writes hash t2 i emb extra updated (m1\<lparr>m_rowid := Some n'\<rparr>))
                       (ensure_unique_vec_rowid rows rand n i))"

definition delete_article :: "string \<Rightarrow> art_stmt list \<times> cloud_write list" where
  "delete_article i = ([Delete_Article i], [Cloud_Delete i])"

text \<open>
  \<open>enqueue_article_write\<close> checks the rowid, then \<open>upsert_article\<close> checks it again. A job's item is completed by one
  more statement, stamped by the database.
\<close>

definition item_statements :: "(string \<times> metadata \<times> string) option \<Rightarrow> string \<Rightarrow> art_stmt list" where
  "item_statements job sqlnow =
     (case job of
        Some (j, md, lm) \<Rightarrow> if j \<noteq> [] \<and> lm \<noteq> [] then [Op (UpdateItem j md I_COMPLETED lm sqlnow)] else []
      | None \<Rightarrow> [])"

definition enqueue_article_write :: "article list \<Rightarrow> (nat \<Rightarrow> int) \<Rightarrow> (nat \<Rightarrow> int) \<Rightarrow> (string \<Rightarrow> article_meta \<Rightarrow> string) \<Rightarrow> string
    \<Rightarrow> string \<Rightarrow> string \<Rightarrow> article_meta \<Rightarrow> string option \<Rightarrow> (string \<times> metadata \<times> string) option \<Rightarrow> string
    \<Rightarrow> (art_stmt list \<times> cloud_write list) option" where
  "enqueue_article_write rows rand rand2 hash t1 t2 i m emb job sqlnow =
     Option.bind (ensure_unique_vec_rowid rows rand (case m_rowid m of Some n \<Rightarrow> n | None \<Rightarrow> 0) i) (\<lambda>n.
       upsert_article rows rand2 hash t1 t2 i (m\<lparr>m_rowid := Some n, m_scraped := None, m_updated := Some t1\<rparr>) emb
         (item_statements job sqlnow))"

section \<open>The tables agree\<close>

text \<open>
  Unique ids and URLs, foreign keys, a full-text index with exactly one entry per article, and vectors of the
  right size.
\<close>

definition store_ok :: "store_db \<Rightarrow> bool" where
  "store_ok db \<longleftrightarrow> wf_db (ops db) \<and> articles (ops db) = map art_id (art_rows db)
     \<and> distinct (map art_id (art_rows db)) \<and> distinct (map art_url (art_rows db))
     \<and> mset (fts db) = mset (map fts_of (art_rows db))
     \<and> fst ` ran (backups db) \<subseteq> set (map art_id (art_rows db))
     \<and> length ` ran (vectors db) \<subseteq> {VOYAGE_EMBEDDING_BYTES}"

lemma ran_upd_None: "ran (m(x := None)) \<subseteq> ran m"
  by (auto simp: ran_def split: if_splits)

lemma ran_upd_Some: "ran (m(x \<mapsto> y)) \<subseteq> insert y (ran m)"
  by (auto simp: ran_def split: if_splits)

lemma image_subset_mono: "f ` B \<subseteq> C \<Longrightarrow> A \<subseteq> B \<Longrightarrow> f ` A \<subseteq> C"
  by blast

lemma after_update_frame [simp]:
  "art_rows (after_update ab db) = art_rows db" "ops (after_update ab db) = ops db"
  "backups (after_update ab db) = backups db" "ran (vectors (after_update ab db)) \<subseteq> ran (vectors db)"
proof -
  obtain a b where "ab = (a, b)" by fastforce
  then show "art_rows (after_update ab db) = art_rows db" "ops (after_update ab db) = ops db"
    "backups (after_update ab db) = backups db" "ran (vectors (after_update ab db)) \<subseteq> ran (vectors db)"
    by (auto simp: after_update_def ran_def split: if_splits)
qed

lemma fold_after_update_frame [simp]:
  "art_rows (fold after_update ps db) = art_rows db" "ops (fold after_update ps db) = ops db"
  "backups (fold after_update ps db) = backups db"
  by (induction ps arbitrary: db) auto

lemma fold_after_update_vectors: "ran (vectors (fold after_update ps db)) \<subseteq> ran (vectors db)"
proof (induction ps arbitrary: db)
  case (Cons ab ps)
  show ?case using Cons [of "after_update ab db"] after_update_frame(4) [of ab db] unfolding fold_simps by (rule subset_trans)
qed simp

lemma fold_after_update_fts:
  "mset (fts db) = M + mset (map (\<lambda>x. fts_of (fst x)) ps) \<Longrightarrow>
     mset (fts (fold after_update ps db)) = M + mset (map (\<lambda>x. fts_of (snd x)) ps)"
proof (induction ps arbitrary: db M)
  case (Cons ab ps)
  obtain a b where ab: "ab = (a, b)" by fastforce
  have "mset (fts (after_update ab db)) = (M + {#fts_of b#}) + mset (map (\<lambda>x. fts_of (fst x)) ps)"
    using Cons.prems by (simp add: ab after_update_def)
  from Cons.IH [OF this] show ?case by (simp add: ab)
qed simp

lemma mset_update_where:
  "mset (map g (update_where p f rows)) = mset (map g (filter (\<lambda>r. \<not> p r) rows)) + mset (map (\<lambda>x. g (f x)) (filter p rows))"
  by (induction rows) (auto simp: update_where_def)

lemma mset_split: "mset (map g rows) = mset (map g (filter (\<lambda>r. \<not> p r) rows)) + mset (map g (filter p rows))"
  by (induction rows) auto

lemma update_articles_frame [simp]:
  "art_rows (update_articles p f db) = update_where p f (art_rows db)"
  "ops (update_articles p f db) = ops db" "backups (update_articles p f db) = backups db"
  by (simp_all add: update_articles_def)

lemma update_articles_fts:
  assumes "mset (fts db) = mset (map fts_of (art_rows db))"
  shows "mset (fts (update_articles p f db)) = mset (map fts_of (update_where p f (art_rows db)))"
proof -
  have "mset (fts (db\<lparr>art_rows := update_where p f (art_rows db)\<rparr>)) =
      mset (map fts_of (filter (\<lambda>a. \<not> p a) (art_rows db))) +
      mset (map (\<lambda>x. fts_of (fst x)) (map (\<lambda>a. (a, f a)) (filter p (art_rows db))))"
    using assms mset_split [of fts_of "art_rows db" p] by (simp add: comp_def)
  from fold_after_update_fts [OF this] show ?thesis
    unfolding mset_update_where by (simp add: update_articles_def comp_def)
qed

lemma update_articles_vectors: "ran (vectors (update_articles p f db)) \<subseteq> ran (vectors db)"
  using fold_after_update_vectors [of "map (\<lambda>a. (a, f a)) (filter p (art_rows db))"
      "db\<lparr>art_rows := update_where p f (art_rows db)\<rparr>"] by (simp add: update_articles_def)

lemma store_ok_update:
  assumes "store_ok db" "\<And>a. art_id (f a) = art_id a" "\<And>a. art_url (f a) = art_url a"
  shows "store_ok (update_articles p f db)"
  using assms image_subset_mono [OF _ update_articles_vectors [of p f db], of length] update_articles_fts [of db p f]
  unfolding store_ok_def by (simp add: map_update_where)

lemma fold_after_delete_frame [simp]:
  "art_rows (fold after_delete as db) = art_rows db" "ops (fold after_delete as db) = ops db"
  "backups (fold after_delete as db) = backups db"
  by (induction as arbitrary: db) (auto simp: after_delete_def)

lemma fold_after_delete_vectors: "ran (vectors (fold after_delete as db)) \<subseteq> ran (vectors db)"
proof (induction as arbitrary: db)
  case (Cons a as)
  have "ran (vectors (after_delete a db)) \<subseteq> ran (vectors db)" by (auto simp: after_delete_def ran_def split: if_splits)
  then show ?case using Cons [of "after_delete a db"] by auto
qed simp

lemma fold_after_delete_fts:
  "mset (fts db) = M + mset (map fts_of as) \<Longrightarrow> mset (fts (fold after_delete as db)) = M"
  by (induction as arbitrary: db) (auto simp: after_delete_def)

lemma exec_stmt_articles: "exec_stmt s db = Inr db' \<Longrightarrow> articles db' = articles db"
  by (cases s) (auto simp: on_job_def on_items_def on_batch_def on_details_def insert_item_def split: if_splits)

lemma wf_db_articles: "wf_db d \<Longrightarrow> set (articles d) \<subseteq> set A \<Longrightarrow> wf_db (d\<lparr>articles := A\<rparr>)"
  by (auto simp: wf_db_def)

lemma store_ok_insert:
  assumes "store_ok db" "art_id a \<notin> set (map art_id (art_rows db))" "art_url a \<notin> set (map art_url (art_rows db))"
  shows "store_ok (after_insert a (db\<lparr>art_rows := art_rows db @ [a],
    ops := (ops db)\<lparr>articles := articles (ops db) @ [art_id a]\<rparr>\<rparr>))"
proof -
  have "wf_db ((ops db)\<lparr>articles := articles (ops db) @ [art_id a]\<rparr>)"
    using assms(1) by (intro wf_db_articles) (auto simp: store_ok_def)
  then show ?thesis using assms by (auto simp: store_ok_def after_insert_def)
qed

lemma store_ok_upsert:
  assumes "store_ok db" "exec_store (Upsert_Article n r) db = Inr db'"
  shows "store_ok db'"
proof (cases n)
  case (Some k)
  show ?thesis
  proof (cases "art_url r \<in> set (map art_url (art_rows db))")
    case True
    then show ?thesis using assms Some by (auto intro: store_ok_update simp: do_update_def)
  next
    case False
    then have "art_id r \<notin> set (map art_id (art_rows db))" using assms(2) Some by (auto split: if_splits)
    moreover from this have "db' = after_insert (r\<lparr>vec_rowid := k, content_hash := []\<rparr>)
        (db\<lparr>art_rows := art_rows db @ [r\<lparr>vec_rowid := k, content_hash := []\<rparr>],
           ops := (ops db)\<lparr>articles := articles (ops db) @ [art_id r]\<rparr>\<rparr>)"
      using False assms(2) Some by (simp add: Let_def)
    ultimately show ?thesis
      using store_ok_insert [OF assms(1), of "r\<lparr>vec_rowid := k, content_hash := []\<rparr>"] False by simp
  qed
qed (use assms in simp)

lemma store_ok_delete:
  assumes "store_ok db" "exec_store (Delete_Article i) db = Inr db'"
  shows "store_ok db'"
proof -
  let ?gone = "filter (\<lambda>a. art_id a = i) (art_rows db)"
  define db0 where "db0 = db\<lparr>art_rows := filter (\<lambda>a. art_id a \<noteq> i) (art_rows db),
      backups := (\<lambda>n. case backups db n of None \<Rightarrow> None | Some r \<Rightarrow> if fst r = i then None else Some r),
      ops := (ops db)\<lparr>articles := filter (\<lambda>j. j \<noteq> i) (articles (ops db)),
                 details := filter (\<lambda>d. article_id d \<noteq> i) (details (ops db))\<rparr>\<rparr>"
  have db': "db' = fold after_delete ?gone db0" using assms(2) by (simp add: db0_def)
  have "mset (fts db0) = mset (map fts_of (filter (\<lambda>a. art_id a \<noteq> i) (art_rows db))) + mset (map fts_of ?gone)"
    using assms(1) mset_split [of fts_of "art_rows db" "\<lambda>a. art_id a = i"] by (simp add: db0_def store_ok_def)
  from fold_after_delete_fts [OF this] have f: "mset (fts db') = mset (map fts_of (art_rows db'))"
    by (simp add: db' db0_def)
  have v: "length ` ran (vectors db') \<subseteq> {VOYAGE_EMBEDDING_BYTES}"
    using assms(1) image_subset_mono [OF _ fold_after_delete_vectors [of ?gone db0], of length]
    by (simp add: db' db0_def store_ok_def)
  have b: "fst ` ran (backups db') \<subseteq> set (map art_id (art_rows db'))"
  proof
    fix j assume "j \<in> fst ` ran (backups db')"
    then obtain r n where r: "j = fst r" "backups db' n = Some r" by (auto simp: ran_def)
    then have "backups db n = Some r" "j \<noteq> i" by (simp_all add: db' db0_def split: option.splits if_splits)
    then have "j \<in> set (map art_id (art_rows db))" using assms(1) r(1) by (auto simp: store_ok_def ran_def)
    then show "j \<in> set (map art_id (art_rows db'))" using \<open>j \<noteq> i\<close> by (auto simp: db' db0_def)
  qed
  have ids: "articles (ops db') = map art_id (art_rows db')"
    using assms(1) by (simp add: db' db0_def store_ok_def filter_map comp_def)
  have "wf_db (ops db)" using assms(1) by (simp add: store_ok_def)
  then have "wf_db (ops db')"
    by (auto simp: db' db0_def wf_db_def distinct_map_filter)
  then show ?thesis using f v b ids assms(1)
    by (simp add: store_ok_def) (simp add: db' db0_def distinct_map_filter)
qed

lemma store_ok_exec:
  assumes "store_ok db" "exec_store s db = Inr db'"
  shows "store_ok db'"
proof (cases s)
  case (Upsert_Article n r)
  then show ?thesis using assms store_ok_upsert by blast
next
  case (Delete_Vector n)
  then have db': "db' = db\<lparr>vectors := (vectors db)(n := None)\<rparr>" using assms(2) by simp
  show ?thesis using assms(1) image_subset_mono [OF _ ran_upd_None [of "vectors db" n], of length]
    unfolding db' by (simp add: store_ok_def)
next
  case (Insert_Vector n e)
  then have db': "db' = db\<lparr>vectors := (vectors db)(n \<mapsto> e)\<rparr>" and "length e = VOYAGE_EMBEDDING_BYTES"
    using assms(2) by (simp_all split: if_splits)
  then show ?thesis using assms(1) image_subset_mono [OF _ ran_upd_Some [of "vectors db" n e], of length]
    unfolding db' by (simp add: store_ok_def)
next
  case (Mark_Embedded i)
  then show ?thesis using assms by (auto intro: store_ok_update)
next
  case (Put_Backup n i e at)
  then have db': "db' = db\<lparr>backups := (backups db)(n \<mapsto> (i, e, at))\<rparr>" and "i \<in> set (map art_id (art_rows db))"
    using assms(2) by (simp_all split: if_splits)
  then show ?thesis using assms(1) image_subset_mono [OF _ ran_upd_Some [of "backups db" n "(i, e, at)"], of fst]
    unfolding db' by (simp add: store_ok_def)
next
  case (Set_Hash h i)
  then show ?thesis using assms by (auto intro: store_ok_update)
next
  case (Delete_Article i)
  then show ?thesis using assms store_ok_delete by blast
next
  case (Op st)
  then obtain o' where "exec_stmt st (ops db) = Inr o'" "db' = db\<lparr>ops := o'\<rparr>"
    using assms(2) by (cases "exec_stmt st (ops db)") auto
  then show ?thesis using assms(1) wf_exec_stmt exec_stmt_articles by (auto simp: store_ok_def)
qed

interpretation art_store: guarded_engine "\<lambda>t. exec_store" "\<lambda>_ _. None" "\<lambda>_. True" store_ok
  by unfold_locales (auto intro: store_ok_exec)


section \<open>A new article\<close>

lemma update_articles_last:
  assumes "art_rows db = rows @ [a]" "art_id a = i" "i \<notin> art_id ` set rows"
  shows "update_articles (\<lambda>a. art_id a = i) f db = after_update (a, f a) (db\<lparr>art_rows := rows @ [f a]\<rparr>)"
proof -
  have "filter (\<lambda>a. art_id a = i) rows = []" using assms(3) by (auto simp: filter_empty_conv)
  moreover have "map (\<lambda>r. if art_id r = i then f r else r) rows = rows"
    using assms(3) by (intro map_idI) auto
  ultimately show ?thesis using assms(1,2) by (simp add: update_articles_def update_where_def)
qed

lemma unique_vec_rowid_fresh:
  "unique_vec_rowid rows i n rand k = Some k' \<Longrightarrow> i \<notin> art_id ` set rows \<Longrightarrow> k' \<notin> vec_rowid ` set rows"
proof (induction n arbitrary: k)
  case (Suc n)
  show ?case
  proof (cases "List.find (\<lambda>a. vec_rowid a = k) rows")
    case None
    then have "k \<notin> vec_rowid ` set rows" by (auto simp: find_None_iff)
    then show ?thesis using Suc.prems None by simp
  next
    case (Some a)
    then have "a \<in> set rows" by (auto simp: find_Some_iff)
    then show ?thesis using Suc Some by (auto split: if_splits)
  qed
qed simp

lemma enqueue_article_write_cases:
  assumes "enqueue_article_write rows rand rand2 hash t1 t2 i m emb job sqlnow = Some w"
  obtains n where "i \<notin> art_id ` set rows \<Longrightarrow> n \<notin> vec_rowid ` set rows"
    "w = upsert_writes hash t2 i emb (item_statements job sqlnow) t1
           (m\<lparr>m_rowid := Some n, m_scraped := None, m_updated := Some t1\<rparr>)"
proof -
  obtain n0 where n0: "upsert_article rows rand2 hash t1 t2 i
      (m\<lparr>m_rowid := Some n0, m_scraped := None, m_updated := Some t1\<rparr>) emb (item_statements job sqlnow) = Some w"
    using assms unfolding enqueue_article_write_def bind_eq_Some_conv by blast
  then obtain n where n: "unique_vec_rowid rows i 10 rand2 n0 = Some n" and
    "w = upsert_writes hash t2 i emb (item_statements job sqlnow) t1
           (m\<lparr>m_scraped := None, m_updated := Some t1, m_rowid := Some n\<rparr>)"
    unfolding upsert_article_def Let_def ensure_unique_vec_rowid_def by auto
  then have w: "w = upsert_writes hash t2 i emb (item_statements job sqlnow) t1
           (m\<lparr>m_rowid := Some n, m_scraped := None, m_updated := Some t1\<rparr>)" by (cases m) simp
  show ?thesis using unique_vec_rowid_fresh [OF n] w by (rule that)
qed

text \<open>The statements of one article, executed in order.\<close>

definition exec_article :: "art_stmt list \<Rightarrow> store_db \<Rightarrow> string + store_db" where
  "exec_article stmts db = snd (exec_all (\<lambda>t. exec_store) 0 stmts db)"

lemma exec_all_time: "snd (exec_all (\<lambda>t. exec) t ss db) = snd (exec_all (\<lambda>t. exec) t' ss db)"
  by (induction ss arbitrary: t t' db) (auto split: sum.splits)

lemma exec_article_simps [simp]:
  "exec_article [] db = Inr db"
  "exec_article (s # ss) db = (case exec_store s db of Inl e \<Rightarrow> Inl e | Inr db' \<Rightarrow> exec_article ss db')"
  using exec_all_time [of exec_store "Suc 0" ss _ 0]
  by (auto simp: exec_article_def split: sum.split)

lemma exec_article_append:
  "exec_article (ss @ us) db = (case exec_article ss db of Inl e \<Rightarrow> Inl e | Inr db' \<Rightarrow> exec_article us db')"
  by (induction ss arbitrary: db) (auto split: sum.split)

definition insert_new :: "article \<Rightarrow> store_db \<Rightarrow> store_db" where
  "insert_new a db = after_insert a (db\<lparr>art_rows := art_rows db @ [a],
     ops := (ops db)\<lparr>articles := articles (ops db) @ [art_id a]\<rparr>\<rparr>)"

text \<open>The tables after the article is stored with its vector.\<close>

definition stored :: "article \<Rightarrow> string \<Rightarrow> string \<Rightarrow> string \<Rightarrow> store_db \<Rightarrow> store_db" where
  "stored a e t h db = db\<lparr>ops := (ops db)\<lparr>articles := articles (ops db) @ [art_id a]\<rparr>,
     art_rows := art_rows db @ [a\<lparr>content_hash := h\<rparr>], fts := fts db @ [fts_of a],
     vectors := (vectors db)(vec_rowid a \<mapsto> e), backups := (backups db)(vec_rowid a \<mapsto> (art_id a, e, t))\<rparr>"

text \<open>An update that changes no text and keeps the row embedded leaves the vectors and, up to order, the index.\<close>

lemma update_last_row:
  assumes "art_rows db = rows @ [a]" "art_id a = i" "i \<notin> art_id ` set rows"
    and "fts_of (f a) = fts_of a" "embedded (f a) = E_EMBEDDED" "fts db = es @ [fts_of a]" "fts_of a \<notin> set es"
  shows "update_articles (\<lambda>a. art_id a = i) f db = db\<lparr>art_rows := rows @ [f a]\<rparr>"
  using assms(4-7) unfolding update_articles_last [OF assms(1-3)]
  by (simp add: after_update_def remove1_append fts_of_def)

lemma exec_upsert_new:
  assumes "a\<lparr>vec_rowid := n, content_hash := []\<rparr> = a" "art_id a \<notin> art_id ` set (art_rows db)"
    "art_url a \<notin> art_url ` set (art_rows db)"
  shows "exec_store (Upsert_Article (Some n) a) db = Inr (insert_new a db)"
  using assms by (simp add: insert_new_def Let_def)

lemma exec_with_vector:
  assumes ok: "store_ok db" and fresh: "art_id a \<notin> art_id ` set (art_rows db)"
    "art_url a \<notin> art_url ` set (art_rows db)" "vec_rowid a \<notin> vec_rowid ` set (art_rows db)"
    and a: "content_hash a = []" "embedded a = E_EMBEDDED" and e: "length e = VOYAGE_EMBEDDING_BYTES"
  shows "exec_article ([Upsert_Article (Some (vec_rowid a)) a, Delete_Vector (vec_rowid a), Insert_Vector (vec_rowid a) e,
      Mark_Embedded (art_id a), Put_Backup (vec_rowid a) (art_id a) e t] @ (if h \<noteq> [] then [Set_Hash h (art_id a)] else [])) db
    = Inr (stored a e t h db)"
proof -
  define db2 where "db2 = (insert_new a db)\<lparr>vectors := (vectors db)(vec_rowid a \<mapsto> e)\<rparr>"
  define db3 where "db3 = db2\<lparr>backups := (backups db)(vec_rowid a \<mapsto> (art_id a, e, t))\<rparr>"
  have keep: "a\<lparr>vec_rowid := vec_rowid a, content_hash := []\<rparr> = a" using a by simp
  have vec: "exec_article [Upsert_Article (Some (vec_rowid a)) a, Delete_Vector (vec_rowid a), Insert_Vector (vec_rowid a) e] db = Inr db2"
    using e exec_upsert_new [OF keep fresh(1,2)] by (simp add: db2_def insert_new_def after_insert_def)
  have rows: "art_rows db2 = art_rows db @ [a]" "art_rows db3 = art_rows db @ [a]"
    and f: "fts db2 = fts db @ [fts_of a]" "fts db3 = fts db @ [fts_of a]"
    by (simp_all add: db3_def db2_def insert_new_def after_insert_def)
  have "set (fts db) = fts_of ` set (art_rows db)" using ok by (metis store_ok_def mset_eq_setD set_map)
  then have nf: "fts_of a \<notin> set (fts db)" using fresh(3) by (auto simp: fts_of_def)
  have "exec_store (Mark_Embedded (art_id a)) db2 = Inr db2"
    using update_last_row [OF rows(1) refl fresh(1) _ _ f(1) nf, of "\<lambda>a. a\<lparr>embedded := E_EMBEDDED\<rparr>"] a(2) rows
    by (simp add: fts_of_def)
  moreover have "exec_store (Put_Backup (vec_rowid a) (art_id a) e t) db2 = Inr db3"
    using rows by (simp add: db3_def) (simp add: db2_def insert_new_def after_insert_def)
  moreover have "exec_store (Set_Hash h (art_id a)) db3 = Inr (db3\<lparr>art_rows := art_rows db @ [a\<lparr>content_hash := h\<rparr>]\<rparr>)"
    using update_last_row [OF rows(2) refl fresh(1) _ _ f(2) nf, of "\<lambda>a. a\<lparr>content_hash := h\<rparr>"] a(2)
    by (simp add: fts_of_def)
  moreover have "db3\<lparr>art_rows := art_rows db @ [a\<lparr>content_hash := h\<rparr>]\<rparr> = stored a e t h db"
    by (simp add: stored_def db3_def db2_def insert_new_def after_insert_def)
  moreover have "db3 = stored a e t [] db"
    using a(1) by (simp add: stored_def db3_def db2_def insert_new_def after_insert_def)
  ultimately show ?thesis
    using vec exec_article_append [of "[Upsert_Article (Some (vec_rowid a)) a, Delete_Vector (vec_rowid a), Insert_Vector (vec_rowid a) e]"
        "[Mark_Embedded (art_id a), Put_Backup (vec_rowid a) (art_id a) e t] @ (if h \<noteq> [] then [Set_Hash h (art_id a)] else [])" db]
    by (simp del: exec_store.simps)
qed

text \<open>
  C10: A newly scraped article lands whole. When neither its id nor its URL is in the tables, its texts come with a vector
  of the right size, and the write belongs to a job's item: the transaction succeeds, and afterwards the article
  stands with its texts as \<open>EMBEDDED\<close> under a rowid that no other article has, the vector and its backup stand under
  that rowid, nothing else changed in the article tables, the item is completed in the same transaction, and the
  cloud gets the same row (with its own time of scraping) and the same vector.
\<close>

theorem article_write_lands:
  assumes "store_ok db"
    and "enqueue_article_write (art_rows db) rand rand2 hash t1 t2 i m (Some e) (Some (j, md, lm)) sqlnow = Some (stmts, cloud)"
    and "i \<notin> art_id ` set (art_rows db)" "m_url m \<notin> art_url ` set (art_rows db)"
    and "m_status m = E_EMBEDDED" "length e = VOYAGE_EMBEDDING_BYTES" "j \<noteq> []" "lm \<noteq> []"
  shows "\<exists>a db'. exec_article stmts db = Inr db' \<and> art_rows db' = art_rows db @ [a]
    \<and> art_id a = i \<and> art_url a = m_url m \<and> art_title a = m_title m \<and> art_conclusion a = m_conclusion m
    \<and> art_summary a = m_summary m \<and> embedded a = E_EMBEDDED
    \<and> vec_rowid a \<notin> vec_rowid ` set (art_rows db)
    \<and> vectors db' = (vectors db)(vec_rowid a \<mapsto> e)
    \<and> backups db' = (backups db)(vec_rowid a \<mapsto> (i, e, t1))
    \<and> Inr (ops db') = exec_stmt (UpdateItem j md I_COMPLETED lm sqlnow) ((ops db)\<lparr>articles := articles (ops db) @ [i]\<rparr>)
    \<and> cloud = [Cloud_Article (Some (vec_rowid a)) (a\<lparr>scraped_at := t2\<rparr>), Cloud_Vector (vec_rowid a) i e t1]"
proof -
  obtain n where fresh: "n \<notin> vec_rowid ` set (art_rows db)" and
    w: "(stmts, cloud) = upsert_writes hash t2 i (Some e) (item_statements (Some (j, md, lm)) sqlnow) t1
         (m\<lparr>m_rowid := Some n, m_scraped := None, m_updated := Some t1\<rparr>)"
    using enqueue_article_write_cases [OF assms(2)] assms(3) by metis
  let ?m = "m\<lparr>m_rowid := Some n, m_scraped := None, m_updated := Some t1\<rparr>"
  let ?op = "UpdateItem j md I_COMPLETED lm sqlnow"
  define a where "a = article_row i ?m t1"
  define h where "h = hash i ?m"
  have e: "e \<noteq> []" using assms(6) by (auto simp: VOYAGE_EMBEDDING_BYTES_def)
  have a: "art_id a = i" "art_url a = m_url m" "vec_rowid a = n" "embedded a = E_EMBEDDED" "content_hash a = []"
    "art_title a = m_title m" "art_conclusion a = m_conclusion m" "art_summary a = m_summary m"
    by (simp_all add: a_def article_row_def assms(5))
  define cs where "cs = [Upsert_Article (Some (vec_rowid a)) a, Delete_Vector (vec_rowid a), Insert_Vector (vec_rowid a) e,
      Mark_Embedded (art_id a), Put_Backup (vec_rowid a) (art_id a) e t1] @ (if h \<noteq> [] then [Set_Hash h (art_id a)] else [])"
  have stmts: "stmts = cs @ [Op ?op]"
    and cloud: "cloud = [Cloud_Article (Some n) (a\<lparr>content_hash := h, scraped_at := t2\<rparr>), Cloud_Vector n i e t1]"
    using w e assms(5,7,8) a(1,3)
    by (simp_all add: upsert_writes_def build_upsert_statements_def item_statements_def Let_def h_def cs_def flip: a_def)
  have core: "exec_article cs db = Inr (stored a e t1 h db)"
    unfolding cs_def by (rule exec_with_vector) (use assms(1,3,4,6) fresh a in simp_all)
  obtain d where d: "exec_stmt ?op ((ops db)\<lparr>articles := articles (ops db) @ [i]\<rparr>) = Inr d" by simp
  have "exec_article stmts db = Inr ((stored a e t1 h db)\<lparr>ops := d\<rparr>)"
    unfolding stmts exec_article_append core using d a(1) by (simp add: stored_def)
  then show ?thesis using fresh a cloud d
    by (intro exI [of _ "a\<lparr>content_hash := h\<rparr>"] exI [of _ "(stored a e t1 h db)\<lparr>ops := d\<rparr>"]) (simp add: stored_def)
qed

section \<open>A URL that is known under another id\<close>

lemma exec_all_article: "\<exists>t'. exec_all (\<lambda>t. exec_store) t ss db = (t', exec_article ss db)"
  unfolding exec_article_def by (metis exec_all_time prod.collapse)

lemma failed_transaction:
  assumes "exec_article ss (contents w) = Inl e" "\<not> is_recoverable_vec0_error e"
  shows "contents (run_task (\<lambda>t. exec_store) rep r (Transaction ss) w) = contents w
    \<and> receipts (run_task (\<lambda>t. exec_store) rep r (Transaction ss) w) = settle r (reject e) (receipts w)"
proof -
  obtain t where "exec_all (\<lambda>t. exec_store) (ticks w) ss (contents w) = (t, Inl e)"
    using exec_all_article assms(1) by metis
  then have "tx_loop (\<lambda>t. exec_store) 2 (ticks w) ss (contents w) = (t, Inl e)"
    using assms(2) by (simp add: numeral_2_eq_2)
  then show ?thesis by (simp add: run_task_def task_failed_def Let_def)
qed

lemma ids_after_update: "(\<And>a. art_id (f a) = art_id a) \<Longrightarrow>
    map art_id (art_rows (update_articles p f db)) = map art_id (art_rows db)"
  by (simp add: map_update_where)

lemma exec_known_url:
  assumes "m_url m \<in> art_url ` set (art_rows db)" "i \<notin> art_id ` set (art_rows db)"
    and "m_status m = E_EMBEDDED" "m_rowid m = Some n" "length e = VOYAGE_EMBEDDING_BYTES"
  shows "exec_article (build_upsert_statements i m t (Some e)) db = Inl ''FOREIGN KEY constraint failed''"
proof -
  let ?r = "article_row i m t"
  define db1 where "db1 = update_articles (\<lambda>a. art_url a = art_url ?r) (do_update n ?r) db"
  have e: "e \<noteq> []" using assms(5) by (auto simp: VOYAGE_EMBEDDING_BYTES_def)
  have up: "exec_store (Upsert_Article (Some n) ?r) db = Inr db1"
    using assms(1) by (simp add: db1_def article_row_def)
  have "map art_id (art_rows db1) = map art_id (art_rows db)"
    unfolding db1_def by (rule ids_after_update) (simp add: do_update_def)
  then have "i \<notin> art_id ` set (art_rows db1)" using assms(2) by (metis list.set_map)
  then have "i \<notin> set (map art_id (art_rows (update_articles p (\<lambda>a. a\<lparr>embedded := E_EMBEDDED\<rparr>) (db1\<lparr>vectors := v\<rparr>))))" for p v
    by (simp add: map_update_where)
  then show ?thesis using assms(3-5) e up by (simp add: build_upsert_statements_def del: exec_store.simps(1,2))
qed

text \<open>
  An article that is scraped again under a new id is not stored. The insertion finds the URL and keeps the old id, the
  backup of the vector then names an id that no row has, its foreign key fails and the whole transaction is rolled
  back with an error on the receipt; but the cloud has been handed the row and the vector under the new id.
\<close>

theorem rescraped_article_is_rejected:
  assumes "enqueue_article_write rows rand rand2 hash t1 t2 i m (Some e) job sqlnow = Some (stmts, cloud)"
    and "m_url m \<in> art_url ` set (art_rows (contents w))" "i \<notin> art_id ` set (art_rows (contents w))"
    and "m_status m = E_EMBEDDED" "length e = VOYAGE_EMBEDDING_BYTES"
  shows "contents (run_task (\<lambda>t. exec_store) (\<lambda>_ _. None) r (Transaction stmts) w) = contents w
    \<and> receipts (run_task (\<lambda>t. exec_store) (\<lambda>_ _. None) r (Transaction stmts) w)
        = settle r (reject ''FOREIGN KEY constraint failed'') (receipts w)
    \<and> (\<exists>n row. cloud = [Cloud_Article (Some n) row, Cloud_Vector n i e t1] \<and> art_id row = i)"
proof -
  obtain n where
    st: "(stmts, cloud) = upsert_writes hash t2 i (Some e) (item_statements job sqlnow) t1
         (m\<lparr>m_rowid := Some n, m_scraped := None, m_updated := Some t1\<rparr>)"
    using enqueue_article_write_cases [OF assms(1)] by metis
  let ?m = "m\<lparr>m_rowid := Some n, m_scraped := None, m_updated := Some t1\<rparr>"
  have e: "e \<noteq> []" using assms(5) by (auto simp: VOYAGE_EMBEDDING_BYTES_def)
  obtain rest where "stmts = build_upsert_statements i ?m t1 (Some e) @ rest"
    using st by (auto simp: upsert_writes_def Let_def)
  then have "exec_article stmts (contents w) = Inl ''FOREIGN KEY constraint failed''"
    using exec_known_url [of ?m "contents w" i n e t1] assms(2-5) by (simp add: exec_article_append)
  moreover have "\<not> is_recoverable_vec0_error ''FOREIGN KEY constraint failed''" by code_simp
  ultimately have "contents (run_task (\<lambda>t. exec_store) (\<lambda>_ _. None) r (Transaction stmts) w) = contents w
    \<and> receipts (run_task (\<lambda>t. exec_store) (\<lambda>_ _. None) r (Transaction stmts) w)
        = settle r (reject ''FOREIGN KEY constraint failed'') (receipts w)" by (rule failed_transaction)
  then show ?thesis using st e assms(4)
    by (auto simp: upsert_writes_def Let_def article_row_def)
qed

section \<open>\<open>tools/scraper/persistence.py\<close>\<close>

text \<open>
  What the summarizer returned: an object with its texts (\<open>str\<close> of a value, empty for a missing or false one), whose
  summary is a list or another value; or a result that is passed on. \<open>None\<close> is an empty object.
\<close>

datatype summary_value = Bullets "string list" | Other_Summary string

record article_json =
  j_title :: string
  j_conclusion :: string
  j_summary :: summary_value

datatype raw_result = Raw_Success "article_json option" | Raw_Other string "string option"

text \<open>A result dictionary; a missing key is \<open>None\<close>, and reading it raises.\<close>

record article_entry =
  e_status :: "string option"
  e_reason :: "string option"
  e_url :: "string option"
  e_id :: "int option"
  e_ulid :: "string option"
  e_title :: "string option"
  e_conclusion :: "string option"
  e_summary :: "string option"

definition no_entry :: article_entry where
  "no_entry = \<lparr>e_status = None, e_reason = None, e_url = None, e_id = None, e_ulid = None, e_title = None,
     e_conclusion = None, e_summary = None\<rparr>"

definition result_entry :: "string \<Rightarrow> string option \<Rightarrow> article_entry" where
  "result_entry st reason = no_entry\<lparr>e_status := Some st, e_reason := reason\<rparr>"

definition parse_article_result :: "raw_result \<Rightarrow> string \<Rightarrow> string \<Rightarrow> article_entry" where
  "parse_article_result raw url ulid =
     (case raw of
        Raw_Other st reason \<Rightarrow> result_entry st reason
      | Raw_Success None \<Rightarrow> result_entry ''FAILED'' (Some ''Empty parsed_json content'')
      | Raw_Success (Some j) \<Rightarrow>
          (let title = strip (j_title j); conclusion = strip (j_conclusion j);
               summary = (case j_summary j of
                    Bullets items \<Rightarrow> join [nl] (map (\<lambda>item. ''- '' @ item) (filter (\<lambda>item. item \<noteq> []) items))
                  | Other_Summary s \<Rightarrow> strip s)
           in if title = [] \<or> conclusion = []
              then result_entry ''FAILED'' (Some ''Missing mandatory JSON fields (title or conclusion)'')
              else \<lparr>e_status = Some ''SUCCESS'', e_reason = None, e_url = Some url, e_id = Some (int (vec_rowid_of ulid)),
                    e_ulid = Some ulid, e_title = Some title, e_conclusion = Some conclusion, e_summary = Some summary\<rparr>))"

text \<open>The checkpoint flags of an article's item.\<close>

record local_meta =
  validation_passed :: bool
  summary_generated :: bool
  embedding_synced :: bool
  retryable :: bool
  auto_skipped :: bool
  hitl_reason :: "string option"

definition content_for_embedding :: "string \<Rightarrow> string \<Rightarrow> string \<Rightarrow> string" where
  "content_for_embedding t c s =
     (let header = t @ '': '' @ c @ '': ''; avail = 8000 - int (length header) in
      header @ (if 0 < avail then take (nat avail) s else []))"

text \<open>
  The surroundings of a write: the committed rows, the draws of a rowid, the hash, the clock, the embedding service
  (\<open>None\<close> for any exception) and the printers of the flags and of the item's metadata.
\<close>

record write_env =
  committed :: "article list"
  draw1 :: "nat \<Rightarrow> int"
  draw2 :: "nat \<Rightarrow> int"
  row_hash :: "string \<Rightarrow> article_meta \<Rightarrow> string"
  clock1 :: string
  clock2 :: string
  sql_clock :: string
  embed :: "string \<Rightarrow> string option"
  dumps :: "local_meta \<Rightarrow> string"
  meta_text :: "metadata \<Rightarrow> string"

text \<open>
  \<open>_sync_scraped_article_atomic\<close>: the result is what was queued (\<open>None\<close>: no receipt) and whether the embedding
  succeeded. An embedding of a wrong size is kept as bytes but not as \<open>EMBEDDED\<close>; an \<open>ArticleWriteResult\<close> without
  success carries no receipt, and the flag of the embedding is returned all the same.
\<close>

definition embedding_of :: "write_env \<Rightarrow> article_entry \<Rightarrow> string option" where
  "embedding_of w p =
     (case (e_status p, e_title p, e_conclusion p) of
        (Some st, Some t, Some c) \<Rightarrow>
          if st = ''SUCCESS'' then embed w (content_for_embedding t c (case e_summary p of Some s \<Rightarrow> s | None \<Rightarrow> [])) else None
      | _ \<Rightarrow> None)"

definition sync_scraped_article_atomic :: "write_env \<Rightarrow> article_entry \<Rightarrow> string option \<Rightarrow> metadata \<Rightarrow> local_meta
    \<Rightarrow> (art_stmt list \<times> cloud_write list) option \<times> bool" where
  "sync_scraped_article_atomic w p job md lm =
     (case (e_ulid p, e_url p, e_title p, e_conclusion p, e_summary p, e_id p) of
        (Some u, Some url, Some t, Some c, Some s, Some k) \<Rightarrow>
          (let emb = embedding_of w p;
               ok = (case emb of Some e \<Rightarrow> length e = VOYAGE_EMBEDDING_BYTES | None \<Rightarrow> False);
               lm' = (if ok then lm\<lparr>embedding_synced := True\<rparr> else lm);
               st = (if ok then E_EMBEDDED else if e_status p = Some ''SUCCESS'' then E_PENDING else E_SKIPPED)
           in (enqueue_article_write (committed w) (draw1 w) (draw2 w) (row_hash w) (clock1 w) (clock2 w) u
                 \<lparr>m_url = url, m_title = Some t, m_conclusion = Some c, m_summary = Some s, m_metadata = meta_text w md,
                  m_status = st, m_rowid = Some k, m_scraped = None, m_updated = None\<rparr> emb
                 (map_option (\<lambda>j. (j, md, dumps w lm')) job) (sql_clock w), ok))
      | _ \<Rightarrow> (None, False))"

lemma keyless_entry_never_synced:
  "e_ulid p = None \<or> e_url p = None \<or> e_id p = None \<Longrightarrow>
     sync_scraped_article_atomic w p job md lm = (None, False)"
  by (auto simp: sync_scraped_article_atomic_def split: option.split)

lemma parsed_success_complete:
  "e_status (parse_article_result raw url ulid) = Some ''SUCCESS'' \<Longrightarrow> (\<And>r. raw \<noteq> Raw_Other ''SUCCESS'' r) \<Longrightarrow>
     (\<exists>t c s. parse_article_result raw url ulid =
       \<lparr>e_status = Some ''SUCCESS'', e_reason = None, e_url = Some url, e_id = Some (int (vec_rowid_of ulid)),
        e_ulid = Some ulid, e_title = Some t, e_conclusion = Some c, e_summary = Some s\<rparr> \<and> t \<noteq> [] \<and> c \<noteq> [])"
  by (auto simp: parse_article_result_def result_entry_def no_entry_def Let_def split: raw_result.splits option.splits if_splits)

lemma content_within_limit: "length (t @ '': '' @ c @ '': '') \<le> 8000 \<Longrightarrow> length (content_for_embedding t c s) \<le> 8000"
  by (auto simp: content_for_embedding_def Let_def min_def)

section \<open>Instances\<close>

definition no_ops :: op_db where
  "no_ops = \<lparr>jobs = [], job_items = [], next_item = 1, batches = [], details = [], next_detail = 1, articles = []\<rparr>"

definition no_articles :: store_db where
  "no_articles = \<lparr>ops = no_ops, art_rows = [], fts = [], vectors = Map.empty, backups = Map.empty\<rparr>"

definition demo_article :: article where
  "demo_article = \<lparr>art_id = ''A'', vec_rowid = 7, art_url = ''u'', art_title = Some ''t'', art_conclusion = None,
     art_summary = None, metadata_json = ''{}'', embedded = E_PENDING, content_hash = ''h'', scraped_at = ''1'',
     art_updated = ''1''\<rparr>"

definition demo_store :: store_db where
  "demo_store = no_articles\<lparr>ops := no_ops\<lparr>articles := [''A'']\<rparr>, art_rows := [demo_article], fts := [fts_of demo_article]\<rparr>"

definition demo_meta :: "string \<Rightarrow> article_meta" where
  "demo_meta url = \<lparr>m_url = url, m_title = Some ''t'', m_conclusion = Some ''c'', m_summary = Some ''s'', m_metadata = ''{}'',
     m_status = E_EMBEDDED, m_rowid = Some 7, m_scraped = None, m_updated = None\<rparr>"

definition demo_vector :: string where
  "demo_vector = replicate VOYAGE_EMBEDDING_BYTES CHR ''x''"

lemma demo_store_ok: "store_ok demo_store" "store_ok no_articles"
  by (simp_all add: store_ok_def demo_store_def demo_article_def no_articles_def no_ops_def wf_db_def)


lemma unique_free: "(\<And>a. a \<in> set rows \<Longrightarrow> vec_rowid a \<noteq> k) \<Longrightarrow> ensure_unique_vec_rowid rows rand k i = Some k"
proof -
  assume "\<And>a. a \<in> set rows \<Longrightarrow> vec_rowid a \<noteq> k"
  then have "List.find (\<lambda>a. vec_rowid a = k) rows = None" by (auto simp: find_None_iff)
  then show ?thesis unfolding ensure_unique_vec_rowid_def eval_nat_numeral unique_vec_rowid.simps by simp
qed

lemma enqueue_some:
  assumes "ensure_unique_vec_rowid rows rand (case m_rowid m of Some n \<Rightarrow> n | None \<Rightarrow> 0) i = Some k"
    and "ensure_unique_vec_rowid rows rand2 k i = Some k2"
  shows "\<exists>stmts cloud. enqueue_article_write rows rand rand2 hash t1 t2 i m emb job sqlnow = Some (stmts, cloud)"
proof -
  have "\<exists>w. enqueue_article_write rows rand rand2 hash t1 t2 i m emb job sqlnow = Some w"
    using assms by (simp add: enqueue_article_write_def upsert_article_def Let_def)
  then show ?thesis by (metis surj_pair)
qed

theorem article_write_lands_witness:
  "\<exists>stmts cloud (a :: article) db'. enqueue_article_write (art_rows no_articles) (\<lambda>_. 1) (\<lambda>_. 1) (\<lambda>_ _. ''h'') ''1'' ''2'' ''B'' (demo_meta ''v'')
     (Some demo_vector) (Some (''j'', [], ''{}'')) ''3'' = Some (stmts, cloud)
   \<and> exec_article stmts no_articles = Inr db' \<and> vectors db' (vec_rowid a) = Some demo_vector"
proof -
  have "\<exists>stmts cloud. enqueue_article_write (art_rows no_articles) (\<lambda>_. 1) (\<lambda>_. 1) (\<lambda>_ _. ''h'') ''1'' ''2'' ''B'' (demo_meta ''v'')
     (Some demo_vector) (Some (''j'', [], ''{}'')) ''3'' = Some (stmts, cloud)"
    using unique_free [of "[]" 7 "\<lambda>_. 1" "''B''"] by (intro enqueue_some [of _ _ _ _ 7 _ 7]) (simp_all add: no_articles_def demo_meta_def)
  then obtain stmts cloud where *: "enqueue_article_write (art_rows no_articles) (\<lambda>_. 1) (\<lambda>_. 1) (\<lambda>_ _. ''h'') ''1'' ''2'' ''B'' (demo_meta ''v'')
     (Some demo_vector) (Some (''j'', [], ''{}'')) ''3'' = Some (stmts, cloud)" by blast
  have fresh: "''B'' \<notin> art_id ` set (art_rows no_articles)" "m_url (demo_meta ''v'') \<notin> art_url ` set (art_rows no_articles)"
    and sound: "m_status (demo_meta ''v'') = E_EMBEDDED" "length demo_vector = VOYAGE_EMBEDDING_BYTES" "''j'' \<noteq> []" "''{}'' \<noteq> []"
    by (simp_all add: no_articles_def demo_meta_def demo_vector_def)
  obtain a :: article and db' where "exec_article stmts no_articles = Inr db'" "vectors db' = (vectors no_articles)(vec_rowid a \<mapsto> demo_vector)"
    using article_write_lands [OF demo_store_ok(2) * fresh sound] by blast
  then show ?thesis using * by (intro exI [of _ stmts] exI [of _ cloud] exI [of _ a] exI [of _ db']) simp
qed

theorem rescraped_article_is_rejected_witness:
  "\<exists>stmts cloud. enqueue_article_write (art_rows demo_store) (\<lambda>_. 1) (\<lambda>_. 1) (\<lambda>_ _. ''h'') ''1'' ''2'' ''B'' (demo_meta ''u'')
     (Some demo_vector) None ''3'' = Some (stmts, cloud)
   \<and> contents (run_task (\<lambda>t. exec_store) (\<lambda>_ _. None) None (Transaction stmts) (init_writer demo_store)) = demo_store"
proof -
  have u: "ensure_unique_vec_rowid (art_rows demo_store) (\<lambda>_. 1) 7 ''B'' = Some 1"
    by (simp add: ensure_unique_vec_rowid_def demo_store_def demo_article_def eval_nat_numeral)
  have v: "ensure_unique_vec_rowid (art_rows demo_store) (\<lambda>_. 1) 1 ''B'' = Some 1"
    by (rule unique_free) (simp add: demo_store_def demo_article_def)
  have "\<exists>stmts cloud. enqueue_article_write (art_rows demo_store) (\<lambda>_. 1) (\<lambda>_. 1) (\<lambda>_ _. ''h'') ''1'' ''2'' ''B'' (demo_meta ''u'')
     (Some demo_vector) None ''3'' = Some (stmts, cloud)"
    by (rule enqueue_some [OF _ v]) (simp add: demo_meta_def u)
  then obtain stmts cloud where *: "enqueue_article_write (art_rows demo_store) (\<lambda>_. 1) (\<lambda>_. 1) (\<lambda>_ _. ''h'') ''1'' ''2'' ''B'' (demo_meta ''u'')
     (Some demo_vector) None ''3'' = Some (stmts, cloud)" by blast
  then show ?thesis using rescraped_article_is_rejected [OF *, of "init_writer demo_store" None]
    by (simp add: demo_meta_def demo_vector_def demo_store_def demo_article_def init_writer_def)
qed

end
