(* ===== verification/Curation.thy ===== *)
theory Curation
  imports Prelude "HOL-Library.Product_Lexorder" "HOL-Library.Multiset"
begin

text \<open>
  \<open>tools/scraper/curation.py\<close>: the choice of a Top-10 by a language model, with the packing of the candidates into
  its context, three attempts and a fallback. A candidate is an entry of the list \<open>tools/scraper/tool.py\<close> builds, all
  texts; the model's replies are arguments. Log entries and telemetry are left out.
\<close>

section \<open>Candidates and JSON\<close>

record candidate =
  cand_ulid :: string
  cand_url :: string
  cand_title :: string
  cand_conclusion :: string
  cand_summary :: string

text \<open>\<open>json.dumps\<close> of an object of texts, with \<open>ensure_ascii=False\<close>.\<close>

definition json_char :: "char \<Rightarrow> string" where
  "json_char c =
     (let n = of_char c :: nat in
      if n = 34 then [CHR 0x5C, CHR 0x22]
      else if n = 92 then [CHR 0x5C, CHR 0x5C]
      else if n = 10 then [CHR 0x5C, CHR ''n'']
      else if n = 13 then [CHR 0x5C, CHR ''r'']
      else if n = 9 then [CHR 0x5C, CHR ''t'']
      else if n = 12 then [CHR 0x5C, CHR ''f'']
      else if n = 8 then [CHR 0x5C, CHR ''b'']
      else if n < 32 then CHR 0x5C # ''u00'' @ [hex_digit (n div 16), hex_digit (n mod 16)]
      else [c])"

definition json_string :: "string \<Rightarrow> string" where
  "json_string s = CHR 0x22 # concat (map json_char s) @ [CHR 0x22]"

definition json_object :: "(string \<times> string) list \<Rightarrow> string" where
  "json_object kvs = CHR 0x7B # join '', '' (map (\<lambda>(k, v). json_string k @ '': '' @ json_string v) kvs) @ [CHR 0x7D]"

definition item_str :: "candidate \<Rightarrow> string" where
  "item_str c = json_object [(''title'', cand_title c), (''conclusion'', cand_conclusion c), (''ulid'', cand_ulid c)]"

section \<open>Packing\<close>

datatype pack_mode = Full | Truncate

text \<open>The loop of \<open>ContextPacker.pack\<close>, with the candidates packed so far and their length.\<close>

fun pack_loop :: "nat \<Rightarrow> candidate list \<Rightarrow> candidate list \<Rightarrow> nat \<Rightarrow> candidate list \<times> pack_mode" where
  "pack_loop budget [] packed current_len = (packed, Full)"
| "pack_loop budget (c # cs) packed current_len =
     (if budget < current_len + length (item_str c)
      then (if packed = [] then ([c], Truncate) else (packed, Full))
      else pack_loop budget cs (packed @ [c]) (current_len + length (item_str c)))"

definition pack_candidates :: "nat \<Rightarrow> candidate list \<Rightarrow> candidate list \<times> nat \<times> pack_mode" where
  "pack_candidates context_limit cands =
     (let budget = context_limit * 4 div 5;
          sorted_cands = sort_key (\<lambda>c. (- int (length (cand_conclusion c)), cand_title c)) cands;
          (packed, mode) = pack_loop budget sorted_cands [] 0 in
      (packed, min 10 (length packed), mode))"

section \<open>Curation\<close>

definition MIN_SUMMARY_CHARS :: nat where "MIN_SUMMARY_CHARS = 600"
definition MAX_RETRIES :: nat where "MAX_RETRIES = 3"

definition valid_candidate :: "candidate \<Rightarrow> bool" where
  "valid_candidate c \<longleftrightarrow> cand_ulid c \<noteq> [] \<and> MIN_SUMMARY_CHARS \<le> length (strip (cand_summary c))"

text \<open>
  A reply: the call or the reading of its text failed, the text was empty, or it had a list \<open>top_10\<close> (empty where the
  key is missing). An entry of it is a text, another hashable value, or a list or object, at which the test of
  membership in a set raises and the attempt ends as a failed one.
\<close>

datatype entry = Ulid_Text string | Hashable | Unhashable
datatype reply = No_Reply | Empty_Content | Top_10 "entry list"

text \<open>The known ULIDs of a reply, each once, in its order.\<close>

fun select_ulids :: "string set \<Rightarrow> entry list \<Rightarrow> string list \<Rightarrow> string list option" where
  "select_ulids known [] acc = Some acc"
| "select_ulids known (Ulid_Text u # us) acc =
     select_ulids known us (if u \<in> known \<and> u \<notin> set acc then acc @ [u] else acc)"
| "select_ulids known (Hashable # us) acc = select_ulids known us acc"
| "select_ulids known (Unhashable # us) acc = None"

definition item_of :: "candidate list \<Rightarrow> string \<Rightarrow> candidate" where
  "item_of packed u = the (map_of (foldl (\<lambda>d c. AList.update (cand_ulid c) c d) [] packed) u)"

record curation_result =
  curated_list :: "candidate list"
  target_count :: nat
  fallback_used :: bool

fun attempts :: "candidate list \<Rightarrow> nat \<Rightarrow> reply list \<Rightarrow> candidate list option" where
  "attempts packed target [] = None"
| "attempts packed target (r # rs) =
     (case r of
        Top_10 us \<Rightarrow>
          (case select_ulids (set (map cand_ulid packed)) us [] of
             Some valid_ulids \<Rightarrow>
               if length valid_ulids = target then Some (map (item_of packed) valid_ulids)
               else attempts packed target rs
           | None \<Rightarrow> attempts packed target rs)
      | _ \<Rightarrow> attempts packed target rs)"

text \<open>\<open>replies n\<close> is what attempt \<open>n\<close> meets.\<close>

definition curate :: "nat \<Rightarrow> (nat \<Rightarrow> reply) \<Rightarrow> candidate list \<Rightarrow> curation_result" where
  "curate context_limit replies candidates =
     (let none = \<lparr>curated_list = [], target_count = 0, fallback_used = False\<rparr>;
          valid = filter valid_candidate candidates in
      if candidates = [] \<or> valid = [] then none
      else (case pack_candidates context_limit valid of (packed, target, mode) \<Rightarrow>
        if target = 0 then none
        else (case attempts packed target (map replies [1..<Suc MAX_RETRIES]) of
                Some items \<Rightarrow> \<lparr>curated_list = items, target_count = target, fallback_used = False\<rparr>
              | None \<Rightarrow> \<lparr>curated_list = map (\<lambda>c. item_of packed (cand_ulid c)) (take target packed),
                         target_count = target, fallback_used = True\<rparr>)))"

section \<open>What is packed\<close>

lemma pack_loop_prefix:
  "pack_loop budget cs packed n = (packed', mode) \<Longrightarrow>
     \<exists>k. packed' = packed @ take k cs \<and> (cs \<noteq> [] \<longrightarrow> packed' \<noteq> [])"
proof (induction cs arbitrary: packed n)
  case Nil
  then show ?case by simp
next
  case (Cons c cs)
  show ?case
  proof (cases "budget < n + length (item_str c)")
    case True
    then show ?thesis using Cons.prems
      by (cases "packed = []") (auto intro: exI [of _ 1] exI [of _ 0])
  next
    case False
    then obtain k where "packed' = (packed @ [c]) @ take k cs" using Cons by fastforce
    then show ?thesis by (intro exI [of _ "Suc k"]) simp
  qed
qed

definition packed_size :: "candidate list \<Rightarrow> nat" where
  "packed_size cs = sum_list (map (\<lambda>c. length (item_str c)) cs)"

lemma packed_size_simps [simp]:
  "packed_size [] = 0" "packed_size (cs @ [c]) = packed_size cs + length (item_str c)"
  by (simp_all add: packed_size_def)

lemma pack_loop_size:
  "pack_loop budget cs packed (packed_size packed) = (packed', mode) \<Longrightarrow> packed_size packed \<le> budget \<Longrightarrow>
     mode = Full \<and> packed_size packed' \<le> budget \<or> mode = Truncate \<and> length packed' = 1"
proof (induction cs arbitrary: packed)
  case (Cons c cs)
  show ?case
  proof (cases "budget < packed_size packed + length (item_str c)")
    case True
    then show ?thesis using Cons.prems by (auto split: if_splits)
  next
    case False
    then show ?thesis using Cons.prems Cons.IH [of "packed @ [c]"] by simp
  qed
qed auto

lemma pack_result:
  assumes "pack_candidates limit cands = (packed, target, mode)"
  shows "set packed \<subseteq> set cands" "distinct (map cand_ulid cands) \<Longrightarrow> distinct (map cand_ulid packed)"
    "cands \<noteq> [] \<Longrightarrow> packed \<noteq> []" "target = min 10 (length packed)"
    "mode = Full \<and> packed_size packed \<le> limit * 4 div 5 \<or> mode = Truncate \<and> length packed = 1"
proof -
  let ?s = "sort_key (\<lambda>c. (- int (length (cand_conclusion c)), cand_title c)) cands"
  have loop: "pack_loop (limit * 4 div 5) ?s [] 0 = (packed, mode)" and t: "target = min 10 (length packed)"
    using assms by (auto simp: pack_candidates_def Let_def split: prod.splits)
  obtain k where k: "packed = take k ?s" and ne: "?s \<noteq> [] \<longrightarrow> packed \<noteq> []" using pack_loop_prefix [OF loop] by auto
  show "set packed \<subseteq> set cands" using set_take_subset [of k ?s] k by simp
  show "distinct (map cand_ulid packed)" if "distinct (map cand_ulid cands)"
  proof -
    have "mset (map cand_ulid ?s) = mset (map cand_ulid cands)" by simp
    then have "distinct (map cand_ulid ?s)" using that by (metis mset_eq_imp_distinct_iff)
    then show ?thesis unfolding k by (simp add: take_map [symmetric])
  qed
  show "packed \<noteq> []" if "cands \<noteq> []"
  proof -
    have "?s \<noteq> []" using that by (metis length_0_conv length_sort)
    then show ?thesis using ne by simp
  qed
  show "target = min 10 (length packed)" by (rule t)
  show "mode = Full \<and> packed_size packed \<le> limit * 4 div 5 \<or> mode = Truncate \<and> length packed = 1"
    using pack_loop_size [of _ _ "[]"] loop by simp
qed

section \<open>What is selected\<close>

text \<open>The texts of a reply's list, and a list with only the first of equal elements kept.\<close>

fun texts :: "entry list \<Rightarrow> string list" where
  "texts [] = []"
| "texts (Ulid_Text u # us) = u # texts us"
| "texts (_ # us) = texts us"

definition firsts :: "'a list \<Rightarrow> 'a list" where
  "firsts xs = rev (remdups (rev xs))"

lemma remdups_snoc: "remdups (xs @ [x]) = remdups (filter (\<lambda>y. y \<noteq> x) xs) @ [x]"
  by (induction xs) auto

lemma firsts_simps [simp]: "firsts [] = []" "firsts (x # xs) = x # firsts (filter (\<lambda>y. y \<noteq> x) xs)"
  by (simp_all add: firsts_def remdups_snoc rev_filter)

lemma set_firsts [simp]: "set (firsts xs) = set xs"
  by (simp add: firsts_def)

lemma distinct_firsts [simp]: "distinct (firsts xs)"
  by (simp add: firsts_def)

lemma select_ulids_firsts:
  "select_ulids known us acc =
     (if Unhashable \<in> set us then None
      else Some (acc @ firsts (filter (\<lambda>u. u \<in> known \<and> u \<notin> set acc) (texts us))))"
proof (induction known us acc rule: select_ulids.induct)
  case (2 known u us acc)
  have "filter (\<lambda>v. v \<in> known \<and> v \<notin> set (acc @ [u])) (texts us) =
      filter (\<lambda>v. v \<noteq> u) (filter (\<lambda>v. v \<in> known \<and> v \<notin> set acc) (texts us))"
    by (auto intro: filter_cong)
  then show ?case using 2 by simp
qed auto

lemma map_of_items:
  "map_of (foldl (\<lambda>d c. AList.update (cand_ulid c) c d) d0 cs) u =
     (if u \<in> cand_ulid ` set cs then Some (last (filter (\<lambda>c. cand_ulid c = u) cs)) else map_of d0 u)"
proof (induction cs arbitrary: d0)
  case (Cons c cs)
  have "filter (\<lambda>c. cand_ulid c = u) cs \<noteq> [] \<longleftrightarrow> u \<in> cand_ulid ` set cs" by (auto simp: filter_empty_conv)
  then show ?case using Cons by (auto simp: update_conv')
qed simp

lemma item_of_mem:
  assumes "u \<in> set (map cand_ulid packed)"
  shows "item_of packed u \<in> set packed" "cand_ulid (item_of packed u) = u"
proof -
  have "filter (\<lambda>c. cand_ulid c = u) packed \<noteq> []" using assms by (auto simp: filter_empty_conv)
  then have "last (filter (\<lambda>c. cand_ulid c = u) packed) \<in> set (filter (\<lambda>c. cand_ulid c = u) packed)"
    by (rule last_in_set)
  then show "item_of packed u \<in> set packed" "cand_ulid (item_of packed u) = u"
    using assms by (auto simp: item_of_def map_of_items)
qed

text \<open>A reply that is taken: its known ULIDs, first occurrences only, are as many as asked for.\<close>

definition ulids_of_reply :: "candidate list \<Rightarrow> reply \<Rightarrow> string list option" where
  "ulids_of_reply packed r =
     (case r of
        Top_10 us \<Rightarrow> (if Unhashable \<in> set us then None
                      else Some (firsts (filter (\<lambda>u. u \<in> cand_ulid ` set packed) (texts us))))
      | _ \<Rightarrow> None)"

definition taken :: "candidate list \<Rightarrow> nat \<Rightarrow> reply \<Rightarrow> bool" where
  "taken packed target r \<longleftrightarrow> (\<exists>us. ulids_of_reply packed r = Some us \<and> length us = target)"

lemma attempts_first_taken:
  "attempts packed target rs =
     (case List.find (taken packed target) rs of
        Some r \<Rightarrow> Some (map (item_of packed) (the (ulids_of_reply packed r)))
      | None \<Rightarrow> None)"
  by (induction rs) (auto simp: taken_def ulids_of_reply_def select_ulids_firsts split: reply.split)

lemma ulids_of_reply_known:
  "ulids_of_reply packed r = Some us \<Longrightarrow> distinct us \<and> set us \<subseteq> set (map cand_ulid packed)"
  by (auto simp: ulids_of_reply_def split: reply.splits if_splits)

section \<open>The curated list\<close>

lemma curate_none: "filter valid_candidate cands = [] \<Longrightarrow>
    curate limit replies cands = \<lparr>curated_list = [], target_count = 0, fallback_used = False\<rparr>"
  by (simp add: curate_def)

lemma curate_some:
  assumes "filter valid_candidate cands \<noteq> []"
    and p: "pack_candidates limit (filter valid_candidate cands) = (packed, target, mode)"
  shows "0 < target" and "curate limit replies cands =
    (case List.find (taken packed target) (map replies [1..<Suc MAX_RETRIES]) of
       Some r \<Rightarrow> \<lparr>curated_list = map (item_of packed) (the (ulids_of_reply packed r)),
                 target_count = target, fallback_used = False\<rparr>
     | None \<Rightarrow> \<lparr>curated_list = map (\<lambda>c. item_of packed (cand_ulid c)) (take target packed),
               target_count = target, fallback_used = True\<rparr>)"
proof -
  show t: "0 < target" using pack_result(3,4) [OF p] assms(1) by simp
  have "cands \<noteq> []" using assms(1) by auto
  then show "curate limit replies cands =
    (case List.find (taken packed target) (map replies [1..<Suc MAX_RETRIES]) of
       Some r \<Rightarrow> \<lparr>curated_list = map (item_of packed) (the (ulids_of_reply packed r)),
                 target_count = target, fallback_used = False\<rparr>
     | None \<Rightarrow> \<lparr>curated_list = map (\<lambda>c. item_of packed (cand_ulid c)) (take target packed),
               target_count = target, fallback_used = True\<rparr>)"
    using t assms(1) p unfolding curate_def Let_def attempts_first_taken
    by (simp split: option.split)
qed

lemma map_item_of_ulids:
  "set us \<subseteq> set (map cand_ulid packed) \<Longrightarrow>
     map cand_ulid (map (item_of packed) us) = us \<and> set (map (item_of packed) us) \<subseteq> set packed"
  by (auto simp: map_idI item_of_mem subset_iff)

lemma item_of_self:
  assumes "distinct (map cand_ulid packed)" "c \<in> set packed"
  shows "item_of packed (cand_ulid c) = c"
proof -
  have "cand_ulid c \<in> set (map cand_ulid packed)" using assms(2) by simp
  note at = item_of_mem [OF this]
  have "inj_on cand_ulid (set packed)" using assms(1) by (simp add: distinct_map)
  then show ?thesis using at assms(2) by (meson inj_onD)
qed

lemma fallback_items:
  "distinct (map cand_ulid packed) \<Longrightarrow> set cs \<subseteq> set packed \<Longrightarrow> map (\<lambda>c. item_of packed (cand_ulid c)) cs = cs"
  by (rule map_idI) (auto intro: item_of_self)

text \<open>
  C15: Whatever the model answers, the curated list is sound. Of candidates with different ULIDs, it holds valid ones only
  (a ULID and a summary of at least 600 characters), each once, at most ten of them and exactly as many as its target
  count says; it is empty only when no candidate is valid; and the fallback is used exactly when all three attempts
  failed to name as many different packed ULIDs as asked for.
\<close>

theorem curated_top_is_sound:
  assumes "distinct (map cand_ulid cands)"
    and "curate limit replies cands = r"
    and "pack_candidates limit (filter valid_candidate cands) = (packed, target, mode)"
  shows "length (curated_list r) = target_count r \<and> target_count r \<le> 10 \<and> distinct (map cand_ulid (curated_list r)) \<and>
    set (curated_list r) \<subseteq> set (filter valid_candidate cands) \<and>
    (curated_list r = [] \<longleftrightarrow> filter valid_candidate cands = []) \<and>
    (fallback_used r \<longleftrightarrow> filter valid_candidate cands \<noteq> [] \<and>
       \<not> taken packed target (replies 1) \<and> \<not> taken packed target (replies 2) \<and> \<not> taken packed target (replies 3))"
proof (cases "filter valid_candidate cands = []")
  case True
  then show ?thesis using assms(2) curate_none [OF True] by auto
next
  case False
  note packed = pack_result [OF assms(3)] and eq = curate_some [OF False assms(3)]
  have dist: "distinct (map cand_ulid packed)" by (rule packed(2)) (simp add: assms(1) distinct_map_filter)
  have three: "map replies [1..<Suc MAX_RETRIES] = [replies 1, replies 2, replies 3]"
    by (simp add: MAX_RETRIES_def upt_rec numeral_3_eq_3 numeral_2_eq_2)
  show ?thesis
  proof (cases "List.find (taken packed target) (map replies [1..<Suc MAX_RETRIES])")
    case None
    have items: "map (\<lambda>c. item_of packed (cand_ulid c)) (take target packed) = take target packed"
      by (rule fallback_items [OF dist]) (rule set_take_subset)
    have r: "r = \<lparr>curated_list = take target packed, target_count = target, fallback_used = True\<rparr>"
      using eq(2) [of replies] assms(2) None items by simp
    have d: "distinct (map cand_ulid (take target packed))"
      using dist by (metis distinct_take take_map)
    show ?thesis using r d None packed(1,3,4) False eq(1) set_take_subset [of target packed]
      unfolding three by (auto split: if_splits)
  next
    case (Some rep)
    then have tk: "taken packed target rep" and ex: "\<exists>n\<in>{1, 2, 3::nat}. rep = replies n \<and> taken packed target (replies n)"
      unfolding three by (auto split: if_splits)
    then obtain us where us: "ulids_of_reply packed rep = Some us" "length us = target" by (auto simp: taken_def)
    note known = ulids_of_reply_known [OF us(1)]
    have r: "r = \<lparr>curated_list = map (item_of packed) us, target_count = target, fallback_used = False\<rparr>"
      using eq(2) [of replies] assms(2) Some us(1) by simp
    have "map cand_ulid (map (item_of packed) us) = us \<and> set (map (item_of packed) us) \<subseteq> set packed"
      using map_item_of_ulids known by blast
    moreover have "target \<le> 10" using packed(4) by simp
    moreover have "map (item_of packed) us \<noteq> []" using eq(1) us(2) by auto
    ultimately show ?thesis using r ex us(2) known packed(1) False by auto
  qed
qed

text \<open>Two valid candidates of three; the first reply repeats itself, the second is taken, in its order.\<close>

definition demo_cands :: "candidate list" where
  "demo_cands = [\<lparr>cand_ulid = ''A'', cand_url = ''u'', cand_title = ''t'', cand_conclusion = ''c'', cand_summary = replicate 600 CHR ''s''\<rparr>,
                 \<lparr>cand_ulid = ''B'', cand_url = ''v'', cand_title = ''t'', cand_conclusion = ''cc'', cand_summary = replicate 700 CHR ''s''\<rparr>,
                 \<lparr>cand_ulid = ''C'', cand_url = ''w'', cand_title = ''t'', cand_conclusion = ''cc'', cand_summary = ''short''\<rparr>]"

definition demo_replies :: "nat \<Rightarrow> reply" where
  "demo_replies n = (if n = 1 then Top_10 [Ulid_Text ''B'', Ulid_Text ''B'', Ulid_Text ''C'']
                     else Top_10 [Ulid_Text ''A'', Hashable, Ulid_Text ''B''])"

lemma dropWhile_replicate: "\<not> p c \<Longrightarrow> dropWhile p (replicate n c) = replicate n c"
  by (cases n) auto

lemma strip_replicate: "\<not> is_space c \<Longrightarrow> strip (replicate n c) = replicate n c"
  by (simp add: strip_def dropWhile_replicate)

lemma demo_valid: "filter valid_candidate demo_cands = take 2 demo_cands"
proof -
  have "\<not> is_space (CHR ''s'')" by (simp add: is_space_def)
  moreover have "length (strip ''short'') < 600" by (simp add: strip_def is_space_def)
  ultimately show ?thesis by (simp add: demo_cands_def valid_candidate_def MIN_SUMMARY_CHARS_def strip_replicate)
qed

lemma demo_packed: "pack_candidates 800000 (take 2 demo_cands) = (rev (take 2 demo_cands), 2, Full)"
  by (simp add: demo_cands_def pack_candidates_def item_str_def json_object_def json_string_def json_char_def Let_def)

theorem curated_top_is_sound_witness:
  "length (curated_list (curate 800000 demo_replies demo_cands)) = target_count (curate 800000 demo_replies demo_cands) \<and>
   \<not> fallback_used (curate 800000 demo_replies demo_cands)"
proof -
  have d: "distinct (map cand_ulid demo_cands)" by (simp add: demo_cands_def)
  have p: "pack_candidates 800000 (filter valid_candidate demo_cands) = (rev (take 2 demo_cands), 2, Full)"
    unfolding demo_valid by (rule demo_packed)
  have "taken (rev (take 2 demo_cands)) 2 (demo_replies 2)"
    by (simp add: taken_def ulids_of_reply_def demo_replies_def demo_cands_def)
  then show ?thesis using curated_top_is_sound [OF d refl p, of demo_replies] by blast
qed

end
