(* ===== verification/Scraper_Task.thy ===== *)
theory Scraper_Task
  imports Article_Store Curation
begin

text \<open>
  \<open>tools/scraper/article_processor.py\<close>, \<open>tools/scraper/hitl.py\<close> and the loop of \<open>tools/scraper/task.py\<close>: one article
  with its checkpoints, and a run over the links of a site, new or resumed. What the browser, the language model and
  the operator answer, and what the reads of the database return at a link, is the link's environment. Log entries
  and progress messages are left out.
\<close>

section \<open>The operator\<close>

datatype operator_decision = Proceed | Skip | Cancel

text \<open>
  \<open>request_decision\<close>: \<open>None\<close> is the end of the input. On the code points below 256, \<open>strip().upper()\<close> is \<open>SKIP\<close> just
  when \<open>strip().lower()\<close> is \<open>skip\<close>.
\<close>

definition request_decision :: "string option \<Rightarrow> string option \<Rightarrow> string \<Rightarrow> string \<Rightarrow> operator_decision \<times> stmt list" where
  "request_decision job answer t1 t2 =
     (let d = (case answer of
            None \<Rightarrow> Cancel
          | Some s \<Rightarrow> if lower (strip s) = ''skip'' then Skip else if lower (strip s) = ''cancel'' then Cancel else Proceed)
      in (d, case job of
               None \<Rightarrow> []
             | Some j \<Rightarrow> [SetJobStatus j J_PAUSED_FOR_HITL t1, SetJobStatus j (if d = Cancel then J_CANCELLING else J_RUNNING) t2]))"

section \<open>One article\<close>

text \<open>\<open>validate_article\<close>: its action, with the reason it gives and, for a human, the reason shown.\<close>

datatype page_verdict = Valid | Auto_Skip string | Human_Help string

text \<open>
  What one article meets, in the order of the code; \<open>None\<close> where the step raised. \<open>loads\<close> covers navigation, scrolling and
  extraction; \<open>media\<close> is the result of \<open>check_video_audio_skip\<close>, \<open>paywall\<close> tells whether a paywall was found,
  \<open>stopped\<close> is the cancellation flag when a human is needed, \<open>refetch\<close> the extraction after the operator went on.
\<close>

record visit =
  loads :: bool
  media :: "string option option"
  paywall :: "bool option"
  validated :: "page_verdict option"
  stopped :: bool
  answer :: "string option"
  refetch :: bool
  summarised :: "raw_result option"
  stamps :: "string \<times> string"

record article_run =
  raw :: raw_result
  meta :: local_meta
  run_stmts :: "stmt list"
  sets_flag :: bool

definition scrape_meta :: "string \<Rightarrow> string \<Rightarrow> metadata" where
  "scrape_meta url now = make_metadata ''scrape'' url 0 None None False [] now"

definition gave_up :: raw_result where
  "gave_up = Raw_Other ''FAILED'' (Some ''Validation failed after 1 attempt'')"

text \<open>\<open>_sync_meta\<close>\<close>

definition sync_meta :: "(local_meta \<Rightarrow> string) \<Rightarrow> string option \<Rightarrow> string \<Rightarrow> string \<Rightarrow> item_status \<Rightarrow> local_meta \<Rightarrow> stmt list" where
  "sync_meta pr job url now st lm =
     (case job of
        Some j \<Rightarrow> if j \<noteq> [] \<and> url \<noteq> [] then [update_item_status j (scrape_meta url now) st (pr lm) now] else []
      | None \<Rightarrow> [])"

text \<open>From \<open>summarize_article\<close> on.\<close>

definition summarise :: "(item_status \<Rightarrow> local_meta \<Rightarrow> stmt list) \<Rightarrow> visit \<Rightarrow> local_meta \<Rightarrow> stmt list \<Rightarrow> bool \<Rightarrow> article_run" where
  "summarise sync v lm ss flag =
     (case summarised v of
        None \<Rightarrow> \<lparr>raw = gave_up, meta = lm, run_stmts = ss, sets_flag = flag\<rparr>
      | Some (Raw_Success j) \<Rightarrow>
          (let lm' = lm\<lparr>summary_generated := True\<rparr> in
           \<lparr>raw = Raw_Success j, meta = lm', run_stmts = ss @ sync I_RUNNING lm', sets_flag = flag\<rparr>)
      | Some r \<Rightarrow> \<lparr>raw = r, meta = lm, run_stmts = ss, sets_flag = flag\<rparr>)"

text \<open>What the operator's decision leads to; \<open>why\<close> is kept as \<open>hitl_reason\<close>, \<open>flag\<close> tells whether a cancel sets the flag.\<close>

definition decide :: "(item_status \<Rightarrow> local_meta \<Rightarrow> stmt list) \<Rightarrow> string option \<Rightarrow> visit \<Rightarrow> local_meta \<Rightarrow> string \<Rightarrow> article_run" where
  "decide sync job v lm why =
     (case request_decision job (answer v) (fst (stamps v)) (snd (stamps v)) of
        (Proceed, ss) \<Rightarrow>
          if \<not> refetch v then \<lparr>raw = gave_up, meta = lm, run_stmts = ss, sets_flag = False\<rparr>
          else (let lm' = lm\<lparr>validation_passed := True\<rparr> in summarise sync v lm' (ss @ sync I_RUNNING lm') False)
      | (Skip, ss) \<Rightarrow> \<lparr>raw = Raw_Other ''SKIPPED'' (Some (''User skipped after HITL: '' @ why)),
                       meta = lm\<lparr>hitl_reason := Some why\<rparr>, run_stmts = ss, sets_flag = False\<rparr>
      | (Cancel, ss) \<Rightarrow> \<lparr>raw = Raw_Other ''CANCELED'' (Some ''User requested stop via HITL.''),
                         meta = lm\<lparr>hitl_reason := Some why\<rparr>, run_stmts = ss, sets_flag = True\<rparr>)"

definition process_article :: "(local_meta \<Rightarrow> string) \<Rightarrow> string option \<Rightarrow> string \<Rightarrow> string \<Rightarrow> visit \<Rightarrow> local_meta \<Rightarrow> article_run" where
  "process_article pr job url now v lm =
     (let sync = sync_meta pr job url now;
          ends = (\<lambda>r lm ss. \<lparr>raw = r, meta = lm, run_stmts = ss, sets_flag = False\<rparr>);
          skips = (\<lambda>r. let lm' = lm\<lparr>retryable := False, auto_skipped := True\<rparr> in ends r lm' (sync I_SKIPPED lm')) in
      if validation_passed lm \<and> summary_generated lm then ends (Raw_Other ''RESUME_EMBED_ONLY'' None) lm []
      else if \<not> loads v then ends gave_up lm []
      else if validation_passed lm then summarise sync v lm [] False
      else (case media v of
          None \<Rightarrow> ends gave_up lm []
        | Some (Some reason) \<Rightarrow> skips (Raw_Other ''SKIPPED'' (Some reason))
        | Some None \<Rightarrow>
            (case paywall v of
               None \<Rightarrow> ends gave_up lm []
             | Some True \<Rightarrow> decide sync job v lm ''Paywall detected''
             | Some False \<Rightarrow>
                 (case validated v of
                    None \<Rightarrow> ends gave_up lm []
                  | Some (Auto_Skip reason) \<Rightarrow> skips (Raw_Other ''SKIPPED'' (Some (''Auto-skipped: '' @ reason)))
                  | Some (Human_Help why) \<Rightarrow>
                      if stopped v then ends (Raw_Other ''CANCELED'' (Some ''User requested stop via Human Help mode.'')) lm []
                      else decide sync job v lm why
                  | Some Valid \<Rightarrow>
                      (let lm' = lm\<lparr>validation_passed := True\<rparr> in summarise sync v lm' (sync I_RUNNING lm') False)))))"

section \<open>The loop\<close>

text \<open>
  What the run meets at a link: the item's row (status and flags, if it has an output), the stored article of that URL,
  the visit, the ULID that the result gets, the surroundings of the write and what its receipt says within 45 seconds.
  \<open>flag_set\<close> is the cancellation flag as set from outside.
\<close>

datatype receipt_outcome = Landed | Timed_Out | Rejected string

record link_env =
  flag_set :: bool
  item_row :: "(item_status \<times> local_meta option) option"
  stored_article :: "article option"
  visited :: visit
  fresh_id :: string
  surroundings :: write_env
  outcome_of :: receipt_outcome
  stamp :: string

record stats =
  s_new :: nat
  s_resumed :: nat
  s_skipped_complete :: nat
  s_skipped_abandoned :: nat
  s_skipped_auto :: nat
  s_skipped_current :: nat
  s_success :: nat
  s_fail :: nat
  s_fail_reasons :: "string list"

record scrape =
  results :: "(string \<times> article_entry) list"
  stats_of :: stats
  partial :: bool
  nav_failures :: nat
  queued :: "art_stmt payload list"
  handed :: "cloud_write list"
  flag :: bool

definition start_scrape :: scrape where
  "start_scrape = \<lparr>results = [], stats_of = \<lparr>s_new = 0, s_resumed = 0, s_skipped_complete = 0, s_skipped_abandoned = 0,
     s_skipped_auto = 0, s_skipped_current = 0, s_success = 0, s_fail = 0, s_fail_reasons = []\<rparr>, partial = False,
     nav_failures = 0, queued = [], handed = [], flag = False\<rparr>"

definition no_flags :: local_meta where
  "no_flags = \<lparr>validation_passed = False, summary_generated = False, embedding_synced = False, retryable = False,
     auto_skipped = False, hitl_reason = None\<rparr>"

definition put_result :: "string \<Rightarrow> article_entry \<Rightarrow> scrape \<Rightarrow> scrape" where
  "put_result link r s = s\<lparr>results := AList.update link r (results s)\<rparr>"

definition count :: "(stats \<Rightarrow> stats) \<Rightarrow> scrape \<Rightarrow> scrape" where
  "count f s = s\<lparr>stats_of := f (stats_of s)\<rparr>"

definition queue_item :: "write_env \<Rightarrow> string option \<Rightarrow> string \<Rightarrow> string \<Rightarrow> item_status \<Rightarrow> local_meta \<Rightarrow> scrape \<Rightarrow> scrape" where
  "queue_item w job link t st lm s =
     (case job of
        Some j \<Rightarrow> s\<lparr>queued := queued s @ [Single (Op (update_item_status j (scrape_meta link t) st (dumps w lm) t))]\<rparr>
      | None \<Rightarrow> s)"

text \<open>\<open>UPDATE jobs SET status = 'PARTIAL'\<close>, and the flag of the run.\<close>

definition mark_partial :: "string option \<Rightarrow> string \<Rightarrow> scrape \<Rightarrow> scrape" where
  "mark_partial job t s =
     (case job of
        Some j \<Rightarrow> s\<lparr>queued := queued s @ [Single (Op (SetJobStatus j J_PARTIAL t))], partial := True\<rparr>
      | None \<Rightarrow> s)"

definition stored_entry :: "string \<Rightarrow> article \<Rightarrow> article_entry" where
  "stored_entry link a = no_entry\<lparr>e_status := Some ''SUCCESS'', e_ulid := Some (art_id a), e_url := Some link,
     e_title := art_title a, e_conclusion := art_conclusion a, e_summary := art_summary a\<rparr>"

text \<open>The dictionary that the resumed embedding is called with: \<open>conclusion\<close>, \<open>title\<close> and \<open>overview\<close>.\<close>

definition resume_entry :: "article \<Rightarrow> article_entry" where
  "resume_entry a = no_entry\<lparr>e_conclusion := art_conclusion a, e_title := art_title a\<rparr>"

definition queue_article :: "(art_stmt list \<times> cloud_write list) option \<Rightarrow> scrape \<Rightarrow> scrape" where
  "queue_article w s =
     (case w of None \<Rightarrow> s
      | Some (stmts, cloud) \<Rightarrow> s\<lparr>queued := queued s @ [Transaction stmts], handed := handed s @ cloud\<rparr>)"

text \<open>\<open>math.ceil(len(deduped_urls) * 1.2)\<close>\<close>

definition max_nav_failures :: "nat \<Rightarrow> nat" where
  "max_nav_failures n = (if n = 0 then 1 else (6 * n + 4) div 5)"

text \<open>The end of an iteration, after \<open>process_article\<close>.\<close>

definition after_article :: "string option \<Rightarrow> nat \<Rightarrow> string \<Rightarrow> link_env \<Rightarrow> article_run \<Rightarrow> scrape \<Rightarrow> string + scrape" where
  "after_article job max_nav link env run s =
     (let parsed = parse_article_result (raw run) link (fresh_id env);
          reason = (case e_reason parsed of Some r \<Rightarrow> r | None \<Rightarrow> []);
          lm = meta run; w = surroundings env; t = stamp env;
          s1 = put_result link parsed (s\<lparr>queued := queued s @ map (\<lambda>st. Single (Op st)) (run_stmts run), flag := flag s \<or> sets_flag run\<rparr>) in
      if contains ''Navigation failed'' reason then
        (let s2 = s1\<lparr>nav_failures := Suc (nav_failures s1)\<rparr> in
         if max_nav \<le> nav_failures s2 then Inl ''Max consecutive navigation failures reached'' else Inr s2)
      else if e_status parsed = Some ''SKIPPED'' then
        Inr (queue_item w job link t I_SKIPPED lm
          (count (\<lambda>c. c\<lparr>s_skipped_auto := Suc (s_skipped_auto c), s_skipped_current := Suc (s_skipped_current c)\<rparr>)
            (s1\<lparr>nav_failures := 0\<rparr>)))
      else if e_status parsed = Some ''SUCCESS'' \<or> e_status parsed = Some ''SUCCESS_NO_PARSE'' then
        (case sync_scraped_article_atomic w parsed job (scrape_meta link t) lm of
           (wr, ok) \<Rightarrow>
             (let s2 = queue_article wr (s1\<lparr>nav_failures := 0\<rparr>);
                  s3 = (if ok then s2 else mark_partial job t s2);
                  s4 = count (\<lambda>c. c\<lparr>s_success := Suc (s_success c)\<rparr>) s3 in
              case wr of
                None \<Rightarrow> Inr s4
              | Some _ \<Rightarrow> (case outcome_of env of
                    Landed \<Rightarrow> Inr s4
                  | Timed_Out \<Rightarrow> Inl ''Critical database write flush timed out after 45s. Aborting.''
                  | Rejected e \<Rightarrow> Inl e)))
      else
        Inr (queue_item w job link t I_FAILED (lm\<lparr>retryable := True\<rparr>)
          (count (\<lambda>c. c\<lparr>s_fail := Suc (s_fail c), s_fail_reasons := s_fail_reasons c @
                     [link @ '': '' @ (case e_reason parsed of Some r \<Rightarrow> r | None \<Rightarrow> ''Unknown'')]\<rparr>) s1)))"

text \<open>What the item's row tells: its status (\<open>PENDING\<close> without a row) and the flags of its output.\<close>

definition link_status :: "string option \<Rightarrow> link_env \<Rightarrow> item_status" where
  "link_status job env = (case (job, item_row env) of (Some _, Some (st, _)) \<Rightarrow> st | _ \<Rightarrow> I_PENDING)"

definition link_flags :: "string option \<Rightarrow> link_env \<Rightarrow> local_meta" where
  "link_flags job env = (case (job, item_row env) of (Some _, Some (_, Some lm)) \<Rightarrow> lm | _ \<Rightarrow> no_flags)"

text \<open>A link that is neither cancelled nor skipped: resume the embedding of a stored article, or process the page.\<close>

definition attempt_link :: "string option \<Rightarrow> nat \<Rightarrow> string \<Rightarrow> link_env \<Rightarrow> local_meta \<Rightarrow> scrape \<Rightarrow> string + scrape" where
  "attempt_link job max_nav link env lm s =
     (let w = surroundings env; t = stamp env; summarised = (validation_passed lm \<and> summary_generated lm) in
      case (if summarised then stored_article env else None) of
        Some a \<Rightarrow>
          (let s2 = (if embedding_synced lm then s
                     else (case sync_scraped_article_atomic w (resume_entry a) job (scrape_meta link t) lm of
                             (wr, ok) \<Rightarrow> if ok then queue_article wr s else mark_partial job t (queue_article wr s)))
           in Inr (put_result link (stored_entry link a) (count (\<lambda>c. c\<lparr>s_success := Suc (s_success c)\<rparr>) s2)))
      | None \<Rightarrow>
          after_article job max_nav link env
            (process_article (dumps w) job link t (visited env) (if summarised then lm\<lparr>retryable := True\<rparr> else lm)) s)"

definition scrape_link :: "string option \<Rightarrow> nat \<Rightarrow> string \<times> link_env \<Rightarrow> scrape \<Rightarrow> string + scrape" where
  "scrape_link job max_nav = (\<lambda>(link, env) s0.
     (let s = s0\<lparr>flag := flag s0 \<or> flag_set env\<rparr>; st = link_status job env; lm = link_flags job env in
      if flag s then Inr (put_result link (result_entry ''CANCELED'' (Some ''User requested stop.'')) s)
      else if st = I_COMPLETED then
        Inr ((case stored_article env of Some a \<Rightarrow> put_result link (stored_entry link a) | None \<Rightarrow> id)
          (count (\<lambda>c. c\<lparr>s_skipped_complete := Suc (s_skipped_complete c)\<rparr>) s))
      else if st = I_FAILED \<and> \<not> retryable lm then
        Inr (count (\<lambda>c. c\<lparr>s_skipped_abandoned := Suc (s_skipped_abandoned c)\<rparr>) s)
      else if st = I_SKIPPED then
        Inr (count (\<lambda>c. c\<lparr>s_skipped_auto := Suc (s_skipped_auto c)\<rparr>) s)
      else
        attempt_link job max_nav link env lm
          (queue_item (surroundings env) job link (stamp env) I_RUNNING lm
            (count (\<lambda>c. if st \<noteq> I_PENDING then c\<lparr>s_resumed := Suc (s_resumed c)\<rparr> else c\<lparr>s_new := Suc (s_new c)\<rparr>) s))))"

fun scrape_links :: "string option \<Rightarrow> nat \<Rightarrow> (string \<times> link_env) list \<Rightarrow> scrape \<Rightarrow> string + scrape" where
  "scrape_links job max_nav [] s = Inr s"
| "scrape_links job max_nav (le # les) s =
     (case scrape_link job max_nav le s of Inl e \<Rightarrow> Inl e | Inr s' \<Rightarrow> scrape_links job max_nav les s')"

definition attempted :: "scrape \<Rightarrow> nat" where
  "attempted s = s_new (stats_of s) + s_resumed (stats_of s)"

definition final_status :: "scrape \<Rightarrow> job_status" where
  "final_status s =
     (let good = s_success (stats_of s) + s_skipped_current (stats_of s) in
      if 0 < s_fail (stats_of s) \<or> (0 < attempted s \<and> good \<noteq> attempted s) then J_PARTIAL
      else if partial s then J_PARTIAL else J_COMPLETED)"

definition run_scrape :: "string option \<Rightarrow> string list \<Rightarrow> (string \<Rightarrow> link_env) \<Rightarrow> string + (scrape \<times> job_status)" where
  "run_scrape job links env =
     map_sum id (\<lambda>s. (s, final_status s))
       (scrape_links job (max_nav_failures (length links)) (map (\<lambda>l. (l, env l)) links) start_scrape)"

section \<open>The links of a run\<close>

text \<open>
  The job's items of step \<open>scrape\<close> and the URLs in their metadata. With items there is no extraction: all of them, unless
  some have failed, and then those only (a set, which \<open>order\<close> enumerates). Without, the extracted links that are not
  stored, or all of them when the query failed (\<open>known = None\<close>).
\<close>

definition scrape_items :: "string \<Rightarrow> op_db \<Rightarrow> item_row list" where
  "scrape_items j db = filter (\<lambda>r. item_job r = j \<and> json_extract (item_metadata r) ''step'' = Some (MStr ''scrape'')) (job_items db)"

definition item_urls :: "item_row list \<Rightarrow> string list" where
  "item_urls rows = concat (map (\<lambda>r. case json_extract (item_metadata r) ''ulid'' of
     Some (MStr u) \<Rightarrow> if u \<noteq> [] then [u] else [] | _ \<Rightarrow> []) rows)"

definition select_links :: "string option \<Rightarrow> op_db \<Rightarrow> string list \<Rightarrow> string set option \<Rightarrow> (string list \<Rightarrow> string list) \<Rightarrow> string list" where
  "select_links job db extracted known order =
     (let items = (case job of Some j \<Rightarrow> scrape_items j db | None \<Rightarrow> []);
          links = (if items \<noteq> [] then item_urls items
                   else (case known of Some urls \<Rightarrow> filter (\<lambda>n. n \<notin> urls) extracted | None \<Rightarrow> extracted));
          failed = item_urls (filter (\<lambda>r. item_state r = I_FAILED) items)
      in if failed \<noteq> [] then order (remdups failed) else links)"

text \<open>The items that a run announces before its loop.\<close>

definition announce :: "(local_meta \<Rightarrow> string) \<Rightarrow> string option \<Rightarrow> string \<Rightarrow> string list \<Rightarrow> stmt list" where
  "announce pr job t links =
     (case job of Some j \<Rightarrow> map (\<lambda>l. add_job_item j (scrape_meta l t) (pr no_flags) t) links | None \<Rightarrow> [])"

section \<open>Checkpoints\<close>

lemma resume_only:
  "validation_passed lm \<Longrightarrow> summary_generated lm \<Longrightarrow>
     process_article pr job url t v lm = \<lparr>raw = Raw_Other ''RESUME_EMBED_ONLY'' None, meta = lm, run_stmts = [], sets_flag = False\<rparr>"
  by (simp add: process_article_def Let_def)

lemma summarise_success:
  "raw (summarise sync v lm ss flg) = Raw_Success j \<Longrightarrow>
     meta (summarise sync v lm ss flg) = lm\<lparr>summary_generated := True\<rparr>
   \<and> (\<exists>ss'. run_stmts (summarise sync v lm ss flg) = ss' @ sync I_RUNNING (lm\<lparr>summary_generated := True\<rparr>))"
  by (auto simp: summarise_def gave_up_def Let_def split: option.splits raw_result.splits)

lemma decide_success:
  "raw (decide sync job v lm why) = Raw_Success j \<Longrightarrow>
     meta (decide sync job v lm why) = lm\<lparr>validation_passed := True, summary_generated := True\<rparr>
   \<and> (\<exists>ss'. run_stmts (decide sync job v lm why) = ss' @ sync I_RUNNING (lm\<lparr>validation_passed := True, summary_generated := True\<rparr>))"
  by (auto simp: decide_def gave_up_def Let_def split: prod.splits operator_decision.splits if_splits dest: summarise_success)

text \<open>A summary that succeeded is checkpointed with both flags before anything of the article is stored.\<close>

lemma success_is_checkpointed:
  assumes "raw (process_article pr job url t v lm) = Raw_Success j"
  shows "meta (process_article pr job url t v lm) = lm\<lparr>validation_passed := True, summary_generated := True\<rparr>
    \<and> (\<exists>ss. run_stmts (process_article pr job url t v lm) =
         ss @ sync_meta pr job url t I_RUNNING (lm\<lparr>validation_passed := True, summary_generated := True\<rparr>))"
proof (cases "validation_passed lm")
  case True
  then have "process_article pr job url t v lm = summarise (sync_meta pr job url t) v lm [] False"
    and same: "lm\<lparr>summary_generated := True\<rparr> = lm\<lparr>validation_passed := True, summary_generated := True\<rparr>"
    using assms by (auto simp: process_article_def Let_def gave_up_def split: if_splits)
  then show ?thesis using assms summarise_success by metis
next
  case False
  then show ?thesis using assms
    by (auto simp: process_article_def Let_def gave_up_def split: option.splits bool.splits page_verdict.splits if_splits
        dest: decide_success summarise_success)
qed

section \<open>A run that reports success\<close>

definition good :: "scrape \<Rightarrow> nat" where
  "good s = s_success (stats_of s) + s_skipped_current (stats_of s)"

definition fine_result :: "article_entry \<Rightarrow> bool" where
  "fine_result r \<longleftrightarrow> e_status r \<in> {Some ''SUCCESS'', Some ''SUCCESS_NO_PARSE'', Some ''SKIPPED''}
     \<or> r = result_entry ''CANCELED'' (Some ''User requested stop.'')"

fun embedded_write :: "art_stmt payload \<Rightarrow> bool" where
  "embedded_write (Transaction (Upsert_Article n r # ss)) = (n \<noteq> None \<and> embedded r = E_EMBEDDED)"
| "embedded_write (Transaction _) = False"
| "embedded_write _ = True"

definition all_fine :: "(string \<times> article_entry) list \<Rightarrow> bool" where
  "all_fine rs \<longleftrightarrow> list_all (\<lambda>lr. fine_result (snd lr)) rs"

text \<open>What a run keeps: a bad result is counted, and without the partial flag every article was written embedded.\<close>

definition run_ok :: "scrape \<Rightarrow> bool" where
  "run_ok s \<longleftrightarrow> good s \<le> attempted s
     \<and> (\<not> all_fine (results s) \<longrightarrow> 0 < s_fail (stats_of s) \<or> good s < attempted s)
     \<and> (\<not> partial s \<longrightarrow> list_all embedded_write (queued s))"

lemma update_fine: "all_fine xs \<Longrightarrow> fine_result r \<Longrightarrow> all_fine (AList.update l r xs)"
  unfolding all_fine_def by (induction xs) auto

lemma fine_results:
  "fine_result (stored_entry l a)" "fine_result (result_entry ''CANCELED'' (Some ''User requested stop.''))"
  by (simp_all add: fine_result_def stored_entry_def)

lemma run_ok_cancelled: "run_ok s \<Longrightarrow> fine_result r \<Longrightarrow> run_ok (put_result l r s)"
  using update_fine by (auto simp: run_ok_def put_result_def good_def attempted_def)

lemma run_ok_frame: "run_ok s \<Longrightarrow> run_ok (s\<lparr>flag := b\<rparr>)" "run_ok s \<Longrightarrow> run_ok (s\<lparr>nav_failures := n\<rparr>)"
  by (simp_all add: run_ok_def good_def attempted_def)

lemma run_ok_skips:
  "run_ok s \<Longrightarrow> run_ok (count (\<lambda>c. c\<lparr>s_skipped_complete := f c\<rparr>) s)"
  "run_ok s \<Longrightarrow> run_ok (count (\<lambda>c. c\<lparr>s_skipped_abandoned := f c\<rparr>) s)"
  "run_ok s \<Longrightarrow> run_ok (count (\<lambda>c. c\<lparr>s_skipped_auto := f c\<rparr>) s)"
  by (simp_all add: run_ok_def count_def good_def attempted_def)

lemma run_ok_queue:
  "run_ok s \<Longrightarrow> run_ok (queue_item w job l t st lm s)" "run_ok s \<Longrightarrow> run_ok (mark_partial job t s)"
  "run_ok s \<Longrightarrow> run_ok (s\<lparr>queued := queued s @ map (\<lambda>st. Single (Op st)) ss\<rparr>)"
  by (auto simp: run_ok_def queue_item_def mark_partial_def good_def attempted_def list.pred_map comp_def list_all_iff split: option.split)

text \<open>One more attempt that is not yet settled.\<close>

definition run_open :: "scrape \<Rightarrow> bool" where
  "run_open s \<longleftrightarrow> good s < attempted s
     \<and> (\<not> all_fine (results s) \<longrightarrow> 0 < s_fail (stats_of s) \<or> Suc (good s) < attempted s)
     \<and> (\<not> partial s \<longrightarrow> list_all embedded_write (queued s))"

lemma run_open_start:
  "run_ok s \<Longrightarrow> run_open (count (\<lambda>c. if b then c\<lparr>s_resumed := Suc (s_resumed c)\<rparr> else c\<lparr>s_new := Suc (s_new c)\<rparr>) s)"
  by (auto simp: run_ok_def run_open_def count_def good_def attempted_def)

lemma run_open_frame:
  "run_open s \<Longrightarrow> run_open (s\<lparr>flag := b\<rparr>)" "run_open s \<Longrightarrow> run_open (s\<lparr>nav_failures := n\<rparr>)"
  "run_open s \<Longrightarrow> run_open (queue_item w job l t st lm s)" "run_open s \<Longrightarrow> run_open (mark_partial job t s)"
  "run_open s \<Longrightarrow> run_open (s\<lparr>queued := queued s @ map (\<lambda>st. Single (Op st)) ss\<rparr>)"
  by (auto simp: run_open_def queue_item_def mark_partial_def good_def attempted_def list.pred_map comp_def list_all_iff split: option.split)

lemma run_open_fine: "run_open s \<Longrightarrow> fine_result r \<Longrightarrow> run_open (put_result l r s)"
  using update_fine by (auto simp: run_open_def put_result_def good_def attempted_def)

lemma run_open_settled:
  "run_open s \<Longrightarrow> run_ok (count (\<lambda>c. c\<lparr>s_success := Suc (s_success c)\<rparr>) s)"
  "run_open s \<Longrightarrow> run_ok (count (\<lambda>c. c\<lparr>s_skipped_auto := Suc (s_skipped_auto c), s_skipped_current := Suc (s_skipped_current c)\<rparr>) s)"
  "run_open s \<Longrightarrow> run_ok (put_result l r s)"
  "run_open s \<Longrightarrow> run_ok (count (\<lambda>c. c\<lparr>s_fail := Suc (s_fail c), s_fail_reasons := f c\<rparr>) (put_result l r s))"
  by (auto simp: run_open_def run_ok_def put_result_def count_def good_def attempted_def)

lemma run_ok_start: "run_ok start_scrape"
  by (simp add: run_ok_def start_scrape_def good_def attempted_def all_fine_def)

text \<open>What is queued for an article whose embedding succeeded is an embedded row.\<close>

lemma queued_embedded:
  assumes "sync_scraped_article_atomic w p job md lm = (Some (stmts, cloud), True)"
  shows "embedded_write (Transaction stmts)"
proof -
  obtain u url t c s k where keys: "e_ulid p = Some u" "e_url p = Some url" "e_title p = Some t" "e_conclusion p = Some c"
      "e_summary p = Some s" "e_id p = Some k"
    using assms by (auto simp: sync_scraped_article_atomic_def split: option.splits)
  define m where "m = \<lparr>m_url = url, m_title = Some t, m_conclusion = Some c, m_summary = Some s, m_metadata = meta_text w md,
                  m_status = E_EMBEDDED, m_rowid = Some k, m_scraped = None, m_updated = None\<rparr>"
  obtain lm' where "enqueue_article_write (committed w) (draw1 w) (draw2 w) (row_hash w) (clock1 w) (clock2 w) u m
      (embedding_of w p) (map_option (\<lambda>j. (j, md, dumps w lm')) job) (sql_clock w) = Some (stmts, cloud)"
    using assms by (auto simp: sync_scraped_article_atomic_def keys Let_def m_def split: option.splits if_splits)
  from enqueue_article_write_cases [OF this] obtain n where
    "(stmts, cloud) = upsert_writes (row_hash w) (clock2 w) u (embedding_of w p)
       (item_statements (map_option (\<lambda>j. (j, md, dumps w lm')) job) (sql_clock w)) (clock1 w)
       (m\<lparr>m_rowid := Some n, m_scraped := None, m_updated := Some (clock1 w)\<rparr>)" by metis
  then show ?thesis by (auto simp: upsert_writes_def Let_def build_upsert_statements_def article_row_def m_def)
qed

lemma run_open_article:
  assumes "run_open s" "sync_scraped_article_atomic w p (Some j) md lm = (wr, ok)"
  shows "run_open (if ok then queue_article wr s else mark_partial (Some j) t (queue_article wr s))"
  using assms queued_embedded [of w p "Some j" md lm]
  by (cases wr; cases ok) (auto simp: run_open_def queue_article_def mark_partial_def good_def attempted_def)

lemma after_article_ok:
  assumes "run_open s" "after_article (Some j) max_nav link env run s = Inr s'"
  shows "run_ok s'"
proof -
  define parsed where "parsed = parse_article_result (raw run) link (fresh_id env)"
  define s0 where "s0 = s\<lparr>queued := queued s @ map (\<lambda>st. Single (Op st)) (run_stmts run), flag := flag s \<or> sets_flag run\<rparr>"
  have s0: "run_open s0"
    unfolding s0_def by (rule run_open_frame(1), rule run_open_frame(5), rule assms(1))
  let ?nav = "contains ''Navigation failed'' (case e_reason parsed of Some r \<Rightarrow> r | None \<Rightarrow> [])"
  consider (nav) "?nav" | (skipped) "\<not> ?nav" "e_status parsed = Some ''SKIPPED''"
    | (success) "\<not> ?nav" "e_status parsed \<noteq> Some ''SKIPPED''" "e_status parsed = Some ''SUCCESS'' \<or> e_status parsed = Some ''SUCCESS_NO_PARSE''"
    | (failed) "\<not> ?nav" "e_status parsed \<noteq> Some ''SKIPPED''" "e_status parsed \<noteq> Some ''SUCCESS''" "e_status parsed \<noteq> Some ''SUCCESS_NO_PARSE''"
    by blast
  then show ?thesis
  proof cases
    case nav
    then have "s' = (put_result link parsed s0)\<lparr>nav_failures := Suc (nav_failures (put_result link parsed s0))\<rparr>"
      using assms(2) by (simp add: after_article_def parsed_def s0_def Let_def split: if_splits)
    then show ?thesis using run_ok_frame(2) [OF run_open_settled(3) [OF s0]] by simp
  next
    case skipped
    then have s': "s' = queue_item (surroundings env) (Some j) link (stamp env) I_SKIPPED (meta run)
          (count (\<lambda>c. c\<lparr>s_skipped_auto := Suc (s_skipped_auto c), s_skipped_current := Suc (s_skipped_current c)\<rparr>)
            ((put_result link parsed s0)\<lparr>nav_failures := 0\<rparr>))"
      using assms(2) by (simp add: after_article_def parsed_def s0_def Let_def)
    have "fine_result parsed" using skipped by (simp add: fine_result_def)
    from run_open_fine [OF s0 this] show ?thesis unfolding s'
      by (intro run_ok_queue(1) run_open_settled(2) run_open_frame(2))
  next
    case success
    define s1 where "s1 = (put_result link parsed s0)\<lparr>nav_failures := 0\<rparr>"
    obtain wr ok where sync: "sync_scraped_article_atomic (surroundings env) parsed (Some j) (scrape_meta link (stamp env)) (meta run) = (wr, ok)"
      by fastforce
    have s': "s' = count (\<lambda>c. c\<lparr>s_success := Suc (s_success c)\<rparr>)
        (if ok then queue_article wr s1 else mark_partial (Some j) (stamp env) (queue_article wr s1))"
      using success assms(2) sync
      by (auto simp: after_article_def parsed_def [symmetric] s0_def [symmetric] s1_def Let_def split: option.splits receipt_outcome.splits)
    have "fine_result parsed" using success by (auto simp: fine_result_def)
    then have "run_open s1" unfolding s1_def by (intro run_open_frame(2) run_open_fine s0)
    from run_open_article [OF this sync] show ?thesis unfolding s' by (rule run_open_settled(1))
  next
    case failed
    then have "s' = queue_item (surroundings env) (Some j) link (stamp env) I_FAILED ((meta run)\<lparr>retryable := True\<rparr>)
          (count (\<lambda>c. c\<lparr>s_fail := Suc (s_fail c), s_fail_reasons := s_fail_reasons c @
              [link @ '': '' @ (case e_reason parsed of Some r \<Rightarrow> r | None \<Rightarrow> ''Unknown'')]\<rparr>) (put_result link parsed s0))"
      using assms(2) by (simp add: after_article_def parsed_def [symmetric] s0_def [symmetric] Let_def)
    then show ?thesis using run_open_settled(4) [OF s0] run_ok_queue(1) by simp
  qed
qed

lemma attempt_link_ok:
  assumes "run_open s" "attempt_link (Some j) max_nav link env lm s = Inr s'"
  shows "run_ok s'"
proof (cases "if validation_passed lm \<and> summary_generated lm then stored_article env else None")
  case None
  then show ?thesis using assms(2) after_article_ok [OF assms(1)] unfolding attempt_link_def Let_def None by auto
next
  case (Some a)
  obtain wr ok where sync: "sync_scraped_article_atomic (surroundings env) (resume_entry a) (Some j) (scrape_meta link (stamp env)) lm = (wr, ok)"
    by fastforce
  define s2 where "s2 = (if embedding_synced lm then s
      else if ok then queue_article wr s else mark_partial (Some j) (stamp env) (queue_article wr s))"
  have "s' = put_result link (stored_entry link a) (count (\<lambda>c. c\<lparr>s_success := Suc (s_success c)\<rparr>) s2)"
    using assms(2) unfolding attempt_link_def Let_def Some by (auto simp: s2_def sync)
  moreover have "run_open s2" unfolding s2_def using assms(1) run_open_article [OF assms(1) sync] by simp
  ultimately show ?thesis using run_ok_cancelled [OF run_open_settled(1) fine_results(1)] by simp
qed

lemma scrape_link_ok:
  assumes "run_ok s0" "scrape_link (Some j) max_nav (link, env) s0 = Inr s'"
  shows "run_ok s'"
proof -
  define s where "s = s0\<lparr>flag := flag s0 \<or> flag_set env\<rparr>"
  define st where "st = link_status (Some j) env"
  define lm where "lm = link_flags (Some j) env"
  have s: "run_ok s" using assms(1) unfolding s_def by (rule run_ok_frame(1))
  note step = assms(2) [unfolded scrape_link_def Let_def prod.case, folded s_def st_def lm_def]
  consider (cancelled) "flag s" | (complete) "\<not> flag s" "st = I_COMPLETED"
    | (abandoned) "\<not> flag s" "st \<noteq> I_COMPLETED" "st = I_FAILED \<and> \<not> retryable lm"
    | (skipped) "\<not> flag s" "st = I_SKIPPED"
    | (attempt) "\<not> flag s" "st \<noteq> I_COMPLETED" "\<not> (st = I_FAILED \<and> \<not> retryable lm)" "st \<noteq> I_SKIPPED" by blast
  then show ?thesis
  proof cases
    case cancelled
    then show ?thesis using step run_ok_cancelled [OF s fine_results(2)] by (simp only: if_True sum.inject) blast
  next
    case complete
    then show ?thesis using step run_ok_skips(1) [OF s] run_ok_cancelled [OF _ fine_results(1)]
      by (auto split: option.splits)
  next
    case abandoned
    then show ?thesis using step run_ok_skips(2) [OF s] by auto
  next
    case skipped
    then show ?thesis using step run_ok_skips(3) [OF s] by auto
  next
    case attempt
    then have "attempt_link (Some j) max_nav link env lm (queue_item (surroundings env) (Some j) link (stamp env) I_RUNNING lm
        (count (\<lambda>c. if st \<noteq> I_PENDING then c\<lparr>s_resumed := Suc (s_resumed c)\<rparr> else c\<lparr>s_new := Suc (s_new c)\<rparr>) s)) = Inr s'"
      using step by (simp only: if_False)
    then show ?thesis by (rule attempt_link_ok [rotated]) (intro run_open_frame(3) run_open_start s)
  qed
qed

lemma scrape_links_ok:
  "run_ok s \<Longrightarrow> scrape_links (Some j) n les s = Inr s' \<Longrightarrow> run_ok s'"
proof (induction les arbitrary: s)
  case (Cons le les)
  then obtain s1 where "scrape_link (Some j) n le s = Inr s1" "scrape_links (Some j) n les s1 = Inr s'"
    by (auto split: sum.splits)
  then show ?case using Cons scrape_link_ok [of s j n "fst le" "snd le"] by auto
qed simp


section \<open>An interruption between the summary and the article\<close>

text \<open>
  The item of a link that was summarised (both flags set by the checkpoint of \<open>success_is_checkpointed\<close>) whose article
  is not stored, since the run was interrupted before the transaction.
\<close>

definition summarised_unsaved :: "string \<Rightarrow> link_env \<Rightarrow> bool" where
  "summarised_unsaved j env \<longleftrightarrow> stored_article env = None \<and>
     (\<exists>st lm. item_row env = Some (st, Some lm) \<and> st \<notin> {I_COMPLETED, I_SKIPPED} \<and> (st = I_FAILED \<longrightarrow> retryable lm)
        \<and> validation_passed lm \<and> summary_generated lm)"

definition item_left :: "link_env \<Rightarrow> link_env" where
  "item_left env = env\<lparr>item_row := Some (I_FAILED, Some ((link_flags (Some []) env)\<lparr>retryable := True\<rparr>))\<rparr>"

text \<open>
  A link whose summary was checkpointed but whose article was not stored fails in every later run. The step takes it
  for one that needs its embedding only, so the page is not read, no article is written and the item is left
  \<open>FAILED\<close> and retryable with the same flags; whatever a later run meets, it starts from there and fails again.
\<close>

theorem summarised_unsaved_fails_again:
  assumes "summarised_unsaved j env" "\<not> flag s" "\<not> flag_set env"
  shows "\<exists>s'. scrape_link (Some j) max_nav (link, env) s = Inr s'
    \<and> map_of (results s') link = Some (result_entry ''RESUME_EMBED_ONLY'' None)
    \<and> s_fail (stats_of s') = Suc (s_fail (stats_of s))
    \<and> queued s' = queued s @
        [Single (Op (update_item_status j (scrape_meta link (stamp env)) I_RUNNING (dumps (surroundings env) (link_flags (Some j) env)) (stamp env))),
         Single (Op (update_item_status j (scrape_meta link (stamp env)) I_FAILED
           (dumps (surroundings env) ((link_flags (Some j) env)\<lparr>retryable := True\<rparr>)) (stamp env)))]
    \<and> final_status s' = J_PARTIAL
    \<and> summarised_unsaved j (item_left env)"
proof -
  obtain st lm where row: "item_row env = Some (st, Some lm)" and st: "st \<noteq> I_COMPLETED" "st \<noteq> I_SKIPPED" "\<not> (st = I_FAILED \<and> \<not> retryable lm)"
    and lm: "validation_passed lm" "summary_generated lm" and none: "stored_article env = None"
    using assms(1) by (auto simp: summarised_unsaved_def)
  have look: "link_status (Some j) env = st" "link_flags (Some j) env = lm" "link_flags (Some []) env = lm"
    by (simp_all add: link_status_def link_flags_def row)
  define s1 where "s1 = queue_item (surroundings env) (Some j) link (stamp env) I_RUNNING lm
       (count (\<lambda>c. if st \<noteq> I_PENDING then c\<lparr>s_resumed := Suc (s_resumed c)\<rparr> else c\<lparr>s_new := Suc (s_new c)\<rparr>)
         (s\<lparr>flag := False\<rparr>))"
  define lm' where "lm' = lm\<lparr>retryable := True\<rparr>"
  have flags: "validation_passed lm'" "summary_generated lm'" "lm'\<lparr>retryable := True\<rparr> = lm'"
    using lm by (simp_all add: lm'_def)
  have "scrape_link (Some j) max_nav (link, env) s = attempt_link (Some j) max_nav link env lm s1"
    using st assms(2,3) unfolding scrape_link_def Let_def prod.case look s1_def by auto
  also have "\<dots> = after_article (Some j) max_nav link env
      \<lparr>raw = Raw_Other ''RESUME_EMBED_ONLY'' None, meta = lm', run_stmts = [], sets_flag = False\<rparr> s1"
    using lm none resume_only [OF flags(1,2)] by (simp add: attempt_link_def Let_def lm'_def)
  finally have "scrape_link (Some j) max_nav (link, env) s = Inr (queue_item (surroundings env) (Some j) link (stamp env) I_FAILED lm'
      (count (\<lambda>c. c\<lparr>s_fail := Suc (s_fail c), s_fail_reasons := s_fail_reasons c @ [link @ '': Unknown'']\<rparr>)
        (put_result link (result_entry ''RESUME_EMBED_ONLY'' None) s1)))"
    using flags(3) by (simp add: after_article_def parse_article_result_def result_entry_def no_entry_def Let_def)
  then show ?thesis
    using lm none
    by (simp add: s1_def put_result_def count_def queue_item_def lm'_def final_status_def Let_def update_conv' look
        summarised_unsaved_def item_left_def)
qed

text \<open>
  The other half of the resumption: where the article is stored and its embedding is to be made, no embedding is made,
  nothing is written, and the job is marked partial; the item stays \<open>RUNNING\<close>.
\<close>

lemma stored_article_never_embedded:
  assumes "stored_article env = Some a" "validation_passed lm" "summary_generated lm" "\<not> embedding_synced lm"
  shows "attempt_link (Some j) max_nav link env lm s =
    Inr (put_result link (stored_entry link a) (count (\<lambda>c. c\<lparr>s_success := Suc (s_success c)\<rparr>) (mark_partial (Some j) (stamp env) s)))"
  using assms by (simp add: attempt_link_def Let_def keyless_entry_never_synced resume_entry_def no_entry_def queue_article_def)

section \<open>Which links a resumed run takes\<close>

lemma set_item_urls: "u \<in> set (item_urls rows) \<longleftrightarrow> u \<noteq> [] \<and> (\<exists>r\<in>set rows. json_extract (item_metadata r) ''ulid'' = Some (MStr u))"
  by (force simp: item_urls_def split: option.splits mval.splits if_splits)

text \<open>
  A resumed run takes the failed items only, as soon as there is one. The links of a job's items that are still
  \<open>PENDING\<close> or \<open>RUNNING\<close> are then left out, so that the run can finish, and be reported \<open>COMPLETED\<close>, without them.
\<close>

theorem resume_takes_failed_only:
  assumes "\<And>xs. set (order xs) = set xs"
    and "r \<in> set (scrape_items j db)" "item_state r = I_FAILED" "json_extract (item_metadata r) ''ulid'' = Some (MStr v)" "v \<noteq> []"
  shows "u \<in> set (select_links (Some j) db extracted known order) \<longleftrightarrow>
    u \<noteq> [] \<and> (\<exists>r \<in> set (job_items db). item_job r = j \<and> json_extract (item_metadata r) ''step'' = Some (MStr ''scrape'')
      \<and> json_extract (item_metadata r) ''ulid'' = Some (MStr u) \<and> item_state r = I_FAILED)"
proof -
  have "v \<in> set (item_urls (filter (\<lambda>r. item_state r = I_FAILED) (scrape_items j db)))"
    using assms(2-5) by (auto simp: set_item_urls)
  then have "item_urls (filter (\<lambda>r. item_state r = I_FAILED) (scrape_items j db)) \<noteq> []" by auto
  then have "set (select_links (Some j) db extracted known order) =
      set (item_urls (filter (\<lambda>r. item_state r = I_FAILED) (scrape_items j db)))"
    by (simp add: select_links_def Let_def assms(1))
  then show ?thesis by (auto simp: set_item_urls scrape_items_def)
qed

lemma fresh_links_are_new:
  assumes "scrape_items j db = []"
  shows "set (select_links (Some j) db extracted (Some urls) order) = set extracted - urls"
  using assms by (auto simp: select_links_def Let_def item_urls_def)

section \<open>From the run to the curation\<close>

text \<open>
  \<open>_merge_completed_articles\<close> and \<open>_build_slim_list\<close> of \<open>tools/scraper/tool.py\<close>: the stored articles of completed
  items are added to the results, and the successful results with a ULID are the curation's candidates.
\<close>

definition completed_rows :: "string \<Rightarrow> store_db \<Rightarrow> article list" where
  "completed_rows j db =
     (let urls = item_urls (filter (\<lambda>r. item_state r = I_COMPLETED) (scrape_items j (ops db)))
      in filter (\<lambda>a. art_url a \<in> set urls) (art_rows db))"

definition merge_one :: "article \<Rightarrow> scrape \<Rightarrow> scrape" where
  "merge_one a s =
     (if art_url a \<in> set (map fst (results s)) then s
      else put_result (art_url a) (stored_entry (art_url a) a)
        (count (\<lambda>c. c\<lparr>s_success := Suc (s_success c), s_skipped_complete := Suc (s_skipped_complete c)\<rparr>) s))"

definition merge_completed :: "article list \<Rightarrow> scrape \<Rightarrow> scrape" where
  "merge_completed rows s = fold merge_one rows s"

definition slim :: "article_entry \<Rightarrow> candidate list" where
  "slim r =
     (case e_ulid r of
        Some u \<Rightarrow>
          (let text_of = (\<lambda>t. case t of Some x \<Rightarrow> x | None \<Rightarrow> []) in
           if e_status r = Some ''SUCCESS'' \<and> u \<noteq> []
           then [\<lparr>cand_ulid = u, cand_url = text_of (e_url r), cand_title = text_of (e_title r),
                  cand_conclusion = text_of (e_conclusion r), cand_summary = text_of (e_summary r)\<rparr>] else [])
      | None \<Rightarrow> [])"

definition build_slim_list :: "scrape \<Rightarrow> candidate list" where
  "build_slim_list s = concat (map (\<lambda>lr. slim (snd lr)) (results s))"

text \<open>A merge forgets nothing and leaves out no completed article.\<close>

lemma merge_one_results:
  "set (map fst (results (merge_one a s))) = insert (art_url a) (set (map fst (results s)))"
  "map_of (results s) l = Some r \<Longrightarrow> map_of (results (merge_one a s)) l = Some r"
  by (auto simp: merge_one_def put_result_def count_def dom_update update_conv' dest: map_of_SomeD intro: rev_image_eqI)

lemma merge_completed_keys:
  "set (map fst (results (merge_completed rows s))) = set (map fst (results s)) \<union> art_url ` set rows"
  unfolding merge_completed_def by (induction rows arbitrary: s) (simp_all add: merge_one_results(1) del: set_map)

lemma merge_completed_keeps:
  "map_of (results s) l = Some r \<Longrightarrow> map_of (results (merge_completed rows s)) l = Some r"
  unfolding merge_completed_def by (induction rows arbitrary: s) (simp_all add: merge_one_results(2))

lemma slim_list_from_successes:
  "c \<in> set (build_slim_list s) \<Longrightarrow> \<exists>l r. (l, r) \<in> set (results s) \<and> e_status r = Some ''SUCCESS'' \<and> e_ulid r = Some (cand_ulid c)"
  by (fastforce simp: build_slim_list_def slim_def Let_def split: option.splits if_splits)

section \<open>Instances\<close>

definition demo_surroundings :: write_env where
  "demo_surroundings = \<lparr>committed = [], draw1 = (\<lambda>_. 1), draw2 = (\<lambda>_. 1), row_hash = (\<lambda>_ _. ''h''), clock1 = ''1'', clock2 = ''2'',
     sql_clock = ''3'', embed = (\<lambda>_. None), dumps = (\<lambda>lm. if retryable lm then ''r'' else ''n''), meta_text = (\<lambda>_. ''{}'')\<rparr>"

definition demo_visit :: visit where
  "demo_visit = \<lparr>loads = True, media = Some (Some ''video''), paywall = None, validated = None, stopped = False, answer = None,
     refetch = False, summarised = None, stamps = (''1'', ''2'')\<rparr>"

definition demo_env :: link_env where
  "demo_env = \<lparr>flag_set = False, item_row = None, stored_article = None, visited = demo_visit, fresh_id = ''U'',
     surroundings = demo_surroundings, outcome_of = Landed, stamp = ''4''\<rparr>"

definition demo_interrupted :: link_env where
  "demo_interrupted = demo_env\<lparr>item_row := Some (I_RUNNING, Some (no_flags\<lparr>validation_passed := True, summary_generated := True\<rparr>))\<rparr>"

lemma demo_run: "map_sum id snd (run_scrape (Some ''j'') [''u''] (\<lambda>_. demo_env)) = Inr J_COMPLETED"
  by (simp add: run_scrape_def scrape_link_def link_status_def link_flags_def attempt_link_def process_article_def after_article_def
      demo_env_def demo_visit_def no_flags_def start_scrape_def max_nav_failures_def parse_article_result_def result_entry_def no_entry_def
      final_status_def attempted_def count_def put_result_def queue_item_def Let_def)


theorem summarised_unsaved_fails_again_witness:
  "\<exists>s'. scrape_link (Some ''j'') 2 (''u'', demo_interrupted) start_scrape = Inr s'
     \<and> s_fail (stats_of s') = 1 \<and> final_status s' = J_PARTIAL"
proof -
  have "summarised_unsaved ''j'' demo_interrupted"
    by (simp add: summarised_unsaved_def demo_interrupted_def demo_env_def)
  from summarised_unsaved_fails_again [OF this, of start_scrape 2 "''u''"] show ?thesis
    by (auto simp: demo_interrupted_def demo_env_def start_scrape_def)
qed

definition demo_items :: op_db where
  "demo_items = no_ops\<lparr>job_items := [
     \<lparr>item_id = 1, item_job = ''j'', item_metadata = scrape_meta ''u'' ''1'', item_state = I_FAILED, input_data = None, output_data = None, item_updated = ''1''\<rparr>,
     \<lparr>item_id = 2, item_job = ''j'', item_metadata = scrape_meta ''v'' ''1'', item_state = I_PENDING, input_data = None, output_data = None, item_updated = ''1''\<rparr>]\<rparr>"

theorem resume_takes_failed_only_witness:
  "''u'' \<in> set (select_links (Some ''j'') demo_items [] None id) \<and> ''v'' \<notin> set (select_links (Some ''j'') demo_items [] None id)"
proof -
  define r where "r = \<lparr>item_id = 1, item_job = ''j'', item_metadata = scrape_meta ''u'' ''1'', item_state = I_FAILED, input_data = None,
    output_data = None, item_updated = ''1''\<rparr>"
  have "r \<in> set (scrape_items ''j'' demo_items)" "item_state r = I_FAILED" "json_extract (item_metadata r) ''ulid'' = Some (MStr ''u'')"
    by (simp_all add: r_def scrape_items_def demo_items_def scrape_meta_def)
  from resume_takes_failed_only [of id, OF _ this] show ?thesis
    by (simp add: demo_items_def scrape_meta_def)
qed

end
