(* ===== verification/Stock_Notes.thy ===== *)
theory Stock_Notes
  imports Schema_Types "HOL-Library.Product_Lexorder"
begin

text \<open>
  \<open>tools/stock_notes/fiscal.py\<close>, the fiscal quarters of a company, and \<open>tools/stock_notes/tidy_transform.py\<close>, the
  turning of a table of a filing into one record per row and period. What the \<open>edgar\<close> library returns and the digest
  \<open>md5\<close> are arguments.
\<close>

section \<open>Fiscal quarters\<close>

text \<open>\<open>fiscal_quarter_from_period_end\<close>: quarter and fiscal year of a month.\<close>

definition fiscal_quarter :: "int \<Rightarrow> int \<Rightarrow> int \<Rightarrow> int \<times> int" where
  "fiscal_quarter year m fye =
     (let q = ((m - fye - 1) mod 12) div 3 + 1;
          fy = (if m \<le> fye then year else year + 1) in
      if m = fye then (4, year) else (q, fy))"

text \<open>\<open>int(s)\<close> of a text: blanks around it, a sign, digits with single underscores between them.\<close>

fun digits_value :: "int \<Rightarrow> bool \<Rightarrow> string \<Rightarrow> int option" where
  "digits_value acc after_digit [] = (if after_digit then Some acc else None)"
| "digits_value acc after_digit (c # s) =
     (case digit_value c of
        Some d \<Rightarrow> digits_value (10 * acc + int d) True s
      | None \<Rightarrow> if c = CHR 0x5F \<and> after_digit then digits_value acc False s else None)"

definition py_int :: "string \<Rightarrow> int option" where
  "py_int s =
     (case strip s of
        [] \<Rightarrow> None
      | c # t \<Rightarrow> if c = CHR 0x2D then map_option uminus (digits_value 0 False t)
                 else if c = CHR 0x2B then digits_value 0 False t
                 else digits_value 0 False (c # t))"

fun split_char :: "char \<Rightarrow> string \<Rightarrow> string list" where
  "split_char c [] = [[]]"
| "split_char c (x # s) = (if x = c then [] # split_char c s
     else (case split_char c s of [] \<Rightarrow> [[x]] | w # ws \<Rightarrow> (x # w) # ws))"

definition parse_quarter_date :: "string \<Rightarrow> int \<times> int" where
  "parse_quarter_date s =
     (case split_char CHR 0x2D (strip s) of
        y # mo # _ \<Rightarrow>
          (case (py_int y, py_int mo) of
             (Some year, Some month) \<Rightarrow> if 1 \<le> month \<and> month \<le> 12 \<and> 1900 < year then (year, month) else (0, 0)
           | _ \<Rightarrow> (0, 0))
      | _ \<Rightarrow> (0, 0))"

text \<open>\<open>date(y, m, 1)\<close> raises beyond the year 9999.\<close>

definition date_ok :: "int \<Rightarrow> bool" where
  "date_ok y \<longleftrightarrow> 1 \<le> y \<and> y \<le> 9999"

text \<open>The loop, on pairs of fiscal year and quarter; \<open>n\<close> counts the quarters that may still be added.\<close>

definition next_quarter :: "int \<times> int \<Rightarrow> int \<times> int" where
  "next_quarter p = (case p of (fy, q) \<Rightarrow> if 4 < q + 1 then (fy + 1, 1) else (fy, q + 1))"

text \<open>The number of a quarter, counted from the first of year 0.\<close>

definition quarter_index :: "int \<times> int \<Rightarrow> int" where
  "quarter_index p = 4 * fst p + snd p - 1"

function quarters_from :: "int \<times> int \<Rightarrow> int \<times> int \<Rightarrow> int \<Rightarrow> (int \<times> int) list \<Rightarrow> (int \<times> int) list" where
  "quarters_from p e max_quarters acc =
     (if p \<le> e then
        (let acc' = acc @ [(snd p, fst p)] in
         if max_quarters \<le> int (length acc') then acc' else quarters_from (next_quarter p) e max_quarters acc')
      else acc)"
  by pat_completeness auto
termination
  by (relation "measure (\<lambda>(p, e, n, acc). nat (n - int (length acc)))") auto

declare quarters_from.simps [simp del]

definition quarter_date_range :: "string \<Rightarrow> string \<Rightarrow> int \<Rightarrow> int \<Rightarrow> string + (int \<times> int) list" where
  "quarter_date_range start_date end_date fye max_quarters =
     (let (sy, sm) = (if start_date = [] then (0, 0) else parse_quarter_date start_date);
          (ey, em) = (if end_date = [] then (0, 0) else parse_quarter_date end_date) in
      if sy = 0 \<or> ey = 0 then Inr []
      else if \<not> date_ok sy \<or> \<not> date_ok ey then Inl ''year is out of range''
      else (let (sq, sfy) = fiscal_quarter sy sm fye; (eq, efy) = fiscal_quarter ey em fye
            in Inr (quarters_from (sfy, sq) (efy, eq) max_quarters [])))"

text \<open>
  A fiscal quarter by one division: the months are numbered through, and the fiscal year that ends with month \<open>fye\<close>
  begins with the month after it.
\<close>

lemma mod_12: "- 12 \<le> x \<Longrightarrow> x < 0 \<Longrightarrow> (x :: int) mod 12 = x + 12" "0 \<le> x \<Longrightarrow> x < 12 \<Longrightarrow> (x :: int) mod 12 = x"
  by presburger+

lemma fiscal_quarter_range: "1 \<le> fst (fiscal_quarter y m fye) \<and> fst (fiscal_quarter y m fye) \<le> 4"
proof -
  have "0 \<le> x mod 12 div 3 \<and> x mod 12 div 3 \<le> 3" for x :: int by presburger
  then show ?thesis by (simp add: fiscal_quarter_def Let_def)
qed

lemma fiscal_quarter_index:
  assumes "1 \<le> m" "m \<le> 12" "1 \<le> fye" "fye \<le> 12"
  shows "quarter_index (snd (fiscal_quarter y m fye), fst (fiscal_quarter y m fye)) = (12 * y + m + 11 - fye) div 3"
proof -
  have shift: "(12 * a + b) div 3 = 4 * a + b div 3" for a b :: int by presburger
  consider (last) "m = fye" | (before) "m < fye" | (after) "fye < m" by linarith
  then show ?thesis
  proof cases
    case last
    then show ?thesis using shift [of y 11] by (simp add: fiscal_quarter_def quarter_index_def add.assoc)
  next
    case before
    then have "(m - fye - 1) mod 12 = m + 11 - fye" using mod_12(1) [of "m - fye - 1"] assms by simp
    then show ?thesis using before shift [of y "m + 11 - fye"]
      by (simp add: fiscal_quarter_def quarter_index_def Let_def add.assoc [symmetric])
  next
    case after
    then have "(m - fye - 1) mod 12 = m - fye - 1" using mod_12(2) [of "m - fye - 1"] assms by simp
    moreover have "(m + 11 - fye) div 3 = (m - fye - 1) div 3 + 4" by presburger
    ultimately show ?thesis using after shift [of y "m + 11 - fye"]
      by (simp add: fiscal_quarter_def quarter_index_def Let_def)
  qed
qed

text \<open>Steps along the numbers: the next quarter is the next number, and the order of the pairs is that of the numbers.\<close>

definition quarter_of :: "int \<Rightarrow> int \<times> int" where
  "quarter_of i = (i div 4, i mod 4 + 1)"

lemma quarter_of_index: "1 \<le> q \<Longrightarrow> q \<le> 4 \<Longrightarrow> quarter_of (quarter_index (fy, q)) = (fy, q)"
  by (simp add: quarter_of_def quarter_index_def) presburger

lemma next_quarter_of: "next_quarter (quarter_of i) = quarter_of (i + 1)"
  by (simp add: next_quarter_def quarter_of_def) presburger

lemma quarter_of_le: "quarter_of i \<le> quarter_of j \<longleftrightarrow> i \<le> j"
  by (simp add: quarter_of_def less_eq_prod_def) presburger

lemma quarters_from_upto:
  assumes "length acc < nat (max 1 n)"
  shows "quarters_from (quarter_of i) (quarter_of j) n acc =
    acc @ map (\<lambda>k. prod.swap (quarter_of k)) (take (nat (max 1 n) - length acc) [i..j])"
  using assms
proof (induction "nat (max 1 n) - length acc" arbitrary: i acc)
  case 0
  then show ?case by simp
next
  case (Suc d)
  let ?acc = "acc @ [prod.swap (quarter_of i)]"
  have pair: "(snd (quarter_of i), fst (quarter_of i)) = prod.swap (quarter_of i)" by (simp add: prod.swap_def)
  show ?case
  proof (cases "i \<le> j")
    case False
    then show ?thesis by (simp add: quarters_from.simps quarter_of_le)
  next
    case True
    then have split: "[i..j] = i # [i + 1..j]" by (rule upto_rec1)
    show ?thesis
    proof (cases "n \<le> int (length ?acc)")
      case full: True
      then have "nat (max 1 n) - length acc = 1" using Suc.prems by auto
      then show ?thesis using True full
        by (subst quarters_from.simps) (simp add: quarter_of_le Let_def pair split)
    next
      case False
      then have "length ?acc < nat (max 1 n)" "d = nat (max 1 n) - length ?acc" using Suc.hyps(2) by auto
      from Suc.hyps(1) [OF this(2,1)]
      have "quarters_from (quarter_of (i + 1)) (quarter_of j) n ?acc =
          ?acc @ map (\<lambda>k. prod.swap (quarter_of k)) (take d [i + 1..j])"
        using Suc.hyps(2) by (simp add: \<open>d = _\<close>)
      then show ?thesis using True False Suc.hyps(2) [symmetric]
        by (subst quarters_from.simps) (simp add: quarter_of_le Let_def pair split next_quarter_of)
    qed
  qed
qed

lemma parse_quarter_date_cases:
  "parse_quarter_date s = (y, mo) \<Longrightarrow> y \<noteq> 0 \<Longrightarrow> 1 \<le> mo \<and> mo \<le> 12 \<and> 1900 < y"
  by (auto simp: parse_quarter_date_def split: list.splits option.splits if_splits)

text \<open>
  The quarters of a range of dates are an interval of whole numbers: with the quarters numbered through (four to a
  fiscal year), \<open>quarter_date_range\<close> lists the quarters from that of the start month to that of the end month, in order,
  without a gap or a repetition, the first \<open>max_quarters\<close> of them (and one when \<open>max_quarters\<close> is below one). The
  number of the quarter of month \<open>m\<close> of year \<open>y\<close> is \<open>(12 y + m + 11 - fye) div 3\<close>, whatever month ends the fiscal year.
\<close>

theorem quarter_range_is_interval:
  assumes "parse_quarter_date s = (sy, sm)" "sy \<noteq> 0" "sy \<le> 9999"
    and "parse_quarter_date e = (ey, em)" "ey \<noteq> 0" "ey \<le> 9999"
    and "s \<noteq> []" "e \<noteq> []" "1 \<le> fye" "fye \<le> 12"
  shows "quarter_date_range s e fye n = Inr (map (\<lambda>k. (k mod 4 + 1, k div 4)) (take (nat (max 1 n))
           [(12 * sy + sm + 11 - fye) div 3 .. (12 * ey + em + 11 - fye) div 3]))"
proof -
  have s: "1 \<le> sm" "sm \<le> 12" "1900 < sy" and e: "1 \<le> em" "em \<le> 12" "1900 < ey"
    using parse_quarter_date_cases assms(1,2,4,5) by blast+
  obtain sq sfy where sf: "fiscal_quarter sy sm fye = (sq, sfy)" by fastforce
  obtain eq efy where ef: "fiscal_quarter ey em fye = (eq, efy)" by fastforce
  have "quarter_of ((12 * sy + sm + 11 - fye) div 3) = (sfy, sq)"
    using quarter_of_index [of sq sfy] fiscal_quarter_range [of sy sm fye] fiscal_quarter_index [of sm fye sy] s assms(9,10) sf
    by simp
  moreover have "quarter_of ((12 * ey + em + 11 - fye) div 3) = (efy, eq)"
    using quarter_of_index [of eq efy] fiscal_quarter_range [of ey em fye] fiscal_quarter_index [of em fye ey] e assms(9,10) ef
    by simp
  ultimately show ?thesis
    using quarters_from_upto [of "[]" n "(12 * sy + sm + 11 - fye) div 3" "(12 * ey + em + 11 - fye) div 3"] assms s e sf ef
    by (simp add: quarter_date_range_def date_ok_def quarter_of_def)
qed

theorem quarter_range_is_interval_witness:
  "quarter_date_range ''2023-11'' ''2024-05-31'' 9 12 = Inr (map (\<lambda>k. (k mod 4 + 1, k div 4)) (take (nat (max 1 12))
     [(12 * 2023 + 11 + 11 - 9) div 3 .. (12 * 2024 + 5 + 11 - 9) div 3]))"
  by (rule quarter_range_is_interval) (code_simp | simp)+

section \<open>The month that ends the fiscal year\<close>

text \<open>
  What the \<open>edgar\<close> library answers: every access may raise. A report has financial data or not, those have XBRL data or
  not, and the entity information is a map; the period of the report is a text or missing.
\<close>

datatype 'a attempt = Raises | Gives 'a

record annual_report =
  financials :: "(string \<rightharpoonup> int) option option"
  period_of_report :: "string option"

record edgar_company =
  fiscal_year_end :: "string option attempt"
  annual_filings :: "annual_report attempt list attempt"

text \<open>\<open>datetime.strptime(s, "%Y-%m-%d")\<close>: year, month and day of a valid date.\<close>

definition all_digits :: "string \<Rightarrow> bool" where
  "all_digits s \<longleftrightarrow> list_all (\<lambda>c. digit_value c \<noteq> None) s"

definition leap_year :: "int \<Rightarrow> bool" where
  "leap_year y \<longleftrightarrow> y mod 4 = 0 \<and> (y mod 100 \<noteq> 0 \<or> y mod 400 = 0)"

definition days_in_month :: "int \<Rightarrow> int \<Rightarrow> int" where
  "days_in_month y mo = (if mo = 2 then (if leap_year y then 29 else 28) else if mo \<in> {4, 6, 9, 11} then 30 else 31)"

definition strptime_date :: "string \<Rightarrow> (int \<times> int \<times> int) option" where
  "strptime_date s =
     (case split_char CHR 0x2D s of
        [y, mo, d] \<Rightarrow>
          (if length y = 4 \<and> all_digits y \<and> length mo \<in> {1, 2} \<and> all_digits mo \<and> length d \<in> {1, 2}
              \<and> all_digits (case d of c # t \<Rightarrow> if c = CHR 0x20 then t else d | [] \<Rightarrow> [])
           then (case (py_int y, py_int mo, py_int d) of
                   (Some y, Some mo, Some d) \<Rightarrow>
                     if 1 \<le> y \<and> 1 \<le> mo \<and> mo \<le> 12 \<and> 1 \<le> d \<and> d \<le> days_in_month y mo then Some (y, mo, d) else None
                 | _ \<Rightarrow> None)
           else None)
      | _ \<Rightarrow> None)"

definition strptime_month :: "string \<Rightarrow> int option" where
  "strptime_month s = map_option (\<lambda>p. fst (snd p)) (strptime_date s)"

text \<open>\<open>Counter(months).most_common(1)[0][0]\<close>: the first of the most frequent.\<close>

fun first_max :: "('a \<Rightarrow> nat) \<Rightarrow> 'a \<Rightarrow> 'a list \<Rightarrow> 'a" where
  "first_max f best [] = best"
| "first_max f best (x # xs) = (if f best < f x then first_max f x xs else first_max f best xs)"

definition most_common :: "int list \<Rightarrow> int option" where
  "most_common xs = (case xs of [] \<Rightarrow> None | x # t \<Rightarrow> Some (first_max (count_list xs) x t))"

definition valid_month :: "int \<Rightarrow> bool" where
  "valid_month mo \<longleftrightarrow> 1 \<le> mo \<and> mo \<le> 12"

text \<open>The three tiers; \<open>None\<close> where a tier finds nothing or an exception ends it.\<close>

definition fye_tier :: "edgar_company \<Rightarrow> int option" where
  "fye_tier c =
     (case fiscal_year_end c of
        Gives (Some fye) \<Rightarrow>
          (if 2 \<le> length fye then (case py_int (take 2 fye) of
             Some month \<Rightarrow> if valid_month month then Some month else None | None \<Rightarrow> None) else None)
      | _ \<Rightarrow> None)"

definition xbrl_tier :: "edgar_company \<Rightarrow> int option" where
  "xbrl_tier c =
     (case annual_filings c of
        Gives (Gives r # _) \<Rightarrow>
          (case financials r of
             Some (Some info) \<Rightarrow>
               (case info ''fiscal_year_end_month'' of
                  Some month \<Rightarrow> if month \<noteq> 0 \<and> valid_month month then Some month else None | None \<Rightarrow> None)
           | _ \<Rightarrow> None)
      | _ \<Rightarrow> None)"

fun report_months :: "annual_report attempt list \<Rightarrow> int list option" where
  "report_months [] = Some []"
| "report_months (Raises # rs) = None"
| "report_months (Gives r # rs) =
     (case report_months rs of None \<Rightarrow> None
      | Some ms \<Rightarrow> Some ((case period_of_report r of None \<Rightarrow> [] | Some p \<Rightarrow>
          (case strptime_month p of None \<Rightarrow> [] | Some mo \<Rightarrow> [mo])) @ ms))"

definition period_tier :: "edgar_company \<Rightarrow> int option" where
  "period_tier c =
     (case annual_filings c of
        Gives rs \<Rightarrow>
          (case report_months (take 5 rs) of
             None \<Rightarrow> None
           | Some months \<Rightarrow> (case most_common months of
               None \<Rightarrow> None | Some mo \<Rightarrow> if valid_month mo then Some mo else None))
      | Raises \<Rightarrow> None)"

text \<open>
  \<open>_detect_fy_month\<close>. Without a company each tier looks it up, until one look-up succeeds: \<open>tries\<close> holds what the
  successive look-ups give.
\<close>

fun detect_tiers :: "(edgar_company \<Rightarrow> int option) list \<Rightarrow> edgar_company option \<Rightarrow> edgar_company attempt list \<Rightarrow> int" where
  "detect_tiers [] c tries = 12"
| "detect_tiers (t # ts) (Some c) tries = (case t c of Some mo \<Rightarrow> mo | None \<Rightarrow> detect_tiers ts (Some c) tries)"
| "detect_tiers (t # ts) None (Gives c # tries) =
     (case t c of Some mo \<Rightarrow> mo | None \<Rightarrow> detect_tiers ts (Some c) tries)"
| "detect_tiers (t # ts) None (Raises # tries) = detect_tiers ts None tries"
| "detect_tiers (t # ts) None [] = detect_tiers ts None []"

definition detect_fy_month :: "edgar_company option \<Rightarrow> edgar_company attempt list \<Rightarrow> int" where
  "detect_fy_month = detect_tiers [fye_tier, xbrl_tier, period_tier]"

definition get_fiscal_year_end_month ::
  "(string \<rightharpoonup> int) \<Rightarrow> string \<Rightarrow> edgar_company option \<Rightarrow> edgar_company attempt list \<Rightarrow> int \<times> (string \<rightharpoonup> int)" where
  "get_fiscal_year_end_month cache ticker c tries =
     (let key = upper ticker in
      case cache key of Some mo \<Rightarrow> (mo, cache)
      | None \<Rightarrow> (let mo = detect_fy_month c tries in (mo, cache(key \<mapsto> mo))))"

definition valid_cache :: "(string \<rightharpoonup> int) \<Rightarrow> bool" where
  "valid_cache cache \<longleftrightarrow> (\<forall>k mo. cache k = Some mo \<longrightarrow> valid_month mo)"

lemma tier_valid:
  "fye_tier c = Some mo \<Longrightarrow> valid_month mo" "xbrl_tier c = Some mo \<Longrightarrow> valid_month mo" "period_tier c = Some mo \<Longrightarrow> valid_month mo"
  by (auto simp: fye_tier_def xbrl_tier_def period_tier_def split: attempt.splits option.splits list.splits if_splits)

lemma detect_tiers_valid:
  "(\<And>t c mo. t \<in> set ts \<Longrightarrow> t c = Some mo \<Longrightarrow> valid_month mo) \<Longrightarrow> valid_month (detect_tiers ts c tries)"
  by (induction ts c tries rule: detect_tiers.induct) (auto simp: valid_month_def split: option.split)

lemma detect_valid: "valid_month (detect_fy_month c tries)"
  unfolding detect_fy_month_def by (rule detect_tiers_valid) (auto dest: tier_valid)

theorem fiscal_month_valid:
  assumes "valid_cache cache" "get_fiscal_year_end_month cache ticker c tries = (mo, cache')"
  shows "valid_month mo \<and> valid_cache cache' \<and> (\<forall>c' tries'. get_fiscal_year_end_month cache' ticker c' tries' = (mo, cache'))"
  using assms detect_valid [of c tries]
  by (auto simp: get_fiscal_year_end_month_def valid_cache_def Let_def split: option.splits if_splits)

text \<open>
  The default of a failed detection is kept like a detected month: a company whose year ends in September, met once while
  the service was out of reach, keeps December for the life of the process.
\<close>

theorem failed_detection_is_remembered:
  assumes "cache (upper ticker) = None"
    and "get_fiscal_year_end_month cache ticker None [Raises, Raises, Raises] = (mo, cache')"
  shows "get_fiscal_year_end_month cache' ticker (Some c) [] = (12, cache')"
  using assms by (auto simp: get_fiscal_year_end_month_def detect_fy_month_def Let_def)

section \<open>Columns of periods\<close>

text \<open>\<open>make_registry_id\<close>: the digest of the joined key.\<close>

definition registry_key :: "string \<Rightarrow> string \<Rightarrow> string \<Rightarrow> int \<Rightarrow> string" where
  "registry_key ticker name acc note = join ''|'' [ticker, name, acc, show_int note]"

definition make_registry_id :: "(string \<Rightarrow> string) \<Rightarrow> string \<Rightarrow> string \<Rightarrow> string \<Rightarrow> int \<Rightarrow> string" where
  "make_registry_id md5 ticker name acc note = md5 (registry_key ticker name acc note)"

text \<open>The two patterns at a place of the text: \<open>\d{4}-\d{2}-\d{2}\<close>, and the kind of the period in parentheses.\<close>

definition date_at :: "string \<Rightarrow> string option" where
  "date_at s =
     (if 10 \<le> length s \<and> all_digits (take 4 s) \<and> s ! 4 = CHR 0x2D \<and> all_digits (take 2 (drop 5 s))
         \<and> s ! 7 = CHR 0x2D \<and> all_digits (take 2 (drop 8 s))
      then Some (take 10 s) else None)"

definition period_kinds :: "string list" where
  "period_kinds = [''FY'', ''Q1'', ''Q2'', ''Q3'', ''Q4'', ''YTD'', ''H1'', ''H2'']"

definition kind_at :: "string \<Rightarrow> string option" where
  "kind_at s = find (\<lambda>k. prefix (''('' @ k @ '')'') s) period_kinds"

text \<open>\<open>re.search\<close>: the match at the first place that has one.\<close>

fun search :: "(string \<Rightarrow> string option) \<Rightarrow> string \<Rightarrow> string option" where
  "search at [] = at []"
| "search at (c # s) = (case at (c # s) of Some r \<Rightarrow> Some r | None \<Rightarrow> search at s)"

text \<open>The pattern of the whole name: a date, blanks, a kind, and the end (or a line feed before it).\<close>

definition whole_period :: "string \<Rightarrow> (string \<times> string) option" where
  "whole_period s =
     (case date_at s of
        None \<Rightarrow> None
      | Some d \<Rightarrow> (let t = lstrip (drop 10 s) in
          case kind_at t of
            None \<Rightarrow> None
          | Some k \<Rightarrow> if drop (length k + 2) t \<in> {[], [nl]} then Some (d, k) else None))"

definition parse_period_column :: "string option \<Rightarrow> string \<times> string" where
  "parse_period_column col =
     (let s = (case col of Some s \<Rightarrow> s | None \<Rightarrow> []) in
      case whole_period s of
        Some r \<Rightarrow> r
      | None \<Rightarrow> (case search date_at s of Some d \<Rightarrow> d | None \<Rightarrow> ''1970-01-01'',
                 case search kind_at s of Some k \<Rightarrow> k | None \<Rightarrow> ''UNKNOWN''))"

lemma search_hit: "at s = Some r \<Longrightarrow> search at s = Some r"
  by (cases s) auto

lemma search_kind_skip: "CHR 0x28 \<notin> set p \<Longrightarrow> search kind_at (p @ t) = search kind_at t"
  by (induction p) (auto simp: kind_at_def period_kinds_def)

lemma date_at_no_paren: "date_at s = Some d \<Longrightarrow> CHR 0x28 \<notin> set (take 10 s)"
  by (auto simp: date_at_def all_digits_def digit_value_def Let_def numeral_eq_Suc Suc_le_length_iff split: if_splits)

lemma no_paren_space: "c \<in> set (takeWhile is_space s) \<Longrightarrow> c \<noteq> CHR 0x28"
  by (auto dest!: set_takeWhileD simp: is_space_def)

lemma whole_period_searches:
  assumes "whole_period s = Some (d, k)"
  shows "search date_at s = Some d" "search kind_at s = Some k"
proof -
  let ?t = "lstrip (drop 10 s)"
  have d: "date_at s = Some d" and k: "kind_at ?t = Some k"
    using assms by (auto simp: whole_period_def Let_def split: option.splits if_splits)
  show "search date_at s = Some d" using d by (rule search_hit)
  have "s = (take 10 s @ takeWhile is_space (drop 10 s)) @ ?t" by (simp add: lstrip_def)
  moreover have "CHR 0x28 \<notin> set (take 10 s @ takeWhile is_space (drop 10 s))"
    using date_at_no_paren [OF d] no_paren_space by auto
  ultimately have "search kind_at s = search kind_at ?t" using search_kind_skip by metis
  then show "search kind_at s = Some k" using search_hit [of kind_at, OF k] by simp
qed

text \<open>The pattern of the whole name decides nothing: the two searches give the same answer wherever it matches.\<close>

theorem whole_pattern_redundant:
  "parse_period_column col =
     (let s = (case col of Some s \<Rightarrow> s | None \<Rightarrow> []) in
      (case search date_at s of Some d \<Rightarrow> d | None \<Rightarrow> ''1970-01-01'',
       case search kind_at s of Some k \<Rightarrow> k | None \<Rightarrow> ''UNKNOWN''))"
  using whole_period_searches
  by (auto simp: parse_period_column_def Let_def split: option.split)

section \<open>Tidy records\<close>

text \<open>
  A cell of a data frame: missing (\<open>pd.isna\<close>), a text, or another value with its \<open>str\<close> and its \<open>int(float(v))\<close>, which may
  raise. A row is read by the names of its columns.
\<close>

datatype frame_cell = NA | Text string | Number string "int option"

type_synonym frame_row = "string \<Rightarrow> frame_cell"

primrec str_of :: "frame_cell \<Rightarrow> string" where
  "str_of NA = ''nan''" | "str_of (Text s) = s" | "str_of (Number s v) = s"

primrec cell_truthy :: "frame_cell \<Rightarrow> bool" where
  "cell_truthy NA = True" | "cell_truthy (Text s) = (s \<noteq> [])" | "cell_truthy (Number s v) = (s \<notin> {''0'', ''0.0'', ''-0.0'', ''False''})"

definition xbrl_metadata_columns :: "string list" where
  "xbrl_metadata_columns =
     [''abstract'', ''balance'', ''concept'', ''dimension'', ''dimension_axis'',
      ''dimension_label'', ''dimension_member'', ''dimension_member_label'',
      ''is_breakdown'', ''label'', ''level'', ''parent_abstract_concept'',
      ''parent_concept'', ''preferred_sign'', ''standard_concept'', ''weight'']"

record tidy_row =
  detail_id :: string
  tidy_accession :: string
  tidy_note :: int
  tidy_index :: int
  tidy_ticker :: string
  tidy_form :: string
  period_raw :: string
  period_end_date :: string
  period_type :: string
  tidy_value :: string
  row_order :: nat
  tidy_hash :: string
  tidy_level :: int
  tidy_meta :: "string \<Rightarrow> string"

definition is_metadata :: "string \<Rightarrow> bool" where
  "is_metadata c \<longleftrightarrow> c \<in> set xbrl_metadata_columns \<or> c = ''row_order''"

text \<open>The cells of the metadata columns; the boolean columns are made texts first, so a missing one reads \<open>nan\<close>.\<close>

definition meta_cell :: "string list \<Rightarrow> frame_row \<Rightarrow> string \<Rightarrow> frame_cell" where
  "meta_cell cols r c =
     (if c \<notin> set cols then NA
      else if c \<in> {''abstract'', ''dimension'', ''is_breakdown''} then Text (str_of (r c)) else r c)"

definition cell_text :: "frame_cell \<Rightarrow> string" where
  "cell_text v = (if v = NA then [] else str_of v)"

definition level_of :: "(string \<Rightarrow> int option) \<Rightarrow> frame_cell \<Rightarrow> int" where
  "level_of trunc v = (case v of NA \<Rightarrow> 0 | Text s \<Rightarrow> (case trunc s of Some i \<Rightarrow> i | None \<Rightarrow> 0)
     | Number s i \<Rightarrow> (case i of Some i \<Rightarrow> i | None \<Rightarrow> 0))"

text \<open>\<open>detail_id\<close> of the row with number \<open>i\<close> in the column \<open>c\<close>.\<close>

definition make_detail_id :: "string \<Rightarrow> int \<Rightarrow> int \<Rightarrow> string \<Rightarrow> string \<Rightarrow> nat \<Rightarrow> string" where
  "make_detail_id acc note di concept period i =
     join ''|'' [acc, show_int note, show_int di, concept, period, show_int (int i)]"

definition tidy_record ::
  "(string \<Rightarrow> string) \<Rightarrow> (string \<Rightarrow> int option) \<Rightarrow> string list \<Rightarrow> string \<Rightarrow> string \<Rightarrow> string \<Rightarrow> int \<Rightarrow> int
   \<Rightarrow> (nat \<times> frame_row) \<times> string \<times> frame_cell \<Rightarrow> tidy_row" where
  "tidy_record md5 trunc cols ticker form acc note di t =
     (case t of ((i, r), period, v) \<Rightarrow>
        (let did = make_detail_id acc note di (cell_text (meta_cell cols r ''concept'')) period i;
             val = (if v = NA then [] else str_of v) in
         \<lparr>detail_id = did, tidy_accession = acc, tidy_note = note, tidy_index = di, tidy_ticker = ticker, tidy_form = form,
          period_raw = period,
          period_end_date = fst (parse_period_column (Some period)),
          period_type = snd (parse_period_column (Some period)),
          tidy_value = val, row_order = i, tidy_hash = md5 (join ''||'' [did, val]),
          tidy_level = level_of trunc (meta_cell cols r ''level''),
          tidy_meta = (\<lambda>c. cell_text (meta_cell cols r c))\<rparr>))"

text \<open>
  \<open>transform_to_tidy\<close>. \<open>DataFrame.melt\<close> is an argument: it gets the columns kept, the columns turned into rows, and the
  rows with their numbers, and gives for each new row the row it comes from, the column and the cell.
\<close>

type_synonym melt_fun =
  "string list \<Rightarrow> string list \<Rightarrow> (nat \<times> frame_row) list \<Rightarrow> ((nat \<times> frame_row) \<times> string \<times> frame_cell) list"

definition transform_to_tidy ::
  "(string \<Rightarrow> string) \<Rightarrow> (string \<Rightarrow> int option) \<Rightarrow> melt_fun \<Rightarrow> string list \<Rightarrow> frame_row list
   \<Rightarrow> string \<Rightarrow> string \<Rightarrow> string \<Rightarrow> int option \<Rightarrow> int option \<Rightarrow> tidy_row list \<times> string list" where
  "transform_to_tidy md5 trunc melt cols rows ticker form acc note di =
     (let available = filter (\<lambda>c. c \<noteq> ''row_order'') cols @ [''row_order''];
          metadata = filter is_metadata available;
          periods = filter (\<lambda>c. \<not> is_metadata c) available in
      if periods = [] then ([], [])
      else (let tidy = melt metadata periods (enumerate 0 rows) in
        (map (tidy_record md5 trunc cols ticker form acc (case note of Some n \<Rightarrow> n | None \<Rightarrow> 0)
                (case di of Some n \<Rightarrow> n | None \<Rightarrow> 0)) tidy,
         if ''concept'' \<in> set cols
         then map str_of (filter cell_truthy (rev (remdups (rev
                (filter (\<lambda>v. v \<noteq> NA) (map (\<lambda>t. snd (fst t) ''concept'') tidy))))))
         else [])))"

text \<open>What \<open>melt\<close> is documented to give: the columns one after the other, each with all rows.\<close>

definition melt_law :: "melt_fun \<Rightarrow> bool" where
  "melt_law melt \<longleftrightarrow> (\<forall>ids vals rows. melt ids vals rows =
     concat (map (\<lambda>c. map (\<lambda>r. (r, c, snd r c)) rows) vals))"

definition column_by_column :: melt_fun where
  "column_by_column ids vals rows = concat (map (\<lambda>c. map (\<lambda>r. (r, c, snd r c)) rows) vals)"

lemma column_by_column_law: "melt_law column_by_column"
  by (simp add: melt_law_def column_by_column_def)

lemma show_int_no_bar: "CHR 0x7C \<notin> set (show_int i)"
  using digits_digit [of "CHR 0x7C"] by (auto simp: show_int_def digit_value_def Let_def)

lemma last_separator:
  assumes "x @ a # u = y @ a # v" "a \<notin> set u" "a \<notin> set v"
  shows "x = y \<and> u = v"
proof -
  have "rev u @ a # rev x = rev v @ a # rev y"
    using arg_cong [OF assms(1), of rev] by simp
  moreover have "takeWhile (\<lambda>c. c \<noteq> a) (rev w @ a # z) = rev w" if "a \<notin> set w" for w z
    using that by (subst takeWhile_append2) auto
  ultimately have "rev u = rev v" using assms(2,3) by metis
  then show ?thesis using assms(1) by simp
qed

lemma detail_id_row:
  assumes "make_detail_id acc n d co p i = make_detail_id acc n d co' p' i'"
  shows "i = i'" "co = co' \<Longrightarrow> p = p'"
proof -
  have eq: "(co @ CHR 0x7C # p) @ CHR 0x7C # show_int (int i) = (co' @ CHR 0x7C # p') @ CHR 0x7C # show_int (int i')"
    using assms by (simp add: make_detail_id_def)
  have *: "co @ CHR 0x7C # p = co' @ CHR 0x7C # p'" "show_int (int i) = show_int (int i')"
    using last_separator [OF eq show_int_no_bar show_int_no_bar] by simp_all
  show "i = i'" using show_int_inj [OF *(2)] by simp
  show "co = co' \<Longrightarrow> p = p'" using *(1) by simp
qed

lemma tidy_record_id:
  "detail_id (tidy_record md5 trunc cols ticker form acc n d ((i, r), c, v))
     = make_detail_id acc n d (cell_text (meta_cell cols r ''concept'')) c i"
  by (simp add: tidy_record_def Let_def)

lemma distinct_melted:
  assumes "distinct vals" "distinct rows"
  shows "distinct (column_by_column ids vals rows)"
  using assms by (induction vals) (auto simp: column_by_column_def distinct_map inj_on_def)

lemma tidy_ids_distinct:
  assumes "melt_law melt" "distinct cols"
  shows "distinct (map detail_id (fst (transform_to_tidy md5 trunc melt cols rows ticker form acc note di)))
    \<and> length (fst (transform_to_tidy md5 trunc melt cols rows ticker form acc note di))
        = length (filter (\<lambda>c. \<not> is_metadata c) cols) * length rows"
proof -
  let ?periods = "filter (\<lambda>c. \<not> is_metadata c) (filter (\<lambda>c. c \<noteq> ''row_order'') cols @ [''row_order''])"
  have periods: "?periods = filter (\<lambda>c. \<not> is_metadata c) cols"
    by (simp add: is_metadata_def) (metis (mono_tags, lifting))
  let ?t = "column_by_column [] (filter (\<lambda>c. \<not> is_metadata c) cols) (enumerate 0 rows)"
  have melted: "melt ids (filter (\<lambda>c. \<not> is_metadata c) cols) (enumerate 0 rows) = ?t" for ids
    using assms(1) by (simp add: melt_law_def column_by_column_def)
  let ?f = "tidy_record md5 trunc cols ticker form acc (case note of Some n \<Rightarrow> n | None \<Rightarrow> 0) (case di of Some n \<Rightarrow> n | None \<Rightarrow> 0)"
  have records: "fst (transform_to_tidy md5 trunc melt cols rows ticker form acc note di) = map ?f ?t"
    unfolding transform_to_tidy_def Let_def periods melted
    by (cases "filter (\<lambda>c. \<not> is_metadata c) cols = []") (simp_all add: column_by_column_def)
  have "distinct (enumerate 0 rows)" by (simp add: enumerate_eq_zip distinct_zipI1)
  then have "distinct ?t" using assms(2) by (intro distinct_melted) auto
  moreover have "inj_on (\<lambda>t. detail_id (?f t)) (set ?t)"
  proof (rule inj_onI)
    fix t t' assume t: "t \<in> set ?t" "t' \<in> set ?t" "detail_id (?f t) = detail_id (?f t')"
    obtain i r c where tt: "t = ((i, r), c, r c)" "(i, r) \<in> set (enumerate 0 rows)" using t(1) by (auto simp: column_by_column_def)
    obtain i' r' c' where tt': "t' = ((i', r'), c', r' c')" "(i', r') \<in> set (enumerate 0 rows)"
      using t(2) by (auto simp: column_by_column_def)
    note ids = t(3) [unfolded tt(1) tt'(1) tidy_record_id]
    have "i = i'" using ids by (rule detail_id_row(1))
    then have "r = r'" using tt(2) tt'(2) by (auto simp: in_set_enumerate_eq)
    then have "c = c'" using detail_id_row(2) [OF ids [unfolded \<open>i = i'\<close>]] by simp
    then show "t = t'" using \<open>i = i'\<close> \<open>r = r'\<close> tt(1) tt'(1) by simp
  qed
  moreover have "length ?t = length (filter (\<lambda>c. \<not> is_metadata c) cols) * length rows"
    by (simp add: column_by_column_def length_concat comp_def sum_list_triv)
  ultimately show ?thesis by (simp add: records distinct_map comp_def)
qed

text \<open>
  The rows of a detail table get different identifiers, so that writing them keeps every one: for a frame whose columns
  have different names, \<open>transform_to_tidy\<close> gives one record for each row and period column, and no two of them have the
  same \<open>detail_id\<close>, although concepts and column names may themselves contain the separator.
\<close>

theorem detail_ids_distinct:
  assumes "melt_law melt" "distinct cols"
  shows "distinct (map detail_id (fst (transform_to_tidy md5 trunc melt cols rows ticker form acc note di)))
    \<and> length (fst (transform_to_tidy md5 trunc melt cols rows ticker form acc note di))
        = length (filter (\<lambda>c. \<not> is_metadata c) cols) * length rows"
  using assms by (rule tidy_ids_distinct)

definition sample_row :: frame_row where
  "sample_row c = (if c = ''concept'' then Text ''us-gaap|Debt'' else Number ''7'' (Some 7))"

theorem detail_ids_distinct_witness:
  "distinct (map detail_id (fst (transform_to_tidy id (\<lambda>_. None) column_by_column [''concept'', ''2024-12-31 (FY)'', ''2023-12-31 (FY)'']
      [sample_row, sample_row] ''ACME'' ''10-K'' ''0001'' (Some 3) (Some 0))))
   \<and> length (fst (transform_to_tidy id (\<lambda>_. None) column_by_column [''concept'', ''2024-12-31 (FY)'', ''2023-12-31 (FY)'']
      [sample_row, sample_row] ''ACME'' ''10-K'' ''0001'' (Some 3) (Some 0)))
     = length (filter (\<lambda>c. \<not> is_metadata c) [''concept'', ''2024-12-31 (FY)'', ''2023-12-31 (FY)'']) * length [sample_row, sample_row]"
  by (rule detail_ids_distinct) (simp_all add: column_by_column_law)

end
