(* ===== verification/Notes_Store.thy ===== *)
theory Notes_Store
  imports Stock_Notes "HOL-Library.List_Lexorder" "HOL-Library.Char_ord"
begin

text \<open>
  The tables of the footnotes (\<open>database/schemas/stock_notes.py\<close>) with their keys and cascades, the extraction of a filing
  into them (\<open>tools/stock_notes/extractor.py\<close>, \<open>detail_manager.py\<close>), and the commands of the tool
  (\<open>tools/stock_notes/tool.py\<close>, \<open>resume.py\<close>). What the \<open>edgar\<close> library returns is an argument.
\<close>

section \<open>Tables\<close>

record filing_row =
  filing_id :: string
  filing_ticker :: string
  filing_form :: string
  filing_date :: string
  filing_acc :: string
  filing_period :: string
  filing_company :: string
  filing_cik :: int
  filing_fye :: int
  filing_quarter :: int
  filing_year :: int
  filing_hash :: string

record note_row =
  note_id :: string
  note_filing :: string
  note_ticker :: string
  note_form :: string
  note_acc :: string
  note_number :: int
  note_title :: string
  note_short :: string
  note_narrative :: string
  narrative_hash :: string
  note_expands :: "string list"
  note_statements :: "string list"
  table_count :: nat
  details_count :: nat
  note_quarter :: int
  note_year :: int
  note_status :: string
  note_hash :: string

record registry_row =
  registry_id :: string
  reg_ticker :: string
  reg_name :: string
  reg_title :: string
  reg_note :: int
  reg_acc :: string
  reg_concepts :: "string list"
  reg_rows :: nat
  reg_quarter :: int
  reg_year :: int
  reg_status :: string

record notes_db =
  filing_rows :: "filing_row list"
  note_rows :: "note_row list"
  registry_rows :: "registry_row list"
  detail_rows :: "tidy_row list"

text \<open>
  The statements the code sends. \<open>INSERT OR REPLACE\<close> deletes the rows that share a key with the new one; the deletion of a
  filing takes its notes (by \<open>filing_id\<close>) and its details (by \<open>accession_no\<close>, which is unique in \<open>sn_filings\<close>) with it. A
  statement whose foreign key has no parent is refused, a list of details as a whole.
\<close>

datatype sn_stmt =
    ReplaceFiling filing_row
  | ReplaceNote note_row
  | ReplaceRegistry registry_row
  | ReplaceDetails "tidy_row list"
  | DeleteDetails string
  | DeleteRegistry string
  | DeleteNotes string

definition replace_row :: "('a \<Rightarrow> 'k) \<Rightarrow> 'a \<Rightarrow> 'a list \<Rightarrow> 'a list" where
  "replace_row key r rows = filter (\<lambda>x. key x \<noteq> key r) rows @ [r]"

definition same_filing :: "filing_row \<Rightarrow> filing_row \<Rightarrow> bool" where
  "same_filing f x \<longleftrightarrow> filing_id x = filing_id f \<or> filing_acc x = filing_acc f"

definition replace_filing :: "filing_row \<Rightarrow> notes_db \<Rightarrow> notes_db" where
  "replace_filing f db =
     (let gone = filter (same_filing f) (filing_rows db) in
      db\<lparr>filing_rows := filter (\<lambda>x. \<not> same_filing f x) (filing_rows db) @ [f],
         note_rows := filter (\<lambda>n. note_filing n \<notin> filing_id ` set gone) (note_rows db),
         detail_rows := filter (\<lambda>d. tidy_accession d \<notin> filing_acc ` set gone) (detail_rows db)\<rparr>)"

fun exec_notes :: "sn_stmt \<Rightarrow> notes_db \<Rightarrow> notes_db option" where
  "exec_notes (ReplaceFiling f) db = Some (replace_filing f db)"
| "exec_notes (ReplaceNote n) db =
     (if note_filing n \<in> filing_id ` set (filing_rows db) then Some (db\<lparr>note_rows := replace_row note_id n (note_rows db)\<rparr>) else None)"
| "exec_notes (ReplaceRegistry r) db = Some (db\<lparr>registry_rows := replace_row registry_id r (registry_rows db)\<rparr>)"
| "exec_notes (ReplaceDetails ds) db =
     (if list_all (\<lambda>d. tidy_accession d \<in> filing_acc ` set (filing_rows db)) ds
      then Some (db\<lparr>detail_rows := fold (replace_row detail_id) ds (detail_rows db)\<rparr>) else None)"
| "exec_notes (DeleteDetails acc) db = Some (db\<lparr>detail_rows := filter (\<lambda>d. tidy_accession d \<noteq> acc) (detail_rows db)\<rparr>)"
| "exec_notes (DeleteRegistry acc) db = Some (db\<lparr>registry_rows := filter (\<lambda>r. reg_acc r \<noteq> acc) (registry_rows db)\<rparr>)"
| "exec_notes (DeleteNotes acc) db = Some (db\<lparr>note_rows := filter (\<lambda>n. note_acc n \<noteq> acc) (note_rows db)\<rparr>)"

text \<open>The writer keeps a refused statement aside and goes on.\<close>

definition write_stmt :: "sn_stmt \<Rightarrow> notes_db \<Rightarrow> notes_db" where
  "write_stmt s db = (case exec_notes s db of Some db' \<Rightarrow> db' | None \<Rightarrow> db)"

text \<open>Keys are unique and every note and detail has its filing.\<close>

definition keys_hold :: "notes_db \<Rightarrow> bool" where
  "keys_hold db \<longleftrightarrow>
     distinct (map filing_id (filing_rows db)) \<and> distinct (map filing_acc (filing_rows db)) \<and> distinct (map note_id (note_rows db))
     \<and> distinct (map registry_id (registry_rows db)) \<and> distinct (map detail_id (detail_rows db))
     \<and> list_all (\<lambda>n. note_filing n \<in> filing_id ` set (filing_rows db)) (note_rows db)
     \<and> list_all (\<lambda>d. tidy_accession d \<in> filing_acc ` set (filing_rows db)) (detail_rows db)"

lemma distinct_replace_row [simp]: "distinct (map key rows) \<Longrightarrow> distinct (map key (replace_row key r rows))"
  by (auto simp: replace_row_def distinct_map inj_on_def)

lemma set_replace_row: "set (replace_row key r rows) \<subseteq> insert r (set rows)"
  by (auto simp: replace_row_def)

lemma distinct_replace_rows: "distinct (map key rows) \<Longrightarrow> distinct (map key (fold (replace_row key) rs rows))"
  by (induction rs arbitrary: rows) simp_all

lemma set_replace_rows: "set (fold (replace_row key) rs rows) \<subseteq> set rs \<union> set rows"
proof (induction rs arbitrary: rows)
  case (Cons r rs)
  have "set (fold (replace_row key) rs (replace_row key r rows)) \<subseteq> set rs \<union> set (replace_row key r rows)" by (rule Cons)
  then show ?case using set_replace_row [of key r rows] by auto
qed simp

lemma distinct_map_filter: "distinct (map f xs) \<Longrightarrow> distinct (map f (filter P xs))"
  by (simp add: distinct_map inj_on_def)

lemma replace_filing_keys: "keys_hold db \<Longrightarrow> keys_hold (replace_filing f db)"
  by (auto simp: keys_hold_def replace_filing_def Let_def distinct_map_filter same_filing_def list_all_iff image_iff)

lemma write_stmt_keys: "keys_hold db \<Longrightarrow> keys_hold (write_stmt s db)"
proof (cases s)
  case (ReplaceFiling f)
  then show "keys_hold db \<Longrightarrow> ?thesis" by (simp add: write_stmt_def replace_filing_keys)
next
  case (ReplaceNote n)
  then show "keys_hold db \<Longrightarrow> ?thesis"
    using set_replace_row [of note_id n "note_rows db"] by (auto simp: write_stmt_def keys_hold_def list_all_iff)
next
  case (ReplaceDetails ds)
  then show "keys_hold db \<Longrightarrow> ?thesis"
    using set_replace_rows [of detail_id ds "detail_rows db"]
    by (auto simp: write_stmt_def keys_hold_def list_all_iff distinct_replace_rows)
qed (auto simp: write_stmt_def keys_hold_def distinct_map_filter list_all_iff)

text \<open>The keys hold after any statements.\<close>

interpretation nt: step_invariant write_stmt keys_hold
  by unfold_locales (rule write_stmt_keys)

theorem note_tables_keep_keys: "keys_hold (fold write_stmt ss \<lparr>filing_rows = [], note_rows = [], registry_rows = [], detail_rows = []\<rparr>)"
  by (rule nt.run_keeps) (simp add: keys_hold_def)

section \<open>Extraction of a filing\<close>

text \<open>What the code asks of the \<open>edgar\<close> objects; each access may raise.\<close>

record detail_table =
  dt_frame :: "(string list \<times> frame_row list) option attempt"
  dt_text :: "string attempt"

record edgar_note =
  en_title :: string
  en_short :: string
  en_text :: string
  en_expands :: "string list"
  en_statements :: "string list"
  en_tables :: nat
  en_details :: "detail_table list"

record edgar_object =
  eo_period :: string
  eo_notes :: "(int \<times> edgar_note attempt) list"

record edgar_filing =
  ef_cik :: int
  ef_form :: string
  ef_date :: string
  ef_company :: string
  ef_tickers :: "string list attempt"
  ef_month :: "int attempt"
  ef_object :: "edgar_object attempt"

text \<open>The effects of the extraction, in their order.\<close>

datatype sn_effect =
    Local sn_stmt
  | Cloud_Rows_Sent string "string list"
  | Cloud_Delete string string string
  | Add_Item string string
  | Item_Completed string string
  | Item_Failed string string

definition local_stmts :: "sn_effect list \<Rightarrow> sn_stmt list" where
  "local_stmts es = concat (map (\<lambda>e. case e of Local s \<Rightarrow> [s] | _ \<Rightarrow> []) es)"

text \<open>\<open>delete_filing_data\<close>.\<close>

definition delete_filing_data :: "string \<Rightarrow> notes_db \<Rightarrow> nat \<times> sn_effect list" where
  "delete_filing_data acc db =
     (let count = length (filter (\<lambda>d. tidy_accession d = acc) (detail_rows db)) in
      (count,
       (if 0 < count then [Local (DeleteDetails acc), Cloud_Delete ''sn_note_details'' ''accession_no'' acc] else [])
       @ [Local (DeleteRegistry acc), Cloud_Delete ''sn_detail_registry'' ''source_accession_no'' acc,
          Local (DeleteNotes acc), Cloud_Delete ''sn_notes'' ''accession_no'' acc]))"

text \<open>\<open>upsert_tidy_records\<close>: transactions of 500 records, cloud batches of 5000.\<close>

function in_batches :: "nat \<Rightarrow> 'a list \<Rightarrow> 'a list list" where
  "in_batches n xs = (if xs = [] \<or> n = 0 then [] else take n xs # in_batches n (drop n xs))"
  by pat_completeness auto
termination by (relation "measure (\<lambda>(n, xs). length xs)") auto

declare in_batches.simps [simp del]

definition upsert_tidy_records :: "tidy_row list \<Rightarrow> nat \<times> sn_effect list" where
  "upsert_tidy_records rs =
     (length rs,
      map (\<lambda>b. Local (ReplaceDetails b)) (in_batches 500 rs)
      @ map (\<lambda>b. Cloud_Rows_Sent ''sn_note_details'' (map detail_id b)) (in_batches 5000 rs))"

text \<open>The name of a detail table: the first line of its text, other characters than letters and digits replaced, and its number.\<close>

definition is_alnum :: "char \<Rightarrow> bool" where
  "is_alnum c \<longleftrightarrow> (let n = of_char c :: nat in (48 \<le> n \<and> n \<le> 57) \<or> (65 \<le> n \<and> n \<le> 90) \<or> (97 \<le> n \<and> n \<le> 122))"

definition strip_underscores :: "string \<Rightarrow> string" where
  "strip_underscores s = rev (dropWhile (\<lambda>c. c = CHR 0x5F) (rev (dropWhile (\<lambda>c. c = CHR 0x5F) s)))"

definition detail_title :: "nat \<Rightarrow> string attempt \<Rightarrow> string" where
  "detail_title di t = (case t of Raises \<Rightarrow> ''Detail_'' @ digits di
     | Gives s \<Rightarrow> if s \<noteq> [] then hd (split_char nl (take 100 s)) else ''Detail '' @ digits di)"

definition detail_table_name :: "int \<Rightarrow> nat \<Rightarrow> string \<Rightarrow> string" where
  "detail_table_name number di title =
     (let safe = strip title;
          base = (if safe \<noteq> [] then safe else ''Note'' @ show_int number @ ''_D'' @ digits di) in
      strip_underscores (take 40 (map (\<lambda>c. if is_alnum c then c else CHR 0x5F) base)) @ ''_D'' @ digits di)"

text \<open>\<open>register_detail_table\<close>.\<close>

definition register_detail_table ::
  "(string \<Rightarrow> string) \<Rightarrow> string \<Rightarrow> string \<Rightarrow> string \<Rightarrow> int \<Rightarrow> string \<Rightarrow> string list \<Rightarrow> nat \<Rightarrow> int \<times> int \<Rightarrow> string
   \<Rightarrow> registry_row" where
  "register_detail_table md5 ticker name title number acc concepts count qy status =
     \<lparr>registry_id = make_registry_id md5 ticker name acc number, reg_ticker = ticker, reg_name = name, reg_title = title,
      reg_note = number, reg_acc = acc, reg_concepts = concepts, reg_rows = count, reg_quarter = fst qy, reg_year = snd qy,
      reg_status = status\<rparr>"

text \<open>
  The libraries: the digest, \<open>int(float(s))\<close>, \<open>melt\<close>, and the frames it refuses (the code then skips the table).
\<close>

record frame_lib =
  md5 :: "string \<Rightarrow> string"
  trunc :: "string \<Rightarrow> int option"
  melt :: melt_fun
  melts :: "string list \<Rightarrow> bool"

record filing_context =
  cx_id :: string
  cx_ticker :: string
  cx_form :: string
  cx_acc :: string
  cx_quarter :: "int \<times> int"
  cx_status :: string
  cx_job :: string

text \<open>The records of one detail table: none where it has no frame or the frame is refused.\<close>

definition table_records :: "frame_lib \<Rightarrow> filing_context \<Rightarrow> int \<Rightarrow> nat \<times> detail_table \<Rightarrow> (tidy_row list \<times> string list) option" where
  "table_records lib cx number dt =
     (case dt_frame (snd dt) of
        Gives (Some (cols, rows)) \<Rightarrow>
          (if rows = [] \<or> cols = [] \<or> \<not> melts lib cols then None
           else Some (transform_to_tidy (md5 lib) (trunc lib) (melt lib) cols rows (cx_ticker cx) (cx_form cx) (cx_acc cx)
                  (Some number) (Some (int (fst dt)))))
      | _ \<Rightarrow> None)"

definition extract_table :: "frame_lib \<Rightarrow> filing_context \<Rightarrow> int \<Rightarrow> nat \<times> detail_table \<Rightarrow> sn_effect list" where
  "extract_table lib cx number dt =
     (case table_records lib cx number dt of
        None \<Rightarrow> []
      | Some (records, concepts) \<Rightarrow>
          (let title = detail_title (fst dt) (dt_text (snd dt));
               (count, upserts) = upsert_tidy_records records;
               r = register_detail_table (md5 lib) (cx_ticker cx) (detail_table_name number (fst dt) title) title number
                     (cx_acc cx) concepts count (cx_quarter cx) (cx_status cx) in
           upserts @ [Local (ReplaceRegistry r), Cloud_Rows_Sent ''sn_detail_registry'' [registry_id r]]))"

definition note_key :: "filing_context \<Rightarrow> int \<Rightarrow> string" where
  "note_key cx number = cx_id cx @ ''|N'' @ show_int number"

definition note_of :: "frame_lib \<Rightarrow> filing_context \<Rightarrow> int \<Rightarrow> edgar_note \<Rightarrow> note_row" where
  "note_of lib cx number n =
     (let nh = (if en_text n \<noteq> [] then md5 lib (en_text n) else []) in
      \<lparr>note_id = note_key cx number, note_filing = cx_id cx, note_ticker = cx_ticker cx, note_form = cx_form cx,
       note_acc = cx_acc cx, note_number = number, note_title = en_title n,
       note_short = (if en_short n \<noteq> [] then en_short n else en_title n),
       note_narrative = en_text n, narrative_hash = nh,
       note_expands = en_expands n, note_statements = en_statements n,
       table_count = en_tables n, details_count = length (en_details n),
       note_quarter = fst (cx_quarter cx), note_year = snd (cx_quarter cx), note_status = cx_status cx,
       note_hash = md5 lib (join ''|'' [show_int number, en_title n, nh, digits (en_tables n), digits (length (en_details n))])\<rparr>)"

text \<open>One note. An exception is met before the first write of the note.\<close>

definition extract_note :: "frame_lib \<Rightarrow> filing_context \<Rightarrow> int \<times> edgar_note attempt \<Rightarrow> sn_effect list" where
  "extract_note lib cx note =
     (let number = fst note; key = note_key cx number;
          item = (\<lambda>e. if cx_job cx = [] then [] else [e]) in
      item (Add_Item (cx_job cx) key) @
      (case snd note of
         Raises \<Rightarrow> item (Item_Failed (cx_job cx) key)
       | Gives n \<Rightarrow> concat (map (extract_table lib cx number) (enumerate 0 (en_details n)))
           @ [Local (ReplaceNote (note_of lib cx number n)), Cloud_Rows_Sent ''sn_notes'' [key]]
           @ item (Item_Completed (cx_job cx) key)))"

definition quarterly_status :: "string \<Rightarrow> string" where
  "quarterly_status form =
     (if form \<in> {''10-Q'', ''6-K''} then ''direct'' else if form \<in> {''10-K'', ''20-F''} then ''from_annual_filing'' else ''unknown'')"

definition period_quarter :: "string \<Rightarrow> int \<Rightarrow> int \<times> int" where
  "period_quarter period fye =
     (if period = [] then (0, 0)
      else case strptime_date (take 10 period) of None \<Rightarrow> (0, 0) | Some (y, mo, d) \<Rightarrow> fiscal_quarter y mo fye)"

definition filing_ticker_of :: "string \<Rightarrow> edgar_filing \<Rightarrow> string" where
  "filing_ticker_of ticker f =
     (if ticker \<noteq> [] then ticker
      else if ef_cik f \<noteq> 0 then (case ef_tickers f of Gives (t # ts) \<Rightarrow> upper t | _ \<Rightarrow> show_int (ef_cik f))
      else ''UNKNOWN'')"

definition context_of :: "string \<Rightarrow> string \<Rightarrow> string \<Rightarrow> string \<Rightarrow> edgar_filing \<Rightarrow> int \<Rightarrow> edgar_object \<Rightarrow> filing_context" where
  "context_of acc ticker form job f fye ob =
     (let t = filing_ticker_of ticker f; fm = (if form = [] then ef_form f else form) in
      \<lparr>cx_id = join ''|'' [t, fm, acc], cx_ticker = t, cx_form = fm, cx_acc = acc,
       cx_quarter = period_quarter (eo_period ob) fye, cx_status = quarterly_status fm, cx_job = job\<rparr>)"

definition filing_of :: "frame_lib \<Rightarrow> filing_context \<Rightarrow> edgar_filing \<Rightarrow> int \<Rightarrow> edgar_object \<Rightarrow> filing_row" where
  "filing_of lib cx f fye ob =
     \<lparr>filing_id = cx_id cx, filing_ticker = cx_ticker cx, filing_form = cx_form cx, filing_date = ef_date f,
      filing_acc = cx_acc cx, filing_period = eo_period ob, filing_company = ef_company f, filing_cik = ef_cik f,
      filing_fye = fye, filing_quarter = fst (cx_quarter cx), filing_year = snd (cx_quarter cx),
      filing_hash = md5 lib (join ''|'' [cx_ticker cx, cx_form cx, cx_acc cx, eo_period ob, show_int (ef_cik f)])\<rparr>"

text \<open>
  \<open>extract_and_persist_filing\<close>: the effects, and whether it returns or raises. A forced refresh deletes before the filing's
  contents are asked for.
\<close>

definition extract_and_persist_filing ::
  "frame_lib \<Rightarrow> string \<Rightarrow> string \<Rightarrow> string \<Rightarrow> string \<Rightarrow> bool \<Rightarrow> edgar_filing option attempt \<Rightarrow> notes_db
   \<Rightarrow> sn_effect list \<times> bool" where
  "extract_and_persist_filing lib acc ticker form job force found db =
     (case found of
        Gives (Some f) \<Rightarrow>
          (let deleted = (if force then snd (delete_filing_data acc db) else []) in
           case (ef_month f, ef_object f) of
             (Gives fye, Gives ob) \<Rightarrow>
               (let cx = context_of acc ticker form job f fye ob in
                (deleted @ [Local (ReplaceFiling (filing_of lib cx f fye ob)), Cloud_Rows_Sent ''sn_filings'' [cx_id cx]]
                 @ concat (map (extract_note lib cx) (eo_notes ob)), True))
           | _ \<Rightarrow> (deleted, False))
      | _ \<Rightarrow> ([], False))"

definition run_extraction ::
  "frame_lib \<Rightarrow> string \<Rightarrow> string \<Rightarrow> string \<Rightarrow> string \<Rightarrow> bool \<Rightarrow> edgar_filing option attempt \<Rightarrow> notes_db
   \<Rightarrow> notes_db \<times> bool" where
  "run_extraction lib acc ticker form job force found db =
     (let (es, ok) = extract_and_persist_filing lib acc ticker form job force found db in
      (fold write_stmt (local_stmts es) db, ok))"

section \<open>What an extraction leaves\<close>

definition table_rows :: "frame_lib \<Rightarrow> filing_context \<Rightarrow> int \<Rightarrow> nat \<times> detail_table \<Rightarrow> tidy_row list" where
  "table_rows lib cx number dt = (case table_records lib cx number dt of None \<Rightarrow> [] | Some r \<Rightarrow> fst r)"

definition extracted_notes :: "frame_lib \<Rightarrow> filing_context \<Rightarrow> int \<times> edgar_note attempt \<Rightarrow> note_row list" where
  "extracted_notes lib cx note = (case snd note of Raises \<Rightarrow> [] | Gives n \<Rightarrow> [note_of lib cx (fst note) n])"

definition extracted_details :: "frame_lib \<Rightarrow> filing_context \<Rightarrow> int \<times> edgar_note attempt \<Rightarrow> tidy_row list" where
  "extracted_details lib cx note = (case snd note of Raises \<Rightarrow> []
     | Gives n \<Rightarrow> concat (map (table_rows lib cx (fst note)) (enumerate 0 (en_details n))))"

text \<open>The names the extraction gives: a filing by ticker, form and accession number, its notes and details after it.\<close>

definition rows_named :: "notes_db \<Rightarrow> bool" where
  "rows_named db \<longleftrightarrow>
     list_all (\<lambda>f. filing_id f = join ''|'' [filing_ticker f, filing_form f, filing_acc f] \<and> CHR 0x7C \<notin> set (filing_acc f)) (filing_rows db)
     \<and> list_all (\<lambda>n. note_id n = note_filing n @ ''|N'' @ show_int (note_number n)
          \<and> list_ex (\<lambda>f. filing_id f = note_filing n \<and> filing_acc f = note_acc n) (filing_rows db)) (note_rows db)
     \<and> list_all (\<lambda>d. hd (split_char CHR 0x7C (detail_id d)) = tidy_accession d) (detail_rows db)"

text \<open>Statements that only add rows.\<close>

fun notes_added :: "sn_stmt list \<Rightarrow> note_row list" where
  "notes_added [] = []"
| "notes_added (ReplaceNote n # ss) = n # notes_added ss"
| "notes_added (s # ss) = notes_added ss"

fun details_added :: "sn_stmt list \<Rightarrow> tidy_row list" where
  "details_added [] = []"
| "details_added (ReplaceDetails ds # ss) = ds @ details_added ss"
| "details_added (s # ss) = details_added ss"

fun adds_rows :: "sn_stmt \<Rightarrow> bool" where
  "adds_rows (ReplaceNote n) = True"
| "adds_rows (ReplaceDetails ds) = True"
| "adds_rows (ReplaceRegistry r) = True"
| "adds_rows s = False"

lemma notes_added_append [simp]: "notes_added (ss @ tt) = notes_added ss @ notes_added tt"
  by (induction ss rule: notes_added.induct) simp_all

lemma details_added_append [simp]: "details_added (ss @ tt) = details_added ss @ details_added tt"
  by (induction ss rule: details_added.induct) simp_all

lemma replace_fresh: "key r \<notin> key ` set rows \<Longrightarrow> replace_row key r rows = rows @ [r]"
proof -
  assume *: "key r \<notin> key ` set rows"
  then have "filter (\<lambda>x. key x \<noteq> key r) rows = rows" by (intro filter_True) (auto simp: image_iff)
  then show ?thesis by (simp add: replace_row_def)
qed

lemma replace_rows_fresh: "distinct (map key (rows @ rs)) \<Longrightarrow> fold (replace_row key) rs rows = rows @ rs"
  by (induction rs arbitrary: rows) (auto simp: replace_fresh)

lemma run_adds:
  assumes "list_all adds_rows ss"
    and "\<forall>n \<in> set (notes_added ss). note_filing n \<in> filing_id ` set (filing_rows db)"
    and "\<forall>d \<in> set (details_added ss). tidy_accession d \<in> filing_acc ` set (filing_rows db)"
    and "distinct (map note_id (note_rows db @ notes_added ss))"
    and "distinct (map detail_id (detail_rows db @ details_added ss))"
  shows "filing_rows (fold write_stmt ss db) = filing_rows db"
    and "note_rows (fold write_stmt ss db) = note_rows db @ notes_added ss"
    and "detail_rows (fold write_stmt ss db) = detail_rows db @ details_added ss"
proof -
  have "filing_rows (fold write_stmt ss db) = filing_rows db \<and> note_rows (fold write_stmt ss db) = note_rows db @ notes_added ss
     \<and> detail_rows (fold write_stmt ss db) = detail_rows db @ details_added ss"
    using assms
  proof (induction ss arbitrary: db)
    case (Cons s ss)
    show ?case
    proof (cases s)
      case (ReplaceNote n)
      then have w: "write_stmt s db = db\<lparr>note_rows := note_rows db @ [n]\<rparr>"
        using Cons.prems by (auto simp: write_stmt_def replace_fresh)
      show ?thesis using Cons.IH [of "write_stmt s db"] Cons.prems w ReplaceNote by simp
    next
      case (ReplaceDetails ds)
      then have "distinct (map detail_id (detail_rows db @ ds))" using Cons.prems(5) by auto
      then have w: "write_stmt s db = db\<lparr>detail_rows := detail_rows db @ ds\<rparr>"
        using ReplaceDetails Cons.prems(3) by (auto simp: write_stmt_def replace_rows_fresh list_all_iff)
      show ?thesis using Cons.IH [of "write_stmt s db"] Cons.prems w ReplaceDetails
        by (simp add: image_Un Int_Un_distrib Int_Un_distrib2)
    next
      case (ReplaceRegistry r)
      then have w: "write_stmt s db = db\<lparr>registry_rows := replace_row registry_id r (registry_rows db)\<rparr>"
        by (simp add: write_stmt_def)
      show ?thesis using Cons.IH [of "write_stmt s db"] Cons.prems w ReplaceRegistry by simp
    qed (use Cons.prems in simp_all)
  qed simp
  then show "filing_rows (fold write_stmt ss db) = filing_rows db"
    "note_rows (fold write_stmt ss db) = note_rows db @ notes_added ss"
    "detail_rows (fold write_stmt ss db) = detail_rows db @ details_added ss" by simp_all
qed

lemma local_stmts_append [simp]: "local_stmts (es @ fs) = local_stmts es @ local_stmts fs"
  by (simp add: local_stmts_def)

lemma local_stmts_Cons [simp]:
  "local_stmts [] = []"
  "local_stmts (e # es) = (case e of Local s \<Rightarrow> s # local_stmts es | _ \<Rightarrow> local_stmts es)"
  by (auto simp: local_stmts_def split: sn_effect.split)

lemma in_batches_all [simp]: "0 < n \<Longrightarrow> concat (in_batches n xs) = xs"
  by (induction n xs rule: in_batches.induct) (subst in_batches.simps, auto)

lemma batches_sent:
  "local_stmts (map (\<lambda>b. Local (ReplaceDetails b)) bs) = map ReplaceDetails bs"
  "local_stmts (map (\<lambda>b. Cloud_Rows_Sent t (f b)) bs) = []"
  by (induction bs) simp_all

lemma batches_added: "details_added (map ReplaceDetails bs) = concat bs" "notes_added (map ReplaceDetails bs) = []"
  by (induction bs) simp_all

lemma table_effects:
  "list_all adds_rows (local_stmts (extract_table lib cx k dt))"
  "notes_added (local_stmts (extract_table lib cx k dt)) = []"
  "details_added (local_stmts (extract_table lib cx k dt)) = table_rows lib cx k dt"
  by (auto simp: extract_table_def table_rows_def upsert_tidy_records_def batches_sent batches_added list_all_iff Let_def
      split: option.split prod.split)

lemma tables_effects:
  "list_all adds_rows (local_stmts (concat (map (extract_table lib cx k) dts)))"
  "notes_added (local_stmts (concat (map (extract_table lib cx k) dts))) = []"
  "details_added (local_stmts (concat (map (extract_table lib cx k) dts))) = concat (map (table_rows lib cx k) dts)"
  by (induction dts) (simp_all add: table_effects)

lemma note_effects:
  "list_all adds_rows (local_stmts (extract_note lib cx note))"
  "notes_added (local_stmts (extract_note lib cx note)) = extracted_notes lib cx note"
  "details_added (local_stmts (extract_note lib cx note)) = extracted_details lib cx note"
  by (auto simp: extract_note_def Let_def extracted_notes_def extracted_details_def tables_effects split: attempt.split)

lemma notes_effects:
  "list_all adds_rows (local_stmts (concat (map (extract_note lib cx) ns)))"
  "notes_added (local_stmts (concat (map (extract_note lib cx) ns))) = concat (map (extracted_notes lib cx) ns)"
  "details_added (local_stmts (concat (map (extract_note lib cx) ns))) = concat (map (extracted_details lib cx) ns)"
  by (induction ns) (simp_all add: note_effects)

text \<open>Identifiers of different tables differ: a part of the identifier tells them apart.\<close>

lemma distinct_map_concat:
  assumes "distinct (map u xs)" "\<And>x. x \<in> set xs \<Longrightarrow> distinct (map key (g x))"
    and "\<And>x y. x \<in> set xs \<Longrightarrow> y \<in> set (g x) \<Longrightarrow> tag (key y) = u x"
  shows "distinct (map key (concat (map g xs)))"
  using assms
proof (induction xs)
  case (Cons x xs)
  have "key y \<noteq> key z" if "y \<in> set (g x)" "x' \<in> set xs" "z \<in> set (g x')" for y z x'
    using Cons.prems(1) Cons.prems(3) [of x y] Cons.prems(3) [of x' z] that by (auto simp: image_iff)
  then have "key ` set (g x) \<inter> key ` set (concat (map g xs)) = {}" by fastforce
  moreover have "distinct (map key (concat (map g xs)))" using Cons.prems by (intro Cons.IH) auto
  ultimately show ?case using Cons.prems(2) [of x] by simp
qed simp

lemma split_char_skip: "c \<notin> set x \<Longrightarrow> split_char c (x @ c # y) = x # split_char c y"
  by (induction x) auto

lemma detail_id_parts:
  assumes "CHR 0x7C \<notin> set acc"
  shows "split_char CHR 0x7C (make_detail_id acc n d co p i)
    = acc # show_int n # show_int d # split_char CHR 0x7C (co @ CHR 0x7C # p @ CHR 0x7C # show_int (int i))"
  using assms show_int_no_bar by (simp add: make_detail_id_def split_char_skip)

lemma transform_made:
  assumes "x \<in> set (fst (transform_to_tidy h tr ml cols rows ticker form acc (Some n) (Some d)))"
  shows "\<exists>i r p v. x = tidy_record h tr cols ticker form acc n d ((i, r), p, v)"
proof -
  have "set (fst (transform_to_tidy h tr ml cols rows ticker form acc (Some n) (Some d)))
      \<subseteq> range (tidy_record h tr cols ticker form acc n d)"
    by (auto simp: transform_to_tidy_def Let_def)
  then obtain t where "x = tidy_record h tr cols ticker form acc n d t" using assms by blast
  moreover obtain i r p v where "t = ((i, r), p, v)" by (metis surj_pair)
  ultimately show ?thesis by blast
qed

lemma table_rows_cases:
  obtains "table_rows lib cx k dt = []"
  | cols rows where "dt_frame (snd dt) = Gives (Some (cols, rows))"
      "table_rows lib cx k dt = fst (transform_to_tidy (md5 lib) (trunc lib) (melt lib) cols rows
         (cx_ticker cx) (cx_form cx) (cx_acc cx) (Some k) (Some (int (fst dt))))"
proof (cases "dt_frame (snd dt)")
  case (Gives fr)
  show ?thesis
  proof (cases fr)
    case (Some p)
    obtain cols rows where "p = (cols, rows)" by (cases p)
    then show ?thesis using that Gives Some
      by (cases "rows = [] \<or> cols = [] \<or> \<not> melts lib cols") (simp_all add: table_rows_def table_records_def)
  qed (use that Gives in \<open>simp add: table_rows_def table_records_def\<close>)
qed (use that in \<open>simp add: table_rows_def table_records_def\<close>)

lemma table_rows_ids:
  assumes "d \<in> set (table_rows lib cx k dt)"
  shows "tidy_accession d = cx_acc cx"
    and "\<exists>co p i. detail_id d = make_detail_id (cx_acc cx) k (int (fst dt)) co p i"
proof -
  obtain cols rows where rows: "d \<in> set (fst (transform_to_tidy (md5 lib) (trunc lib) (melt lib) cols rows
      (cx_ticker cx) (cx_form cx) (cx_acc cx) (Some k) (Some (int (fst dt)))))"
    using assms by (cases lib cx k dt rule: table_rows_cases) auto
  obtain i r p v where d: "d = tidy_record (md5 lib) (trunc lib) cols (cx_ticker cx) (cx_form cx) (cx_acc cx) k (int (fst dt)) ((i, r), p, v)"
    using transform_made [OF rows] by blast
  show "tidy_accession d = cx_acc cx" by (simp add: d tidy_record_def Let_def)
  show "\<exists>co p i. detail_id d = make_detail_id (cx_acc cx) k (int (fst dt)) co p i" using d tidy_record_id by metis
qed

lemma table_rows_parts:
  assumes "CHR 0x7C \<notin> set (cx_acc cx)" "d \<in> set (table_rows lib cx k dt)"
  shows "hd (split_char CHR 0x7C (detail_id d)) = cx_acc cx"
    "split_char CHR 0x7C (detail_id d) ! 1 = show_int k" "split_char CHR 0x7C (detail_id d) ! 2 = show_int (int (fst dt))"
  using table_rows_ids(2) [OF assms(2)] detail_id_parts [OF assms(1)] by auto

text \<open>What the theorem asks of a filing: tables whose columns have different names, and notes with different numbers.\<close>

definition proper_table :: "detail_table \<Rightarrow> bool" where
  "proper_table dt \<longleftrightarrow> (case dt_frame dt of Gives (Some (cols, rows)) \<Rightarrow> distinct cols | _ \<Rightarrow> True)"

definition proper_note :: "int \<times> edgar_note attempt \<Rightarrow> bool" where
  "proper_note note \<longleftrightarrow> (case snd note of Gives n \<Rightarrow> list_all proper_table (en_details n) | Raises \<Rightarrow> True)"

definition proper_object :: "edgar_object \<Rightarrow> bool" where
  "proper_object ob \<longleftrightarrow> distinct (map fst (eo_notes ob)) \<and> list_all proper_note (eo_notes ob)"

lemma table_rows_distinct:
  assumes "melt_law (melt lib)" "proper_table (snd dt)"
  shows "distinct (map detail_id (table_rows lib cx k dt))"
  using assms tidy_ids_distinct by (cases lib cx k dt rule: table_rows_cases) (auto simp: proper_table_def)

lemma enumerate_keys: "distinct (map (\<lambda>dt. show_int (int (fst dt))) (enumerate 0 xs))"
  by (auto simp: distinct_map inj_on_def enumerate_eq_zip distinct_zipI1 in_set_zip dest!: show_int_inj)

lemma extracted_details_distinct:
  assumes "melt_law (melt lib)" "proper_note note" "CHR 0x7C \<notin> set (cx_acc cx)"
  shows "distinct (map detail_id (extracted_details lib cx note))"
proof (cases "snd note")
  case (Gives n)
  have "distinct (map detail_id (concat (map (table_rows lib cx (fst note)) (enumerate 0 (en_details n)))))"
  proof (rule distinct_map_concat [where u = "\<lambda>dt. show_int (int (fst dt))" and tag = "\<lambda>s. split_char CHR 0x7C s ! 2"])
    show "distinct (map (\<lambda>dt. show_int (int (fst dt))) (enumerate 0 (en_details n)))" by (rule enumerate_keys)
    show "distinct (map detail_id (table_rows lib cx (fst note) dt))" if "dt \<in> set (enumerate 0 (en_details n))" for dt
    proof -
      have "snd dt \<in> set (map snd (enumerate 0 (en_details n)))" using that by (simp only: set_map imageI)
      then have "snd dt \<in> set (en_details n)" by simp
      then show ?thesis using assms(1,2) Gives by (intro table_rows_distinct) (auto simp: proper_note_def list_all_iff)
    qed
    show "split_char CHR 0x7C (detail_id d) ! 2 = show_int (int (fst dt))" if "d \<in> set (table_rows lib cx (fst note) dt)" for dt d
      using table_rows_parts(3) [OF assms(3) that] .
  qed
  then show ?thesis using Gives by (simp add: extracted_details_def)
qed (simp add: extracted_details_def)

lemma extracted_details_parts:
  assumes "CHR 0x7C \<notin> set (cx_acc cx)" "d \<in> set (extracted_details lib cx note)"
  shows "tidy_accession d = cx_acc cx" "hd (split_char CHR 0x7C (detail_id d)) = cx_acc cx"
    "split_char CHR 0x7C (detail_id d) ! 1 = show_int (fst note)"
  using assms(2) table_rows_ids(1) table_rows_parts [OF assms(1)]
  by (auto simp: extracted_details_def split: attempt.splits)

lemma all_details_distinct:
  assumes "melt_law (melt lib)" "distinct (map fst ns)" "list_all proper_note ns" "CHR 0x7C \<notin> set (cx_acc cx)"
  shows "distinct (map detail_id (concat (map (extracted_details lib cx) ns)))"
proof (rule distinct_map_concat [where u = "\<lambda>n. show_int (fst n)" and tag = "\<lambda>s. split_char CHR 0x7C s ! 1"])
  show "distinct (map (\<lambda>n. show_int (fst n)) ns)"
    using assms(2) by (auto simp: distinct_map inj_on_def dest!: show_int_inj)
  show "distinct (map detail_id (extracted_details lib cx n))" if "n \<in> set ns" for n
    using assms that by (intro extracted_details_distinct) (auto simp: list_all_iff)
  show "split_char CHR 0x7C (detail_id d) ! 1 = show_int (fst n)" if "d \<in> set (extracted_details lib cx n)" for n d
    using extracted_details_parts(3) [OF assms(4) that] .
qed

lemma extracted_notes_parts:
  assumes "n \<in> set (extracted_notes lib cx note)"
  shows "note_id n = note_key cx (fst note)" "note_filing n = cx_id cx" "note_acc n = cx_acc cx" "note_number n = fst note"
  using assms by (auto simp: extracted_notes_def note_of_def Let_def split: attempt.splits)

lemma note_key_inj: "f @ ''|N'' @ show_int k = g @ ''|N'' @ show_int l \<Longrightarrow> f = g \<and> k = l"
proof -
  have no_N: "CHR 0x4E \<notin> set (show_int i)" for i
    using digits_digit [of "CHR 0x4E"] by (auto simp: show_int_def digit_value_def Let_def)
  assume "f @ ''|N'' @ show_int k = g @ ''|N'' @ show_int l"
  then have "(f @ ''|'') @ CHR 0x4E # show_int k = (g @ ''|'') @ CHR 0x4E # show_int l" by simp
  from last_separator [OF this no_N no_N] show ?thesis by (auto dest: show_int_inj)
qed

lemma all_notes_distinct:
  assumes "distinct (map fst ns)"
  shows "distinct (map note_id (concat (map (extracted_notes lib cx) ns)))"
proof -
  have "map note_id (concat (map (extracted_notes lib cx) ns)) = map (\<lambda>n. note_key cx (fst n)) (filter (\<lambda>n. snd n \<noteq> Raises) ns)"
    by (induction ns) (auto simp: extracted_notes_def note_of_def Let_def split: attempt.split)
  moreover have "distinct (map (\<lambda>n. note_key cx (fst n)) ns)"
    using assms note_key_inj by (fastforce simp: distinct_map inj_on_def note_key_def)
  ultimately show ?thesis by (simp add: distinct_map_filter)
qed

definition notes_wf :: "notes_db \<Rightarrow> bool" where
  "notes_wf db \<longleftrightarrow> keys_hold db \<and> rows_named db"

lemma same_id_same_acc:
  assumes "join ''|'' [t, fm, a] = join ''|'' [t', fm', a']" "CHR 0x7C \<notin> set a" "CHR 0x7C \<notin> set a'"
  shows "a = a'"
proof -
  have "(t @ ''|'' @ fm) @ CHR 0x7C # a = (t' @ ''|'' @ fm') @ CHR 0x7C # a'" using assms(1) by simp
  from last_separator [OF this assms(2,3)] show ?thesis by simp
qed

lemma replace_filing_rows:
  assumes "notes_wf db" "filing_id f = join ''|'' [t, fm, filing_acc f]" "CHR 0x7C \<notin> set (filing_acc f)"
  shows "filing_rows (replace_filing f db) = filter (\<lambda>x. filing_acc x \<noteq> filing_acc f) (filing_rows db) @ [f]"
    and "note_rows (replace_filing f db) = filter (\<lambda>n. note_acc n \<noteq> filing_acc f) (note_rows db)"
    and "detail_rows (replace_filing f db) = filter (\<lambda>d. tidy_accession d \<noteq> filing_acc f) (detail_rows db)"
proof -
  have same: "same_filing f x \<longleftrightarrow> filing_acc x = filing_acc f" if "x \<in> set (filing_rows db)" for x
  proof -
    have "filing_id x = join ''|'' [filing_ticker x, filing_form x, filing_acc x]" "CHR 0x7C \<notin> set (filing_acc x)"
      using assms(1) that by (auto simp: notes_wf_def rows_named_def list_all_iff)
    then show ?thesis using same_id_same_acc assms(2,3) unfolding same_filing_def by metis
  qed
  then show "filing_rows (replace_filing f db) = filter (\<lambda>x. filing_acc x \<noteq> filing_acc f) (filing_rows db) @ [f]"
    by (simp add: replace_filing_def Let_def cong: filter_cong)
  have ids: "x = y" if "x \<in> set (filing_rows db)" "y \<in> set (filing_rows db)" "filing_id x = filing_id y" for x y
    using assms(1) that by (auto simp: notes_wf_def keys_hold_def distinct_map inj_on_def)
  have "note_filing n \<in> filing_id ` set (filter (same_filing f) (filing_rows db)) \<longleftrightarrow> note_acc n = filing_acc f"
    if n: "n \<in> set (note_rows db)" for n
  proof -
    obtain g where g: "g \<in> set (filing_rows db)" "filing_id g = note_filing n" "filing_acc g = note_acc n"
      using assms(1) n by (auto simp: notes_wf_def rows_named_def list_all_iff list_ex_iff)
    then show ?thesis using same ids by (auto simp: image_iff) metis+
  qed
  then show "note_rows (replace_filing f db) = filter (\<lambda>n. note_acc n \<noteq> filing_acc f) (note_rows db)"
    by (simp add: replace_filing_def Let_def cong: filter_cong)
  have "tidy_accession d \<in> filing_acc ` set (filter (same_filing f) (filing_rows db)) \<longleftrightarrow> tidy_accession d = filing_acc f"
    if d: "d \<in> set (detail_rows db)" for d
  proof -
    have "tidy_accession d \<in> filing_acc ` set (filing_rows db)"
      using assms(1) d by (auto simp: notes_wf_def keys_hold_def list_all_iff)
    then show ?thesis using same by auto
  qed
  then show "detail_rows (replace_filing f db) = filter (\<lambda>d. tidy_accession d \<noteq> filing_acc f) (detail_rows db)"
    by (simp add: replace_filing_def Let_def cong: filter_cong)
qed

lemma replace_filing_wf:
  assumes "notes_wf db" "filing_id f = join ''|'' [filing_ticker f, filing_form f, filing_acc f]" "CHR 0x7C \<notin> set (filing_acc f)"
  shows "notes_wf (replace_filing f db)"
proof -
  have "rows_named (replace_filing f db)"
    unfolding rows_named_def replace_filing_rows [OF assms]
  proof (intro conjI)
    show "list_all (\<lambda>f. filing_id f = join ''|'' [filing_ticker f, filing_form f, filing_acc f] \<and> CHR 0x7C \<notin> set (filing_acc f))
        (filter (\<lambda>x. filing_acc x \<noteq> filing_acc f) (filing_rows db) @ [f])"
      using assms by (auto simp: notes_wf_def rows_named_def list_all_iff)
    have "list_ex (\<lambda>g. filing_id g = note_filing n \<and> filing_acc g = note_acc n)
        (filter (\<lambda>x. filing_acc x \<noteq> filing_acc f) (filing_rows db) @ [f])"
      if n: "n \<in> set (note_rows db)" "note_acc n \<noteq> filing_acc f" for n
    proof -
      obtain g where "g \<in> set (filing_rows db)" "filing_id g = note_filing n" "filing_acc g = note_acc n"
        using assms(1) n(1) by (auto simp: notes_wf_def rows_named_def list_all_iff list_ex_iff)
      then show ?thesis using n(2) by (auto simp: list_ex_iff)
    qed
    then show "list_all (\<lambda>n. note_id n = note_filing n @ ''|N'' @ show_int (note_number n)
          \<and> list_ex (\<lambda>g. filing_id g = note_filing n \<and> filing_acc g = note_acc n)
              (filter (\<lambda>x. filing_acc x \<noteq> filing_acc f) (filing_rows db) @ [f]))
        (filter (\<lambda>n. note_acc n \<noteq> filing_acc f) (note_rows db))"
      using assms(1) by (simp add: notes_wf_def rows_named_def list_all_iff)
    show "list_all (\<lambda>d. hd (split_char CHR 0x7C (detail_id d)) = tidy_accession d)
        (filter (\<lambda>d. tidy_accession d \<noteq> filing_acc f) (detail_rows db))"
      using assms(1) by (simp add: notes_wf_def rows_named_def list_all_iff)
  qed
  then show ?thesis using assms(1) replace_filing_keys by (auto simp: notes_wf_def)
qed

text \<open>Deletions by accession number keep the tables in order and take nothing else away.\<close>

definition purged :: "string \<Rightarrow> notes_db \<Rightarrow> notes_db" where
  "purged acc db = fold write_stmt (local_stmts (snd (delete_filing_data acc db))) db"

lemma purged_rows:
  "filing_rows (purged acc db) = filing_rows db"
  "note_rows (purged acc db) = filter (\<lambda>n. note_acc n \<noteq> acc) (note_rows db)"
  "detail_rows (purged acc db) = filter (\<lambda>d. tidy_accession d \<noteq> acc) (detail_rows db)"
  "registry_rows (purged acc db) = filter (\<lambda>r. reg_acc r \<noteq> acc) (registry_rows db)"
proof -
  show "detail_rows (purged acc db) = filter (\<lambda>d. tidy_accession d \<noteq> acc) (detail_rows db)"
    by (auto simp: purged_def delete_filing_data_def Let_def write_stmt_def filter_empty_conv)
qed (simp_all add: purged_def delete_filing_data_def Let_def write_stmt_def)

lemma purged_wf: "notes_wf db \<Longrightarrow> notes_wf (purged acc db)"
proof -
  assume wf: "notes_wf db"
  have "keys_hold (purged acc db)" using wf nt.run_keeps by (simp add: notes_wf_def purged_def)
  moreover have "rows_named (purged acc db)"
    using wf by (auto simp: notes_wf_def rows_named_def purged_rows list_all_iff)
  ultimately show ?thesis by (simp add: notes_wf_def)
qed

definition expected_notes :: "frame_lib \<Rightarrow> filing_context \<Rightarrow> edgar_object \<Rightarrow> note_row list" where
  "expected_notes lib cx ob = concat (map (extracted_notes lib cx) (eo_notes ob))"

definition expected_details :: "frame_lib \<Rightarrow> filing_context \<Rightarrow> edgar_object \<Rightarrow> tidy_row list" where
  "expected_details lib cx ob = concat (map (extracted_details lib cx) (eo_notes ob))"

lemma extraction_rows:
  assumes wf: "notes_wf db" and acc: "CHR 0x7C \<notin> set acc" and lib: "melt_law (melt lib)" and ob: "proper_object ob"
    and f: "ef_month f = Gives fye" "ef_object f = Gives ob"
    and cx: "cx = context_of acc ticker form job f fye ob"
    and run: "run_extraction lib acc ticker form job force (Gives (Some f)) db = (db', ok)"
  shows "ok" "notes_wf db'"
    "note_rows db' = filter (\<lambda>n. note_acc n \<noteq> acc) (note_rows db) @ expected_notes lib cx ob"
    "detail_rows db' = filter (\<lambda>d. tidy_accession d \<noteq> acc) (detail_rows db) @ expected_details lib cx ob"
proof -
  define db0 where "db0 = (if force then purged acc db else db)"
  define fr where "fr = filing_of lib cx f fye ob"
  define db1 where "db1 = replace_filing fr db0"
  define ss where "ss = local_stmts (concat (map (extract_note lib cx) (eo_notes ob)))"
  have db': "db' = fold write_stmt ss db1" and "ok"
    using run f by (auto simp: run_extraction_def extract_and_persist_filing_def Let_def cx [symmetric] db0_def db1_def fr_def ss_def
        purged_def write_stmt_def)
  show "ok" by fact
  have cxs: "cx_acc cx = acc" "cx_id cx = join ''|'' [cx_ticker cx, cx_form cx, acc]" by (simp_all add: cx context_of_def Let_def)
  have fid: "filing_id fr = join ''|'' [filing_ticker fr, filing_form fr, filing_acc fr]" "filing_acc fr = acc" "filing_id fr = cx_id cx"
    by (simp_all add: fr_def filing_of_def cxs)
  have wf0: "notes_wf db0" using wf purged_wf by (simp add: db0_def)
  have acc': "CHR 0x7C \<notin> set (filing_acc fr)" by (simp add: acc fid)
  have wf1: "notes_wf db1" unfolding db1_def by (rule replace_filing_wf [OF wf0 fid(1) acc'])
  have f1: "fr \<in> set (filing_rows db1)" by (simp add: db1_def replace_filing_rows [OF wf0 fid(1) acc'])
  have n1: "note_rows db1 = filter (\<lambda>n. note_acc n \<noteq> acc) (note_rows db)"
    and d1: "detail_rows db1 = filter (\<lambda>d. tidy_accession d \<noteq> acc) (detail_rows db)"
    using replace_filing_rows [OF wf0 fid(1) acc'] by (auto simp: db1_def db0_def purged_rows fid(2))
  have eff: "list_all adds_rows ss" "notes_added ss = expected_notes lib cx ob" "details_added ss = expected_details lib cx ob"
    by (simp_all add: ss_def notes_effects expected_notes_def expected_details_def)
  have new_notes: "note_filing n = cx_id cx \<and> note_acc n = acc \<and> note_id n = cx_id cx @ ''|N'' @ show_int (note_number n)"
    if "n \<in> set (expected_notes lib cx ob)" for n
    using that extracted_notes_parts by (fastforce simp: expected_notes_def cxs note_key_def)
  have new_details: "tidy_accession d = acc \<and> hd (split_char CHR 0x7C (detail_id d)) = acc" if "d \<in> set (expected_details lib cx ob)" for d
    using that extracted_details_parts [of cx] acc by (fastforce simp: expected_details_def cxs)
  have old_notes: "note_id n \<notin> note_id ` set (expected_notes lib cx ob)" if n: "n \<in> set (note_rows db1)" for n
  proof
    assume "note_id n \<in> note_id ` set (expected_notes lib cx ob)"
    then obtain m where m: "m \<in> set (expected_notes lib cx ob)" "note_id n = note_id m" by blast
    have n': "note_id n = note_filing n @ ''|N'' @ show_int (note_number n)"
      using wf1 n by (auto simp: notes_wf_def rows_named_def list_all_iff)
    obtain g where g: "g \<in> set (filing_rows db1)" "filing_id g = note_filing n" "filing_acc g = note_acc n"
      using wf1 n by (auto simp: notes_wf_def rows_named_def list_all_iff list_ex_iff)
    have "note_filing n = cx_id cx" using n' m new_notes [OF m(1)] note_key_inj by metis
    then have "g = fr" using g f1 fid(3) wf1 by (auto simp: notes_wf_def keys_hold_def distinct_map inj_on_def)
    then show False using g(3) fid(2) n n1 by simp
  qed
  have old_details: "detail_id d \<notin> detail_id ` set (expected_details lib cx ob)" if d: "d \<in> set (detail_rows db1)" for d
  proof -
    have "hd (split_char CHR 0x7C (detail_id d)) = tidy_accession d" using wf1 d by (auto simp: notes_wf_def rows_named_def list_all_iff)
    moreover have "tidy_accession d \<noteq> acc" using d d1 by simp
    ultimately show ?thesis using new_details by fastforce
  qed
  have distinct_old: "distinct (map note_id (note_rows db1))" "distinct (map detail_id (detail_rows db1))"
    using wf1 by (simp_all add: notes_wf_def keys_hold_def)
  have distinct_new: "distinct (map note_id (expected_notes lib cx ob))" "distinct (map detail_id (expected_details lib cx ob))"
    using all_notes_distinct all_details_distinct [OF lib, of "eo_notes ob" cx] ob acc
    by (simp_all add: expected_notes_def expected_details_def proper_object_def cxs)
  have notes_parent: "\<forall>n \<in> set (notes_added ss). note_filing n \<in> filing_id ` set (filing_rows db1)"
    using new_notes f1 fid(3) unfolding eff(2) by (metis imageI)
  have details_parent: "\<forall>d \<in> set (details_added ss). tidy_accession d \<in> filing_acc ` set (filing_rows db1)"
    using new_details f1 fid(2) unfolding eff(3) by (metis imageI)
  have notes_fresh: "distinct (map note_id (note_rows db1 @ notes_added ss))"
    using distinct_old(1) distinct_new(1) old_notes unfolding eff(2) by (simp only: map_append distinct_append set_map) blast
  have details_fresh: "distinct (map detail_id (detail_rows db1 @ details_added ss))"
    using distinct_old(2) distinct_new(2) old_details unfolding eff(3) by (simp only: map_append distinct_append set_map) blast
  note added = run_adds [OF eff(1) notes_parent details_parent notes_fresh details_fresh, folded db', unfolded eff(2,3)]
  show "note_rows db' = filter (\<lambda>n. note_acc n \<noteq> acc) (note_rows db) @ expected_notes lib cx ob"
    "detail_rows db' = filter (\<lambda>d. tidy_accession d \<noteq> acc) (detail_rows db) @ expected_details lib cx ob"
    by (simp_all add: added n1 d1)
  have "keys_hold db'" unfolding db' using wf1 nt.run_keeps by (simp add: notes_wf_def)
  moreover have "rows_named db'"
    using wf1 f1 fid(2,3) new_notes new_details by (auto simp: notes_wf_def rows_named_def added list_all_iff list_ex_iff)
  ultimately show "notes_wf db'" by (simp add: notes_wf_def)
qed

text \<open>
  C12: An extraction leaves of a filing exactly what it read. Whatever the tables held, after \<open>extract_and_persist_filing\<close>
  (forced or not) the notes of the accession number are those the filing has now (the ones that could be read), its details
  are the rows of its detail tables, the rows of every other filing are as before and in place, and the keys and names hold
  again: replacing the filing's row takes the old notes and details with it, and none of the new rows replaces another.
\<close>

theorem extraction_leaves_exactly_its_rows:
  assumes "notes_wf db" "CHR 0x7C \<notin> set acc" "melt_law (melt lib)" "proper_object ob"
    and "ef_month f = Gives fye" "ef_object f = Gives ob"
    and "run_extraction lib acc ticker form job force (Gives (Some f)) db = (db', ok)"
  shows "ok \<and> notes_wf db'
    \<and> note_rows db' = filter (\<lambda>n. note_acc n \<noteq> acc) (note_rows db)
        @ expected_notes lib (context_of acc ticker form job f fye ob) ob
    \<and> detail_rows db' = filter (\<lambda>d. tidy_accession d \<noteq> acc) (detail_rows db)
        @ expected_details lib (context_of acc ticker form job f fye ob) ob"
  using extraction_rows [OF assms(1-6) refl assms(7)] by blast

definition demo_lib :: frame_lib where
  "demo_lib = \<lparr>md5 = id, trunc = (\<lambda>_. None), melt = column_by_column, melts = (\<lambda>_. True)\<rparr>"

definition demo_object :: edgar_object where
  "demo_object = \<lparr>eo_period = ''2024-12-31'',
     eo_notes = [(1, Gives \<lparr>en_title = ''Debt'', en_short = [], en_text = ''We owe.'', en_expands = [], en_statements = [], en_tables = 1,
       en_details = [\<lparr>dt_frame = Gives (Some ([''concept'', ''2024-12-31 (FY)''], [sample_row])), dt_text = Gives ''Debt table''\<rparr>]\<rparr>),
       (2, Raises)]\<rparr>"

definition demo_filing :: edgar_filing where
  "demo_filing = \<lparr>ef_cik = 7, ef_form = ''10-K'', ef_date = ''2025-02-01'', ef_company = ''Acme'', ef_tickers = Raises,
     ef_month = Gives 12, ef_object = Gives demo_object\<rparr>"

definition demo_notes :: notes_db where
  "demo_notes = fst (run_extraction demo_lib ''0001'' ''ACME'' [] [] False (Gives (Some demo_filing))
     \<lparr>filing_rows = [], note_rows = [], registry_rows = [], detail_rows = []\<rparr>)"

lemma empty_notes_wf: "notes_wf \<lparr>filing_rows = [], note_rows = [], registry_rows = [], detail_rows = []\<rparr>"
  by (simp add: notes_wf_def keys_hold_def rows_named_def)

lemma demo_proper: "proper_object demo_object" "melt_law (melt demo_lib)"
  by (simp_all add: proper_object_def demo_object_def proper_note_def proper_table_def demo_lib_def column_by_column_law)

lemma demo_notes_wf: "notes_wf demo_notes"
  unfolding demo_notes_def
  by (rule extraction_rows(2) [OF empty_notes_wf _ demo_proper(2,1) _ _ refl surjective_pairing])
    (simp_all add: demo_filing_def)

theorem extraction_leaves_exactly_its_rows_witness:
  "snd (run_extraction demo_lib ''0001'' ''ACM'' [] ''J1'' True (Gives (Some demo_filing)) demo_notes)
   \<and> notes_wf (fst (run_extraction demo_lib ''0001'' ''ACM'' [] ''J1'' True (Gives (Some demo_filing)) demo_notes))
   \<and> note_rows (fst (run_extraction demo_lib ''0001'' ''ACM'' [] ''J1'' True (Gives (Some demo_filing)) demo_notes))
     = filter (\<lambda>n. note_acc n \<noteq> ''0001'') (note_rows demo_notes)
        @ expected_notes demo_lib (context_of ''0001'' ''ACM'' [] ''J1'' demo_filing 12 demo_object) demo_object
   \<and> detail_rows (fst (run_extraction demo_lib ''0001'' ''ACM'' [] ''J1'' True (Gives (Some demo_filing)) demo_notes))
     = filter (\<lambda>d. tidy_accession d \<noteq> ''0001'') (detail_rows demo_notes)
        @ expected_details demo_lib (context_of ''0001'' ''ACM'' [] ''J1'' demo_filing 12 demo_object) demo_object"
  by (rule extraction_leaves_exactly_its_rows [OF demo_notes_wf _ demo_proper(2,1)]) (simp_all add: demo_filing_def)

text \<open>
  A note that cannot be read is gone afterwards, also when it had been stored before: an extraction to fill in one missing
  note costs every note that fails this time.
\<close>

theorem failed_note_is_lost:
  assumes "notes_wf db" "CHR 0x7C \<notin> set acc" "melt_law (melt lib)" "proper_object ob"
    and "ef_month f = Gives fye" "ef_object f = Gives ob" "(k, Raises) \<in> set (eo_notes ob)"
    and "run_extraction lib acc ticker form job force (Gives (Some f)) db = (db', ok)"
  shows "\<not> list_ex (\<lambda>n. note_acc n = acc \<and> note_number n = k) (note_rows db')"
proof
  let ?cx = "context_of acc ticker form job f fye ob"
  assume "list_ex (\<lambda>n. note_acc n = acc \<and> note_number n = k) (note_rows db')"
  then obtain n where n: "n \<in> set (note_rows db')" "note_acc n = acc" "note_number n = k" by (auto simp: list_ex_iff)
  then have "n \<in> set (expected_notes lib ?cx ob)" using extraction_rows(3) [OF assms(1-6) refl assms(8)] by simp
  then obtain x where x: "x \<in> set (eo_notes ob)" "n \<in> set (extracted_notes lib ?cx x)"
    by (auto simp: expected_notes_def)
  then have "fst x = k" "snd x \<noteq> Raises" using extracted_notes_parts(4) n(3) by (auto simp: extracted_notes_def split: attempt.splits)
  moreover have "x = (k, Raises)"
    using assms(4,7) x(1) \<open>fst x = k\<close> by (force simp: proper_object_def distinct_map inj_on_def)
  ultimately show False by simp
qed



section \<open>The commands of the tool\<close>

text \<open>\<open>discover_filings\<close>, from what the service gives for each form.\<close>

record listed_filing =
  lf_form :: string
  lf_date :: string
  lf_acc :: string
  lf_period :: string

record found_filing =
  ff_ticker :: string
  ff_listed :: listed_filing
  ff_quarter :: int
  ff_year :: int
  ff_month :: int

definition approved_forms :: "string list" where
  "approved_forms = [''10-K'', ''10-Q'', ''20-F'', ''6-K'']"

definition discover_form :: "string \<Rightarrow> int \<Rightarrow> listed_filing list attempt \<Rightarrow> found_filing list" where
  "discover_form ticker fye answer =
     (case answer of Raises \<Rightarrow> []
      | Gives fs \<Rightarrow> map (\<lambda>f. let (q, y) = period_quarter (lf_period f) fye in
          \<lparr>ff_ticker = upper ticker, ff_listed = f, ff_quarter = q, ff_year = y, ff_month = fye\<rparr>) (take 20 fs))"

definition discover_filings ::
  "(string \<Rightarrow> listed_filing list attempt) \<Rightarrow> string \<Rightarrow> string list \<Rightarrow> int \<Rightarrow> nat \<Rightarrow> found_filing list" where
  "discover_filings answer ticker form_types fye limit =
     (let valid = filter (\<lambda>f. f \<in> set approved_forms) (map (\<lambda>f. upper (strip f)) (if form_types = [] then approved_forms else form_types)) in
      take limit (order_desc (\<lambda>r. lf_date (ff_listed r)) (concat (map (\<lambda>form. discover_form ticker fye (answer form)) valid))))"

text \<open>\<open>validate_quarter_date\<close> and \<open>query_tidy_table\<close>: the rows of a concept between two months, the newest first.\<close>

definition valid_quarter_date :: "string \<Rightarrow> bool" where
  "valid_quarter_date s \<longleftrightarrow>
     (let t = take 7 s in s = [] \<or>
        (length t = 7 \<and> all_digits (take 4 t) \<and> t ! 4 = CHR 0x2D \<and> drop 7 s \<in> {[], [nl]} \<and>
         (t ! 5 = CHR 0x30 \<and> t ! 6 \<noteq> CHR 0x30 \<and> all_digits [t ! 6] \<or> t ! 5 = CHR 0x31 \<and> t ! 6 \<in> {CHR 0x30, CHR 0x31, CHR 0x32})))"

definition in_months :: "string \<Rightarrow> string \<Rightarrow> string \<Rightarrow> bool" where
  "in_months start end_month day \<longleftrightarrow>
     (start \<noteq> [] \<longrightarrow> start @ ''-01'' \<le> day) \<and> (end_month \<noteq> [] \<longrightarrow> day \<le> end_month @ ''-31'')"

definition query_tidy_table ::
  "string \<Rightarrow> string \<Rightarrow> string \<Rightarrow> string \<Rightarrow> notes_db \<Rightarrow> string + tidy_row list" where
  "query_tidy_table ticker concept start end_month db =
     (if \<not> valid_quarter_date start then Inl (''Invalid date format '' @ start)
      else if \<not> valid_quarter_date end_month then Inl (''Invalid date format '' @ end_month)
      else Inr (take 500 (order_desc period_end_date
        (filter (\<lambda>d. tidy_ticker d = ticker \<and> tidy_meta d ''concept'' = concept \<and> in_months start end_month (period_end_date d))
           (detail_rows db)))))"

text \<open>The command \<open>note\<close>: what it answers, and the extractions it starts.\<close>

datatype note_answer =
    Note_Failed string
  | Note_Index "note_row list"
  | Note_View note_row "registry_row list"

definition has_filing :: "string \<Rightarrow> notes_db \<Rightarrow> bool" where
  "has_filing acc db \<longleftrightarrow> list_ex (\<lambda>f. filing_acc f = acc) (filing_rows db)"

definition find_note :: "string \<Rightarrow> int \<Rightarrow> notes_db \<Rightarrow> note_row option" where
  "find_note acc k db = find (\<lambda>n. note_acc n = acc \<and> note_number n = k) (note_rows db)"

definition hydrate_filing ::
  "(bool \<Rightarrow> notes_db \<Rightarrow> notes_db \<times> bool) \<Rightarrow> string \<Rightarrow> bool \<Rightarrow> notes_db \<Rightarrow> notes_db \<times> bool" where
  "hydrate_filing extract acc force db = (if force \<or> \<not> has_filing acc db then extract force db else (db, True))"

definition hydrate_note ::
  "(bool \<Rightarrow> notes_db \<Rightarrow> notes_db \<times> bool) \<Rightarrow> string \<Rightarrow> bool \<Rightarrow> int option \<Rightarrow> notes_db \<Rightarrow> notes_db" where
  "hydrate_note extract acc force wanted db =
     (case wanted of None \<Rightarrow> db
      | Some k \<Rightarrow> if find_note acc k db = None \<and> \<not> force then fst (extract False db) else db)"

definition show_notes :: "string \<Rightarrow> int option \<Rightarrow> notes_db \<Rightarrow> note_answer" where
  "show_notes acc wanted db =
     (if \<not> has_filing acc db then Note_Failed ''not found after extraction''
      else case wanted of
        None \<Rightarrow> Note_Index (sort_key note_number (filter (\<lambda>n. note_acc n = acc) (note_rows db)))
      | Some k \<Rightarrow> (case find_note acc k db of
          None \<Rightarrow> Note_Failed ''note not found''
        | Some n \<Rightarrow> Note_View n (filter (\<lambda>r. reg_acc r = acc \<and> reg_note r = k) (registry_rows db))))"

definition note_command ::
  "(bool \<Rightarrow> notes_db \<Rightarrow> notes_db \<times> bool) \<Rightarrow> string \<Rightarrow> bool \<Rightarrow> int option \<Rightarrow> notes_db \<Rightarrow> note_answer \<times> notes_db" where
  "note_command extract acc force wanted db =
     (if acc = [] then (Note_Failed ''Missing accession_no'', db)
      else (let (db1, ok) = hydrate_filing extract acc force db in
            if \<not> ok then (Note_Failed ''Extraction failed'', db1)
            else (let db2 = hydrate_note extract acc force wanted db1 in (show_notes acc wanted db2, db2))))"

text \<open>\<open>StockNotesResumeHandler\<close>, over the states of the items of the job.\<close>

definition notes_resumable :: "string list \<Rightarrow> bool \<times> nat \<times> nat" where
  "notes_resumable states =
     (let completed = count_list states ''COMPLETED'';
          pending = count_list states ''PENDING'' + count_list states ''FAILED'' + count_list states ''RUNNING'' in
      (0 < pending \<and> 0 < completed, completed, pending))"

lemma append_le:
  "length a = length b \<Longrightarrow> (a @ x \<le> b @ y) \<longleftrightarrow> a < b \<or> a = b \<and> x \<le> (y :: 'a :: linorder list)"
  by (induction a b rule: list_induct2) auto

theorem query_by_months:
  assumes "length start = 7" "length end_month = 7" "length month = 7" "''-01'' \<le> day" "day \<le> ''-31''"
  shows "in_months start end_month (month @ day) \<longleftrightarrow> start \<le> month \<and> month \<le> end_month"
  using assms append_le [of start month "''-01''" day] append_le [of month end_month day "''-31''"]
  by (auto simp: in_months_def)

text \<open>
  A stored note is shown as it is, with or without details: the extraction is not asked again, although the guide of the
  tool says that a note without detail records is hydrated.
\<close>

theorem stored_note_is_not_hydrated:
  assumes "acc \<noteq> []" "has_filing acc db" "find_note acc k db = Some n"
  shows "snd (note_command extract acc False (Some k) db) = db"
  using assms by (simp add: note_command_def hydrate_filing_def hydrate_note_def)

text \<open>
  The registered tables are not tied to the filing: an extraction without \<open>force_refresh\<close> under another ticker leaves the
  old entries beside the new ones.
\<close>

lemma registry_key_parts:
  assumes "registry_key t name acc k = registry_key t' name' acc k'"
    and "CHR 0x7C \<notin> set name" "CHR 0x7C \<notin> set name'" "CHR 0x7C \<notin> set acc"
  shows "t = t' \<and> name = name' \<and> k = k'"
proof -
  have "(t @ ''|'' @ name @ ''|'' @ acc) @ CHR 0x7C # show_int k = (t' @ ''|'' @ name' @ ''|'' @ acc) @ CHR 0x7C # show_int k'"
    using assms(1) by (simp add: registry_key_def)
  from last_separator [OF this show_int_no_bar show_int_no_bar]
  have "t @ CHR 0x7C # name = t' @ CHR 0x7C # name'" "k = k'" by (auto dest: show_int_inj)
  from last_separator [OF this(1) assms(2,3)] this(2) show ?thesis by simp
qed

lemma digits_no_bar: "CHR 0x7C \<notin> set (digits n)"
  using digits_digit [of "CHR 0x7C" n] by (auto simp: digit_value_def Let_def)

lemma detail_table_name_no_bar: "CHR 0x7C \<notin> set (detail_table_name k di title)"
proof -
  have "CHR 0x7C \<notin> set (map (\<lambda>c. if is_alnum c then c else CHR 0x5F) x)" for x by (auto simp: is_alnum_def)
  moreover have "set (strip_underscores s) \<subseteq> set s" for s
    by (auto simp: strip_underscores_def dest!: set_dropWhileD)
  ultimately have "CHR 0x7C \<notin> set (strip_underscores (take 40 (map (\<lambda>c. if is_alnum c then c else CHR 0x5F) x)))" for x
    by (meson in_set_takeD subsetD)
  then show ?thesis using digits_no_bar by (simp add: detail_table_name_def Let_def)
qed

fun keeps_registry :: "registry_row \<Rightarrow> sn_stmt \<Rightarrow> bool" where
  "keeps_registry r (ReplaceRegistry r') = (registry_id r' \<noteq> registry_id r)"
| "keeps_registry r (DeleteRegistry acc) = False"
| "keeps_registry r s = True"

lemma registry_kept:
  "list_all (keeps_registry r) ss \<Longrightarrow> r \<in> set (registry_rows db) \<Longrightarrow> r \<in> set (registry_rows (fold write_stmt ss db))"
proof (induction ss arbitrary: db)
  case (Cons s ss)
  have "r \<in> set (registry_rows (write_stmt s db))"
    using Cons.prems by (cases s) (auto simp: write_stmt_def replace_row_def replace_filing_def Let_def)
  then show ?case using Cons by simp
qed simp

lemma keeps_details: "list_all (keeps_registry r) (map ReplaceDetails bs)"
  by (simp add: list_all_iff)

lemma table_keeps_registry:
  assumes "\<And>name. CHR 0x7C \<notin> set name \<Longrightarrow> registry_id r \<noteq> make_registry_id (md5 lib) (cx_ticker cx) name (cx_acc cx) k"
  shows "list_all (keeps_registry r) (local_stmts (extract_table lib cx k dt))"
  using assms detail_table_name_no_bar
  by (auto simp: extract_table_def upsert_tidy_records_def Let_def batches_sent keeps_details register_detail_table_def
      split: option.split prod.split) (metis detail_table_name_no_bar)

theorem registry_outlives_ticker:
  assumes "inj (md5 lib)" "CHR 0x7C \<notin> set acc" "CHR 0x7C \<notin> set (reg_name r)"
    and "r \<in> set (registry_rows db)" "registry_id r = make_registry_id (md5 lib) (reg_ticker r) (reg_name r) acc (reg_note r)"
    and "reg_ticker r \<noteq> filing_ticker_of ticker f"
    and "run_extraction lib acc ticker form job False (Gives (Some f)) db = (db', ok)"
  shows "r \<in> set (registry_rows db')"
proof -
  have other: "registry_id r \<noteq> make_registry_id (md5 lib) (filing_ticker_of ticker f) name acc k" if "CHR 0x7C \<notin> set name" for name k
    using registry_key_parts [of "reg_ticker r" "reg_name r" acc "reg_note r" "filing_ticker_of ticker f" name k] assms(1-3,5,6) that
    by (auto simp: make_registry_id_def inj_eq)
  have note_keeps: "list_all (keeps_registry r) (local_stmts (extract_note lib cx x))"
    if cx: "cx_acc cx = acc" "cx_ticker cx = filing_ticker_of ticker f" for cx x
  proof -
    have "list_all (keeps_registry r) (local_stmts (extract_table lib cx k dt))" for k dt
      using other cx by (intro table_keeps_registry) simp
    then have "list_all (keeps_registry r) (local_stmts (concat (map (extract_table lib cx k) dts)))" for k dts
      by (induction dts) simp_all
    then show ?thesis by (auto simp: extract_note_def Let_def split: attempt.split)
  qed
  have "list_all (keeps_registry r) (local_stmts (concat (map (extract_note lib (context_of acc ticker form job f fye ob)) xs)))" for fye ob xs
    by (induction xs) (simp_all add: note_keeps context_of_def Let_def)
  moreover have "registry_rows (write_stmt (ReplaceFiling g) db) = registry_rows db" for g
    by (simp add: write_stmt_def replace_filing_def Let_def)
  ultimately show ?thesis
    using assms(4,7) registry_kept [of r]
    by (auto simp: run_extraction_def extract_and_persist_filing_def Let_def split: attempt.splits)
qed

end
