(* ===== verification/Rank_Fusion.thy ===== *)
theory Rank_Fusion
  imports Complex_Main Prelude
begin

text \<open>
  \<open>utils/hybrid_search.py\<close>, the search of a batch's articles by meaning and by words with the fusion of the two rankings,
  and the tool \<open>tools/batch_reader/tool.py\<close> over it. The vector index and the full-text index are arguments.
\<close>

section \<open>The query\<close>

text \<open>\<open>\w\<close> on the code points below 256.\<close>

definition word_char :: "char \<Rightarrow> bool" where
  "word_char c \<longleftrightarrow> (let n = of_char c :: nat in
     (48 \<le> n \<and> n \<le> 57) \<or> (65 \<le> n \<and> n \<le> 90) \<or> n = 95 \<or> (97 \<le> n \<and> n \<le> 122) \<or> n \<in> {170, 178, 179, 181, 185, 186, 188, 189, 190}
     \<or> (192 \<le> n \<and> n \<noteq> 215 \<and> n \<noteq> 247))"

text \<open>\<open>re.sub(r'\s+', ' ', s)\<close>; the flag says that the last character written is the blank of a run.\<close>

fun collapse_spaces :: "bool \<Rightarrow> string \<Rightarrow> string" where
  "collapse_spaces in_run [] = []"
| "collapse_spaces in_run (c # s) =
     (if is_space c then (if in_run then collapse_spaces True s else CHR 0x20 # collapse_spaces True s)
      else c # collapse_spaces False s)"

definition sanitize_fts_query :: "string \<Rightarrow> string" where
  "sanitize_fts_query query =
     strip (collapse_spaces False (map (\<lambda>c. if word_char c \<or> is_space c then c else CHR 0x20) query))"

section \<open>Fusion of two rankings\<close>

text \<open>A row of a search; both texts may be null, the title is not (a batch counts titled articles only).\<close>

record hit =
  hit_ulid :: string
  hit_title :: string
  hit_summary :: "string option"
  hit_conclusion :: "string option"

text \<open>
  The scores are an argument, with their addition: \<open>sv rank\<close> and \<open>sk rank\<close> are \<open>w / (k + rank)\<close> for the two weights. The dicts
  \<open>scores\<close> and \<open>items\<close> are association lists in the order of insertion.
\<close>

definition add_score :: "('s \<Rightarrow> 's \<Rightarrow> 's) \<Rightarrow> 's \<Rightarrow> 's \<Rightarrow> string \<Rightarrow> (string \<times> 's) list \<Rightarrow> (string \<times> 's) list" where
  "add_score sadd s0 s u scores =
     AList.update u (sadd (case map_of scores u of Some old \<Rightarrow> old | None \<Rightarrow> s0) s) scores"

fun score_hits :: "('s \<Rightarrow> 's \<Rightarrow> 's) \<Rightarrow> 's \<Rightarrow> (nat \<Rightarrow> 's) \<Rightarrow> nat \<Rightarrow> hit list \<Rightarrow> (string \<times> 's) list \<Rightarrow> (string \<times> 's) list" where
  "score_hits sadd s0 sc rank [] scores = scores"
| "score_hits sadd s0 sc rank (h # hs) scores =
     score_hits sadd s0 sc (rank + 1) hs (add_score sadd s0 (sc rank) (hit_ulid h) scores)"

definition keep_first :: "hit \<Rightarrow> (string \<times> hit) list \<Rightarrow> (string \<times> hit) list" where
  "keep_first h items = (if map_of items (hit_ulid h) = None then AList.update (hit_ulid h) h items else items)"

definition fusion_scores ::
  "('s \<Rightarrow> 's \<Rightarrow> 's) \<Rightarrow> 's \<Rightarrow> (nat \<Rightarrow> 's) \<Rightarrow> (nat \<Rightarrow> 's) \<Rightarrow> hit list \<Rightarrow> hit list \<Rightarrow> (string \<times> 's) list" where
  "fusion_scores sadd s0 sv sk vec kw = score_hits sadd s0 sk 1 kw (score_hits sadd s0 sv 1 vec [])"

definition fusion_items :: "hit list \<Rightarrow> hit list \<Rightarrow> (string \<times> hit) list" where
  "fusion_items vec kw = fold keep_first kw (fold (\<lambda>h. AList.update (hit_ulid h) h) vec [])"

definition weighted_rrf ::
  "('s::linorder \<Rightarrow> 's \<Rightarrow> 's) \<Rightarrow> 's \<Rightarrow> (nat \<Rightarrow> 's) \<Rightarrow> (nat \<Rightarrow> 's) \<Rightarrow> hit list \<Rightarrow> hit list \<Rightarrow> (hit \<times> 's) list" where
  "weighted_rrf sadd s0 sv sk vec kw =
     (let scores = fusion_scores sadd s0 sv sk vec kw; items = fusion_items vec kw in
      map (\<lambda>us. (the (map_of items (fst us)), snd us)) (order_desc snd scores))"

fun rank_of :: "nat \<Rightarrow> string \<Rightarrow> string list \<Rightarrow> nat option" where
  "rank_of r u [] = None"
| "rank_of r u (x # xs) = (if x = u then Some r else rank_of (r + 1) u xs)"

lemma rank_of_None: "rank_of r u xs = None \<longleftrightarrow> u \<notin> set xs"
  by (induction r u xs rule: rank_of.induct) auto

lemma rank_of_ge: "rank_of r u xs = Some i \<Longrightarrow> r \<le> i"
  by (induction r u xs rule: rank_of.induct) (fastforce split: if_splits)+

lemma subseq_pair_first: "subseq [u, v] xs \<Longrightarrow> u \<in> set xs"
  by (induction xs) (auto simp: subseq_Cons2_iff split: if_splits)

lemma subseq_pair_in: "subseq [u, v] xs \<Longrightarrow> v \<in> set xs"
  by (induction xs) (auto simp: subseq_Cons2_iff subseq_singleton_left split: if_splits)

lemma rank_of_before:
  "subseq [u, v] xs \<Longrightarrow> distinct xs \<Longrightarrow> \<exists>i j. rank_of r u xs = Some i \<and> rank_of r v xs = Some j \<and> i \<le> j"
proof (induction r u xs rule: rank_of.induct)
  case (2 r u x xs)
  show ?case
  proof (cases "x = u")
    case True
    then have "v \<in> set xs" using 2(2,3) by (auto simp: subseq_Cons2_iff subseq_singleton_left)
    then obtain j where "rank_of (r + 1) v xs = Some j" using rank_of_None by fastforce
    then show ?thesis using True \<open>v \<in> set xs\<close> 2(3) rank_of_ge [of "r + 1" v xs j] by auto
  next
    case False
    then have "subseq [u, v] xs" using 2(2) by (simp add: subseq_Cons2_iff)
    then have "v \<in> set xs" by (rule subseq_pair_in)
    then show ?thesis using 2(1) [OF False \<open>subseq [u, v] xs\<close>] 2(3) False by auto
  qed
qed simp

abbreviation ids :: "hit list \<Rightarrow> string list" where
  "ids hs \<equiv> map hit_ulid hs"

lemma score_hits_lookup:
  "distinct (ids hs) \<Longrightarrow> map_of (score_hits sadd s0 sc r hs scores) u =
     (case rank_of r u (ids hs) of None \<Rightarrow> map_of scores u
      | Some i \<Rightarrow> Some (sadd (case map_of scores u of Some old \<Rightarrow> old | None \<Rightarrow> s0) (sc i)))"
proof (induction hs arbitrary: r scores)
  case (Cons h hs)
  show ?case
  proof (cases "hit_ulid h = u")
    case True
    then have "rank_of (r + 1) u (ids hs) = None" using Cons.prems rank_of_None by fastforce
    then show ?thesis using Cons True by (simp add: add_score_def update_conv')
  next
    case False
    then show ?thesis using Cons
      by (cases "rank_of (r + 1) u (ids hs)") (simp_all add: add_score_def update_conv')
  qed
qed simp

lemma score_hits_keys:
  "distinct (ids hs) \<Longrightarrow> map fst (score_hits sadd s0 sc r hs scores)
     = map fst scores @ filter (\<lambda>u. u \<notin> fst ` set scores) (ids hs)"
proof (induction hs arbitrary: r scores)
  case (Cons h hs)
  have "filter (\<lambda>u. u \<notin> insert (hit_ulid h) (fst ` set scores)) (ids hs) = filter (\<lambda>u. u \<notin> fst ` set scores) (ids hs)"
    using Cons.prems by (intro filter_cong) (auto simp: image_iff)
  moreover have "fst ` set (AList.update k v scores) = insert k (fst ` set scores)" for k v
    by (metis dom_map_of_conv_image_fst dom_fun_upd option.distinct(1) update_conv')
  ultimately show ?case using Cons by (auto simp: add_score_def update_keys)
qed simp

lemma fusion_scores_keys:
  "distinct (ids vec) \<Longrightarrow> distinct (ids kw) \<Longrightarrow>
     map fst (fusion_scores sadd s0 sv sk vec kw) = ids vec @ filter (\<lambda>u. u \<notin> set (ids vec)) (ids kw)"
proof -
  assume d: "distinct (ids vec)" "distinct (ids kw)"
  have "map fst (score_hits sadd s0 sv 1 vec []) = ids vec" using score_hits_keys [OF d(1), where scores = "[]"] by simp
  moreover from this have "fst ` set (score_hits sadd s0 sv 1 vec []) = set (ids vec)" by (metis list.set_map)
  ultimately show ?thesis using score_hits_keys [OF d(2), of sadd s0 sk 1 "score_hits sadd s0 sv 1 vec []"]
    by (simp add: fusion_scores_def)
qed

definition items_named :: "(string \<times> hit) list \<Rightarrow> bool" where
  "items_named items \<longleftrightarrow> (\<forall>u h. map_of items u = Some h \<longrightarrow> hit_ulid h = u)"

lemma items_named_update: "items_named items \<Longrightarrow> items_named (AList.update (hit_ulid h) h items)"
  by (auto simp: items_named_def update_conv')

lemma items_named_vec: "items_named items \<Longrightarrow> items_named (fold (\<lambda>h. AList.update (hit_ulid h) h) vec items)"
  by (induction vec arbitrary: items) (simp_all add: items_named_update)

lemma items_named_kw: "items_named items \<Longrightarrow> items_named (fold keep_first kw items)"
  by (induction kw arbitrary: items) (simp_all add: keep_first_def items_named_update)

lemma fusion_items_ulid: "map_of (fusion_items vec kw) u = Some h \<Longrightarrow> hit_ulid h = u"
proof -
  have "items_named (fusion_items vec kw)"
    unfolding fusion_items_def by (intro items_named_kw items_named_vec) (simp add: items_named_def)
  then show "map_of (fusion_items vec kw) u = Some h \<Longrightarrow> hit_ulid h = u" by (simp add: items_named_def)
qed

lemma fusion_items_dom: "dom (map_of (fusion_items vec kw)) = set (ids vec) \<union> set (ids kw)"
proof -
  have "dom (map_of (fold (\<lambda>h. AList.update (hit_ulid h) h) vec items)) = dom (map_of items) \<union> set (ids vec)" for items
    by (induction vec arbitrary: items) (auto simp: update_conv')
  moreover have "dom (map_of (fold keep_first kw items)) = dom (map_of items) \<union> set (ids kw)" for items
    by (induction kw arbitrary: items) (auto simp: keep_first_def update_conv')
  ultimately show ?thesis by (simp add: fusion_items_def)
qed

lemma sorted_before:
  "sorted_wrt (\<lambda>x y. k y \<le> k x) zs \<Longrightarrow> x \<in> set zs \<Longrightarrow> y \<in> set zs \<Longrightarrow> k y < (k x :: 's :: linorder) \<Longrightarrow> subseq [x, y] zs"
proof (induction zs)
  case (Cons z zs)
  show ?case
  proof (cases "z = x")
    case True
    then have "y \<in> set zs" using Cons.prems(3,4) by auto
    then show ?thesis using True by (simp add: subseq_Cons2_iff subseq_singleton_left)
  next
    case False
    then have "x \<in> set zs" using Cons.prems(2) by simp
    then have "z \<noteq> y" using Cons.prems(1,4) by fastforce
    then have "subseq [x, y] zs" using Cons \<open>x \<in> set zs\<close> by simp
    then show ?thesis by (rule list_emb_Cons)
  qed
qed simp

lemma order_desc_before:
  assumes "subseq [x, y] xs" "k y \<le> (k x :: 's :: linorder)"
  shows "subseq [x, y] (order_desc k xs)"
proof (cases "k y = k x")
  case True
  have "subseq (filter (\<lambda>w. k w = k x) [x, y]) (filter (\<lambda>w. k w = k x) xs)" by (rule subseq_filter [OF assms(1)])
  then have "subseq [x, y] (filter (\<lambda>w. k w = k x) (order_desc k xs))" using True by (simp add: order_desc_stable)
  then show ?thesis using subseq_filter_left subseq_order.trans by blast
next
  case False
  have "x \<in> set xs" "y \<in> set xs" using assms(1) by (rule subseq_pair_first, rule subseq_pair_in)
  then show ?thesis using False assms(2) by (intro sorted_before [OF sorted_order_desc]) auto
qed

text \<open>
  What is asked of the scores; floating-point sums have it as well as exact ones: a later rank scores no more, no score
  takes anything away, and addition is monotone.
\<close>

locale rank_scores =
  fixes sadd :: "'s::linorder \<Rightarrow> 's \<Rightarrow> 's" and s0 :: 's and sv sk :: "nat \<Rightarrow> 's"
  assumes vec_falls: "i \<le> j \<Longrightarrow> sv j \<le> sv i"
    and kw_falls: "i \<le> j \<Longrightarrow> sk j \<le> sk i"
    and vec_adds: "s0 \<le> sadd s0 (sv i)"
    and kw_adds: "a \<le> sadd a (sk i)"
    and sadd_mono: "a \<le> b \<Longrightarrow> s \<le> t \<Longrightarrow> sadd a s \<le> sadd b t"
begin

definition base :: "string list \<Rightarrow> string \<Rightarrow> 's" where
  "base vs u = (case rank_of 1 u vs of Some i \<Rightarrow> sadd s0 (sv i) | None \<Rightarrow> s0)"

definition fused :: "string list \<Rightarrow> string list \<Rightarrow> string \<Rightarrow> 's" where
  "fused vs ks u = (case rank_of 1 u ks of Some j \<Rightarrow> sadd (base vs u) (sk j) | None \<Rightarrow> base vs u)"

lemma scores_fused:
  assumes "distinct (ids vec)" "distinct (ids kw)" "u \<in> set (ids vec) \<union> set (ids kw)"
  shows "map_of (fusion_scores sadd s0 sv sk vec kw) u = Some (fused (ids vec) (ids kw) u)"
proof -
  have vec: "map_of (score_hits sadd s0 sv 1 vec []) u = (case rank_of 1 u (ids vec) of None \<Rightarrow> None | Some i \<Rightarrow> Some (sadd s0 (sv i)))"
    using score_hits_lookup [OF assms(1), of sadd s0 sv 1 "[]" u] by (simp cong: option.case_cong)
  have "rank_of 1 u (ids vec) \<noteq> None \<or> rank_of 1 u (ids kw) \<noteq> None" using assms(3) rank_of_None by blast
  then show ?thesis
    using score_hits_lookup [OF assms(2), of sadd s0 sk 1 "score_hits sadd s0 sv 1 vec []" u] vec
    by (auto simp: fusion_scores_def fused_def base_def split: option.splits)
qed

lemma base_before:
  assumes "distinct vs" "v \<in> set vs \<Longrightarrow> subseq [u, v] vs"
  shows "base vs v \<le> base vs u"
proof (cases "v \<in> set vs")
  case True
  then obtain i j where "rank_of 1 u vs = Some i" "rank_of 1 v vs = Some j" "i \<le> j"
    using rank_of_before assms by blast
  then show ?thesis using sadd_mono vec_falls by (simp add: base_def)
next
  case False
  then have "rank_of 1 v vs = None" by (simp add: rank_of_None)
  then show ?thesis using vec_adds by (simp add: base_def split: option.split)
qed

lemma fused_before:
  assumes "distinct vs" "distinct ks" "v \<in> set vs \<Longrightarrow> subseq [u, v] vs" "v \<in> set ks \<Longrightarrow> subseq [u, v] ks"
  shows "fused vs ks v \<le> fused vs ks u"
proof (cases "v \<in> set ks")
  case True
  then obtain i j where "rank_of 1 u ks = Some i" "rank_of 1 v ks = Some j" "i \<le> j"
    using rank_of_before assms(2,4) by blast
  then show ?thesis using sadd_mono [OF base_before [OF assms(1,3)]] kw_falls by (simp add: fused_def)
next
  case False
  then have "rank_of 1 v ks = None" by (simp add: rank_of_None)
  moreover have "base vs v \<le> sadd (base vs u) (sk j)" for j using base_before [OF assms(1,3)] kw_adds order_trans by blast
  ultimately show ?thesis using base_before [OF assms(1,3)] by (simp add: fused_def split: option.split)
qed

lemma fused_list:
  assumes "distinct (ids vec)" "distinct (ids kw)"
  shows "map (\<lambda>r. hit_ulid (fst r)) (weighted_rrf sadd s0 sv sk vec kw) = map fst (order_desc snd (fusion_scores sadd s0 sv sk vec kw))"
proof -
  have "hit_ulid (the (map_of (fusion_items vec kw) (fst us))) = fst us" if "us \<in> set (fusion_scores sadd s0 sv sk vec kw)" for us
  proof -
    have "fst us \<in> set (map fst (fusion_scores sadd s0 sv sk vec kw))" using that by simp
    then have "fst us \<in> set (ids vec) \<union> set (ids kw)" unfolding fusion_scores_keys [OF assms] by auto
    then have "fst us \<in> dom (map_of (fusion_items vec kw))" by (simp only: fusion_items_dom)
    then show ?thesis using fusion_items_ulid by (auto simp: dom_def)
  qed
  then show ?thesis by (simp add: weighted_rrf_def Let_def comp_def)
qed

lemma fusion_dominates:
  assumes "distinct (ids vec)" "distinct (ids kw)" "v \<in> set (ids vec) \<union> set (ids kw)"
    and "v \<in> set (ids vec) \<Longrightarrow> subseq [u, v] (ids vec)" "v \<in> set (ids kw) \<Longrightarrow> subseq [u, v] (ids kw)"
  shows "subseq [u, v] (map (\<lambda>r. hit_ulid (fst r)) (weighted_rrf sadd s0 sv sk vec kw))"
proof -
  let ?s = "fusion_scores sadd s0 sv sk vec kw" and ?f = "fused (ids vec) (ids kw)"
  have keys: "map fst ?s = ids vec @ filter (\<lambda>u. u \<notin> set (ids vec)) (ids kw)" by (rule fusion_scores_keys [OF assms(1,2)])
  have dist: "distinct (map fst ?s)" using assms(1,2) by (auto simp: keys)
  have "subseq [u, v] (map fst ?s)"
  proof (cases "v \<in> set (ids vec)")
    case True
    have "subseq ([u, v] @ []) (map fst ?s)" unfolding keys by (rule list_emb_append_mono [OF assms(4) [OF True]]) simp
    then show ?thesis by simp
  next
    case False
    then have vk: "subseq [u, v] (ids kw)" using assms(3,5) by blast
    show ?thesis
    proof (cases "u \<in> set (ids vec)")
      case True
      have "v \<in> set (filter (\<lambda>u. u \<notin> set (ids vec)) (ids kw))" using False assms(3) by simp
      then have "subseq ([u] @ [v]) (map fst ?s)" unfolding keys using True
        by (intro list_emb_append_mono) (auto simp: subseq_singleton_left)
      then show ?thesis by simp
    next
      case u': False
      have "subseq (filter (\<lambda>u. u \<notin> set (ids vec)) [u, v]) (filter (\<lambda>u. u \<notin> set (ids vec)) (ids kw))"
        by (rule subseq_filter [OF vk])
      then show ?thesis unfolding keys using False u' by (intro list_emb_append2) simp
    qed
  qed
  then have "subseq (map (\<lambda>w. (w, ?f w)) [u, v]) (map (\<lambda>w. (w, ?f w)) (map fst ?s))" by (rule subseq_map)
  moreover have "map (\<lambda>w. (w, ?f w)) (map fst ?s) = ?s"
  proof -
    have "snd us = ?f (fst us)" if "us \<in> set ?s" for us
    proof -
      have "fst us \<in> set (map fst ?s)" using that by simp
      then have "fst us \<in> set (ids vec) \<union> set (ids kw)" unfolding keys by auto
      then have "map_of ?s (fst us) = Some (?f (fst us))" by (rule scores_fused [OF assms(1,2)])
      moreover have "map_of ?s (fst us) = Some (snd us)" using that dist by simp
      ultimately show ?thesis by simp
    qed
    then show ?thesis unfolding map_map by (intro map_idI) (metis comp_apply prod.collapse)
  qed
  ultimately have "subseq [(u, ?f u), (v, ?f v)] ?s" by simp
  then have "subseq [(u, ?f u), (v, ?f v)] (order_desc snd ?s)"
    using fused_before [OF assms(1,2,4,5)] by (intro order_desc_before) simp_all
  from subseq_map [OF this, of fst] show ?thesis by (simp add: fused_list [OF assms(1,2)])
qed

lemma fusion_ulids:
  assumes "distinct (ids vec)" "distinct (ids kw)"
  shows "distinct (map (\<lambda>r. hit_ulid (fst r)) (weighted_rrf sadd s0 sv sk vec kw))"
    and "set (map (\<lambda>r. hit_ulid (fst r)) (weighted_rrf sadd s0 sv sk vec kw)) = set (ids vec) \<union> set (ids kw)"
proof -
  let ?s = "fusion_scores sadd s0 sv sk vec kw"
  have keys: "map fst ?s = ids vec @ filter (\<lambda>u. u \<notin> set (ids vec)) (ids kw)" by (rule fusion_scores_keys [OF assms])
  have "distinct (map fst ?s)" using assms by (auto simp: keys)
  then have "distinct (map fst (order_desc snd ?s))" by (simp add: distinct_map)
  then show "distinct (map (\<lambda>r. hit_ulid (fst r)) (weighted_rrf sadd s0 sv sk vec kw))" by (simp only: fused_list [OF assms])
  have "set (map fst ?s) = set (ids vec) \<union> set (ids kw)" unfolding keys by auto
  then show "set (map (\<lambda>r. hit_ulid (fst r)) (weighted_rrf sadd s0 sv sk vec kw)) = set (ids vec) \<union> set (ids kw)"
    by (simp only: fused_list [OF assms] set_map set_order_desc)
qed

end

text \<open>The weights of the code (\<open>k = 60\<close>, 0.6 and 0.4) in exact arithmetic.\<close>

definition rrf_score :: "rat \<Rightarrow> nat \<Rightarrow> rat" where
  "rrf_score w rank = w / of_nat (60 + rank)"

lemma rrf_score_falls: "0 \<le> w \<Longrightarrow> i \<le> j \<Longrightarrow> rrf_score w j \<le> rrf_score w i"
  by (simp add: rrf_score_def divide_left_mono)

lemma rrf_score_pos: "0 \<le> w \<Longrightarrow> 0 \<le> rrf_score w i"
  by (simp add: rrf_score_def)

interpretation rrf: rank_scores "(+)" 0 "rrf_score (6 / 10)" "rrf_score (4 / 10)"
  by unfold_locales (simp_all add: rrf_score_falls rrf_score_pos add_mono)

text \<open>
  C19: The fusion is a ranking of the union that respects both lists. For any scores that fall with the rank (whatever the
  weights and the rounding of their sums), each article of either list is in the result once, the scores of the result
  fall, and an article that is ahead of another in every list that has the other is ahead of it in the result.
\<close>

theorem fusion_respects_both_rankings:
  assumes "rank_scores sadd s0 sv sk" "distinct (ids vec)" "distinct (ids kw)"
  shows "distinct (map (\<lambda>r. hit_ulid (fst r)) (weighted_rrf sadd s0 sv sk vec kw))
    \<and> set (map (\<lambda>r. hit_ulid (fst r)) (weighted_rrf sadd s0 sv sk vec kw)) = set (ids vec) \<union> set (ids kw)
    \<and> sorted_wrt (\<lambda>r r'. snd r' \<le> snd r) (weighted_rrf sadd s0 sv sk vec kw)
    \<and> (\<forall>u v. v \<in> set (ids vec) \<union> set (ids kw) \<and> (v \<in> set (ids vec) \<longrightarrow> subseq [u, v] (ids vec))
          \<and> (v \<in> set (ids kw) \<longrightarrow> subseq [u, v] (ids kw))
         \<longrightarrow> subseq [u, v] (map (\<lambda>r. hit_ulid (fst r)) (weighted_rrf sadd s0 sv sk vec kw)))"
proof -
  have "sorted_wrt (\<lambda>r r'. snd r' \<le> snd r) (weighted_rrf sadd s0 sv sk vec kw)"
    using sorted_order_desc [of snd "fusion_scores sadd s0 sv sk vec kw"]
    by (simp add: weighted_rrf_def Let_def sorted_wrt_map)
  then show ?thesis using rank_scores.fusion_ulids [OF assms] rank_scores.fusion_dominates [OF assms] by blast
qed

definition hit_named :: "string \<Rightarrow> hit" where
  "hit_named u = \<lparr>hit_ulid = u, hit_title = u, hit_summary = None, hit_conclusion = None\<rparr>"

theorem fusion_respects_both_rankings_witness:
  "let r = weighted_rrf (+) 0 (rrf_score (6 / 10)) (rrf_score (4 / 10)) [hit_named ''a'', hit_named ''b''] [hit_named ''b'', hit_named ''d''];
       us = map (\<lambda>r. hit_ulid (fst r)) r in
   distinct us \<and> set us = {''a'', ''b'', ''d''} \<and> sorted_wrt (\<lambda>r r'. snd r' \<le> snd r) r \<and> subseq [''b'', ''d''] us"
proof -
  let ?vec = "[hit_named ''a'', hit_named ''b'']" and ?kw = "[hit_named ''b'', hit_named ''d'']"
  have "distinct (ids ?vec)" "distinct (ids ?kw)" by (simp_all add: hit_named_def)
  from fusion_respects_both_rankings [OF rrf.rank_scores_axioms this] show ?thesis
    by (auto simp: hit_named_def Let_def)
qed

section \<open>The search of a batch\<close>

text \<open>
  Python's \<open>xs[:n]\<close>, and SQL's \<open>LIMIT n\<close>, which a negative number switches off.
\<close>

definition first_of :: "int \<Rightarrow> 'a list \<Rightarrow> 'a list" where
  "first_of n xs = take (adj_end (length xs) n) xs"

definition sql_limit :: "int \<Rightarrow> 'a list \<Rightarrow> 'a list" where
  "sql_limit n xs = (if n < 0 then xs else take (nat n) xs)"

text \<open>
  \<open>execute_hybrid_search\<close>. \<open>nearest q k\<close> is what embedding and vector index give for the query, the \<open>k\<close> nearest of all
  articles (or an exception, as for a negative \<open>k\<close>); \<open>matches q\<close> is what the full-text index matches, the best first (or a syntax
  error). The batch is looked at after the nearest have been taken, but before the words' limit.
\<close>

definition batch_hits :: "string list \<Rightarrow> hit list option \<Rightarrow> hit list" where
  "batch_hits valid r = (case r of Some hs \<Rightarrow> filter (\<lambda>h. hit_ulid h \<in> set valid) hs | None \<Rightarrow> [])"

definition execute_hybrid_search ::
  "('s::linorder \<Rightarrow> 's \<Rightarrow> 's) \<Rightarrow> 's \<Rightarrow> (nat \<Rightarrow> 's) \<Rightarrow> (nat \<Rightarrow> 's) \<Rightarrow> bool
   \<Rightarrow> (string \<Rightarrow> int \<Rightarrow> hit list option) \<Rightarrow> (string \<Rightarrow> hit list option) \<Rightarrow> string \<Rightarrow> string list \<Rightarrow> int \<Rightarrow> (hit \<times> 's) list" where
  "execute_hybrid_search sadd s0 sv sk vec_available nearest matches query valid limit =
     (if valid = [] then []
      else (let vec = (if vec_available then batch_hits valid (nearest query (limit * 3)) else []);
                safe = sanitize_fts_query query;
                kw = (if safe \<noteq> [] then sql_limit (limit * 3) (batch_hits valid (matches safe)) else []) in
            first_of limit (weighted_rrf sadd s0 sv sk vec kw)))"

text \<open>\<open>BatchReaderTool.run\<close>: the checks of the request, the search, and the lines of the report.\<close>

datatype reader_answer =
    Reader_Failed string
  | Reader_Found "(hit \<times> rat) list" "string list"

definition clip :: "nat \<Rightarrow> string \<Rightarrow> string" where
  "clip n s = (if n < length s then take (n - 3) s @ ''...'' else s)"

definition result_lines :: "(rat \<Rightarrow> string) \<Rightarrow> nat \<Rightarrow> hit \<times> rat \<Rightarrow> string list" where
  "result_lines show_score idx r =
     (let h = fst r in
      [[nl] @ ''**'' @ digits idx @ ''. ['' @ hit_ulid h @ ''] '' @ clip 120 (hit_title h) @ ''** (score: '' @ show_score (snd r) @ '')'']
      @ (case hit_conclusion h of Some c \<Rightarrow> if c \<noteq> [] then [''  Conclusion: '' @ clip 5000 c] else [] | None \<Rightarrow> [])
      @ (case hit_summary h of
           Some s \<Rightarrow> if s \<noteq> [] then [''  Summary: '' @ map (\<lambda>c. if c = nl then CHR 0x20 else c) (clip 9000 s)] else [] | None \<Rightarrow> []))"

definition batch_reader ::
  "(rat \<Rightarrow> string) \<Rightarrow> bool \<Rightarrow> (string \<Rightarrow> int \<Rightarrow> hit list option) \<Rightarrow> (string \<Rightarrow> hit list option) \<Rightarrow> (string \<Rightarrow> string list option)
   \<Rightarrow> string option \<Rightarrow> string option \<Rightarrow> int \<Rightarrow> reader_answer" where
  "batch_reader show_score vec_available nearest matches batch_articles batch_id query limit =
     (case (batch_id, query) of
        (Some b, Some q) \<Rightarrow>
          (if b = [] \<or> q = [] then Reader_Failed ''batch_id and query are required.''
           else case batch_articles b of
             None \<Rightarrow> Reader_Failed ''Batch not found.''
           | Some valid \<Rightarrow>
              (if valid = [] then Reader_Failed ''No valid articles found in batch.''
               else (let rs = execute_hybrid_search (+) 0 (rrf_score (6 / 10)) (rrf_score (4 / 10)) vec_available
                                nearest matches q valid (min limit 50) in
                 Reader_Found rs (if rs = [] then [[nl] @ ''_No articles matched the query. Try rephrasing or using different keywords._'']
                   else concat (map (\<lambda>ir. result_lines show_score (fst ir) (snd ir)) (enumerate 1 rs))))))
      | _ \<Rightarrow> Reader_Failed ''batch_id and query are required.'')"

text \<open>The sanitised query has words and single blanks only, and words are kept as they are, operators of FTS5 included.\<close>

lemma strip_subset: "set (strip s) \<subseteq> set s"
  by (auto simp: strip_def dest!: set_dropWhileD)

lemma collapse_chars: "set (collapse_spaces f s) \<subseteq> {c \<in> set s. \<not> is_space c} \<union> {CHR 0x20}"
  by (induction f s rule: collapse_spaces.induct) auto

theorem sanitized_query_is_plain: "\<forall>c \<in> set (sanitize_fts_query query). word_char c \<or> c = CHR 0x20"
proof
  fix c assume c: "c \<in> set (sanitize_fts_query query)"
  let ?m = "map (\<lambda>c. if word_char c \<or> is_space c then c else CHR 0x20) query"
  have "c \<in> {c \<in> set ?m. \<not> is_space c} \<union> {CHR 0x20}"
    using c strip_subset [of "collapse_spaces False ?m"] collapse_chars [of False ?m] unfolding sanitize_fts_query_def by blast
  then show "word_char c \<or> c = CHR 0x20" by (auto split: if_splits)
qed

lemma word_not_space: "word_char c \<Longrightarrow> \<not> is_space c"
  by (auto simp: word_char_def is_space_def Let_def)

theorem words_are_kept:
  assumes "list_all word_char q"
  shows "sanitize_fts_query q = q"
proof -
  have "map (\<lambda>c. if word_char c \<or> is_space c then c else CHR 0x20) q = q"
    using assms by (intro map_idI) (auto simp: list_all_iff)
  moreover have "collapse_spaces f q = q" for f using assms by (induction q arbitrary: f) (auto dest: word_not_space)
  moreover have "dropWhile is_space q = q" using assms by (cases q) (auto dest: word_not_space)
  moreover have "dropWhile is_space (rev q) = rev q" using assms by (cases q rule: rev_cases) (auto dest: word_not_space)
  ultimately show ?thesis by (simp add: sanitize_fts_query_def strip_def)
qed

definition distinct_hits :: "hit list option \<Rightarrow> bool" where
  "distinct_hits r = (case r of None \<Rightarrow> True | Some hs \<Rightarrow> distinct (ids hs))"

lemma batch_hits_distinct: "distinct_hits r \<Longrightarrow> distinct (ids (batch_hits valid r))"
  by (cases r) (simp_all add: distinct_hits_def batch_hits_def distinct_map inj_on_def)

lemma batch_hits_valid: "set (ids (batch_hits valid r)) \<subseteq> set valid"
  by (cases r) (auto simp: batch_hits_def)

lemma first_of_distinct: "distinct (map f xs) \<Longrightarrow> distinct (map f (first_of n xs))"
  by (simp add: first_of_def take_map [symmetric])

lemma first_of_subset: "set (map f (first_of n xs)) \<subseteq> set (map f xs)"
  by (auto simp: first_of_def dest: in_set_takeD)

lemma sql_limit_distinct: "distinct (map f xs) \<Longrightarrow> distinct (map f (sql_limit n xs))"
  by (simp add: sql_limit_def take_map [symmetric])

lemma sql_limit_subset: "set (map f (sql_limit n xs)) \<subseteq> set (map f xs)"
  by (auto simp: sql_limit_def dest: in_set_takeD)

context rank_scores
begin

lemma hybrid_in_batch:
  assumes "distinct_hits (nearest q (limit * 3))" "distinct_hits (matches (sanitize_fts_query q))"
  shows "distinct (map (\<lambda>r. hit_ulid (fst r)) (execute_hybrid_search sadd s0 sv sk vec_available nearest matches q valid limit))
    \<and> set (map (\<lambda>r. hit_ulid (fst r)) (execute_hybrid_search sadd s0 sv sk vec_available nearest matches q valid limit)) \<subseteq> set valid"
proof (cases "valid = []")
  case False
  define vs where "vs = (if vec_available then batch_hits valid (nearest q (limit * 3)) else [])"
  define ks where "ks = (if sanitize_fts_query q \<noteq> [] then sql_limit (limit * 3) (batch_hits valid (matches (sanitize_fts_query q))) else [])"
  have vs: "distinct (ids vs)" "set (ids vs) \<subseteq> set valid"
    unfolding vs_def using batch_hits_distinct [OF assms(1)] batch_hits_valid by (cases vec_available; simp)+
  have ks: "distinct (ids ks)" "set (ids ks) \<subseteq> set valid"
    unfolding ks_def using sql_limit_distinct [OF batch_hits_distinct [OF assms(2)]] order_trans [OF sql_limit_subset batch_hits_valid]
    by (cases "sanitize_fts_query q = []"; simp)+
  have eq: "execute_hybrid_search sadd s0 sv sk vec_available nearest matches q valid limit = first_of limit (weighted_rrf sadd s0 sv sk vs ks)"
    using False by (simp add: execute_hybrid_search_def vs_def ks_def Let_def)
  note fusion = fusion_ulids [OF vs(1) ks(1)]
  have "set (ids vs) \<union> set (ids ks) \<subseteq> set valid" using vs(2) ks(2) by (rule Un_least)
  then have "set (map (\<lambda>r. hit_ulid (fst r)) (weighted_rrf sadd s0 sv sk vs ks)) \<subseteq> set valid" by (simp only: fusion(2))
  from order_trans [OF first_of_subset this] show ?thesis
    unfolding eq using first_of_distinct [OF fusion(1)] by blast
qed (simp add: execute_hybrid_search_def)

end

text \<open>
  A search answers from its batch: whatever the indexes give (each article at most once), the results are different
  articles of the batch, not more than the limit asked for and not more than fifty, provided that limit is not negative.
\<close>

theorem reader_answers_from_batch:
  assumes "\<And>k. distinct_hits (nearest q k)" "\<And>s. distinct_hits (matches s)" "0 \<le> limit"
    and "batch_articles b = Some valid"
    and "batch_reader show_score vec_available nearest matches batch_articles (Some b) (Some q) limit = Reader_Found rs report"
  shows "distinct (map (\<lambda>r. hit_ulid (fst r)) rs) \<and> set (map (\<lambda>r. hit_ulid (fst r)) rs) \<subseteq> set valid
    \<and> int (length rs) \<le> min limit 50"
proof -
  have rs: "rs = execute_hybrid_search (+) 0 (rrf_score (6 / 10)) (rrf_score (4 / 10)) vec_available nearest matches q valid (min limit 50)"
    using assms(4,5) by (auto simp: batch_reader_def Let_def split: if_splits)
  have "int (length (first_of (min limit 50) xs)) \<le> min limit 50" for xs :: "(hit \<times> rat) list"
    using assms(3) by (auto simp: first_of_def adj_end_def)
  then have "int (length rs) \<le> min limit 50" using assms(3) by (simp add: rs execute_hybrid_search_def Let_def)
  moreover have "distinct (map (\<lambda>r. hit_ulid (fst r)) rs) \<and> set (map (\<lambda>r. hit_ulid (fst r)) rs) \<subseteq> set valid"
    unfolding rs by (rule rrf.hybrid_in_batch) (rule assms)+
  ultimately show ?thesis by blast
qed

definition demo_reader :: "reader_answer" where
  "demo_reader = batch_reader (\<lambda>_. []) True (\<lambda>q k. Some [hit_named ''a'', hit_named ''x'']) (\<lambda>s. Some [hit_named ''b'', hit_named ''a''])
     (\<lambda>b. Some [''a'', ''b'']) (Some ''B'') (Some ''q'') 1"

theorem reader_answers_from_batch_witness:
  "(case demo_reader of Reader_Found rs report \<Rightarrow>
      distinct (map (\<lambda>r. hit_ulid (fst r)) rs) \<and> set (map (\<lambda>r. hit_ulid (fst r)) rs) \<subseteq> {''a'', ''b''} \<and> int (length rs) \<le> min 1 50
    | Reader_Failed s \<Rightarrow> False)"
proof -
  obtain rs report where found: "demo_reader = Reader_Found rs report"
    by (cases demo_reader) (auto simp: demo_reader_def batch_reader_def Let_def)
  have "distinct_hits (Some [hit_named ''a'', hit_named ''x''])" "distinct_hits (Some [hit_named ''b'', hit_named ''a''])"
    by (simp_all add: distinct_hits_def hit_named_def)
  from reader_answers_from_batch [OF this _ _ found [unfolded demo_reader_def]]
  show ?thesis by (simp add: found)
qed

text \<open>
  A negative limit takes the bound away instead: all matches of the words but the last are returned.
\<close>

theorem negative_limit_drops_last:
  assumes "nearest q (- 3) = None" "matches (sanitize_fts_query q) = Some hs" "sanitize_fts_query q \<noteq> []" "valid \<noteq> []"
  shows "execute_hybrid_search sadd s0 sv sk vec_available nearest matches q valid (- 1)
    = butlast (weighted_rrf sadd s0 sv sk [] (filter (\<lambda>h. hit_ulid h \<in> set valid) hs))"
  using assms by (simp add: execute_hybrid_search_def batch_hits_def Let_def sql_limit_def first_of_def adj_end_def butlast_conv_take nat_diff_distrib' flip: of_nat_diff)

text \<open>
  The batch is looked at after the nearest articles were taken: when those are all of other batches and no word matches,
  the answer is empty, however near the batch's own articles are.
\<close>

theorem crowded_out:
  assumes "nearest q (limit * 3) = Some hs" "set (ids hs) \<inter> set valid = {}" "matches (sanitize_fts_query q) = Some []"
  shows "execute_hybrid_search sadd s0 sv sk True nearest matches q valid limit = []"
proof -
  have "filter (\<lambda>h. hit_ulid h \<in> set valid) hs = []" using assms(2) by (auto simp: filter_empty_conv)
  then show ?thesis using assms
    by (simp add: execute_hybrid_search_def batch_hits_def Let_def sql_limit_def first_of_def weighted_rrf_def fusion_scores_def order_desc_def)
qed

end
