(* ===== verification/Text_Tools.thy ===== *)
theory Text_Tools
  imports Schema_Types
begin

text \<open>
  The text helpers of \<open>utils/text_processing.py\<close> beside the splitter, the budget of the orchestrator
  (\<open>bot/orchestrator_core/eviction.py\<close>), and the report that a job's callback carries (\<open>utils/callback_helper.py\<close>).
\<close>

section \<open>Searching and replacing\<close>

text \<open>The text before and after the first occurrence of a non-empty text.\<close>

fun split_at :: "string \<Rightarrow> string \<Rightarrow> (string \<times> string) option" where
  "split_at t [] = None"
| "split_at t (c # s) =
     (if prefix t (c # s) then Some ([], drop (length t) (c # s))
      else map_option (\<lambda>p. (c # fst p, snd p)) (split_at t s))"

lemma split_at_parts: "split_at t s = Some (a, b) \<Longrightarrow> s = a @ t @ b"
proof (induction s arbitrary: a b)
  case (Cons c s)
  show ?case
  proof (cases "prefix t (c # s)")
    case True
    then show ?thesis using Cons.prems by (auto simp: prefix_def)
  next
    case False
    then show ?thesis using Cons by auto
  qed
qed simp

lemma split_at_first: "split_at t s = Some (a, b) \<Longrightarrow> t \<noteq> [] \<Longrightarrow> a = a' @ t @ a'' \<Longrightarrow> False"
proof (induction s arbitrary: a b a')
  case (Cons c s)
  show ?case
  proof (cases "prefix t (c # s)")
    case True
    then show ?thesis using Cons.prems by simp
  next
    case False
    then obtain p where p: "split_at t s = Some p" "a = c # fst p" using Cons.prems(1) by auto
    have "a' \<noteq> []"
    proof
      assume "a' = []"
      then have "c # s = t @ a'' @ t @ b" using split_at_parts [OF Cons.prems(1)] Cons.prems(3) by simp
      then show False using False by (metis prefixI)
    qed
    then obtain x where "a' = c # x" "fst p = x @ t @ a''" using p(2) Cons.prems(3) by (cases a') simp_all
    moreover obtain p1 p2 where "p = (p1, p2)" by (cases p)
    ultimately show ?thesis using Cons.IH [of p1 p2 x] p(1) Cons.prems(2) by simp
  qed
qed simp

lemma split_at_None: "split_at t s = None \<Longrightarrow> t \<noteq> [] \<Longrightarrow> s \<noteq> a @ t @ b"
proof (induction s arbitrary: a)
  case (Cons c s)
  show ?case
  proof
    assume eq: "c # s = a @ t @ b"
    have not_here: "\<not> prefix t (c # s)" and rest: "split_at t s = None" using Cons.prems(1) by (auto split: if_splits)
    have "a \<noteq> []" using eq not_here by (metis append_Nil prefixI)
    then obtain a' where "a = c # a'" "s = a' @ t @ b" using eq by (cases a) auto
    then show False using Cons.IH [OF rest Cons.prems(2)] by blast
  qed
qed simp

text \<open>\<open>s.replace("###", "---")\<close>.\<close>

fun escape_prompt_separators :: "string \<Rightarrow> string" where
  "escape_prompt_separators (a # b # c # s) =
     (if a = CHR 0x23 \<and> b = CHR 0x23 \<and> c = CHR 0x23 then ''---'' @ escape_prompt_separators s
      else a # escape_prompt_separators (b # c # s))"
| "escape_prompt_separators s = s"

lemma escape_head:
  "escape_prompt_separators (b # s) = CHR 0x23 # r \<Longrightarrow> b = CHR 0x23"
  by (cases "(b # s)" rule: escape_prompt_separators.cases) (auto split: if_splits)

lemma escape_two:
  "escape_prompt_separators s = CHR 0x23 # CHR 0x23 # r \<Longrightarrow> \<exists>s'. s = CHR 0x23 # CHR 0x23 # s'"
  by (cases s rule: escape_prompt_separators.cases) (auto split: if_splits dest!: escape_head)

lemma escape_no_separator: "\<not> contains ''###'' (escape_prompt_separators s)"
proof (induction s rule: escape_prompt_separators.induct)
  case (1 a b c s)
  show ?case
  proof (cases "a = CHR 0x23 \<and> b = CHR 0x23 \<and> c = CHR 0x23")
    case True
    then show ?thesis using 1(1) by simp
  next
    case False
    have "\<not> prefix ''###'' (a # escape_prompt_separators (b # c # s))"
    proof
      assume "prefix ''###'' (a # escape_prompt_separators (b # c # s))"
      then obtain r where a: "a = CHR 0x23" and r: "escape_prompt_separators (b # c # s) = CHR 0x23 # CHR 0x23 # r"
        by (auto simp: prefix_def)
      from escape_two [OF r] a False show False by auto
    qed
    moreover have "escape_prompt_separators (a # b # c # s) = a # escape_prompt_separators (b # c # s)" using False by simp
    ultimately show ?thesis using 1(2) [OF False] by (simp only: contains.simps) simp
  qed
qed (auto simp: prefix_def)

theorem no_separator_survives: "\<not> contains ''###'' (escape_prompt_separators s) \<and> length (escape_prompt_separators s) = length s"
proof -
  have "length (escape_prompt_separators s) = length s" by (induction s rule: escape_prompt_separators.induct) auto
  then show ?thesis using escape_no_separator by simp
qed

section \<open>Replies of a language model\<close>

text \<open>\<open>extract_xml_tag\<close>: the text between the first opening tag and the first closing tag after it.\<close>

definition extract_xml_tag :: "string \<Rightarrow> string \<Rightarrow> string" where
  "extract_xml_tag s tag =
     (case split_at (''<'' @ tag @ ''>'') s of
        None \<Rightarrow> []
      | Some (_, rest) \<Rightarrow> (case split_at (''</'' @ tag @ ''>'') rest of None \<Rightarrow> [] | Some (body, _) \<Rightarrow> strip body))"

lemma split_at_unique:
  assumes "t \<noteq> []" "\<And>a' a''. a @ butlast t \<noteq> a' @ t @ a''"
  shows "split_at t (a @ t @ b) = Some (a, b)"
  using assms
proof (induction a)
  case Nil
  then show ?case by (cases t) (simp_all add: prefix_def)
next
  case (Cons c a)
  have "\<not> prefix t (c # a @ t @ b)"
  proof
    assume "prefix t (c # a @ t @ b)"
    then obtain z where z: "c # a @ t @ b = t @ z" by (auto simp: prefix_def)
    have "length t \<le> length (c # a @ butlast t)" using Cons.prems(1) by simp
    moreover have "c # a @ t @ b = (c # a @ butlast t) @ last t # b"
      using append_butlast_last_id [OF Cons.prems(1)] by (metis append.assoc append_Cons append_Nil)
    ultimately obtain y where "c # a @ butlast t = t @ y" using z by (metis append_eq_append_conv_if append_take_drop_id)
    then show False using Cons.prems(2) [of "[]" y] by simp
  qed
  moreover have "a @ butlast t \<noteq> a' @ t @ a''" for a' a''
    using Cons.prems(2) [of "c # a'" a''] by simp
  ultimately show ?case using Cons.IH [OF Cons.prems(1)] by simp
qed

text \<open>
  A tag around a text is read back, blanks around the text apart, when the text has no bracket that could start the
  closing tag and nothing before it could start the opening tag.
\<close>

lemma no_bracket_occurrence:
  assumes "CHR 0x3C \<notin> set a" "CHR 0x3C \<notin> set t"
  shows "a @ butlast (CHR 0x3C # t) \<noteq> a' @ (CHR 0x3C # t) @ a''"
proof
  assume eq: "a @ butlast (CHR 0x3C # t) = a' @ (CHR 0x3C # t) @ a''"
  have no: "CHR 0x3C \<notin> set (butlast t)" using assms(2) by (meson in_set_butlastD)
  have "t \<noteq> []" using arg_cong [OF eq, of "\<lambda>s. CHR 0x3C \<in> set s"] assms(1) by (cases "t = []") auto
  then have "a @ CHR 0x3C # butlast t = a' @ CHR 0x3C # (t @ a'')" using eq by simp
  then have "a = a' \<and> butlast t = t @ a''"
    using assms no by (metis append_Cons_eq_iff list.set_intros(1) set_ConsD UnE Un_iff set_append split_list)
  then have "length (butlast t) = length (t @ a'')" by simp
  then have "length t - 1 = length t + length a''" by simp
  moreover have "0 < length t" using \<open>t \<noteq> []\<close> by simp
  ultimately show False by linarith
qed

theorem xml_tag_roundtrip:
  assumes "CHR 0x3C \<notin> set pre" "CHR 0x3C \<notin> set body" "CHR 0x3C \<notin> set tag"
  shows "extract_xml_tag (pre @ ''<'' @ tag @ ''>'' @ body @ ''</'' @ tag @ ''>'' @ post) tag = strip body"
proof -
  have "split_at (''<'' @ tag @ ''>'') (pre @ (''<'' @ tag @ ''>'') @ body @ ''</'' @ tag @ ''>'' @ post)
      = Some (pre, body @ ''</'' @ tag @ ''>'' @ post)"
    using no_bracket_occurrence [of pre "tag @ ''>''"] assms by (intro split_at_unique) auto
  moreover have "split_at (''</'' @ tag @ ''>'') (body @ (''</'' @ tag @ ''>'') @ post) = Some (body, post)"
    using no_bracket_occurrence [of body "CHR 0x2F # tag @ ''>''"] assms by (intro split_at_unique) auto
  ultimately show ?thesis by (simp add: extract_xml_tag_def)
qed

text \<open>
  \<open>parse_llm_json\<close> before \<open>json.loads\<close>: the contents of the first code fence, and commas before a closing bracket removed,
  in string values too.
\<close>

function drop_comma :: "string \<Rightarrow> string" where
  "drop_comma [] = []"
| "drop_comma (c # s) =
     (if c = CHR 0x2C \<and> (case lstrip s of d # _ \<Rightarrow> d = CHR 0x7D \<or> d = CHR 0x5D | [] \<Rightarrow> False)
      then drop_comma (lstrip s) else c # drop_comma s)"
  by pat_completeness auto
termination
  by (relation "measure length") (auto simp: lstrip_def intro: le_imp_less_Suc length_dropWhile_le)

definition fenced :: "string \<Rightarrow> string" where
  "fenced s =
     (case split_at ''```'' s of
        None \<Rightarrow> strip s
      | Some (_, rest) \<Rightarrow>
          (let inner = (if lower (take 4 rest) = ''json'' then drop 4 rest else rest) in
           case split_at ''```'' inner of None \<Rightarrow> strip s | Some (body, _) \<Rightarrow> strip body))"

definition llm_json_source :: "string \<Rightarrow> string" where
  "llm_json_source s = drop_comma (fenced s)"

definition parse_llm_json :: "(string \<Rightarrow> 'j option) \<Rightarrow> 'j \<Rightarrow> string \<Rightarrow> 'j" where
  "parse_llm_json loads nothing s =
     (let src = llm_json_source s in
      if src = [] then nothing else case loads src of Some j \<Rightarrow> j | None \<Rightarrow> nothing)"

text \<open>\<open>clean_summary_bullets\<close>: attributions at the start of a bullet go, and the bullet starts with a capital.\<close>

definition attribution_prefixes :: "string list" where
  "attribution_prefixes =
     [''The article says '', ''The article states '', ''The article notes '',
      ''The article reports '', ''The article mentions '', ''The writer argues '',
      ''The author argues '', ''The author notes '', ''The author states '',
      ''According to the article, '', ''According to the piece, '',
      ''According to the report, '', ''It reports that '', ''It notes that '',
      ''It states that '', ''The report says '', ''The report notes '',
      ''The piece argues '', ''The piece notes '']"

fun drop_attribution :: "string list \<Rightarrow> string \<Rightarrow> string" where
  "drop_attribution [] b = b"
| "drop_attribution (p # ps) b = (if prefix (lower p) (lower b) then lstrip (drop (length p) b) else drop_attribution ps b)"

definition capitalise :: "string \<Rightarrow> string" where
  "capitalise b = (case b of [] \<Rightarrow> [] | c # s \<Rightarrow> if 97 \<le> (of_char c :: nat) \<and> of_char c \<le> (122 :: nat) then upper [c] @ s else b)"

definition clean_summary_bullets :: "string list \<Rightarrow> string list" where
  "clean_summary_bullets bs = map (\<lambda>b. capitalise (drop_attribution attribution_prefixes b)) (filter (\<lambda>b. b \<noteq> []) bs)"

text \<open>\<open>validate_args\<close>: keys that are missing, null, or blank texts; other values pass.\<close>

datatype arg_value = Null_Arg | Text_Arg string | Other_Arg

definition missing_arg :: "(string \<rightharpoonup> arg_value) \<Rightarrow> string \<Rightarrow> bool" where
  "missing_arg args key = (case args key of None \<Rightarrow> True | Some Null_Arg \<Rightarrow> True | Some (Text_Arg s) \<Rightarrow> strip s = [] | Some Other_Arg \<Rightarrow> False)"

definition validate_args :: "(string \<rightharpoonup> arg_value) \<Rightarrow> string list \<Rightarrow> string option" where
  "validate_args args keys =
     (let missing = filter (missing_arg args) keys in
      if missing \<noteq> [] then Some (''Missing or invalid required args: '' @ join '', '' missing) else None)"

theorem validated_args_present:
  "validate_args args keys = None \<longleftrightarrow> list_all (\<lambda>k. \<exists>v. args k = Some v \<and> v \<noteq> Null_Arg \<and> (\<forall>s. v = Text_Arg s \<longrightarrow> strip s \<noteq> [])) keys"
proof -
  have "\<not> missing_arg args k \<longleftrightarrow> (\<exists>v. args k = Some v \<and> v \<noteq> Null_Arg \<and> (\<forall>s. v = Text_Arg s \<longrightarrow> strip s \<noteq> []))" for k
    by (auto simp: missing_arg_def split: option.splits arg_value.splits)
  moreover have "validate_args args keys = None \<longleftrightarrow> list_all (\<lambda>k. \<not> missing_arg args k) keys"
    by (simp add: validate_args_def Let_def filter_empty_conv list_all_iff)
  ultimately show ?thesis by simp
qed

section \<open>Chunks of a long text\<close>

text \<open>
  The loop of \<open>map_reduce_summarize\<close>. With an overlap of the chunk's size or more it ends after the first chunk.
\<close>

function text_chunks :: "int \<Rightarrow> int \<Rightarrow> string \<Rightarrow> string list" where
  "text_chunks csize overlap s =
     (if s = [] then []
      else take (nat csize) s #
        (if csize \<le> overlap then [] else text_chunks csize overlap (drop (nat (csize - overlap)) s)))"
  by pat_completeness auto
termination by (relation "measure (\<lambda>(n, k, s). length s)") auto

declare text_chunks.simps [simp del]

definition map_reduce_chunks :: "int \<Rightarrow> int \<Rightarrow> string \<Rightarrow> string list option" where
  "map_reduce_chunks csize overlap s = (if int (length s) \<le> csize then None else Some (text_chunks csize overlap s))"

text \<open>The summary: each chunk is asked for with its number, then the joined answers.\<close>

definition map_reduce_summarize ::
  "(nat \<Rightarrow> string \<Rightarrow> string) \<Rightarrow> (string \<Rightarrow> string) \<Rightarrow> int \<Rightarrow> int \<Rightarrow> string \<Rightarrow> string" where
  "map_reduce_summarize summarise synthesise csize overlap s =
     (case map_reduce_chunks csize overlap s of
        None \<Rightarrow> s
      | Some cs \<Rightarrow> synthesise (escape_prompt_separators
          (join [nl, nl] (map (\<lambda>ic. summarise (fst ic) (escape_prompt_separators (snd ic))) (enumerate 0 cs)))))"

lemma chunks_cover: "0 \<le> overlap \<Longrightarrow> overlap < csize \<Longrightarrow> concat (map (take (nat (csize - overlap))) (text_chunks csize overlap s)) = s"
proof (induction csize overlap s rule: text_chunks.induct)
  case (1 csize overlap s)
  show ?case
  proof (cases "s = []")
    case True
    then show ?thesis by (simp add: text_chunks.simps)
  next
    case False
    have "min (nat (csize - overlap)) (nat csize) = nat (csize - overlap)" using 1(2) by simp
    then show ?thesis using 1 False by (simp add: text_chunks.simps [of csize overlap s] min_def)
  qed
qed

lemma chunks_bounded: "c \<in> set (text_chunks csize overlap s) \<Longrightarrow> length c \<le> nat csize"
proof (induction csize overlap s rule: text_chunks.induct)
  case (1 csize overlap s)
  then show ?case by (subst (asm) (2) text_chunks.simps) (auto split: if_splits)
qed

text \<open>
  The chunks of a long text lose nothing: with an overlap below the chunk's size, the text is the chunks without their
  overlaps joined, and no chunk exceeds the size; with an overlap of the size or more only the first chunk is summarised and
  the rest of the text is dropped.
\<close>

theorem chunks_lose_nothing:
  assumes "0 \<le> overlap" "0 < csize" "csize < int (length s)"
  shows "(overlap < csize \<longrightarrow> map_reduce_chunks csize overlap s = Some (text_chunks csize overlap s)
            \<and> concat (map (take (nat (csize - overlap))) (text_chunks csize overlap s)) = s
            \<and> list_all (\<lambda>c. int (length c) \<le> csize) (text_chunks csize overlap s))
    \<and> (csize \<le> overlap \<longrightarrow> map_reduce_chunks csize overlap s = Some [take (nat csize) s])"
proof -
  have "int (length c) \<le> csize" if "c \<in> set (text_chunks csize overlap s)" for c
    using chunks_bounded [OF that] assms(2) by linarith
  moreover have "s \<noteq> []" using assms(2,3) by auto
  ultimately show ?thesis
    using assms chunks_cover [of overlap csize s]
    by (auto simp: map_reduce_chunks_def list_all_iff text_chunks.simps [of csize overlap s])
qed

theorem chunks_lose_nothing_witness:
  "map_reduce_chunks 4 1 ''abcdefgh'' = Some (text_chunks 4 1 ''abcdefgh'')
    \<and> concat (map (take 3) (text_chunks 4 1 ''abcdefgh'')) = ''abcdefgh''
    \<and> list_all (\<lambda>c. int (length c) \<le> 4) (text_chunks 4 1 ''abcdefgh'')"
  using chunks_lose_nothing [of 1 4 "''abcdefgh''"] by simp

section \<open>MarkdownV2\<close>

text \<open>\<open>escape_markdown_v2\<close>. Backslashes the model put before a few characters go first.\<close>

definition reserved :: "char \<Rightarrow> bool" where
  "reserved c \<longleftrightarrow> c \<in> set (CHR 0x5C # ''_*[]()~`>#+=|{}.!-'')"

fun drop_escapes :: "string \<Rightarrow> string" where
  "drop_escapes (a # b # s) =
     (if a = CHR 0x5C \<and> b \<in> set ''./-:'' then b # drop_escapes s else a # drop_escapes (b # s))"
| "drop_escapes s = s"

fun escape_chars :: "string \<Rightarrow> string" where
  "escape_chars [] = []"
| "escape_chars (c # s) = (if reserved c then CHR 0x5C # c # escape_chars s else c # escape_chars s)"

text \<open>
  The length of the entity that starts a text, 0 where none does: a fence, a code span, a link, a spoiler, or a run between
  two of \<open>*\<close>, \<open>_\<close>, \<open>~\<close>.
\<close>

definition delimited :: "string \<Rightarrow> string \<Rightarrow> nat" where
  "delimited d s =
     (if prefix d s \<and> length d < length s then
        (case split_at d (drop (length d + 1) s) of Some (a, _) \<Rightarrow> 2 * length d + 1 + length a | None \<Rightarrow> 0)
      else 0)"

definition run_length :: "char \<Rightarrow> string \<Rightarrow> nat" where
  "run_length c s = length (takeWhile (\<lambda>d. d \<noteq> c) s)"

definition enclosed :: "char \<Rightarrow> string \<Rightarrow> nat" where
  "enclosed c s =
     (case s of [] \<Rightarrow> 0 | d # t \<Rightarrow>
        (let n = run_length c t in if d = c \<and> 0 < n \<and> n < length t then n + 2 else 0))"

definition link_length :: "string \<Rightarrow> nat" where
  "link_length s =
     (case s of [] \<Rightarrow> 0 | c # t \<Rightarrow>
        (let n = run_length (CHR 0x5D) t; u = drop (n + 1) t; m = run_length (CHR 0x29) (tl u) in
         if c = CHR 0x5B \<and> 0 < n \<and> n < length t \<and> u \<noteq> [] \<and> hd u = CHR 0x28 \<and> 0 < m \<and> m < length (tl u)
         then n + m + 4 else 0))"

definition entity_length :: "string \<Rightarrow> nat" where
  "entity_length s =
     (let code = delimited ''```'' s; spoiler = delimited ''||'' s in
      if 0 < code then code
      else if 0 < enclosed (CHR 0x60) s then enclosed (CHR 0x60) s
      else if 0 < link_length s then link_length s
      else if 0 < spoiler then spoiler
      else if 0 < enclosed (CHR 0x2A) s then enclosed (CHR 0x2A) s
      else if 0 < enclosed (CHR 0x5F) s then enclosed (CHR 0x5F) s
      else enclosed (CHR 0x7E) s)"

definition render_entity :: "string \<Rightarrow> string" where
  "render_entity s =
     (case s of [] \<Rightarrow> [] | c # t \<Rightarrow>
        if c = CHR 0x60 then s
        else if c = CHR 0x5B then
          (let n = run_length (CHR 0x5D) t in
           ''['' @ escape_chars (take n t) @ drop n t)
        else if prefix ''||'' s then ''||'' @ escape_chars (take (length s - 4) (drop 2 s)) @ ''||''
        else [c] @ escape_chars (butlast t) @ [c])"

function escape_entities :: "string \<Rightarrow> string" where
  "escape_entities s =
     (case s of [] \<Rightarrow> []
      | c # t \<Rightarrow>
         (let n = entity_length s in
          if 0 < n then render_entity (take n s) @ escape_entities (drop n s)
          else escape_chars [c] @ escape_entities t))"
  by pat_completeness auto
termination by (relation "measure length") auto

declare escape_entities.simps [simp del]

definition escape_markdown_v2 :: "string \<Rightarrow> string" where
  "escape_markdown_v2 s = escape_entities (drop_escapes s)"

text \<open>How Telegram reads a text without entities: a backslash gives the character after it.\<close>

fun unescape :: "string \<Rightarrow> string" where
  "unescape (a # b # s) = (if a = CHR 0x5C then b # unescape s else a # unescape (b # s))"
| "unescape s = s"

lemma unescape_escape: "unescape (escape_chars s @ t) = s @ unescape t"
proof (induction s)
  case (Cons c s)
  show ?case
  proof (cases "reserved c")
    case False
    then have "c \<noteq> CHR 0x5C" by (auto simp: reserved_def)
    then have "unescape (c # u) = c # unescape u" for u by (cases u) simp_all
    then show ?thesis using Cons False by simp
  qed (use Cons in simp)
qed simp

text \<open>Texts without a character that could start an entity.\<close>

definition plain :: "string \<Rightarrow> bool" where
  "plain s \<longleftrightarrow> (\<forall>c \<in> set s. c \<notin> set ''`[|*_~'')"

lemma plain_no_entity: "plain (c # s) \<Longrightarrow> entity_length (c # s) = 0"
  by (auto simp: plain_def entity_length_def delimited_def enclosed_def link_length_def Let_def)

lemma escape_plain: "plain s \<Longrightarrow> escape_entities s = escape_chars s"
proof (induction s)
  case Nil
  then show ?case by (simp add: escape_entities.simps)
next
  case (Cons c s)
  have "plain s" using Cons.prems by (simp add: plain_def)
  then show ?case using Cons plain_no_entity [OF Cons.prems] by (subst escape_entities.simps) (simp add: Let_def)
qed

lemma drop_escapes_subset: "set (drop_escapes s) \<subseteq> set s"
  by (induction s rule: drop_escapes.induct) auto

text \<open>
  A text without the characters that start an entity arrives as it is: what Telegram reads of the escaped text is the
  text, but for the backslashes that stood before a period, a slash, a hyphen or a colon.
\<close>

theorem plain_text_arrives:
  assumes "plain s"
  shows "unescape (escape_markdown_v2 s) = drop_escapes s"
proof -
  have "plain (drop_escapes s)" using assms drop_escapes_subset by (auto simp: plain_def)
  then show ?thesis using escape_plain unescape_escape [of "drop_escapes s" "[]"] by (simp add: escape_markdown_v2_def)
qed

theorem plain_text_arrives_witness:
  "unescape (escape_markdown_v2 ''1.5% (+0.2)!'') = drop_escapes ''1.5% (+0.2)!''"
  by (rule plain_text_arrives) (simp add: plain_def)

text \<open>A name with two underscores is taken for an entity: its underscores are not escaped, and Telegram shows it without them.\<close>

theorem underscores_taken_for_italics: "escape_markdown_v2 ''max_item_count'' = ''max_item_count''"
  by code_simp

section \<open>The budget of a context\<close>

text \<open>\<open>BudgetEnforcer\<close>. The sizes are 0 where an item does not have them.\<close>

record context_item =
  item_content :: string
  char_count :: int
  attachment_count :: int

definition item_size :: "context_item \<Rightarrow> int" where
  "item_size i = char_count i + attachment_count i"

definition total_size :: "context_item list \<Rightarrow> int" where
  "total_size items = sum_list (map item_size items)"

fun evict :: "int \<Rightarrow> context_item list \<Rightarrow> context_item list" where
  "evict budget [] = []"
| "evict budget (i # is) = (if total_size (i # is) \<le> budget then i # is else evict budget is)"

definition cut_single :: "int \<Rightarrow> context_item list \<Rightarrow> context_item list" where
  "cut_single budget items =
     (case items of
        [i] \<Rightarrow> (if budget < item_size i then
                 (let body = take (nat (max (budget - 1000) 1000)) (item_content i) in
                  [i\<lparr>item_content := body, char_count := int (length body), attachment_count := 0\<rparr>])
               else [i])
      | _ \<Rightarrow> items)"

definition enforce :: "int \<Rightarrow> context_item list \<Rightarrow> context_item list" where
  "enforce budget items = (if items = [] then [] else cut_single budget (evict budget items))"

lemma evict_fits: "0 \<le> budget \<Longrightarrow> total_size (evict budget items) \<le> budget"
  by (induction items) (simp_all add: total_size_def)

lemma evict_suffix: "suffix (evict budget items) items"
  by (induction items) (auto simp: suffix_Cons)

lemma evict_longest:
  "suffix (x # evict budget items) items \<Longrightarrow> budget < total_size (x # evict budget items)"
proof (induction items)
  case (Cons i "is")
  show ?case
  proof (cases "total_size (i # is) \<le> budget")
    case True
    then have "length (x # evict budget (i # is)) > length (i # is)" by simp
    then show ?thesis using Cons.prems suffix_length_le by fastforce
  next
    case False
    then have "suffix (x # evict budget is) (i # is)" using Cons.prems by simp
    then consider "x # evict budget is = i # is" | "suffix (x # evict budget is) is" by (auto simp: suffix_Cons)
    then show ?thesis using False Cons.IH by cases simp_all
  qed
qed simp

lemma cut_single_idle: "total_size items \<le> budget \<Longrightarrow> cut_single budget items = items"
  by (auto simp: cut_single_def total_size_def split: list.split)

text \<open>
  The context kept is the longest that fits: \<open>enforce\<close> returns a suffix of the items whose total size is within the
  budget, unchanged, and one item more would exceed it. The branch that shortens a single item is never taken.
\<close>

theorem context_kept_is_longest_fit:
  assumes "0 \<le> budget"
  shows "suffix (enforce budget items) items \<and> total_size (enforce budget items) \<le> budget
    \<and> (\<forall>x. suffix (x # enforce budget items) items \<longrightarrow> budget < total_size (x # enforce budget items))
    \<and> enforce budget items = evict budget items"
proof -
  have "enforce budget items = evict budget items"
    using cut_single_idle [OF evict_fits [OF assms]] by (simp add: enforce_def)
  then show ?thesis using evict_fits [OF assms] evict_suffix evict_longest by simp
qed

theorem context_kept_is_longest_fit_witness:
  "total_size (enforce 5 [\<lparr>item_content = ''abc'', char_count = 3, attachment_count = 1\<rparr>,
      \<lparr>item_content = ''de'', char_count = 2, attachment_count = 0\<rparr>]) \<le> 5"
  by (rule context_kept_is_longest_fit [THEN conjunct2, THEN conjunct1]) simp

text \<open>
  So an item larger than the budget, meant to be shortened, empties the context together with everything before it.
\<close>

theorem oversized_item_empties_context:
  assumes "0 \<le> budget" "budget < item_size i" "list_all (\<lambda>j. 0 \<le> item_size j) items"
  shows "enforce budget (items @ [i]) = []"
proof -
  have "evict budget (items @ [i]) = []" using assms(3)
  proof (induction items)
    case Nil
    then show ?case using assms(2) by (simp add: total_size_def)
  next
    case (Cons j items)
    have "0 \<le> sum_list (map item_size items)" using Cons.prems by (intro sum_list_nonneg) (auto simp: list_all_iff)
    then have "budget < total_size (j # items @ [i])" using Cons.prems assms(2) by (simp add: total_size_def)
    then show ?case using Cons by simp
  qed
  then show ?thesis by (simp add: enforce_def cut_single_def)
qed

section \<open>The report of a job\<close>

record status_definition =
  st_description :: string
  st_next_steps :: string
  st_rerunnable :: bool

definition status_definitions :: "(string \<times> status_definition) list" where
  "status_definitions =
     [(''COMPLETED'', \<lparr>st_description = ''Job finished successfully. All operations completed as expected.'',
         st_next_steps = ''No action required. Review the results and artifact inventory below.'', st_rerunnable = False\<rparr>),
      (''PARTIAL'', \<lparr>st_description = ''Job completed with partial success. Some operations failed but others succeeded.'',
         st_next_steps = ''You may retry by submitting the same job. Completed items will be skipped.'', st_rerunnable = True\<rparr>),
      (''FAILED'', \<lparr>st_description = ''Job encountered a fatal error.'',
         st_next_steps = ''Review the error details below, fix the underlying issue, and resubmit.'', st_rerunnable = True\<rparr>),
      (''PENDING_CALLBACK'',
        \<lparr>st_description = ''Job processing completed but the result delivery failed. Automatic retry is scheduled.'',
         st_next_steps = ''Wait for the system to retry delivery.'', st_rerunnable = False\<rparr>),
      (''CANCELLING'',
        \<lparr>st_description = ''Cancellation was requested. The job will stop at the next safe checkpoint.'',
         st_next_steps = ''Wait for the job to reach a checkpoint and fully stop.'', st_rerunnable = True\<rparr>)]"

definition status_mark :: "string \<Rightarrow> string" where
  "status_mark status =
     (case map_of [(''COMPLETED'', ''[OK]''), (''PARTIAL'', ''[PARTIAL]''), (''FAILED'', ''[FAILED]'')] (upper status) of
        Some e \<Rightarrow> e | None \<Rightarrow> ''[INFO]'')"

definition report_header :: "string \<Rightarrow> string \<Rightarrow> string \<Rightarrow> string \<Rightarrow> string" where
  "report_header job status tool time =
     ''# '' @ status_mark status @ '' AnythingTools Job Report'' @ [nl, nl] @
     ''| Field | Value |'' @ [nl] @ ''|-------|-------|'' @ [nl] @
     ''| **Job ID** | `'' @ job @ ''` |'' @ [nl] @ ''| **Tool** | `'' @ tool @ ''` |'' @ [nl] @
     ''| **Status** | `'' @ upper status @ ''` |'' @ [nl] @ ''| **Timestamp** | `'' @ time @ ''` |'' @ [nl, nl] @ ''---'' @ [nl, nl]"

text \<open>An artifact is a dict with three optional keys, or another value, of which \<open>str\<close> is shown.\<close>

datatype artifact =
    Artifact_Dict "string option" "string option" "string option"
  | Artifact_Name string

definition or_else :: "'a option \<Rightarrow> 'a \<Rightarrow> 'a" where
  "or_else x0 d = (case x0 of Some x \<Rightarrow> x | None \<Rightarrow> d)"

definition artifact_row :: "nat \<times> artifact \<Rightarrow> string" where
  "artifact_row ia =
     (let (name, kind, descr) = (case snd ia of
        Artifact_Dict f t d \<Rightarrow> (or_else f ''unknown'', or_else t ''file'', or_else d [])
      | Artifact_Name s \<Rightarrow> (s, ''file'', [])) in
      ''| '' @ digits (fst ia) @ '' | `'' @ name @ ''` | '' @ kind @ '' | '' @ descr @ '' |'')"

definition strip_slashes :: "string \<Rightarrow> string" where
  "strip_slashes s = rev (dropWhile (\<lambda>c. c = CHR 0x2F) (rev (dropWhile (\<lambda>c. c = CHR 0x2F) s)))"

definition format_artifacts_list :: "string option \<Rightarrow> artifact list \<Rightarrow> string option \<Rightarrow> string" where
  "format_artifacts_list base_dir artifacts subdir =
     (if artifacts = [] then ''### Artifacts'' @ [nl, nl] @ ''_No artifacts produced for this job._'' @ [nl, nl] @ ''---'' @ [nl, nl]
      else join [nl]
        ([''### Artifacts'' @ [nl]]
         @ (case subdir of
              Some d \<Rightarrow> if d \<noteq> [] then [''> **Artifacts Directory:** `'' @
                  (case base_dir of Some b \<Rightarrow> if b \<noteq> [] then b @ ''/'' @ strip_slashes d else d | None \<Rightarrow> d) @ ''`'' @ [nl]] else []
            | None \<Rightarrow> [])
         @ [''| # | Filename | Type | Description |'', ''|---|---|----------|------|-------------|'']
         @ map artifact_row (enumerate 1 artifacts)) @ [nl, nl] @ ''---'' @ [nl])"

definition inject_status_definitions :: "string \<Rightarrow> (string \<times> status_definition) list \<Rightarrow> string" where
  "inject_status_definitions status overrides =
     (let defs = fold (\<lambda>sd. AList.update (upper (fst sd)) (snd sd)) overrides status_definitions in
      case map_of defs (upper status) of
        None \<Rightarrow> []
      | Some d \<Rightarrow> ''### Status & Next Steps'' @ [nl, nl] @ ''**Current Status: `'' @ upper status @ ''`**'' @ [nl, nl] @
          ''- **Description:** '' @ st_description d @ [nl] @
          ''- **Can be retried:** '' @ (if st_rerunnable d then ''Yes'' else ''No'') @ [nl] @
          ''- **Next Steps:** '' @ st_next_steps d @ [nl, nl] @ ''---'' @ [nl])"

text \<open>
  \<open>format_callback_message\<close>. The details are shown as JSON (\<open>dump\<close>) without nested values other than short lists, and cut at
  2000 characters; \<open>errors\<close> is what the log database gives for a failed job.
\<close>

datatype 'v detail_value = Plain 'v | Nested_List nat 'v | Nested_Dict 'v

definition safe_detail :: "string \<times> 'v detail_value \<Rightarrow> bool" where
  "safe_detail kv = (case snd kv of Plain v \<Rightarrow> True | Nested_List n v \<Rightarrow> n \<le> 3 | Nested_Dict v \<Rightarrow> False)"

definition format_callback_message ::
  "((string \<times> 'v detail_value) list \<Rightarrow> string) \<Rightarrow> string \<Rightarrow> string option \<Rightarrow> string \<Rightarrow> string \<Rightarrow> string \<Rightarrow> string \<Rightarrow> string
   \<Rightarrow> (string \<times> 'v detail_value) list \<Rightarrow> artifact list \<Rightarrow> string option \<Rightarrow> (string \<times> status_definition) list \<Rightarrow> string" where
  "format_callback_message dump errors base_dir time job status tool summary details artifacts subdir overrides =
     (let summary' = (if upper status = ''FAILED'' then summary @ [nl, nl] @ errors else summary);
          safe = filter safe_detail details in
      report_header job status tool time
      @ (if summary' \<noteq> [] then ''### Summary'' @ [nl, nl] @ summary' @ [nl, nl] @ ''---'' @ [nl] else [])
      @ (if safe \<noteq> [] then ''<details><summary>Details</summary>'' @ [nl, nl] @ ''```json'' @ [nl] @ take 2000 (dump safe) @ [nl] @
           ''```'' @ [nl] @ ''</details>'' @ [nl, nl] @ ''---'' @ [nl] else [])
      @ format_artifacts_list base_dir artifacts subdir
      @ inject_status_definitions status overrides)"

text \<open>\<open>truncate_message\<close> at the limit the configuration gives; Python's slice counts a negative bound from the end.\<close>

definition truncation_note :: "int \<Rightarrow> string" where
  "truncation_note limit = [nl, nl] @ ''[Message truncated to '' @ show_int limit @ '' chars. See full result in job logs.]''"

definition truncate_message :: "int \<Rightarrow> string \<Rightarrow> string" where
  "truncate_message limit s =
     (if int (length s) \<le> limit then s else take (adj_end (length s) (limit - 100)) s @ truncation_note limit)"

lemma digits_short: "n < 10 ^ k \<Longrightarrow> 0 < k \<Longrightarrow> length (digits n) \<le> k"
proof (induction n arbitrary: k rule: digits.induct)
  case (1 n)
  show ?case
  proof (cases "n < 10")
    case True
    then show ?thesis using 1(3) by (simp add: digits.simps [of n])
  next
    case False
    then obtain k' where k: "k = Suc k'" "0 < k'" using 1(2) by (cases k; cases "k - 1") auto
    then have "n div 10 < 10 ^ k'" using 1(2) by (simp add: less_mult_imp_div_less mult.commute)
    then show ?thesis using 1(1) [OF False _ k(2)] False k(1) by (simp add: digits.simps [of n])
  qed
qed

text \<open>
  A message that is cut keeps within the limit, for limits from 100 up to 38 digits; below 100 the bound of the slice is
  negative, and all but a few characters are kept.
\<close>

theorem truncated_message_fits:
  assumes "100 \<le> limit" "limit < 10 ^ 38"
  shows "int (length (truncate_message limit s)) \<le> limit
    \<and> (limit < int (length s) \<longrightarrow> truncate_message limit s = take (nat (limit - 100)) s @ truncation_note limit)"
proof -
  have "length (digits (nat limit)) \<le> 38" using assms by (intro digits_short) (simp_all add: nat_less_iff)
  then have "length (truncation_note limit) \<le> 100" using assms(1) by (simp add: truncation_note_def show_int_def)
  then show ?thesis using assms(1) by (auto simp: truncate_message_def adj_end_def min_def)
qed

theorem truncated_message_fits_witness:
  "int (length (truncate_message 100 (replicate 200 CHR 0x61))) \<le> 100
    \<and> (100 < int (length (replicate 200 CHR 0x61)) \<longrightarrow>
        truncate_message 100 (replicate 200 CHR 0x61) = take (nat (100 - 100)) (replicate 200 CHR 0x61) @ truncation_note 100)"
  by (rule truncated_message_fits) simp_all

theorem small_limit_keeps_most:
  assumes "limit < 100" "limit < int (length s)" "100 - limit \<le> int (length s)"
  shows "truncate_message limit s = take (length s - nat (100 - limit)) s @ truncation_note limit"
proof -
  have "nat (limit - 100 + int (length s)) = length s - nat (100 - limit)" using assms by linarith
  then show ?thesis using assms by (simp add: truncate_message_def adj_end_def)
qed

end
