(* ===== verification/Llm_Payload.thy ===== *)
theory Llm_Payload
  imports Prelude "HOL-Library.Multiset"
begin

text \<open>
  The requests to a language model: \<open>clients/llm/payloads.py\<close>, which turns a conversation with its attached files into the
  two payload formats, \<open>clients/llm/utils.py\<close>, the retries, and the reading of the answers in \<open>clients/llm/providers\<close>.
\<close>

section \<open>Conversations\<close>

text \<open>The content of a message is a text, a list of parts, or \<open>None\<close> (an assistant's turn that only calls tools).\<close>

datatype image_ref = Image_Url string | Image_Dict string | Image_Bad

datatype part = Text_Part string | Image_Part image_ref | Other_Part

datatype content = C_Text string | C_Parts "part list" | C_None

record tool_call =
  call_id :: string
  fn_name :: string
  fn_arguments :: string

record message =
  msg_role :: "string option"
  msg_content :: content
  msg_calls :: "tool_call list"
  msg_call_id :: string

record attachment =
  history_index :: int
  att_path :: string
  mime_type :: string
  base64 :: string

datatype response_format = Json_Object | Json_Schema "string option" "bool option" string "string option" | Other_Format

text \<open>A request; a temperature is a number \<open>'f\<close>, a schema and the tools are texts.\<close>

record 'f llm_request =
  messages :: "message list"
  model :: "string option"
  tools :: "string option"
  tool_choice :: "string option"
  temperature :: "'f option"
  max_tokens :: "int option"
  timeout_s :: "'f option"
  response_fmt :: "response_format option"
  file_attachments :: "attachment list"

definition image_mimes :: "string list" where
  "image_mimes = [''image/png'', ''image/jpeg'', ''image/gif'', ''image/bmp'', ''image/tiff'']"

section \<open>The input of the Responses format\<close>

datatype out_part =
    Input_Text string
  | Output_Text string
  | Input_Image string
  | Input_File string string

datatype out_content = O_Text string | O_Parts "out_part list"

text \<open>
  An entry: a message, the output of a call, or a call; the code may set a key \<open>content\<close> on the last two as well.
\<close>

datatype input_item =
    Item_Message "string option" out_content
  | Item_Output string content "string option"
  | Item_Call string string string "string option"

definition data_url :: "attachment \<Rightarrow> string" where
  "data_url a = ''data:'' @ mime_type a @ '';base64,'' @ base64 a"

text \<open>\<open>os.path.basename\<close>.\<close>

definition basename :: "string \<Rightarrow> string" where
  "basename p = rev (takeWhile (\<lambda>c. c \<noteq> CHR 0x2F) (rev p))"

definition file_part :: "attachment \<Rightarrow> out_part" where
  "file_part a = (if mime_type a \<in> set image_mimes then Input_Image (data_url a) else Input_File (basename (att_path a)) (data_url a))"

text \<open>
  \<open>_classify_image_prompt\<close>; \<open>abs_path\<close> gives the components of the absolute path, and the two directories are given as such.
\<close>

definition classify_image_prompt :: "(string \<Rightarrow> string list) \<Rightarrow> string list \<Rightarrow> string list \<Rightarrow> string \<Rightarrow> string" where
  "classify_image_prompt abs_path screenshots uploads path =
     (if prefix screenshots (abs_path path) then ''System: Visual confirmation of the current browser state captured immediately after the previous tool action. Interpret this image as evidence of the browser's present state, not a user submission.''
      else if prefix uploads (abs_path path) then ''System: Image submitted directly by the user.''
      else ''System: Visual artifact produced as the output of a completed tool action.'')"

text \<open>The texts of the parts of a list joined by blanks; iterating \<open>None\<close> raises.\<close>

definition part_texts :: "part list \<Rightarrow> string list" where
  "part_texts ps = concat (map (\<lambda>p. case p of Text_Part s \<Rightarrow> [s] | _ \<Rightarrow> []) ps)"

definition content_text :: "content \<Rightarrow> string option" where
  "content_text c = (case c of C_Text s \<Rightarrow> Some s | C_Parts ps \<Rightarrow> Some (join '' '' (part_texts ps)) | C_None \<Rightarrow> None)"

definition call_item :: "tool_call \<Rightarrow> input_item" where
  "call_item tc = Item_Call (call_id tc) (fn_name tc) (fn_arguments tc) None"

definition carries_image :: "message \<Rightarrow> attachment list \<Rightarrow> bool" where
  "carries_image m atts \<longleftrightarrow> msg_role m = Some ''assistant'' \<and> list_ex (\<lambda>a. mime_type a \<in> set image_mimes) atts"

text \<open>The entries of one message with its files.\<close>

definition message_items :: "(string \<Rightarrow> string) \<Rightarrow> message \<Rightarrow> attachment list \<Rightarrow> input_item list option" where
  "message_items image_prompt m atts =
     (if msg_role m = Some ''tool'' then Some [Item_Output (msg_call_id m) (msg_content m) None]
      else case content_text (msg_content m) of
        None \<Rightarrow> None
      | Some s \<Rightarrow>
          Some (if carries_image m atts then
              (if s \<noteq> [] then [Item_Message (Some ''assistant'') (O_Parts [Output_Text s])] else [])
              @ [Item_Message (Some ''user'') (O_Parts (Input_Text (image_prompt (att_path (hd atts))) # map file_part atts))]
              @ map call_item (msg_calls m)
            else
              (if atts = [] \<and> msg_calls m = [] then [Item_Message (msg_role m) (O_Text s)]
               else [Item_Message (msg_role m) (O_Parts
                       ((if s \<noteq> [] then [if msg_role m = Some ''assistant'' then Output_Text s else Input_Text s] else [])
                        @ map file_part atts))])
              @ (if msg_role m = Some ''assistant'' then map call_item (msg_calls m) else [])))"

fun collect :: "'a list option list \<Rightarrow> 'a list option" where
  "collect [] = Some []"
| "collect (x # xs) = (case (x, collect xs) of (Some a, Some b) \<Rightarrow> Some (a @ b) | _ \<Rightarrow> None)"

definition is_system :: "message \<Rightarrow> bool" where
  "is_system m \<longleftrightarrow> msg_role m = Some ''system''"

definition files_at :: "attachment list \<Rightarrow> int \<Rightarrow> attachment list" where
  "files_at atts i = filter (\<lambda>a. history_index a = i) atts"

definition build_input :: "(string \<Rightarrow> string) \<Rightarrow> message list \<Rightarrow> attachment list \<Rightarrow> input_item list option" where
  "build_input image_prompt msgs atts =
     collect (map (\<lambda>im. message_items image_prompt (snd im) (files_at atts (int (fst im))))
       (enumerate 0 (filter (\<lambda>m. \<not> is_system m) msgs)))"

definition instructions :: "message list \<Rightarrow> string list option" where
  "instructions msgs = collect (map (\<lambda>m. map_option (\<lambda>s. [s]) (content_text (msg_content m))) (filter is_system msgs))"

section \<open>The word the service asks for\<close>

definition json_hint :: string where
  "json_hint = [nl, nl] @ ''Output strictly in JSON.''"

definition says_json :: "string \<Rightarrow> bool" where
  "says_json s \<longleftrightarrow> contains ''json'' (lower s)"

definition part_says_json :: "out_part \<Rightarrow> bool" where
  "part_says_json p = (case p of Input_Text s \<Rightarrow> says_json s | Output_Text s \<Rightarrow> says_json s | _ \<Rightarrow> False)"

definition item_says_json :: "input_item \<Rightarrow> bool" where
  "item_says_json i =
     (case i of
        Item_Message r (O_Text s) \<Rightarrow> says_json s
      | Item_Message r (O_Parts ps) \<Rightarrow> list_ex part_says_json ps
      | Item_Output k c x \<Rightarrow> (case x of Some s \<Rightarrow> says_json s | None \<Rightarrow> says_json [])
      | Item_Call k n a x \<Rightarrow> (case x of Some s \<Rightarrow> says_json s | None \<Rightarrow> says_json []))"

definition add_hint :: "input_item \<Rightarrow> input_item" where
  "add_hint i =
     (case i of
        Item_Message r (O_Text s) \<Rightarrow> Item_Message r (O_Text (s @ json_hint))
      | Item_Message r (O_Parts ps) \<Rightarrow> Item_Message r (O_Parts (ps @ [Input_Text json_hint]))
      | Item_Output k c x \<Rightarrow> Item_Output k c (Some ((case x of Some s \<Rightarrow> s | None \<Rightarrow> []) @ json_hint))
      | Item_Call k n a x \<Rightarrow> Item_Call k n a (Some ((case x of Some s \<Rightarrow> s | None \<Rightarrow> []) @ json_hint)))"

definition ensure_json :: "input_item list \<Rightarrow> input_item list" where
  "ensure_json items =
     (if list_ex item_says_json items then items
      else if items = [] then [Item_Message (Some ''user'') (O_Text ''Output strictly in JSON.'')]
      else butlast items @ [add_hint (last items)])"

section \<open>The payload\<close>

datatype text_format = Format_Object | Format_Schema string bool string "string option"

record 'f responses_payload =
  p_model :: string
  p_input :: "input_item list"
  p_instructions :: "string option"
  p_tools :: "string option"
  p_tool_choice :: "string option"
  p_low_effort :: bool
  p_temperature :: "'f option"
  p_max_output :: "int option"
  p_timeout :: "'f option"
  p_format :: "text_format option"

definition reasoning_model :: "string \<Rightarrow> bool" where
  "reasoning_model m \<longleftrightarrow> list_ex (\<lambda>s. contains s m) [''o1'', ''o3'', ''gpt-5'']"

definition resolved_model :: "'f llm_request \<Rightarrow> string \<Rightarrow> string" where
  "resolved_model r default_model = (case model r of Some m \<Rightarrow> if m \<noteq> [] then m else default_model | None \<Rightarrow> default_model)"

definition build_responses_payload :: "(string \<Rightarrow> string) \<Rightarrow> string \<Rightarrow> 'f llm_request \<Rightarrow> 'f responses_payload option" where
  "build_responses_payload image_prompt default_model r =
     (case (instructions (messages r), build_input image_prompt (messages r) (file_attachments r)) of
        (Some ins, Some items) \<Rightarrow>
          (let m = resolved_model r default_model in
           Some \<lparr>p_model = m,
             p_input = (if response_fmt r = Some Json_Object then ensure_json items else items),
             p_instructions = (if ins = [] then None else Some (join [nl] ins)),
             p_tools = tools r, p_tool_choice = tool_choice r, p_low_effort = reasoning_model m,
             p_temperature = (if reasoning_model m then None else temperature r),
             p_max_output = max_tokens r, p_timeout = timeout_s r,
             p_format = (case response_fmt r of
                 Some Json_Object \<Rightarrow> Some Format_Object
               | Some (Json_Schema n st sc d) \<Rightarrow> Some (Format_Schema (case n of Some n \<Rightarrow> n | None \<Rightarrow> ''response'')
                   (case st of Some b \<Rightarrow> b | None \<Rightarrow> False) sc d)
               | _ \<Rightarrow> None)\<rparr>)
      | _ \<Rightarrow> None)"

section \<open>What a payload carries\<close>

definition part_files :: "out_part \<Rightarrow> string list" where
  "part_files p = (case p of Input_Image u \<Rightarrow> [u] | Input_File n u \<Rightarrow> [u] | _ \<Rightarrow> [])"

fun item_files :: "input_item \<Rightarrow> string list" where
  "item_files (Item_Message r (O_Parts ps)) = concat (map part_files ps)"
| "item_files i = []"

fun item_calls :: "input_item \<Rightarrow> (string \<times> string \<times> string) list" where
  "item_calls (Item_Call k n a x) = [(k, n, a)]"
| "item_calls i = []"

fun item_outputs :: "input_item \<Rightarrow> (string \<times> content) list" where
  "item_outputs (Item_Output k c x) = [(k, c)]"
| "item_outputs i = []"

definition is_tool :: "message \<Rightarrow> bool" where
  "is_tool m \<longleftrightarrow> msg_role m = Some ''tool''"

definition call_triple :: "tool_call \<Rightarrow> string \<times> string \<times> string" where
  "call_triple tc = (call_id tc, fn_name tc, fn_arguments tc)"

definition turn_calls :: "message \<Rightarrow> (string \<times> string \<times> string) list" where
  "turn_calls m = (if msg_role m = Some ''assistant'' then map call_triple (msg_calls m) else [])"

definition turn_outputs :: "message \<Rightarrow> (string \<times> content) list" where
  "turn_outputs m = (if is_tool m then [(msg_call_id m, msg_content m)] else [])"

lemma file_parts_files: "concat (map part_files (map file_part atts)) = map data_url atts"
  by (induction atts) (simp_all add: file_part_def part_files_def)

lemma call_items: "concat (map item_calls (map call_item tcs)) = map call_triple tcs"
  "concat (map item_files (map call_item tcs)) = []" "concat (map item_outputs (map call_item tcs)) = []"
  by (induction tcs) (simp_all add: call_item_def call_triple_def)

lemma call_item_facts [simp]: "item_files (call_item tc) = []" "item_outputs (call_item tc) = []" "item_calls (call_item tc) = [call_triple tc]"
  by (simp_all add: call_item_def call_triple_def)

lemma file_part_files [simp]: "part_files (file_part a) = [data_url a]"
  by (simp add: file_part_def part_files_def)

lemma text_part_files [simp]: "part_files (Input_Text s) = []" "part_files (Output_Text s) = []"
  by (simp_all add: part_files_def)

lemma concat_singletons [simp]: "concat (map (\<lambda>x. [h x]) xs) = map h xs" "concat (map (\<lambda>x. []) xs) = []"
  by (induction xs) simp_all

lemma message_items_carry:
  assumes "message_items ip m atts = Some items"
  shows "concat (map item_files items) = (if is_tool m then [] else map data_url atts)"
    and "concat (map item_calls items) = turn_calls m"
    and "concat (map item_outputs items) = turn_outputs m"
proof -
  have "concat (map item_files items) = (if is_tool m then [] else map data_url atts)
    \<and> concat (map item_calls items) = turn_calls m \<and> concat (map item_outputs items) = turn_outputs m"
  proof (cases "is_tool m")
    case True
    then show ?thesis using assms by (auto simp: message_items_def is_tool_def turn_calls_def turn_outputs_def)
  next
    case False
    then obtain s where s: "content_text (msg_content m) = Some s"
      using assms by (auto simp: message_items_def is_tool_def split: option.splits)
    show ?thesis
    proof (cases "carries_image m atts")
      case True
      then have "msg_role m = Some ''assistant''" by (simp add: carries_image_def)
      then show ?thesis using assms s True False
        by (cases "s = []") (auto simp: message_items_def is_tool_def turn_calls_def turn_outputs_def comp_def)
    next
      case no_image: False
      then show ?thesis using assms s False
        by (cases "s = []"; cases "atts = [] \<and> msg_calls m = []"; cases "msg_role m = Some ''assistant''")
          (auto simp: message_items_def is_tool_def turn_calls_def turn_outputs_def comp_def)
    qed
  qed
  then show "concat (map item_files items) = (if is_tool m then [] else map data_url atts)"
    "concat (map item_calls items) = turn_calls m" "concat (map item_outputs items) = turn_outputs m" by blast+
qed

lemma collect_Some: "collect xs = Some ys \<Longrightarrow> list_all (\<lambda>x. x \<noteq> None) xs \<and> ys = concat (map the xs)"
  by (induction xs arbitrary: ys) (auto split: option.splits)

definition turns :: "message list \<Rightarrow> message list" where
  "turns msgs = filter (\<lambda>m. \<not> is_system m) msgs"

lemma concat_map_concat: "concat (map f (concat xss)) = concat (map (\<lambda>xs. concat (map f xs)) xss)"
  by (induction xss) simp_all

lemma build_input_carries:
  assumes "build_input ip msgs atts = Some items"
    and carry: "\<And>i m is. message_items ip m (files_at atts (int i)) = Some is \<Longrightarrow> concat (map f is) = g i m"
  shows "concat (map f items) = concat (map (\<lambda>im. g (fst im) (snd im)) (enumerate 0 (turns msgs)))"
proof -
  let ?h = "\<lambda>im. message_items ip (snd im) (files_at atts (int (fst im)))"
  let ?e = "enumerate 0 (turns msgs)"
  have "collect (map ?h ?e) = Some items" using assms(1) by (simp only: build_input_def turns_def)
  from collect_Some [OF this] have some: "list_all (\<lambda>im. ?h im \<noteq> None) ?e" and items: "items = concat (map (\<lambda>im. the (?h im)) ?e)"
    by (simp_all add: list.pred_map comp_def)
  have "map (\<lambda>im. concat (map f (the (?h im)))) ?e = map (\<lambda>im. g (fst im) (snd im)) ?e"
  proof (rule map_cong [OF refl])
    fix im assume "im \<in> set ?e"
    then have "?h im \<noteq> None" using some unfolding list_all_iff by (rule bspec [rotated])
    then have "?h im = Some (the (?h im))" by simp
    then show "concat (map f (the (?h im))) = g (fst im) (snd im)" by (rule carry)
  qed
  then show ?thesis unfolding items concat_map_concat by (simp only: map_map comp_def)
qed

lemma enumerate_snd: "concat (map (\<lambda>im. g (snd im)) (enumerate n xs)) = concat (map g xs)"
  by (induction xs arbitrary: n) simp_all

definition sent :: "message list \<Rightarrow> attachment \<Rightarrow> bool" where
  "sent ts a \<longleftrightarrow> (\<exists>i < length ts. history_index a = int i \<and> \<not> is_tool (ts ! i))"

lemma mset_filter_or:
  "(\<And>x. \<not> (P x \<and> Q x)) \<Longrightarrow> mset (map f (filter (\<lambda>x. P x \<or> Q x) xs)) = mset (map f (filter P xs)) + mset (map f (filter Q xs))"
  by (induction xs) auto

lemma sent_snoc: "sent (ts @ [m]) a \<longleftrightarrow> sent ts a \<or> (\<not> is_tool m \<and> history_index a = int (length ts))"
proof
  assume "sent (ts @ [m]) a"
  then obtain i where "i < Suc (length ts)" "history_index a = int i" "\<not> is_tool ((ts @ [m]) ! i)" unfolding sent_def by auto
  then show "sent ts a \<or> (\<not> is_tool m \<and> history_index a = int (length ts))"
    unfolding sent_def by (cases "i = length ts") (simp_all add: nth_append)
next
  assume "sent ts a \<or> (\<not> is_tool m \<and> history_index a = int (length ts))"
  then show "sent (ts @ [m]) a"
  proof
    assume "sent ts a"
    then obtain i where "i < length ts" "history_index a = int i" "\<not> is_tool (ts ! i)" unfolding sent_def by auto
    then show ?thesis unfolding sent_def by (intro exI [of _ i]) (simp add: nth_append)
  next
    assume "\<not> is_tool m \<and> history_index a = int (length ts)"
    then show ?thesis unfolding sent_def by (intro exI [of _ "length ts"]) simp
  qed
qed

lemma files_by_turn:
  "mset (concat (map (\<lambda>im. if is_tool (snd im) then [] else map data_url (files_at atts (int (fst im)))) (enumerate 0 ts)))
     = mset (map data_url (filter (sent ts) atts))"
proof (induction ts rule: rev_induct)
  case Nil
  then show ?case by (simp add: sent_def)
next
  case (snoc m ts)
  have step: "sent (ts @ [m]) a \<longleftrightarrow> sent ts a \<or> (\<not> is_tool m \<and> history_index a = int (length ts))" for a
    by (rule sent_snoc)
  have "mset (map data_url (filter (sent (ts @ [m])) atts))
      = mset (map data_url (filter (sent ts) atts)) + mset (map data_url (filter (\<lambda>a. \<not> is_tool m \<and> history_index a = int (length ts)) atts))"
    unfolding step by (rule mset_filter_or) (fastforce simp: sent_def)
  then show ?case using snoc by (cases "is_tool m") (simp_all add: enumerate_append_eq files_at_def)
qed


definition demo_turns :: "message list" where
  "demo_turns =
     [\<lparr>msg_role = Some ''system'', msg_content = C_Text ''Be brief.'', msg_calls = [], msg_call_id = []\<rparr>,
      \<lparr>msg_role = Some ''user'', msg_content = C_Text ''Look.'', msg_calls = [], msg_call_id = []\<rparr>,
      \<lparr>msg_role = Some ''assistant'', msg_content = C_Text [], msg_calls = [\<lparr>call_id = ''k'', fn_name = ''f'', fn_arguments = ''{}''\<rparr>], msg_call_id = []\<rparr>,
      \<lparr>msg_role = Some ''tool'', msg_content = C_Text ''ok'', msg_calls = [], msg_call_id = ''k''\<rparr>]"

definition demo_files :: "attachment list" where
  "demo_files =
     [\<lparr>history_index = 1, att_path = ''/a/s.png'', mime_type = ''image/png'', base64 = ''AA''\<rparr>,
      \<lparr>history_index = 0, att_path = ''/a/d.pdf'', mime_type = ''application/pdf'', base64 = ''BB''\<rparr>]"


text \<open>
  So a file of a tool's turn is not sent: the branch for tools goes on to the next message before the files are looked at.
\<close>

theorem files_of_tools_are_dropped:
  assumes "build_input ip msgs [a] = Some items" "i < length (turns msgs)" "history_index a = int i" "is_tool (turns msgs ! i)"
  shows "concat (map item_files items) = []"
proof -
  have "\<not> sent (turns msgs) a" using assms(3,4) by (auto simp: sent_def)
  then have "filter (sent (turns msgs)) [a] = []" by simp
  moreover have "concat (map item_files items) = concat (map (\<lambda>im. if is_tool (snd im) then [] else map data_url (files_at [a] (int (fst im)))) (enumerate 0 (turns msgs)))"
    using build_input_carries [OF assms(1), of item_files "\<lambda>i m. if is_tool m then [] else map data_url (files_at [a] (int i))"] message_items_carry(1) by simp
  ultimately show ?thesis using files_by_turn [of "[a]" "turns msgs"] by simp
qed

text \<open>A turn with \<open>content: None\<close>, as the services give it for a turn that only calls tools, cannot be sent back.\<close>

theorem empty_turn_raises: "message_items ip m atts = None \<longleftrightarrow> \<not> is_tool m \<and> msg_content m = C_None"
  by (auto simp: message_items_def is_tool_def content_text_def split: content.split)

section \<open>Payloads of the chat format\<close>

text \<open>\<open>_apply_common_payload\<close>: the hint, the default role and the form of the images, over the messages of a request.\<close>

definition msg_says_json :: "message \<Rightarrow> bool" where
  "msg_says_json m = (case msg_content m of C_Text s \<Rightarrow> says_json s | C_Parts ps \<Rightarrow> list_ex says_json (part_texts ps) | C_None \<Rightarrow> False)"

definition hint_message :: "message \<Rightarrow> message" where
  "hint_message m = m\<lparr>msg_content := (case msg_content m of C_Text s \<Rightarrow> C_Text (s @ json_hint)
     | C_Parts ps \<Rightarrow> C_Parts (ps @ [Text_Part json_hint]) | C_None \<Rightarrow> C_None)\<rparr>"

definition hinted_messages :: "response_format option \<Rightarrow> message list \<Rightarrow> message list" where
  "hinted_messages fmt msgs =
     (if fmt = Some Json_Object \<and> \<not> list_ex msg_says_json msgs \<and> msgs \<noteq> [] then butlast msgs @ [hint_message (last msgs)] else msgs)"

fun fix_part :: "part \<Rightarrow> part option" where
  "fix_part (Image_Part (Image_Url u)) = Some (Image_Part (Image_Dict u))"
| "fix_part (Image_Part Image_Bad) = None"
| "fix_part p = Some p"

fun fix_parts :: "part list \<Rightarrow> part list option" where
  "fix_parts [] = Some []"
| "fix_parts (p # ps) = (case (fix_part p, fix_parts ps) of (Some q, Some qs) \<Rightarrow> Some (q # qs) | _ \<Rightarrow> None)"

definition fix_message :: "message \<Rightarrow> message option" where
  "fix_message m =
     (let m' = m\<lparr>msg_role := Some (case msg_role m of Some r \<Rightarrow> r | None \<Rightarrow> ''user'')\<rparr> in
      case msg_content m of C_Parts ps \<Rightarrow> map_option (\<lambda>qs. m'\<lparr>msg_content := C_Parts qs\<rparr>) (fix_parts ps) | _ \<Rightarrow> Some m')"

fun fix_messages :: "message list \<Rightarrow> message list option" where
  "fix_messages [] = Some []"
| "fix_messages (m # ms) = (case (fix_message m, fix_messages ms) of (Some a, Some b) \<Rightarrow> Some (a # b) | _ \<Rightarrow> None)"

record 'f chat_payload =
  c_model :: string
  c_messages :: "message list"
  c_tools :: "string option"
  c_tool_choice :: "string option"
  c_temperature :: "'f option"
  c_max_tokens :: "int option"
  c_timeout :: "'f option"
  c_format :: "response_format option"
  c_min_tokens :: "int option"

text \<open>The result is \<open>None\<close> where the code raises for an image that is neither a text nor a dict with a \<open>url\<close>.\<close>

definition apply_common_payload :: "'f chat_payload \<Rightarrow> 'f llm_request \<Rightarrow> 'f chat_payload option" where
  "apply_common_payload p r =
     map_option (\<lambda>ms. p\<lparr>c_messages := ms,
         c_tools := (case tools r of None \<Rightarrow> c_tools p | t \<Rightarrow> t),
         c_tool_choice := (case tool_choice r of None \<Rightarrow> c_tool_choice p | t \<Rightarrow> t),
         c_temperature := (if temperature r \<noteq> None \<and> \<not> reasoning_model (c_model p) then temperature r else c_temperature p),
         c_max_tokens := (case max_tokens r of None \<Rightarrow> c_max_tokens p | t \<Rightarrow> t),
         c_timeout := (case timeout_s r of None \<Rightarrow> c_timeout p | t \<Rightarrow> t),
         c_format := (case response_fmt r of None \<Rightarrow> c_format p | t \<Rightarrow> t)\<rparr>)
       (fix_messages (hinted_messages (response_fmt r) (c_messages p)))"

text \<open>\<open>ChutesProvider._build_payload\<close>.\<close>

definition build_chat_payload :: "string \<Rightarrow> int option \<Rightarrow> 'f llm_request \<Rightarrow> 'f chat_payload option" where
  "build_chat_payload default_model min_tokens r =
     apply_common_payload \<lparr>c_model = resolved_model r default_model, c_messages = messages r, c_tools = None, c_tool_choice = None,
       c_temperature = None, c_max_tokens = None, c_timeout = None, c_format = None, c_min_tokens = min_tokens\<rparr> r"

definition fixed_part :: "part \<Rightarrow> bool" where
  "fixed_part p = (case p of Image_Part i \<Rightarrow> (case i of Image_Dict u \<Rightarrow> True | _ \<Rightarrow> False) | _ \<Rightarrow> True)"

definition fixed_message :: "message \<Rightarrow> bool" where
  "fixed_message m \<longleftrightarrow> msg_role m \<noteq> None \<and> (case msg_content m of C_Parts ps \<Rightarrow> list_all fixed_part ps | _ \<Rightarrow> True)"

lemma lower_json_hint: "lower json_hint = lower ([nl, nl] @ ''Output strictly in '') @ ''json'' @ ''.''"
  by code_simp

lemma says_json_hint: "says_json (s @ json_hint)"
proof -
  have "lower (s @ json_hint) = (lower s @ lower ([nl, nl] @ ''Output strictly in '')) @ ''json'' @ ''.''"
    using lower_json_hint by (simp add: lower_def)
  then show ?thesis unfolding says_json_def contains_iff_sublist sublist_def by blast
qed

lemma hint_says_json: "says_json json_hint"
  using says_json_hint [of "[]"] by simp

lemma fix_part_facts: "fix_part p = Some q \<Longrightarrow> fixed_part q \<and> part_texts [q] = part_texts [p]"
  by (cases p rule: fix_part.cases) (auto simp: fixed_part_def part_texts_def)

lemma fix_parts_facts: "fix_parts ps = Some qs \<Longrightarrow> list_all fixed_part qs \<and> part_texts qs = part_texts ps"
proof (induction ps arbitrary: qs)
  case Nil
  then show ?case by simp
next
  case (Cons p ps)
  then obtain q rs where "fix_part p = Some q" "fix_parts ps = Some rs" "qs = q # rs" by (auto split: option.splits)
  then show ?case using fix_part_facts [of p q] Cons.IH [of rs] by (simp add: part_texts_def)
qed

lemma fixed_parts_stay: "list_all fixed_part ps \<Longrightarrow> fix_parts ps = Some ps"
proof (induction ps)
  case (Cons p ps)
  then have "fix_part p = Some p" by (cases p rule: fix_part.cases) (auto simp: fixed_part_def)
  then show ?case using Cons by simp
qed simp

lemma fix_message_facts: "fix_message m = Some m' \<Longrightarrow> fixed_message m' \<and> content_text (msg_content m') = content_text (msg_content m) \<and> msg_says_json m' = msg_says_json m"
  using fix_parts_facts by (cases "msg_content m") (auto simp: fix_message_def fixed_message_def content_text_def msg_says_json_def)

lemma fixed_message_stays: "fixed_message m \<Longrightarrow> fix_message m = Some m"
  by (cases "msg_content m") (auto simp: fix_message_def fixed_message_def fixed_parts_stay)

lemma fix_messages_facts:
  "fix_messages ms = Some ns \<Longrightarrow> list_all fixed_message ns \<and> map (\<lambda>m. content_text (msg_content m)) ns = map (\<lambda>m. content_text (msg_content m)) ms
     \<and> list_ex msg_says_json ns = list_ex msg_says_json ms"
proof (induction ms arbitrary: ns)
  case Nil
  then show ?case by simp
next
  case (Cons m ms)
  then obtain a b where ab: "fix_message m = Some a" "fix_messages ms = Some b" "ns = a # b" by (auto split: option.splits)
  show ?case using fix_message_facts [OF ab(1)] Cons.IH [OF ab(2)] ab(3) by simp
qed

lemma fixed_messages_stay: "list_all fixed_message ms \<Longrightarrow> fix_messages ms = Some ms"
  by (induction ms) (simp_all add: fixed_message_stays)

lemma hint_message_says: "msg_content m \<noteq> C_None \<Longrightarrow> msg_says_json (hint_message m)"
  by (cases "msg_content m") (simp_all add: hint_message_def msg_says_json_def says_json_hint part_texts_def hint_says_json)

lemma hinted_messages_mention:
  "fmt = Some Json_Object \<Longrightarrow> msgs \<noteq> [] \<Longrightarrow> msg_content (last msgs) \<noteq> C_None \<Longrightarrow> list_ex msg_says_json (hinted_messages fmt msgs)"
  by (simp add: hinted_messages_def hint_message_says)

lemma hint_message_None: "msg_content m = C_None \<Longrightarrow> hint_message m = m"
  by (simp add: hint_message_def)

lemma hinted_messages_stay:
  assumes "fix_messages (hinted_messages fmt ms) = Some ns"
  shows "hinted_messages fmt ns = ns"
proof (cases "fmt = Some Json_Object \<and> \<not> list_ex msg_says_json ns \<and> ns \<noteq> []")
  case False
  then show ?thesis unfolding hinted_messages_def by (rule if_not_P)
next
  case True
  note facts = fix_messages_facts [OF assms]
  let ?hs = "hinted_messages fmt ms"
  have texts: "map (\<lambda>m. content_text (msg_content m)) ns = map (\<lambda>m. content_text (msg_content m)) ?hs" using facts by simp
  then have "?hs \<noteq> []" using True by auto
  have "ms \<noteq> []" using \<open>?hs \<noteq> []\<close> by (auto simp: hinted_messages_def)
  have "\<not> list_ex msg_says_json ?hs" using facts True by simp
  then have none: "msg_content (last ms) = C_None" using hinted_messages_mention True \<open>ms \<noteq> []\<close> by blast
  then have "?hs = ms" by (simp add: hinted_messages_def hint_message_None)
  then have "content_text (msg_content (last ns)) = content_text (msg_content (last ms))"
    using texts True \<open>ms \<noteq> []\<close> by (metis (no_types, lifting) last_map)
  then have "msg_content (last ns) = C_None" using none by (simp add: content_text_def split: content.splits)
  then show ?thesis using True by (simp add: hinted_messages_def hint_message_None)
qed

text \<open>
  The payload of a chat is in normal form: every message has a role and every image is a dict with a \<open>url\<close>, building it
  again from itself changes nothing, and where a JSON object is asked for the word JSON is in the messages, unless there are
  none or the last one has no content.
\<close>

theorem chat_payload_normal:
  assumes "build_chat_payload default_model k r = Some p"
  shows "list_all fixed_message (c_messages p) \<and> apply_common_payload p r = Some p
    \<and> (response_fmt r = Some Json_Object \<longrightarrow>
         list_ex msg_says_json (c_messages p) \<or> messages r = [] \<or> msg_content (last (messages r)) = C_None)"
proof -
  obtain ns where ns: "fix_messages (hinted_messages (response_fmt r) (messages r)) = Some ns"
    and p: "c_messages p = ns" "apply_common_payload p r = map_option (\<lambda>ms. p\<lparr>c_messages := ms\<rparr>) (fix_messages (hinted_messages (response_fmt r) ns))"
    using assms by (auto simp: build_chat_payload_def apply_common_payload_def split: option.splits)
  note facts = fix_messages_facts [OF ns]
  have "fix_messages ns = Some ns" using facts by (simp add: fixed_messages_stay)
  then have "apply_common_payload p r = Some p" using p hinted_messages_stay [OF ns] by simp
  moreover have "list_ex msg_says_json ns \<or> messages r = [] \<or> msg_content (last (messages r)) = C_None" if "response_fmt r = Some Json_Object"
    using facts hinted_messages_mention [OF that, of "messages r"] that by auto
  ultimately show ?thesis using facts p(1) by simp
qed

definition demo_request :: "int llm_request" where
  "demo_request = \<lparr>messages = [\<lparr>msg_role = None, msg_content = C_Parts [Text_Part ''Look.'', Image_Part (Image_Url ''u'')], msg_calls = [], msg_call_id = []\<rparr>],
     model = None, tools = None, tool_choice = None, temperature = Some 1, max_tokens = None, timeout_s = None,
     response_fmt = Some Json_Object, file_attachments = []\<rparr>"

theorem chat_payload_normal_witness:
  "apply_common_payload (the (build_chat_payload ''m'' None demo_request)) demo_request = build_chat_payload ''m'' None demo_request
    \<and> list_ex msg_says_json (c_messages (the (build_chat_payload ''m'' None demo_request)))"
proof -
  have some: "build_chat_payload ''m'' None demo_request \<noteq> None" by code_simp
  then have "build_chat_payload ''m'' None demo_request = Some (the (build_chat_payload ''m'' None demo_request))" by simp
  from chat_payload_normal [OF this] this show ?thesis by (simp add: demo_request_def)
qed

lemma item_says_hint: "item_says_json (add_hint i)"
  by (cases i) (auto simp: add_hint_def item_says_json_def says_json_hint hint_says_json part_says_json_def split: out_content.splits option.splits)

lemma ensure_json_mentions: "list_ex item_says_json (ensure_json items)"
proof (cases "items = []")
  case True
  have "item_says_json (Item_Message (Some ''user'') (O_Text ''Output strictly in JSON.''))" by code_simp
  then show ?thesis using True by (simp add: ensure_json_def)
next
  case False
  then show ?thesis by (simp add: ensure_json_def item_says_hint)
qed

text \<open>
  The Responses format asks for JSON wherever a JSON object is wanted, but where the conversation ends with a tool's output
  the hint becomes a \<open>content\<close> of an entry that has none, and where it ends with an assistant's parts it is an input text of
  the assistant.
\<close>

theorem json_object_is_mentioned:
  assumes "build_responses_payload ip default_model r = Some p" "response_fmt r = Some Json_Object"
  shows "list_ex item_says_json (p_input p)"
  using assms ensure_json_mentions by (auto simp: build_responses_payload_def Let_def split: option.splits)

theorem hint_on_tool_output:
  assumes "\<not> list_ex item_says_json (is @ [Item_Output k c None])"
  shows "ensure_json (is @ [Item_Output k c None]) = is @ [Item_Output k c (Some json_hint)]"
  using assms by (simp add: ensure_json_def add_hint_def)

theorem hint_in_assistant_turn:
  assumes "\<not> list_ex item_says_json (is @ [Item_Message (Some ''assistant'') (O_Parts ps)])"
  shows "ensure_json (is @ [Item_Message (Some ''assistant'') (O_Parts ps)]) = is @ [Item_Message (Some ''assistant'') (O_Parts (ps @ [Input_Text json_hint]))]"
  using assms by (simp add: ensure_json_def add_hint_def)

section \<open>Retries\<close>

text \<open>
  \<open>_with_retry\<close> over the outcomes of the attempts from the first: what the request gives, or the error it raises, where a rate
  limit, a timeout and a lost connection are tried again. The naps are in seconds.
\<close>

datatype ('a, 'e) api_outcome = Answered 'a | Retryable 'e | Fatal 'e

definition max_api_retries :: nat where "max_api_retries = 5"

definition retry_nap :: "nat \<Rightarrow> nat" where
  "retry_nap attempt = min 16 (2 ^ (attempt - 1))"

fun retry_from :: "nat \<Rightarrow> nat \<Rightarrow> (nat \<Rightarrow> ('a, 'e) api_outcome) \<Rightarrow> ('e + 'a) \<times> nat list" where
  "retry_from left attempt api =
     (case api attempt of
        Answered a \<Rightarrow> (Inr a, [])
      | Fatal e \<Rightarrow> (Inl e, [])
      | Retryable e \<Rightarrow>
          (case left of 0 \<Rightarrow> (Inl e, [])
           | Suc n \<Rightarrow> (let (res, naps) = retry_from n (Suc attempt) api in (res, retry_nap attempt # naps))))"

declare retry_from.simps [simp del]

definition with_retry :: "(nat \<Rightarrow> ('a, 'e) api_outcome) \<Rightarrow> ('e + 'a) \<times> nat list" where
  "with_retry api = retry_from (max_api_retries - 1) 1 api"

definition is_retryable :: "('a, 'e) api_outcome \<Rightarrow> bool" where
  "is_retryable x = (case x of Retryable e \<Rightarrow> True | _ \<Rightarrow> False)"

definition settled :: "('a, 'e) api_outcome \<Rightarrow> 'e + 'a" where
  "settled x = (case x of Answered a \<Rightarrow> Inr a | Retryable e \<Rightarrow> Inl e | Fatal e \<Rightarrow> Inl e)"

lemma retry_from_spec:
  "\<exists>j \<le> left. (\<forall>i < j. is_retryable (api (attempt + i))) \<and> (j < left \<longrightarrow> \<not> is_retryable (api (attempt + j)))
     \<and> retry_from left attempt api = (settled (api (attempt + j)), map retry_nap [attempt ..< attempt + j])"
proof (induction left arbitrary: attempt)
  case 0
  show ?case by (simp add: retry_from.simps [of 0] settled_def split: api_outcome.splits)
next
  case (Suc n)
  show ?case
  proof (cases "is_retryable (api attempt)")
    case False
    then have "retry_from (Suc n) attempt api = (settled (api attempt), [])"
      by (simp add: retry_from.simps [of "Suc n"] settled_def is_retryable_def split: api_outcome.splits)
    then show ?thesis using False by (intro exI [of _ 0]) simp
  next
    case True
    then obtain e where e: "api attempt = Retryable e" by (auto simp: is_retryable_def split: api_outcome.splits)
    obtain j where j: "j \<le> n" "\<forall>i < j. is_retryable (api (Suc attempt + i))" "j < n \<longrightarrow> \<not> is_retryable (api (Suc attempt + j))"
      "retry_from n (Suc attempt) api = (settled (api (Suc attempt + j)), map retry_nap [Suc attempt ..< Suc attempt + j])"
      using Suc.IH [of "Suc attempt"] by blast
    have "[attempt ..< attempt + Suc j] = attempt # [Suc attempt ..< Suc attempt + j]" by (simp add: upt_conv_Cons del: upt_Suc)
    then have "retry_from (Suc n) attempt api = (settled (api (attempt + Suc j)), map retry_nap [attempt ..< attempt + Suc j])"
      using e j(4) by (simp add: retry_from.simps [of "Suc n"] del: upt_Suc)
    moreover have "is_retryable (api (attempt + i))" if "i < Suc j" for i using that True j(2) by (cases i) auto
    ultimately show ?thesis using j by (intro exI [of _ "Suc j"]) simp
  qed
qed

text \<open>
  A request is made at most five times, the result is that of the first attempt that is not to be repeated or of the fifth,
  and the naps between them are 1, 2, 4 and 8 seconds: the bound of 16 is never met.
\<close>

theorem requests_are_retried:
  "\<exists>j < 5. (\<forall>i \<in> {1..j}. is_retryable (api i)) \<and> (j < 4 \<longrightarrow> \<not> is_retryable (api (Suc j)))
     \<and> with_retry api = (settled (api (Suc j)), take j [1, 2, 4, 8])"
proof -
  obtain j where j: "j \<le> 4" "\<forall>i < j. is_retryable (api (1 + i))" "j < 4 \<longrightarrow> \<not> is_retryable (api (1 + j))"
    "with_retry api = (settled (api (1 + j)), map retry_nap [1 ..< 1 + j])"
    using retry_from_spec [of 4 api 1] by (auto simp: with_retry_def max_api_retries_def)
  have "map retry_nap [1 ..< 1 + j] = take j (map retry_nap [1 ..< 5])" using j(1) by (simp add: take_map)
  also have "map retry_nap [1 ..< 5] = [1, 2, 4, 8]" by code_simp
  finally have naps: "map retry_nap [1 ..< 1 + j] = take j [1, 2, 4, 8]" .
  have "is_retryable (api i)" if "i \<in> {1..j}" for i using that j(2) by (cases i) auto
  then show ?thesis using j naps by (intro exI [of _ j]) auto
qed

section \<open>Errors and answers\<close>

text \<open>An error of a provider: whether it is one of the client library's status errors, its two status attributes and its text.\<close>

record api_error =
  sdk_error :: bool
  status_code :: "int option"
  http_status :: "int option"
  err_text :: string

definition error_status :: "api_error \<Rightarrow> int option" where
  "error_status e = (case status_code e of Some c \<Rightarrow> if c \<noteq> 0 then Some c else http_status e | None \<Rightarrow> http_status e)"

definition is_context_length_error :: "api_error \<Rightarrow> bool" where
  "is_context_length_error e \<longleftrightarrow>
     (let s = lower (err_text e) in
        (sdk_error e \<and> list_ex (\<lambda>t. contains t s) [''context_length_exceeded'', ''context window'', ''prompt too large'', ''maximum context''])
      \<or> (error_status e = Some 400 \<and> contains ''context'' s \<and> list_ex (\<lambda>t. contains t s) [''length'', ''too large'', ''max''])
      \<or> list_ex (\<lambda>t. contains t s) [''context_length_exceeded'', ''context length'', ''prompt too large'', ''maximum context'', ''request payload too large''])"

lemma contains_trans [py_string]: "contains t u \<Longrightarrow> contains u s \<Longrightarrow> contains t s"
  unfolding contains_iff_sublist by (rule sublist_order.order.trans)

text \<open>An error is taken for one of the context's length only where its text speaks of a context or of something too large.\<close>

theorem context_error_is_named:
  assumes "is_context_length_error e"
  shows "contains ''context'' (lower (err_text e)) \<or> contains ''too large'' (lower (err_text e))"
proof -
  have c: "contains ''context'' ''context_length_exceeded''" "contains ''context'' ''context window''" "contains ''context'' ''maximum context''"
    "contains ''context'' ''context length''" "contains ''too large'' ''prompt too large''" "contains ''too large'' ''request payload too large''"
    by code_simp+
  show ?thesis using assms by (auto simp: is_context_length_error_def Let_def c [THEN contains_trans])
qed

text \<open>The items of an answer in the Responses format, and \<open>_extract_responses_content_and_tools\<close>.\<close>

datatype answer_item = Answer_Message "string option list" | Answer_Call string string string | Answer_Other

text \<open>Of the parts of a message only those of the type \<open>output_text\<close> have a text here.\<close>

definition answer_text :: "answer_item list \<Rightarrow> string" where
  "answer_text out = concat (map (\<lambda>i. case i of Answer_Message ps \<Rightarrow> concat (map (\<lambda>p. case p of Some s \<Rightarrow> s | None \<Rightarrow> []) ps) | _ \<Rightarrow> []) out)"

definition answer_calls :: "answer_item list \<Rightarrow> tool_call list" where
  "answer_calls out = concat (map (\<lambda>i. case i of
     Answer_Call k n a \<Rightarrow> [\<lparr>call_id = k, fn_name = n, fn_arguments = a\<rparr>] | _ \<Rightarrow> []) out)"

definition extract_responses_content_and_tools :: "answer_item list option \<Rightarrow> string \<times> tool_call list" where
  "extract_responses_content_and_tools out = (case out of Some is \<Rightarrow> (answer_text is, answer_calls is) | None \<Rightarrow> ([], []))"

text \<open>
  A call of a chat's answer, as a dict or an object alike: what stands under \<open>name\<close>, \<open>arguments\<close> and \<open>id\<close> of the call itself, and under
  its \<open>function\<close>, where the services put the first two.
\<close>

record chat_call =
  cc_name :: "string option"
  cc_arguments :: "string option"
  cc_id :: "string option"
  cc_function :: "(string \<times> string) option"

definition or_empty :: "string option \<Rightarrow> string" where
  "or_empty x = (case x of Some s \<Rightarrow> s | None \<Rightarrow> [])"

definition read_chat_call :: "chat_call \<Rightarrow> tool_call" where
  "read_chat_call c = \<lparr>call_id = or_empty (cc_id c), fn_name = or_empty (cc_name c), fn_arguments = or_empty (cc_arguments c)\<rparr>"

text \<open>The names of the tools called, once each in their order, as both providers log them.\<close>

definition called_names :: "tool_call list \<Rightarrow> string list" where
  "called_names tcs = rev (remdups (rev (filter (\<lambda>n. n \<noteq> []) (map fn_name tcs))))"

text \<open>Reading an answer keeps its calls; a call of the chat format in the services' form loses its name and its arguments.\<close>

theorem answer_calls_kept:
  "map call_triple (snd (extract_responses_content_and_tools (Some (map (\<lambda>(k, n, a). Answer_Call k n a) calls)))) = calls"
proof (induction calls)
  case (Cons c cs)
  then show ?case by (cases c) (simp add: extract_responses_content_and_tools_def answer_calls_def call_triple_def)
qed (simp add: extract_responses_content_and_tools_def answer_calls_def)

theorem chat_call_loses_name:
  assumes "cc_name c = None" "cc_arguments c = None"
  shows "fn_name (read_chat_call c) = [] \<and> fn_arguments (read_chat_call c) = []
    \<and> called_names [read_chat_call c] = []"
  using assms by (simp add: read_chat_call_def or_empty_def called_names_def)

end
