(* ===== verification/Cloud_Schema.thy ===== *)
theory Cloud_Schema
  imports Schema_Types "HOL-Library.AList"
begin

text \<open>
  The schema in the cloud: \<open>database/backup/schema_registry.py\<close>, the tables expected there and their declarations, and
  \<open>database/backup/engine/schema_manager.py\<close>, which creates tables, adds and drops columns and rebuilds a table whose column
  types have drifted, as \<open>cloud_engine.py\<close> calls it at startup.
\<close>

section \<open>The registry\<close>

record declared_column =
  dc_name :: string
  dc_type :: string
  dc_notnull :: bool
  dc_pk :: nat

text \<open>
  A declaration as its readers see it: whether it is a virtual table and mentions \<open>vec0\<close>, and the columns that SQLite
  finds in it, \<open>None\<close> if it cannot be executed in a fresh database.
\<close>

record table_decl =
  is_virtual :: bool
  is_vec0 :: bool
  declared :: "declared_column list option"

definition plain_vectors :: table_decl where
  "plain_vectors = \<lparr>is_virtual = False, is_vec0 = False, declared = Some
     [\<lparr>dc_name = ''rowid'', dc_type = ''INTEGER'', dc_notnull = False, dc_pk = 1\<rparr>,
      \<lparr>dc_name = ''embedding'', dc_type = ''BLOB'', dc_notnull = False, dc_pk = 0\<rparr>]\<rparr>"

definition expected_sqlite_tables :: "string list \<Rightarrow> (string \<times> table_decl) list \<Rightarrow> (string \<times> table_decl) list \<Rightarrow> bool \<Rightarrow> (string \<times> table_decl) list" where
  "expected_sqlite_tables persisted all_tables vec_tables vec_available =
     fold (\<lambda>(n, d). AList.update n (if vec_available then d else plain_vectors)) vec_tables
       (fold (\<lambda>n ts. case map_of all_tables n of Some d \<Rightarrow> AList.update n d ts | None \<Rightarrow> ts) persisted [])"

lemma expected_tables_distinct: "distinct (map fst (expected_sqlite_tables persisted all_tables vec_tables vec_available))"
proof -
  have a: "distinct (map fst ts) \<Longrightarrow> distinct (map fst (fold (\<lambda>n ts. case map_of all_tables n of Some d \<Rightarrow> AList.update n d ts | None \<Rightarrow> ts) ns ts))" for ns ts
    by (induction ns arbitrary: ts) (auto split: option.splits simp: distinct_update)
  have b: "distinct (map fst ts) \<Longrightarrow> distinct (map fst (fold (\<lambda>(n, d). AList.update n (if vec_available then d else plain_vectors)) vs ts))" for vs ts
    by (induction vs arbitrary: ts) (auto simp: distinct_update)
  show ?thesis unfolding expected_sqlite_tables_def by (intro a b) simp
qed

text \<open>The columns that may not be null.\<close>

definition non_nullable_columns :: "table_decl option \<Rightarrow> string list" where
  "non_nullable_columns d =
     (case d of None \<Rightarrow> [] | Some d \<Rightarrow> (case declared d of None \<Rightarrow> []
      | Some cs \<Rightarrow> map dc_name (filter (\<lambda>c. dc_notnull c \<and> lower (dc_name c) \<noteq> ''rowid'') cs)))"

type_synonym overrides = "string \<Rightarrow> string option"

text \<open>\<open>SNOWFLAKE_COLUMN_OVERRIDES\<close> by table and lower-case column.\<close>

definition column_overrides :: "string \<Rightarrow> overrides" where
  "column_overrides t =
     (if t = ''sf_quarterly_facts'' then [''is_total'' \<mapsto> ''BOOLEAN'']
      else if t = ''scraped_articles_vec_backup'' then [''embedding'' \<mapsto> ''VECTOR(FLOAT, 1024)''] else (\<lambda>c. None))"

definition expected_type :: "overrides \<Rightarrow> declared_column \<Rightarrow> string" where
  "expected_type ov c = (case ov (lower (dc_name c)) of Some t \<Rightarrow> t | None \<Rightarrow> sqlite_type_to_snowflake (Some (dc_type c)))"

definition expected_snowflake_types :: "overrides \<Rightarrow> table_decl option \<Rightarrow> (string \<times> string) list" where
  "expected_snowflake_types ov d =
     (case d of None \<Rightarrow> [] | Some d \<Rightarrow> (case declared d of None \<Rightarrow> [] | Some cs \<Rightarrow> map (\<lambda>c. (lower (dc_name c), expected_type ov c)) cs))"

section \<open>Declarations for the cloud\<close>

text \<open>The tree of a declaration as the translator gives it: the columns with their types and constraints.\<close>

datatype default_value = Current_Timestamp | Anonymous string | Number_Literal string | Boolean_Literal bool | Other_Default

datatype col_constraint = Default_Is default_value | Other_Constraint

record col_def =
  cd_name :: string
  cd_kind :: string
  cd_constraints :: "col_constraint list"

text \<open>A default of the current time goes, and the number of a column that is to be a truth value becomes one.\<close>

definition rewrite_constraint :: "bool \<Rightarrow> col_constraint \<Rightarrow> col_constraint list" where
  "rewrite_constraint boolean k =
     (case k of
        Default_Is v \<Rightarrow>
          (case v of
             Current_Timestamp \<Rightarrow> []
           | Anonymous n \<Rightarrow> if contains ''current_timestamp'' (lower n) then [] else [k]
           | Number_Literal n \<Rightarrow>
               if boolean \<and> n = ''0'' then [Default_Is (Boolean_Literal False)]
               else if boolean \<and> n = ''1'' then [Default_Is (Boolean_Literal True)] else [k]
           | _ \<Rightarrow> [k])
      | Other_Constraint \<Rightarrow> [k])"

definition boolean_override :: "overrides \<Rightarrow> string \<Rightarrow> bool" where
  "boolean_override ov c = (case ov c of Some t \<Rightarrow> prefix ''BOOLEAN'' (upper t) | None \<Rightarrow> False)"

text \<open>\<open>parse_kind\<close> is the translator's reading of a type, \<open>None\<close> if it has none.\<close>

definition rewrite_column :: "(string \<Rightarrow> string option) \<Rightarrow> overrides \<Rightarrow> col_def \<Rightarrow> col_def" where
  "rewrite_column parse_kind ov c =
     (let n = lower (cd_name c) in
      c\<lparr>cd_kind := (case ov n of Some t \<Rightarrow> (case parse_kind t of Some k \<Rightarrow> k | None \<Rightarrow> cd_kind c) | None \<Rightarrow> cd_kind c),
        cd_constraints := concat (map (rewrite_constraint (boolean_override ov n)) (cd_constraints c))\<rparr>)"

definition bare :: "string \<Rightarrow> string \<Rightarrow> col_def" where
  "bare n k = \<lparr>cd_name = n, cd_kind = k, cd_constraints = []\<rparr>"

definition vector_type :: "nat \<Rightarrow> string" where
  "vector_type dim = ''VECTOR(FLOAT, '' @ digits dim @ '')''"

text \<open>
  What the translator makes of a declaration: a tree, an error while translating, which is outside the guarded part, or
  one while the tree is read and changed, which becomes a \<open>RuntimeError\<close>.
\<close>

datatype translation = Tree "col_def list" | Untranslatable | Unreadable

datatype ddl = Ddl "col_def list" | Ddl_Runtime_Error | Ddl_Raises

definition snowflake_ddl :: "(string \<Rightarrow> translation) \<Rightarrow> (string \<Rightarrow> string option) \<Rightarrow> nat \<Rightarrow> string \<Rightarrow> table_decl \<Rightarrow> ddl" where
  "snowflake_ddl translate parse_kind dim t d =
     (if is_virtual d \<and> is_vec0 d then Ddl [bare ''rowid'' ''NUMBER'', bare ''embedding'' (vector_type dim)]
      else if t = ''scraped_articles_vec_backup''
        then Ddl [bare ''rowid'' ''NUMBER'', bare ''article_id'' ''VARCHAR'', bare ''embedding'' (vector_type dim), bare ''hashed_at'' ''VARCHAR'']
      else (case translate t of
          Tree cs \<Rightarrow> Ddl (map (rewrite_column parse_kind (column_overrides t)) cs)
        | Untranslatable \<Rightarrow> Ddl_Raises
        | Unreadable \<Rightarrow> Ddl_Runtime_Error))"

section \<open>The cloud\<close>

text \<open>
  The columns of each table with the types that \<open>INFORMATION_SCHEMA\<close> reports, and its rows. Unquoted names are
  folded by the service and lowered by the code, so they are lower case here. \<open>reported\<close> is the reported type of a
  declared one.
\<close>

record 'r cloud =
  cl_columns :: "string \<Rightarrow> (string \<times> string) list option"
  cl_rows :: "string \<Rightarrow> 'r list"

datatype cloud_stmt =
    Create_Table string "col_def list"
  | Add_Column string string string
  | Drop_Column string string
  | Drop_Table string

definition created :: "(string \<Rightarrow> string) \<Rightarrow> col_def list \<Rightarrow> (string \<times> string) list" where
  "created reported cs = map (\<lambda>c. (lower (cd_name c), reported (cd_kind c))) cs"

fun exec_cloud :: "(string \<Rightarrow> string) \<Rightarrow> cloud_stmt \<Rightarrow> 'r cloud \<Rightarrow> 'r cloud" where
  "exec_cloud reported (Create_Table t cs) cl =
     (case cl_columns cl t of
        None \<Rightarrow> cl\<lparr>cl_columns := (cl_columns cl)(t := Some (created reported cs)), cl_rows := (cl_rows cl)(t := [])\<rparr>
      | Some _ \<Rightarrow> cl)"
| "exec_cloud reported (Add_Column t c k) cl =
     cl\<lparr>cl_columns := (cl_columns cl)(t := map_option (\<lambda>cs. cs @ [(c, reported k)]) (cl_columns cl t))\<rparr>"
| "exec_cloud reported (Drop_Column t c) cl =
     cl\<lparr>cl_columns := (cl_columns cl)(t := map_option (filter (\<lambda>p. fst p \<noteq> c)) (cl_columns cl t))\<rparr>"
| "exec_cloud reported (Drop_Table t) cl = cl\<lparr>cl_columns := (cl_columns cl)(t := None), cl_rows := (cl_rows cl)(t := [])\<rparr>"

text \<open>A run of statements; \<open>fails\<close> says which the service refuses. A refused drop of a column is logged, any other raises.\<close>

fun run_stmts :: "(cloud_stmt \<Rightarrow> bool) \<Rightarrow> (string \<Rightarrow> string) \<Rightarrow> cloud_stmt list \<Rightarrow> 'r cloud \<Rightarrow> 'r cloud \<times> bool" where
  "run_stmts fails reported [] cl = (cl, True)"
| "run_stmts fails reported (s # ss) cl =
     (if fails s then (case s of Drop_Column t c \<Rightarrow> run_stmts fails reported ss cl | _ \<Rightarrow> (cl, False))
      else run_stmts fails reported ss (exec_cloud reported s cl))"

section \<open>Columns\<close>

text \<open>\<open>_reconcile_columns\<close> and \<open>_add_column\<close>.\<close>

definition desired_columns :: "table_decl \<Rightarrow> declared_column list option" where
  "desired_columns d = (case declared d of Some cs \<Rightarrow> Some cs | None \<Rightarrow> if is_vec0 d then declared plain_vectors else None)"

definition added_type :: "nat \<Rightarrow> string \<Rightarrow> string \<Rightarrow> string" where
  "added_type dim c sqlite_type =
     (if c = ''embedding'' then vector_type dim
      else if contains ''TEXT'' sqlite_type \<or> contains ''CHAR'' sqlite_type then ''VARCHAR''
      else if contains ''REAL'' sqlite_type \<or> contains ''FLOA'' sqlite_type then ''FLOAT''
      else if contains ''BLOB'' sqlite_type then ''BINARY''
      else ''NUMBER'')"

definition column_stmts :: "nat \<Rightarrow> string \<Rightarrow> table_decl \<Rightarrow> string list \<Rightarrow> cloud_stmt list" where
  "column_stmts dim t d existing =
     (case desired_columns d of
        None \<Rightarrow> []
      | Some cs \<Rightarrow>
          map (\<lambda>c. Add_Column t (lower (dc_name c)) (added_type dim (lower (dc_name c)) (upper (dc_type c))))
            (filter (\<lambda>c. lower (dc_name c) \<notin> set existing) cs)
          @ map (Drop_Column t) (filter (\<lambda>c. c \<notin> set (map (lower \<circ> dc_name) cs)) (remdups existing)))"

text \<open>\<open>reconcile\<close>: the statements for one table, \<open>None\<close> where an error leaves the loop.\<close>

definition table_stmts :: "(string \<Rightarrow> table_decl \<Rightarrow> ddl) \<Rightarrow> nat \<Rightarrow> (string \<Rightarrow> (string \<times> string) list option) \<Rightarrow> string \<times> table_decl \<Rightarrow> cloud_stmt list option" where
  "table_stmts ddl_of dim existing td =
     (case existing (fst td) of
        None \<Rightarrow> (case ddl_of (fst td) (snd td) of Ddl cs \<Rightarrow> Some [Create_Table (fst td) cs] | Ddl_Runtime_Error \<Rightarrow> Some [] | Ddl_Raises \<Rightarrow> None)
      | Some cs \<Rightarrow> Some (column_stmts dim (fst td) (snd td) (map fst cs)))"

fun reconcile_tables :: "(cloud_stmt \<Rightarrow> bool) \<Rightarrow> (string \<Rightarrow> string) \<Rightarrow> (string \<Rightarrow> table_decl \<Rightarrow> ddl) \<Rightarrow> nat \<Rightarrow> (string \<Rightarrow> (string \<times> string) list option)
    \<Rightarrow> (string \<times> table_decl) list \<Rightarrow> 'r cloud \<Rightarrow> 'r cloud \<times> bool" where
  "reconcile_tables fails reported ddl_of dim existing [] cl = (cl, True)"
| "reconcile_tables fails reported ddl_of dim existing (td # tds) cl =
     (case table_stmts ddl_of dim existing td of
        None \<Rightarrow> (cl, False)
      | Some ss \<Rightarrow>
          (case run_stmts fails reported ss cl of
             (cl', ok) \<Rightarrow> if ok then reconcile_tables fails reported ddl_of dim existing tds cl' else (cl', False)))"

definition reconcile_cloud :: "(cloud_stmt \<Rightarrow> bool) \<Rightarrow> (string \<Rightarrow> string) \<Rightarrow> (string \<Rightarrow> table_decl \<Rightarrow> ddl) \<Rightarrow> nat
    \<Rightarrow> (string \<times> table_decl) list \<Rightarrow> 'r cloud \<Rightarrow> 'r cloud \<times> bool" where
  "reconcile_cloud fails reported ddl_of dim tables cl = reconcile_tables fails reported ddl_of dim (cl_columns cl) tables cl"

section \<open>Types\<close>

text \<open>The name for a clone, the columns to skip and the constant flag of a plan, which the rebuild does not use, are left out.\<close>

record type_mismatch =
  mm_column :: string
  mm_actual :: string
  mm_expected :: string
  mm_is_pk :: bool

record mismatch_plan =
  mp_table :: string
  mp_mismatches :: "type_mismatch list"
  mp_ddl :: "col_def list"
  mp_pk :: string

definition type_drifted :: "string \<Rightarrow> string \<Rightarrow> bool" where
  "type_drifted expected actual \<longleftrightarrow>
     actual \<noteq> [] \<and> \<not> types_match expected actual
     \<and> \<not> {normalize_snowflake_type expected, normalize_snowflake_type actual} \<subseteq> {''VARCHAR'', ''TEXT''}"

definition actual_type :: "(string \<times> string) list \<Rightarrow> string \<Rightarrow> string" where
  "actual_type existing c = upper (case map_of existing c of Some t \<Rightarrow> upper t | None \<Rightarrow> [])"

definition drifted_columns :: "overrides \<Rightarrow> declared_column list \<Rightarrow> (string \<times> string) list \<Rightarrow> type_mismatch list" where
  "drifted_columns ov cs existing =
     concat (map (\<lambda>c. let a = actual_type existing (lower (dc_name c)); e = expected_type ov c in
       if type_drifted e a then [\<lparr>mm_column = lower (dc_name c), mm_actual = a, mm_expected = upper e, mm_is_pk = (0 < dc_pk c)\<rparr>] else []) cs)"

definition pk_column :: "declared_column list \<Rightarrow> string" where
  "pk_column cs = fold (\<lambda>c k. if 0 < dc_pk c then dc_name c else k) cs ''id''"

text \<open>The plan for one table: \<open>None\<close> is an error that leaves the loop, \<open>Some None\<close> no plan.\<close>

definition table_plan :: "(string \<Rightarrow> table_decl \<Rightarrow> ddl) \<Rightarrow> (string \<Rightarrow> (string \<times> string) list option) \<Rightarrow> string \<times> table_decl \<Rightarrow> mismatch_plan option option" where
  "table_plan ddl_of existing td =
     (case (existing (fst td), declared (snd td)) of
        (Some ex, Some cs) \<Rightarrow>
          (let ms = drifted_columns (column_overrides (fst td)) cs ex in
           if ms = [] then Some None
           else (case ddl_of (fst td) (snd td) of
               Ddl ds \<Rightarrow> Some (Some \<lparr>mp_table = fst td, mp_mismatches = ms, mp_ddl = ds, mp_pk = pk_column cs\<rparr>)
             | Ddl_Runtime_Error \<Rightarrow> Some None
             | Ddl_Raises \<Rightarrow> None))
      | _ \<Rightarrow> Some None)"

fun reconcile_types :: "(string \<Rightarrow> table_decl \<Rightarrow> ddl) \<Rightarrow> (string \<Rightarrow> (string \<times> string) list option) \<Rightarrow> (string \<times> table_decl) list \<Rightarrow> mismatch_plan list option" where
  "reconcile_types ddl_of existing [] = Some []"
| "reconcile_types ddl_of existing (td # tds) =
     (case (table_plan ddl_of existing td, reconcile_types ddl_of existing tds) of
        (Some p, Some ps) \<Rightarrow> Some ((case p of Some p \<Rightarrow> [p] | None \<Rightarrow> []) @ ps)
      | _ \<Rightarrow> None)"

section \<open>Rebuilding\<close>

definition rebuild_batch :: nat where "rebuild_batch = 1000"

text \<open>
  The rows of the local table in batches; \<open>sends k\<close> says whether the transaction of the batch \<open>k\<close> goes through. The result
  has the rows that were inserted and whether all were.
\<close>

function refill :: "(nat \<Rightarrow> bool) \<Rightarrow> nat \<Rightarrow> 'r list \<Rightarrow> 'r list \<times> bool" where
  "refill sends k rows =
     (if rows = [] then ([], True)
      else if sends k then
        (case refill sends (Suc k) (drop rebuild_batch rows) of (ins, ok) \<Rightarrow> (take rebuild_batch rows @ ins, ok))
      else ([], False))"
  by pat_completeness auto
termination by (relation "measure (\<lambda>(sends, k, rows). length rows)") (auto simp: rebuild_batch_def)

declare refill.simps [simp del]

text \<open>
  \<open>rebuild_table\<close>; a local table without columns leaves the new table empty. The rows are taken as they stand: the way of a
  batch through a temporary table changes the form of the embeddings only. The count of rows beforehand only words a warning.
\<close>

definition rebuild_table :: "(cloud_stmt \<Rightarrow> bool) \<Rightarrow> (string \<Rightarrow> string) \<Rightarrow> (string \<Rightarrow> nat \<Rightarrow> bool) \<Rightarrow> (string \<Rightarrow> string list \<times> 'r list) \<Rightarrow> mismatch_plan \<Rightarrow> 'r cloud \<Rightarrow> 'r cloud \<times> bool" where
  "rebuild_table fails reported sends local p cl =
     (case run_stmts fails reported [Drop_Table (mp_table p), Create_Table (mp_table p) (mp_ddl p)] cl of
        (cl1, ok) \<Rightarrow>
          if \<not> ok then (cl1, False)
          else (case local (mp_table p) of (cols, rows) \<Rightarrow>
            if cols = [] then (cl1, True)
            else (case refill (sends (mp_table p)) 0 rows of (ins, done_all) \<Rightarrow>
              (cl1\<lparr>cl_rows := (cl_rows cl1)(mp_table p := cl_rows cl1 (mp_table p) @ ins)\<rparr>, done_all))))"

fun rebuild_tables :: "(cloud_stmt \<Rightarrow> bool) \<Rightarrow> (string \<Rightarrow> string) \<Rightarrow> (string \<Rightarrow> nat \<Rightarrow> bool) \<Rightarrow> (string \<Rightarrow> string list \<times> 'r list) \<Rightarrow> mismatch_plan list \<Rightarrow> 'r cloud \<Rightarrow> 'r cloud \<times> bool" where
  "rebuild_tables fails reported sends local [] cl = (cl, True)"
| "rebuild_tables fails reported sends local (p # ps) cl =
     (case rebuild_table fails reported sends local p cl of
        (cl', ok) \<Rightarrow> if ok then rebuild_tables fails reported sends local ps cl' else (cl', False))"

text \<open>\<open>_do_startup\<close> of the cloud engine.\<close>

definition cloud_startup :: "(cloud_stmt \<Rightarrow> bool) \<Rightarrow> (string \<Rightarrow> string) \<Rightarrow> (string \<Rightarrow> nat \<Rightarrow> bool) \<Rightarrow> (string \<Rightarrow> string list \<times> 'r list) \<Rightarrow> (string \<Rightarrow> table_decl \<Rightarrow> ddl) \<Rightarrow> nat
    \<Rightarrow> (string \<times> table_decl) list \<Rightarrow> 'r cloud \<Rightarrow> 'r cloud \<times> bool" where
  "cloud_startup fails reported sends local ddl_of dim tables cl =
     (case reconcile_cloud fails reported ddl_of dim tables cl of
        (cl1, ok) \<Rightarrow>
          if \<not> ok then (cl1, False)
          else (case reconcile_types ddl_of (cl_columns cl1) tables of
              None \<Rightarrow> (cl1, False)
            | Some plans \<Rightarrow> rebuild_tables fails reported sends local plans cl1))"

section \<open>Reconciling the columns\<close>

fun stmt_table :: "cloud_stmt \<Rightarrow> string" where
  "stmt_table (Create_Table t cs) = t"
| "stmt_table (Add_Column t c k) = t"
| "stmt_table (Drop_Column t c) = t"
| "stmt_table (Drop_Table t) = t"

definition drops_work :: "(cloud_stmt \<Rightarrow> bool) \<Rightarrow> bool" where
  "drops_work fails \<longleftrightarrow> (\<forall>t c. \<not> fails (Drop_Column t c))"

lemma exec_other_table [simp]:
  "t \<noteq> stmt_table s \<Longrightarrow> cl_columns (exec_cloud reported s cl) t = cl_columns cl t"
  "t \<noteq> stmt_table s \<Longrightarrow> cl_rows (exec_cloud reported s cl) t = cl_rows cl t"
  by (cases s; auto split: option.splits)+

lemma run_other_table:
  assumes "list_all (\<lambda>s. stmt_table s = t) ss" "t' \<noteq> t"
  shows "cl_columns (fst (run_stmts fails reported ss cl)) t' = cl_columns cl t' \<and> cl_rows (fst (run_stmts fails reported ss cl)) t' = cl_rows cl t'"
  using assms by (induction ss arbitrary: cl) (auto split: cloud_stmt.splits)

lemma run_append_stmts:
  "run_stmts fails reported (ss @ us) cl = (case run_stmts fails reported ss cl of (cl', ok) \<Rightarrow> if ok then run_stmts fails reported us cl' else (cl', False))"
  by (induction ss arbitrary: cl) (auto split: cloud_stmt.splits)

lemma run_column_adds:
  assumes "run_stmts fails reported (map (\<lambda>c. Add_Column t (n c) (k c)) cs) cl = (cl', True)" "cl_columns cl t = Some ex"
  shows "cl_columns cl' t = Some (ex @ map (\<lambda>c. (n c, reported (k c))) cs) \<and> cl_rows cl' t = cl_rows cl t"
  using assms by (induction cs arbitrary: cl ex) (auto split: if_splits)

lemma run_column_drops:
  assumes "run_stmts fails reported (map (Drop_Column t) ds) cl = (cl', ok)" "drops_work fails" "cl_columns cl t = Some ex"
  shows "ok \<and> cl_columns cl' t = Some (filter (\<lambda>p. fst p \<notin> set ds) ex) \<and> cl_rows cl' t = cl_rows cl t"
  using assms
proof (induction ds arbitrary: cl ex)
  case Nil
  then show ?case by simp
next
  case (Cons d ds)
  then have "run_stmts fails reported (map (Drop_Column t) ds) (exec_cloud reported (Drop_Column t d) cl) = (cl', ok)"
    by (simp add: drops_work_def)
  from Cons.IH [OF this Cons.prems(2), of "filter (\<lambda>p. fst p \<noteq> d) ex"] Cons.prems(3)
  show ?case by (simp add: conj_commute)
qed

text \<open>A table is in order: it has the names that are wanted, or is missing since no declaration could be made.\<close>

definition table_in_order :: "(string \<Rightarrow> table_decl \<Rightarrow> ddl) \<Rightarrow> (string \<Rightarrow> (string \<times> string) list option) \<Rightarrow> string \<times> table_decl \<Rightarrow> bool" where
  "table_in_order ddl_of cols td =
     (case cols (fst td) of
        None \<Rightarrow> ddl_of (fst td) (snd td) = Ddl_Runtime_Error
      | Some ex \<Rightarrow> (case desired_columns (snd td) of None \<Rightarrow> True | Some cs \<Rightarrow> set (map fst ex) = set (map (lower \<circ> dc_name) cs)))"

text \<open>What is relied on of a declaration made for the cloud: its columns have the names of the local ones.\<close>

definition names_kept :: "(string \<Rightarrow> table_decl \<Rightarrow> ddl) \<Rightarrow> string \<times> table_decl \<Rightarrow> bool" where
  "names_kept ddl_of td =
     (case (ddl_of (fst td) (snd td), desired_columns (snd td)) of
        (Ddl ds, Some cs) \<Rightarrow> set (map (lower \<circ> cd_name) ds) = set (map (lower \<circ> dc_name) cs) | _ \<Rightarrow> True)"

lemma conforming_needs_nothing: "table_in_order ddl_of cols td \<Longrightarrow> table_stmts ddl_of dim cols td = Some []"
  by (auto simp: table_in_order_def table_stmts_def column_stmts_def filter_empty_conv split: option.splits)

lemma column_stmts_table: "list_all (\<lambda>s. stmt_table s = t) (column_stmts dim t d existing)"
  by (auto simp: column_stmts_def list_all_iff split: option.splits)

lemma table_stmts_table: "table_stmts ddl_of dim existing td = Some ss \<Longrightarrow> list_all (\<lambda>s. stmt_table s = fst td) ss"
  using column_stmts_table by (auto simp: table_stmts_def split: option.splits ddl.splits)

lemma set_fst_filter: "set (map fst (filter (\<lambda>p. fst p \<notin> D) xs)) = set (map fst xs) - D"
  by auto

lemma columns_reconciled:
  assumes "run_stmts fails reported (column_stmts dim t d (map fst ex)) cl = (cl', True)" "drops_work fails"
    and "cl_columns cl t = Some ex" "desired_columns d = Some cs"
  shows "\<exists>ex'. cl_columns cl' t = Some ex' \<and> set (map fst ex') = set (map (lower \<circ> dc_name) cs) \<and> cl_rows cl' t = cl_rows cl t"
proof -
  let ?adds = "filter (\<lambda>c. lower (dc_name c) \<notin> set (map fst ex)) cs"
  let ?n = "\<lambda>c. lower (dc_name c)" and ?k = "\<lambda>c. added_type dim (lower (dc_name c)) (upper (dc_type c))"
  let ?drops = "filter (\<lambda>c. c \<notin> set (map (lower \<circ> dc_name) cs)) (remdups (map fst ex))"
  obtain cl1 where add: "run_stmts fails reported (map (\<lambda>c. Add_Column t (?n c) (?k c)) ?adds) cl = (cl1, True)"
    and drop: "run_stmts fails reported (map (Drop_Column t) ?drops) cl1 = (cl', True)"
    using assms(1,4) by (auto simp: column_stmts_def run_append_stmts split: prod.splits if_splits)
  let ?ex1 = "ex @ map (\<lambda>c. (?n c, reported (?k c))) ?adds"
  have cl1: "cl_columns cl1 t = Some ?ex1" "cl_rows cl1 t = cl_rows cl t" using run_column_adds [OF add assms(3)] by simp_all
  have cl': "cl_columns cl' t = Some (filter (\<lambda>p. fst p \<notin> set ?drops) ?ex1)" "cl_rows cl' t = cl_rows cl t"
    using run_column_drops [OF drop assms(2) cl1(1)] cl1(2) by simp_all
  have "set (map fst (filter (\<lambda>p. fst p \<notin> set ?drops) ?ex1)) = set (map fst ?ex1) - set ?drops" by (rule set_fst_filter)
  also have "\<dots> = set (map (lower \<circ> dc_name) cs)" by (auto simp: image_iff)
  finally show ?thesis using cl' by blast
qed

lemma table_reconciled:
  assumes "table_stmts ddl_of dim existing td = Some ss" "run_stmts fails reported ss cl = (cl', True)" "drops_work fails"
    and "existing (fst td) = cl_columns cl (fst td)" "names_kept ddl_of td"
  shows "table_in_order ddl_of (cl_columns cl') td \<and> (cl_columns cl (fst td) \<noteq> None \<longrightarrow> cl_rows cl' (fst td) = cl_rows cl (fst td))"
proof (cases "cl_columns cl (fst td)")
  case None
  show ?thesis
  proof (cases "ddl_of (fst td) (snd td)")
    case (Ddl ds)
    then have "cl' = exec_cloud reported (Create_Table (fst td) ds) cl"
      using assms None by (auto simp: table_stmts_def split: if_splits)
    then show ?thesis using None Ddl assms(5)
      by (auto simp: table_in_order_def names_kept_def created_def comp_def image_image split: option.splits)
  next
    case Ddl_Runtime_Error
    then have "cl' = cl" using assms None by (simp add: table_stmts_def)
    then show ?thesis using None Ddl_Runtime_Error by (simp add: table_in_order_def)
  next
    case Ddl_Raises
    then show ?thesis using assms None by (simp add: table_stmts_def)
  qed
next
  case (Some ex)
  then have ss: "ss = column_stmts dim (fst td) (snd td) (map fst ex)" using assms(1,4) by (simp add: table_stmts_def)
  show ?thesis
  proof (cases "desired_columns (snd td)")
    case None
    then have "cl' = cl" using assms(2) ss by (simp add: column_stmts_def)
    then show ?thesis using None by (simp add: table_in_order_def Some)
  next
    case (Some cs)
    from columns_reconciled [OF assms(2) [unfolded ss] assms(3) \<open>cl_columns cl (fst td) = Some ex\<close> Some]
    show ?thesis using Some by (auto simp: table_in_order_def)
  qed
qed

lemma table_in_order_local: "cols (fst td) = cols' (fst td) \<Longrightarrow> table_in_order ddl_of cols td = table_in_order ddl_of cols' td"
  by (simp add: table_in_order_def)

lemma tables_reconciled:
  assumes "reconcile_tables fails reported ddl_of dim existing tds cl = (cl', True)" "drops_work fails" "distinct (map fst tds)"
    and "list_all (names_kept ddl_of) tds" "list_all (\<lambda>td. existing (fst td) = cl_columns cl (fst td)) tds"
  shows "list_all (table_in_order ddl_of (cl_columns cl')) tds \<and> (\<forall>t. t \<notin> set (map fst tds) \<longrightarrow> cl_columns cl' t = cl_columns cl t)
    \<and> (\<forall>t. t \<notin> set (map fst tds) \<or> cl_columns cl t \<noteq> None \<longrightarrow> cl_rows cl' t = cl_rows cl t)"
  using assms
proof (induction tds arbitrary: cl)
  case Nil
  then show ?case by simp
next
  case (Cons td tds)
  obtain ss cl1 where ss: "table_stmts ddl_of dim existing td = Some ss" "run_stmts fails reported ss cl = (cl1, True)"
    and rest: "reconcile_tables fails reported ddl_of dim existing tds cl1 = (cl', True)"
    using Cons.prems(1) by (auto split: option.splits prod.splits if_splits)
  have other: "cl_columns cl1 t = cl_columns cl t \<and> cl_rows cl1 t = cl_rows cl t" if "t \<noteq> fst td" for t
    using run_other_table [OF table_stmts_table [OF ss(1)] that, of fails reported cl] ss(2) by simp
  have here: "table_in_order ddl_of (cl_columns cl1) td" "cl_columns cl (fst td) \<noteq> None \<longrightarrow> cl_rows cl1 (fst td) = cl_rows cl (fst td)"
    using table_reconciled [OF ss Cons.prems(2)] Cons.prems(4,5) by simp_all
  have notin: "fst td \<notin> set (map fst tds)" using Cons.prems(3) by simp
  have "list_all (\<lambda>td. existing (fst td) = cl_columns cl1 (fst td)) tds"
    using Cons.prems(5) notin other unfolding list_all_iff by (metis image_eqI list.set_intros(2) list.set_map)
  then have IH: "list_all (table_in_order ddl_of (cl_columns cl')) tds" "\<forall>t. t \<notin> set (map fst tds) \<longrightarrow> cl_columns cl' t = cl_columns cl1 t"
    "\<forall>t. t \<notin> set (map fst tds) \<or> cl_columns cl1 t \<noteq> None \<longrightarrow> cl_rows cl' t = cl_rows cl1 t"
    using Cons.IH [OF rest Cons.prems(2)] Cons.prems(3,4) by simp_all
  have "table_in_order ddl_of (cl_columns cl') td" using here(1) IH(2) notin table_in_order_local by metis
  moreover have "cl_rows cl' t = cl_rows cl t" if "t \<notin> set (map fst (td # tds)) \<or> cl_columns cl t \<noteq> None" for t
    using that IH(3) here(2) other notin by (cases "t = fst td") (force, metis list.set_intros(2) list.simps(9))
  ultimately show ?case using IH(1,2) other by simp
qed

lemma reconcile_idle:
  assumes "list_all (\<lambda>td. table_stmts ddl_of dim existing td = Some []) tds"
  shows "reconcile_tables fails reported ddl_of dim existing tds cl = (cl, True)"
  using assms by (induction tds) simp_all

text \<open>
  A reconciliation of the cloud that ends leaves every expected table with exactly the columns that are wanted, or
  without a table where no declaration could be made, loses no row, touches no other table, and a second one does nothing.
\<close>

theorem cloud_reconciled:
  assumes "reconcile_cloud fails reported ddl_of dim tables cl = (cl', True)" "drops_work fails"
    and "distinct (map fst tables)" "list_all (names_kept ddl_of) tables"
  shows "list_all (table_in_order ddl_of (cl_columns cl')) tables
    \<and> (\<forall>t. t \<notin> set (map fst tables) \<longrightarrow> cl_columns cl' t = cl_columns cl t)
    \<and> (\<forall>t. t \<notin> set (map fst tables) \<or> cl_columns cl t \<noteq> None \<longrightarrow> cl_rows cl' t = cl_rows cl t)
    \<and> reconcile_cloud fails' reported ddl_of dim tables cl' = (cl', True)"
proof -
  have facts: "list_all (table_in_order ddl_of (cl_columns cl')) tables \<and> (\<forall>t. t \<notin> set (map fst tables) \<longrightarrow> cl_columns cl' t = cl_columns cl t)
    \<and> (\<forall>t. t \<notin> set (map fst tables) \<or> cl_columns cl t \<noteq> None \<longrightarrow> cl_rows cl' t = cl_rows cl t)"
    by (rule tables_reconciled [OF assms(1) [unfolded reconcile_cloud_def] assms(2-4)]) (simp add: list_all_iff)
  moreover from facts have "list_all (\<lambda>td. table_stmts ddl_of dim (cl_columns cl') td = Some []) tables"
    using conforming_needs_nothing [of ddl_of "cl_columns cl'"] by (simp add: list_all_iff)
  ultimately show ?thesis by (simp add: reconcile_cloud_def reconcile_idle)
qed

section \<open>Types and rebuilding\<close>

text \<open>What is relied on of a declaration made for the cloud and of the reported types: a new table shows no drift.\<close>

definition types_kept :: "(string \<Rightarrow> string) \<Rightarrow> (string \<Rightarrow> table_decl \<Rightarrow> ddl) \<Rightarrow> string \<times> table_decl \<Rightarrow> bool" where
  "types_kept reported ddl_of td =
     (case (ddl_of (fst td) (snd td), declared (snd td)) of
        (Ddl ds, Some cs) \<Rightarrow> drifted_columns (column_overrides (fst td)) cs (created reported ds) = [] | _ \<Rightarrow> True)"

lemma plans_by_table:
  assumes "reconcile_types ddl_of existing tds = Some ps" "distinct (map fst tds)"
  shows "distinct (map mp_table ps) \<and> set (map mp_table ps) \<subseteq> set (map fst tds)
    \<and> (\<forall>td \<in> set tds. map_of (map (\<lambda>p. (mp_table p, mp_ddl p)) ps) (fst td) = (case table_plan ddl_of existing td of Some (Some p) \<Rightarrow> Some (mp_ddl p) | _ \<Rightarrow> None))"
  using assms
proof (induction tds arbitrary: ps)
  case Nil
  then show ?case by simp
next
  case (Cons td tds)
  obtain q qs where q: "table_plan ddl_of existing td = Some q" "reconcile_types ddl_of existing tds = Some qs"
    and ps: "ps = (case q of Some p \<Rightarrow> [p] | None \<Rightarrow> []) @ qs"
    using Cons.prems(1) by (auto split: option.splits)
  have IH: "distinct (map mp_table qs)" "set (map mp_table qs) \<subseteq> set (map fst tds)"
    "\<forall>td \<in> set tds. map_of (map (\<lambda>p. (mp_table p, mp_ddl p)) qs) (fst td) = (case table_plan ddl_of existing td of Some (Some p) \<Rightarrow> Some (mp_ddl p) | _ \<Rightarrow> None)"
    using Cons.IH [OF q(2)] Cons.prems(2) by simp_all
  have notin: "fst td \<notin> set (map fst tds)" using Cons.prems(2) by simp
  then have fresh: "fst td \<notin> set (map mp_table qs)" using IH(2) by blast
  then have none: "map_of (map (\<lambda>p. (mp_table p, mp_ddl p)) qs) (fst td) = None" by (simp add: map_of_eq_None_iff image_image)
  have other: "fst t \<noteq> fst td" if "t \<in> set tds" for t using that notin by (metis image_eqI list.set_map)
  show ?case
  proof (cases q)
    case None
    then show ?thesis using IH ps q(1) none by auto
  next
    case (Some p)
    have p: "mp_table p = fst td" using q(1) Some by (auto simp: table_plan_def Let_def split: option.splits if_splits ddl.splits)
    have "map_of (map (\<lambda>p. (mp_table p, mp_ddl p)) ps) (fst t) = (case table_plan ddl_of existing t of Some (Some p) \<Rightarrow> Some (mp_ddl p) | _ \<Rightarrow> None)"
      if "t \<in> set (td # tds)" for t
    proof (cases "t = td")
      case True
      then show ?thesis using q(1) Some ps p by simp
    next
      case False
      then have t: "t \<in> set tds" using that by simp
      then have "map_of (map (\<lambda>p. (mp_table p, mp_ddl p)) ps) (fst t) = map_of (map (\<lambda>p. (mp_table p, mp_ddl p)) qs) (fst t)"
        using other Some ps p by simp
      then show ?thesis using IH(3) t by simp
    qed
    moreover have "distinct (map mp_table ps) \<and> set (map mp_table ps) \<subseteq> set (map fst (td # tds))" using IH(1,2) fresh Some ps p by auto
    ultimately show ?thesis by blast
  qed
qed

lemma table_rebuilt:
  assumes "rebuild_table fails reported sends local p cl = (cl', True)"
  shows "cl_columns cl' (mp_table p) = Some (created reported (mp_ddl p)) \<and> (\<forall>t. t \<noteq> mp_table p \<longrightarrow> cl_columns cl' t = cl_columns cl t \<and> cl_rows cl' t = cl_rows cl t)"
  using assms by (auto simp: rebuild_table_def split: if_splits prod.splits option.splits)

lemma tables_rebuilt:
  assumes "rebuild_tables fails reported sends local ps cl = (cl', True)" "distinct (map mp_table ps)"
  shows "cl_columns cl' t = (case map_of (map (\<lambda>p. (mp_table p, mp_ddl p)) ps) t of Some ds \<Rightarrow> Some (created reported ds) | None \<Rightarrow> cl_columns cl t)"
  using assms
proof (induction ps arbitrary: cl)
  case Nil
  then show ?case by simp
next
  case (Cons p ps)
  obtain cl1 where one: "rebuild_table fails reported sends local p cl = (cl1, True)" and rest: "rebuild_tables fails reported sends local ps cl1 = (cl', True)"
    using Cons.prems(1) by (auto split: prod.splits if_splits)
  have IH: "cl_columns cl' t = (case map_of (map (\<lambda>p. (mp_table p, mp_ddl p)) ps) t of Some ds \<Rightarrow> Some (created reported ds) | None \<Rightarrow> cl_columns cl1 t)"
    using Cons.IH [OF rest] Cons.prems(2) by simp
  show ?case
  proof (cases "t = mp_table p")
    case True
    then have "map_of (map (\<lambda>p. (mp_table p, mp_ddl p)) ps) t = None" using Cons.prems(2) by (simp add: map_of_eq_None_iff image_image)
    then show ?thesis using IH True table_rebuilt [OF one] by simp
  next
    case False
    then show ?thesis using IH table_rebuilt [OF one] by (simp split: option.splits)
  qed
qed

lemma reconcile_types_none: "list_all (\<lambda>td. table_plan ddl_of existing td = Some None) tds \<Longrightarrow> reconcile_types ddl_of existing tds = Some []"
  by (induction tds) simp_all

lemma table_plan_cases:
  assumes "table_plan ddl_of existing td = Some (Some p)"
  obtains cs ex where "declared (snd td) = Some cs" "existing (fst td) = Some ex" "ddl_of (fst td) (snd td) = Ddl (mp_ddl p)" "mp_table p = fst td"
  using assms by (auto simp: table_plan_def Let_def split: option.splits if_splits ddl.splits)

lemma rebuilt_has_no_plan:
  assumes "ddl_of (fst td) (snd td) = Ddl ds" "types_kept reported ddl_of td" "cols (fst td) = Some (created reported ds)"
  shows "table_plan ddl_of cols td = Some None"
  using assms by (auto simp: table_plan_def types_kept_def Let_def split: option.splits)


text \<open>The registered vector tables, with a translator that is never asked.\<close>

definition vec_backup_decl :: table_decl where
  "vec_backup_decl = \<lparr>is_virtual = False, is_vec0 = False, declared = Some
     [\<lparr>dc_name = ''rowid'', dc_type = ''INTEGER'', dc_notnull = False, dc_pk = 1\<rparr>,
      \<lparr>dc_name = ''article_id'', dc_type = ''TEXT'', dc_notnull = True, dc_pk = 0\<rparr>,
      \<lparr>dc_name = ''embedding'', dc_type = ''BLOB'', dc_notnull = True, dc_pk = 0\<rparr>,
      \<lparr>dc_name = ''hashed_at'', dc_type = ''TEXT'', dc_notnull = True, dc_pk = 0\<rparr>]\<rparr>"

definition vec_decl :: table_decl where
  "vec_decl = \<lparr>is_virtual = True, is_vec0 = True, declared = None\<rparr>"

definition demo_tables :: "(string \<times> table_decl) list" where
  "demo_tables = [(''scraped_articles_vec_backup'', vec_backup_decl), (''scraped_articles_vec'', vec_decl)]"

definition demo_ddl :: "string \<Rightarrow> table_decl \<Rightarrow> ddl" where
  "demo_ddl = snowflake_ddl (\<lambda>t. Unreadable) Some 1024"

definition demo_cloud :: "nat cloud" where
  "demo_cloud = \<lparr>cl_columns = [''scraped_articles_vec_backup'' \<mapsto> [(''rowid'', ''NUMBER''), (''article_id'', ''TEXT''), (''embedding'', ''BINARY''), (''old'', ''TEXT'')]],
     cl_rows = (\<lambda>t. [])\<rparr>"

theorem cloud_reconciled_witness:
  "list_all (table_in_order demo_ddl (cl_columns (fst (reconcile_cloud (\<lambda>s. False) normalize_snowflake_type demo_ddl 1024 demo_tables demo_cloud)))) demo_tables"
proof -
  let ?r = "reconcile_cloud (\<lambda>s. False) normalize_snowflake_type demo_ddl 1024 demo_tables demo_cloud"
  have "snd ?r" by code_simp
  then have r: "?r = (fst ?r, True)" by (metis prod.collapse)
  have "drops_work (\<lambda>s. False)" by (simp add: drops_work_def)
  moreover have "distinct (map fst demo_tables)" "list_all (names_kept demo_ddl) demo_tables" by code_simp+
  ultimately show ?thesis using cloud_reconciled [OF r] by blast
qed


section \<open>The rows of a rebuilt table\<close>

lemma refill_spec:
  "\<exists>j. (\<forall>i < j. sends (k + i)) \<and> (if snd (refill sends k rows) then length rows \<le> j * rebuild_batch else j * rebuild_batch < length rows \<and> \<not> sends (k + j))
     \<and> fst (refill sends k rows) = take (j * rebuild_batch) rows"
proof (induction sends k rows rule: refill.induct)
  case (1 sends k rows)
  show ?case
  proof (cases "rows = [] \<or> \<not> sends k")
    case True
    then show ?thesis by (intro exI [of _ 0]) (auto simp: refill.simps [of sends k rows])
  next
    case False
    obtain ins ok where rest: "refill sends (Suc k) (drop rebuild_batch rows) = (ins, ok)" by fastforce
    then have here: "refill sends k rows = (take rebuild_batch rows @ ins, ok)" using False by (simp add: refill.simps [of sends k rows])
    obtain j where j: "\<forall>i < j. sends (Suc k + i)"
      "if ok then length (drop rebuild_batch rows) \<le> j * rebuild_batch else j * rebuild_batch < length (drop rebuild_batch rows) \<and> \<not> sends (Suc k + j)"
      "ins = take (j * rebuild_batch) (drop rebuild_batch rows)"
      using 1 False rest by fastforce
    have "take (Suc j * rebuild_batch) rows = take rebuild_batch rows @ ins" using j(3) by (simp add: take_add)
    moreover have "sends (k + i)" if "i < Suc j" for i using that j(1) False by (cases i) auto
    moreover have "if ok then length rows \<le> Suc j * rebuild_batch else Suc j * rebuild_batch < length rows \<and> \<not> sends (k + Suc j)"
      using j(2) by (auto split: if_splits)
    ultimately show ?thesis using here by (intro exI [of _ "Suc j"]) simp
  qed
qed

lemma rebuilt_rows:
  assumes "rebuild_table fails reported sends local p cl = (cl', ok)" "list_all (\<lambda>s. \<not> fails s) [Drop_Table (mp_table p), Create_Table (mp_table p) (mp_ddl p)]"
    and "local (mp_table p) = (cols, rows)" "cols \<noteq> []"
  shows "cl_columns cl' (mp_table p) = Some (created reported (mp_ddl p)) \<and> cl_rows cl' (mp_table p) = fst (refill (sends (mp_table p)) 0 rows)
    \<and> ok = snd (refill (sends (mp_table p)) 0 rows)"
  using assms by (auto simp: rebuild_table_def split: prod.splits)

text \<open>
  A table whose types have drifted is rebuilt with all rows of the local one, in their order, if every batch goes through.
\<close>

theorem rebuild_copies_all:
  assumes "rebuild_table fails reported sends local p cl = (cl', True)" "list_all (\<lambda>s. \<not> fails s) [Drop_Table (mp_table p), Create_Table (mp_table p) (mp_ddl p)]"
    and "local (mp_table p) = (cols, rows)" "cols \<noteq> []"
  shows "cl_rows cl' (mp_table p) = rows"
  using rebuilt_rows [OF assms] refill_spec [of "sends (mp_table p)" 0 rows] by (auto split: if_splits)

text \<open>
  A rebuild whose batch fails has lost the rows from that batch on, and no later startup looks at the table again: its
  columns are in order, so there is no plan to rebuild it.
\<close>

theorem interrupted_rebuild_is_final:
  assumes "rebuild_table fails reported sends local p cl = (cl', False)" "list_all (\<lambda>s. \<not> fails s) [Drop_Table (mp_table p), Create_Table (mp_table p) (mp_ddl p)]"
    and "local (mp_table p) = (cols, rows)" "cols \<noteq> []"
    and "table_plan ddl_of existing td = Some (Some p)" "types_kept reported ddl_of td"
  shows "(\<exists>j. \<not> sends (mp_table p) j \<and> j * rebuild_batch < length rows \<and> cl_rows cl' (mp_table p) = take (j * rebuild_batch) rows)
    \<and> table_plan ddl_of (cl_columns cl') td = Some None"
proof
  have new: "cl_columns cl' (mp_table p) = Some (created reported (mp_ddl p))" using rebuilt_rows [OF assms(1-4)] by simp
  show "\<exists>j. \<not> sends (mp_table p) j \<and> j * rebuild_batch < length rows \<and> cl_rows cl' (mp_table p) = take (j * rebuild_batch) rows"
    using rebuilt_rows [OF assms(1-4)] refill_spec [of "sends (mp_table p)" 0 rows] by auto
  show "table_plan ddl_of (cl_columns cl') td = Some None"
    using table_plan_cases [OF assms(5)] rebuilt_has_no_plan [of ddl_of td "mp_ddl p" reported "cl_columns cl'"] assms(6) new by metis
qed

section \<open>Declarations made for the cloud\<close>

text \<open>
  What is relied on of the translator: it keeps the columns in their order with their names, and the service reports its
  types as the map of declared types gives them; and a type that is set by hand is read as such.
\<close>

definition translates_well :: "(string \<Rightarrow> string) \<Rightarrow> declared_column list \<Rightarrow> col_def list \<Rightarrow> bool" where
  "translates_well reported cs ds \<longleftrightarrow>
     list_all2 (\<lambda>c d. lower (cd_name d) = lower (dc_name c)
       \<and> \<not> type_drifted (sqlite_type_to_snowflake (Some (dc_type c))) (upper (upper (reported (cd_kind d))))) cs ds"

definition overrides_read :: "(string \<Rightarrow> string) \<Rightarrow> (string \<Rightarrow> string option) \<Rightarrow> bool" where
  "overrides_read reported parse_kind \<longleftrightarrow>
     list_all (\<lambda>t. case parse_kind t of Some k \<Rightarrow> \<not> type_drifted t (upper (upper (reported k))) | None \<Rightarrow> False)
       [''BOOLEAN'', ''VECTOR(FLOAT, 1024)'']"

lemma override_values: "column_overrides t c = Some o' \<Longrightarrow> o' \<in> {''BOOLEAN'', ''VECTOR(FLOAT, 1024)''}"
  by (auto simp: column_overrides_def split: if_splits)

lemma rewrite_column_name [simp]: "cd_name (rewrite_column pk ov d) = cd_name d"
  by (simp add: rewrite_column_def Let_def)

lemma rewritten_type:
  assumes "lower (cd_name d) = lower (dc_name c)" "\<not> type_drifted (sqlite_type_to_snowflake (Some (dc_type c))) (upper (upper (reported (cd_kind d))))"
    and "overrides_read reported parse_kind"
  shows "\<not> type_drifted (expected_type (column_overrides t) c) (upper (upper (reported (cd_kind (rewrite_column parse_kind (column_overrides t) d)))))"
proof (cases "column_overrides t (lower (dc_name c))")
  case None
  then show ?thesis using assms(1,2) by (simp add: expected_type_def rewrite_column_def Let_def)
next
  case (Some ty)
  then obtain k where "parse_kind ty = Some k" "\<not> type_drifted ty (upper (upper (reported k)))"
    using override_values [OF Some] assms(3) by (auto simp: overrides_read_def split: option.splits)
  then show ?thesis using assms(1) Some by (simp add: expected_type_def rewrite_column_def Let_def)
qed

lemma created_types:
  assumes "list_all2 (\<lambda>c d. lower (cd_name d) = lower (dc_name c) \<and> \<not> type_drifted (e c) (upper (upper (reported (cd_kind d))))) cs ds"
    and "distinct (map (lower \<circ> dc_name) cs)" "c \<in> set cs"
  shows "\<not> type_drifted (e c) (actual_type (created reported ds) (lower (dc_name c)))"
  using assms
proof (induction cs ds rule: list_all2_induct)
  case Nil
  then show ?case by simp
next
  case (Cons x xs d ds)
  show ?case
  proof (cases "c = x")
    case True
    then show ?thesis using Cons.hyps(1) by (simp add: created_def actual_type_def)
  next
    case False
    then have c: "c \<in> set xs" using Cons.prems by simp
    have "lower (dc_name c) \<in> set (map (lower \<circ> dc_name) xs)" using imageI [OF c, of "lower \<circ> dc_name"] by simp
    moreover have "lower (dc_name x) \<notin> set (map (lower \<circ> dc_name) xs)" using Cons.prems(1) by (simp only: list.map distinct.simps comp_def) blast
    ultimately have "lower (dc_name c) \<noteq> lower (dc_name x)" by metis
    then have "actual_type (created reported (d # ds)) (lower (dc_name c)) = actual_type (created reported ds) (lower (dc_name c))"
      using Cons.hyps(1) by (simp add: created_def actual_type_def)
    then show ?thesis using Cons.IH Cons.prems c by simp
  qed
qed

text \<open>
  The declaration that is made for an ordinary table is faithful: with a translator that keeps names and types the new
  table in the cloud has the names of the local one and shows no drift of a type, overridden types included.
\<close>

theorem declaration_faithful:
  assumes "translate t = Tree ds" "declared d = Some cs" "\<not> (is_virtual d \<and> is_vec0 d)" "t \<noteq> ''scraped_articles_vec_backup''"
    and "translates_well reported cs ds" "overrides_read reported parse_kind" "distinct (map (lower \<circ> dc_name) cs)"
  shows "names_kept (snowflake_ddl translate parse_kind dim) (t, d) \<and> types_kept reported (snowflake_ddl translate parse_kind dim) (t, d)"
proof
  let ?ds = "map (rewrite_column parse_kind (column_overrides t)) ds"
  have ddl: "snowflake_ddl translate parse_kind dim t d = Ddl ?ds" using assms(1,3,4) by (auto simp: snowflake_ddl_def)
  have "map (lower \<circ> cd_name) ds = map (lower \<circ> dc_name) cs"
    using assms(5) unfolding translates_well_def by (induction cs ds rule: list_all2_induct) simp_all
  then have "map (lower \<circ> cd_name) ?ds = map (lower \<circ> dc_name) cs" by (simp add: comp_def)
  then have "set (map (lower \<circ> cd_name) ?ds) = set (map (lower \<circ> dc_name) cs)" by (rule arg_cong)
  then show "names_kept (snowflake_ddl translate parse_kind dim) (t, d)"
    using assms(2) ddl by (simp add: names_kept_def desired_columns_def)
  have "list_all2 (\<lambda>c d. lower (cd_name d) = lower (dc_name c) \<and> \<not> type_drifted (expected_type (column_overrides t) c) (upper (upper (reported (cd_kind d))))) cs ?ds"
    using assms(5) rewritten_type [OF _ _ assms(6)] unfolding translates_well_def list_all2_map2 by (auto elim!: list_all2_mono)
  then have "\<not> type_drifted (expected_type (column_overrides t) c) (actual_type (created reported ?ds) (lower (dc_name c)))" if "c \<in> set cs" for c
    using created_types assms(7) that by blast
  then show "types_kept reported (snowflake_ddl translate parse_kind dim) (t, d)"
    using assms(2) ddl by (simp add: types_kept_def drifted_columns_def Let_def)
qed

text \<open>A declaration never keeps a default of the current time.\<close>

theorem no_current_timestamp:
  "Default_Is Current_Timestamp \<notin> set (cd_constraints (rewrite_column parse_kind ov c))"
  by (auto simp: rewrite_column_def Let_def rewrite_constraint_def split: col_constraint.splits default_value.splits if_splits)

text \<open>
  An error of the translator itself, which is raised outside the guarded part, ends the whole reconciliation, though one
  bad table was to be skipped.
\<close>

theorem untranslatable_table_stops:
  assumes "(t, d) \<in> set tables" "distinct (map fst tables)" "cl_columns cl t = None" "snowflake_ddl translate parse_kind dim t d = Ddl_Raises"
  shows "\<not> snd (cloud_startup fails reported sends local (snowflake_ddl translate parse_kind dim) dim tables cl)"
proof -
  have "\<not> snd (reconcile_tables fails reported (snowflake_ddl translate parse_kind dim) dim existing tds cl')"
    if "(t, d) \<in> set tds" "existing t = None" for tds and cl' :: "'r cloud" and existing :: "string \<Rightarrow> (string \<times> string) list option"
    using that
  proof (induction tds arbitrary: cl')
    case (Cons td tds)
    then show ?case
      by (cases "td = (t, d)") (auto simp: table_stmts_def assms(4) split: option.splits prod.splits)
  qed simp
  from this [OF assms(1), of "cl_columns cl" cl] assms(3) show ?thesis
    by (auto simp: cloud_startup_def reconcile_cloud_def split: prod.splits)
qed

text \<open>
  An added column is typed by another table than the one the check of types uses: they agree on the plain types, but not on
  the other names SQLite knows, nor on a type set by hand, and then the table is rebuilt in the same startup.
\<close>

theorem plain_types_agree:
  "list_all (\<lambda>t. added_type 1024 ''c'' t = sqlite_type_to_snowflake (Some t)) [''INTEGER'', ''TEXT'', ''REAL'', ''BLOB'', ''VARCHAR(20)'', ''BOOLEAN'', ''NUMERIC'']"
  by code_simp

theorem added_column_drifts:
  "list_all (\<lambda>t. type_drifted (sqlite_type_to_snowflake (Some t)) (normalize_snowflake_type (added_type 1024 ''c'' t))) [''CLOB'', ''DOUBLE'', []]
    \<and> type_drifted (the (column_overrides ''sf_quarterly_facts'' ''is_total'')) (normalize_snowflake_type (added_type 1024 ''is_total'' ''INTEGER''))"
  by code_simp

section \<open>Parameters\<close>

text \<open>
  \<open>_sanitize_value\<close> of \<open>database/backup/engine/type_sanitizer.py\<close> on the Python, \<open>numpy\<close> and \<open>pandas\<close> values; a finite float is a \<open>'f\<close>,
  and the readings of the two clock types are arguments.
\<close>

datatype 'f real_number = Finite 'f | Nan | Inf

datatype 'f param_value =
    Py_None | Py_Bool bool | Py_Int int | Py_Float "'f real_number" | Py_Text string | Py_Datetime string | Py_Decimal "'f real_number"
  | Np_Bool bool | Np_Int int | Np_Float "'f real_number" | Np_Datetime string | Np_Timedelta 'f
  | Pd_Timestamp string | Pd_Missing

definition sanitize_value :: "'f param_value \<Rightarrow> 'f param_value" where
  "sanitize_value v =
     (case v of
        Py_Bool b \<Rightarrow> Py_Int (of_bool b)
      | Np_Bool b \<Rightarrow> Py_Int (of_bool b)
      | Pd_Timestamp s \<Rightarrow> Py_Datetime s
      | Pd_Missing \<Rightarrow> Py_None
      | Np_Datetime s \<Rightarrow> Py_Datetime s
      | Np_Timedelta s \<Rightarrow> Py_Float (Finite s)
      | Np_Int i \<Rightarrow> Py_Int i
      | Np_Float x \<Rightarrow> (case x of Finite f \<Rightarrow> Py_Float (Finite f) | _ \<Rightarrow> Py_None)
      | Py_Decimal x \<Rightarrow> (case x of Nan \<Rightarrow> Py_None | _ \<Rightarrow> Py_Float x)
      | _ \<Rightarrow> v)"

definition sanitize_snowflake_params :: "(string \<times> 'f param_value) list list \<Rightarrow> (string \<times> 'f param_value) list list" where
  "sanitize_snowflake_params records = map (map (\<lambda>(k, v). (k, sanitize_value v))) records"

fun bindable :: "'f param_value \<Rightarrow> bool" where
  "bindable Py_None = True"
| "bindable (Py_Int i) = True"
| "bindable (Py_Float x) = True"
| "bindable (Py_Text s) = True"
| "bindable (Py_Datetime s) = True"
| "bindable v = False"

lemma bindable_stays: "bindable v \<Longrightarrow> sanitize_value v = v"
  by (cases v) (simp_all add: sanitize_value_def)

text \<open>Every parameter becomes a plain Python value and a second pass changes nothing; but only a \<open>numpy\<close> NaN becomes null.\<close>

theorem sanitized_is_bindable: "bindable (sanitize_value v) \<and> sanitize_value (sanitize_value v) = sanitize_value v"
proof -
  have "bindable (sanitize_value v)" by (cases v) (auto simp: sanitize_value_def split: real_number.splits)
  then show ?thesis using bindable_stays by blast
qed

theorem python_nan_stays: "sanitize_value (Py_Float Nan) = Py_Float Nan \<and> sanitize_value (Np_Float Nan) = Py_None"
  by (simp add: sanitize_value_def)

end
