(* ===== verification/Stock_Facts.thy ===== *)
theory Stock_Facts
  imports Prelude "HOL-Library.Char_ord" "HOL-Library.List_Lexorder" "HOL-Library.Option_ord"
begin

text \<open>
  The quarterly facts of \<open>tools/stock_financials\<close>: \<open>extractor.py\<close>, which makes quarters of the facts a company reports, its
  table \<open>sf_quarterly_facts\<close>, \<open>query.py\<close> and the renderers of \<open>summary.py\<close>.
\<close>

section \<open>Facts and frames\<close>

text \<open>
  A row of a frame. A missing value is \<open>None\<close>; values are of a group \<open>'v\<close>, since floats are only subtracted, and their rounding
  is left out.
\<close>

record 'v sf_fact =
  fa_concept :: string
  fa_start :: string
  fa_end :: string
  fa_period :: string
  fa_year :: int
  fa_value :: "'v option"
  fa_unit :: string
  fa_kind :: string
  fa_quarter :: string
  fa_label :: string
  fa_depth :: int
  fa_is_total :: bool
  fa_order :: nat

text \<open>The reading of a date: its year, its month and the number of its day, \<open>None\<close> where it is none.\<close>

type_synonym date_reader = "string \<Rightarrow> (int \<times> int \<times> int) option"

definition day_of :: "date_reader \<Rightarrow> string \<Rightarrow> int option" where
  "day_of reads s = map_option (\<lambda>(y, m, d). d) (reads s)"

definition duration :: "date_reader \<Rightarrow> 'v sf_fact \<Rightarrow> int option" where
  "duration reads f = (case (day_of reads (fa_start f), day_of reads (fa_end f)) of (Some a, Some b) \<Rightarrow> Some (b - a) | _ \<Rightarrow> None)"

text \<open>\<open>drop_duplicates(keep="first")\<close> by a key, and \<open>unique()\<close>.\<close>

fun first_by :: "('a \<Rightarrow> 'k) \<Rightarrow> 'a list \<Rightarrow> 'a list" where
  "first_by k [] = []"
| "first_by k (x # xs) = x # first_by k (filter (\<lambda>y. k y \<noteq> k x) xs)"

definition uniques :: "'a list \<Rightarrow> 'a list" where
  "uniques xs = first_by id xs"

section \<open>Quarters\<close>

definition quarter_label :: "date_reader \<Rightarrow> string \<Rightarrow> string \<Rightarrow> string" where
  "quarter_label reads period_end fiscal_period =
     (if period_end = [] then ''Unknown''
      else (case reads period_end of
          None \<Rightarrow> period_end @ ''-'' @ fiscal_period
        | Some (y, m, d) \<Rightarrow> show_int (if fiscal_period = ''Q4'' \<and> m \<le> 3 then y - 1 else y) @ ''-'' @ fiscal_period))"

text \<open>Twice the median of the days on which the rows of a quarter end, so that it is a whole number.\<close>

definition twice_median :: "int list \<Rightarrow> int" where
  "twice_median xs = (let s = sort xs; n = length xs in s ! ((n - 1) div 2) + s ! (n div 2))"

definition quarter_date :: "date_reader \<Rightarrow> 'v sf_fact list \<Rightarrow> string \<Rightarrow> int option" where
  "quarter_date reads df q =
     (let days = concat (map (\<lambda>f. if fa_quarter f = q then (case day_of reads (fa_end f) of Some d \<Rightarrow> [d] | None \<Rightarrow> []) else []) df) in
      if days = [] then None else Some (twice_median days))"

text \<open>\<open>_parse_quarter_label\<close>, with \<open>int\<close> on plain numerals.\<close>

fun split_on :: "string \<Rightarrow> string \<Rightarrow> string list" where
  "split_on sep [] = [[]]"
| "split_on sep (c # s) =
     (if sep \<noteq> [] \<and> prefix sep (c # s) then [] # split_on sep (drop (length sep - 1) s)
      else (case split_on sep s of [] \<Rightarrow> [[c]] | p # ps \<Rightarrow> (c # p) # ps))"

definition plain_int :: "string \<Rightarrow> int option" where
  "plain_int s = (case read_digits 0 s of (n, rest) \<Rightarrow> if s \<noteq> [] \<and> rest = [] then Some (int n) else None)"

definition parse_quarter_label :: "string \<Rightarrow> int \<times> int" where
  "parse_quarter_label q =
     (case split_on ''-Q'' q of
        a # b # ps \<Rightarrow> (case (plain_int a, plain_int b) of (Some y, Some n) \<Rightarrow> (y, n) | _ \<Rightarrow> (0, 0))
      | _ \<Rightarrow> (0, 0))"

text \<open>
  \<open>_sort_quarters_desc\<close>: by the dates where there is one at all, else by the labels.
\<close>

definition sort_quarters_desc :: "date_reader \<Rightarrow> 'v sf_fact list \<Rightarrow> string list \<Rightarrow> string list" where
  "sort_quarters_desc reads df qs =
     (if list_ex (\<lambda>q. quarter_date reads df q \<noteq> None) (uniques (map fa_quarter df)) then order_desc (quarter_date reads df) qs
      else order_desc (\<lambda>q. fst (parse_quarter_label q)) (order_desc (\<lambda>q. snd (parse_quarter_label q)) qs))"

definition kept_quarters :: "date_reader \<Rightarrow> 'v sf_fact list \<Rightarrow> nat \<Rightarrow> string list" where
  "kept_quarters reads df n = take n (sort_quarters_desc reads df (uniques (map fa_quarter df)))"

definition limit_quarters :: "date_reader \<Rightarrow> 'v sf_fact list \<Rightarrow> nat \<Rightarrow> 'v sf_fact list" where
  "limit_quarters reads df n =
     (if df = [] \<or> n = 0 then df else filter (\<lambda>f. fa_quarter f \<in> set (kept_quarters reads df n)) df)"

section \<open>Blueprints\<close>

record blueprint_row =
  bp_concept :: string
  bp_label :: string
  bp_depth :: int
  bp_abstract :: bool
  bp_total :: bool

text \<open>The rows of \<open>get_statement_blueprint\<close>, from those of the statement: index, label, depth and the two flags.\<close>

definition statement_blueprint :: "(string \<times> string option \<times> int \<times> bool \<times> bool) list option \<Rightarrow> blueprint_row list" where
  "statement_blueprint stmt =
     (case stmt of None \<Rightarrow> []
      | Some rows \<Rightarrow> map (\<lambda>(idx, label, depth, abstr, total).
          \<lparr>bp_concept = ''us-gaap:'' @ idx, bp_label = (case label of Some l \<Rightarrow> l | None \<Rightarrow> idx), bp_depth = depth, bp_abstract = abstr, bp_total = total\<rparr>) rows)"

text \<open>\<open>c.split(":")[-1]\<close>.\<close>

definition after_colon :: "string \<Rightarrow> string" where
  "after_colon c = rev (takeWhile (\<lambda>x. x \<noteq> CHR 0x3A) (rev c))"

text \<open>\<open>_enrich_with_blueprint\<close>: the last row of a concept counts, as in a dict.\<close>

definition enrich :: "blueprint_row list \<Rightarrow> 'v sf_fact \<Rightarrow> 'v sf_fact" where
  "enrich bp f =
     (let rows = rev (zip [0..<length bp] bp) in
      case find (\<lambda>(i, r). bp_concept r = fa_concept f) rows of
        None \<Rightarrow> f\<lparr>fa_label := after_colon (fa_concept f), fa_depth := 0, fa_is_total := False, fa_order := 999\<rparr>
      | Some (i, r) \<Rightarrow> f\<lparr>fa_label := bp_label r, fa_depth := bp_depth r, fa_is_total := bp_total r, fa_order := i\<rparr>)"

definition wanted_concepts :: "blueprint_row list \<Rightarrow> 'v sf_fact list \<Rightarrow> string list" where
  "wanted_concepts bp facts = filter (\<lambda>c. c \<in> set (map fa_concept facts)) (map bp_concept (filter (\<lambda>r. \<not> bp_abstract r) bp))"

section \<open>Income\<close>

text \<open>\<open>re.search\<close> of the patterns of \<open>_is_non_additive_concept\<close>; the one with a gap is \<open>a.*b\<close>, whose gap has no line break.\<close>

definition contains_gap :: "string \<Rightarrow> string \<Rightarrow> string \<Rightarrow> bool" where
  "contains_gap a b s \<longleftrightarrow> list_ex (\<lambda>i. prefix a (drop i s) \<and> contains b (takeWhile (\<lambda>c. c \<noteq> nl) (drop (i + length a) s))) [0..<length s]"

definition is_non_additive_concept :: "string \<Rightarrow> bool" where
  "is_non_additive_concept c \<longleftrightarrow>
     contains ''EarningsPerShare'' c \<or> contains_gap ''WeightedAverageNumberOf'' ''Shares'' c
     \<or> contains ''CommonStockDividendsPerShare'' c \<or> contains ''AntidilutiveSecurities'' c"

definition max_quarterly_days :: int where "max_quarterly_days = 105"

definition periods_of :: "'v sf_fact list \<Rightarrow> string list \<Rightarrow> string list \<Rightarrow> string \<Rightarrow> 'v sf_fact list" where
  "periods_of facts cs periods kind = filter (\<lambda>f. fa_concept f \<in> set cs \<and> fa_period f \<in> set periods \<and> fa_kind f = kind) facts"

text \<open>The longest period of each concept and start.\<close>

definition longest_by_start :: "date_reader \<Rightarrow> 'v sf_fact list \<Rightarrow> 'v sf_fact list" where
  "longest_by_start reads fs = first_by (\<lambda>f. (fa_concept f, fa_start f)) (sort_key fa_concept (sort_key fa_start (order_desc (duration reads) fs)))"

definition derived_row :: "date_reader \<Rightarrow> string \<Rightarrow> string \<Rightarrow> string \<Rightarrow> int \<Rightarrow> 'v \<Rightarrow> string \<Rightarrow> 'v sf_fact" where
  "derived_row reads c period_end fp y v unit =
     \<lparr>fa_concept = c, fa_start = [], fa_end = period_end, fa_period = fp, fa_year = y, fa_value = Some v, fa_unit = unit,
      fa_kind = ''duration'', fa_quarter = quarter_label reads period_end fp, fa_label = [], fa_depth = 0, fa_is_total = False, fa_order = 0\<rparr>"

definition q4_row :: "date_reader \<Rightarrow> 'v::ab_group_add sf_fact list \<Rightarrow> 'v sf_fact list \<Rightarrow> 'v sf_fact \<Rightarrow> 'v sf_fact list" where
  "q4_row reads existing ytd_q3 fy =
     (case fa_value fy of
        None \<Rightarrow> []
      | Some v \<Rightarrow>
          if list_ex (\<lambda>f. fa_concept f = fa_concept fy \<and> fa_period f = ''Q4'' \<and> fa_end f = fa_end fy) existing then []
          else (case find (\<lambda>f. fa_concept f = fa_concept fy \<and> fa_start f = fa_start fy) ytd_q3 of
              None \<Rightarrow> []
            | Some q3 \<Rightarrow> (case fa_value q3 of
                  None \<Rightarrow> []
                | Some w \<Rightarrow> [derived_row reads (fa_concept fy) (fa_end fy) ''Q4'' (fa_year fy) (v - w) (fa_unit fy)])))"

text \<open>One row for a concept and a quarter, that of the greatest fiscal year.\<close>

definition one_per_quarter :: "'v sf_fact list \<Rightarrow> 'v sf_fact list" where
  "one_per_quarter fs =
     first_by (\<lambda>f. (fa_concept f, fa_quarter f))
       (sort_key fa_concept (sort_key fa_quarter (order_desc fa_year (filter (\<lambda>f. fa_value f \<noteq> None) fs))))"

definition derive_q4_from_fy :: "date_reader \<Rightarrow> 'v::ab_group_add sf_fact list \<Rightarrow> string list \<Rightarrow> 'v sf_fact list \<Rightarrow> 'v sf_fact list" where
  "derive_q4_from_fy reads facts cs existing =
     (let additive = filter (\<lambda>c. \<not> is_non_additive_concept c) cs;
          fy = periods_of facts additive [''FY''] ''duration'';
          ytd = periods_of facts additive [''Q3''] ''duration'';
          derived = concat (map (q4_row reads existing (longest_by_start reads ytd)) (longest_by_start reads fy)) in
      if additive = [] \<or> fy = [] \<or> derived = [] then existing else one_per_quarter (existing @ derived))"

definition label_quarter :: "date_reader \<Rightarrow> 'v sf_fact \<Rightarrow> 'v sf_fact" where
  "label_quarter reads f = f\<lparr>fa_quarter := quarter_label reads (fa_end f) (fa_period f)\<rparr>"

text \<open>\<open>process_income\<close>; an empty blueprint has no column \<open>is_abstract\<close>, so that reading it raises: the result is \<open>None\<close>.\<close>

definition income_quarters :: "date_reader \<Rightarrow> 'v sf_fact list \<Rightarrow> string list \<Rightarrow> 'v sf_fact list" where
  "income_quarters reads facts cs =
     map (label_quarter reads)
       (first_by (\<lambda>f. (fa_concept f, fa_end f, fa_period f))
         (sort_key fa_concept (sort_key fa_end (sort_key fa_period (order_desc fa_year
           (filter (\<lambda>f. case duration reads f of Some d \<Rightarrow> d \<le> max_quarterly_days | None \<Rightarrow> False)
             (periods_of facts cs [''Q1'', ''Q2'', ''Q3'', ''Q4''] ''duration'')))))))"

definition process_income :: "date_reader \<Rightarrow> 'v::ab_group_add sf_fact list \<Rightarrow> blueprint_row list \<Rightarrow> nat \<Rightarrow> 'v sf_fact list option" where
  "process_income reads facts bp n =
     (if bp = [] then None
      else Some (let cs = wanted_concepts bp facts in
        if cs = [] then []
        else limit_quarters reads (map (enrich bp) (derive_q4_from_fy reads facts cs (income_quarters reads facts cs))) n))"

section \<open>Balance\<close>

definition process_balance :: "date_reader \<Rightarrow> 'v sf_fact list \<Rightarrow> blueprint_row list \<Rightarrow> nat \<Rightarrow> 'v sf_fact list option" where
  "process_balance reads facts bp n =
     (if bp = [] then None
      else Some (let cs = wanted_concepts bp facts;
          rows = first_by (\<lambda>f. (fa_concept f, fa_end f))
            (sort_key fa_concept (sort_key fa_end (sort_key fa_period (periods_of facts cs [''Q1'', ''Q2'', ''Q3'', ''Q4'', ''FY''] ''instant'')))) in
        if cs = [] \<or> rows = [] then []
        else limit_quarters reads
          (map (\<lambda>f. label_quarter reads (enrich bp (if fa_period f = ''FY'' then f\<lparr>fa_period := ''Q4''\<rparr> else f))) rows) n))"

section \<open>Cash flow\<close>

definition value_of :: "'v sf_fact option \<Rightarrow> 'v option" where
  "value_of f = (case f of Some f \<Rightarrow> fa_value f | None \<Rightarrow> None)"

text \<open>The quarters of one concept and start of the year, whose reported periods all begin with the year.\<close>

definition cashflow_group :: "date_reader \<Rightarrow> string \<Rightarrow> 'v::ab_group_add sf_fact list \<Rightarrow> 'v sf_fact list" where
  "cashflow_group reads c fg =
     (let at = (\<lambda>p. find (\<lambda>f. fa_period f = p) fg);
          row = (\<lambda>p q v. derived_row reads c (case at p of Some f \<Rightarrow> fa_end f | None \<Rightarrow> []) q (fa_year (hd fg)) v (fa_unit (hd fg)));
          step = (\<lambda>p prev q. case (value_of (at p), value_of (at prev)) of (Some v, Some w) \<Rightarrow> [row p q (v - w)] | _ \<Rightarrow> []) in
      (case value_of (at ''Q1'') of Some v \<Rightarrow> [row ''Q1'' ''Q1'' v] | None \<Rightarrow> [])
      @ step ''Q2'' ''Q1'' ''Q2'' @ step ''Q3'' ''Q2'' ''Q3'' @ step ''FY'' ''Q3'' ''Q4'')"

definition cashflow_rows :: "date_reader \<Rightarrow> 'v sf_fact list \<Rightarrow> string list \<Rightarrow> 'v sf_fact list" where
  "cashflow_rows reads facts cs =
     first_by (\<lambda>f. (fa_concept f, fa_start f, fa_period f))
       (sort_key fa_concept (sort_key fa_start (sort_key fa_period (order_desc (duration reads)
         (periods_of facts cs [''Q1'', ''Q2'', ''Q3'', ''Q4'', ''FY''] ''duration'')))))"

definition cashflow_quarters :: "date_reader \<Rightarrow> 'v::ab_group_add sf_fact list \<Rightarrow> 'v sf_fact list" where
  "cashflow_quarters reads df =
     concat (map (\<lambda>c. let cd = filter (\<lambda>f. fa_concept f = c) df in
       concat (map (\<lambda>s. cashflow_group reads c (filter (\<lambda>f. fa_start f = s) cd)) (uniques (map fa_start cd)))) (uniques (map fa_concept df)))"

definition process_cashflow :: "date_reader \<Rightarrow> 'v::ab_group_add sf_fact list \<Rightarrow> blueprint_row list \<Rightarrow> nat \<Rightarrow> 'v sf_fact list option" where
  "process_cashflow reads facts bp n =
     (if bp = [] then None
      else Some (let cs = wanted_concepts bp facts; derived = cashflow_quarters reads (cashflow_rows reads facts cs) in
        if cs = [] \<or> derived = [] then []
        else limit_quarters reads (map (enrich bp) (one_per_quarter derived)) n))"

section \<open>What the quarters are\<close>

lemma set_first_by: "set (first_by k xs) \<subseteq> set xs"
  by (induction k xs rule: first_by.induct) auto

lemma distinct_first_by: "distinct (map k (first_by k xs))"
proof (induction k xs rule: first_by.induct)
  case (2 k x xs)
  have "k x \<notin> k ` set (first_by k (filter (\<lambda>y. k y \<noteq> k x) xs))"
  proof
    assume "k x \<in> k ` set (first_by k (filter (\<lambda>y. k y \<noteq> k x) xs))"
    then obtain y where "k x = k y" "y \<in> set (first_by k (filter (\<lambda>y. k y \<noteq> k x) xs))" by (rule imageE)
    then show False using subsetD [OF set_first_by [of k "filter (\<lambda>y. k y \<noteq> k x) xs"], of y] by simp
  qed
  then show ?case using 2 by simp
qed simp

lemma first_by_key: "x \<in> set xs \<Longrightarrow> \<exists>y \<in> set (first_by k xs). k y = k x"
proof (induction k xs rule: first_by.induct)
  case (2 k y ys)
  show ?case
  proof (cases "k x = k y")
    case False
    then have "x \<in> set (filter (\<lambda>z. k z \<noteq> k y) ys)" using 2(2) by auto
    then show ?thesis using 2(1) by simp
  qed simp
qed simp

lemma set_uniques [simp]: "set (uniques xs) = set xs"
proof
  show "set (uniques xs) \<subseteq> set xs" unfolding uniques_def by (rule set_first_by)
  show "set xs \<subseteq> set (uniques xs)" using first_by_key [of _ xs id] by (auto simp: uniques_def)
qed

lemma distinct_uniques: "distinct (uniques xs)"
  using distinct_first_by [of id xs] by (simp add: uniques_def)

text \<open>A table of quarters has one row for a concept and a quarter.\<close>

lemma one_per_quarter_distinct: "distinct (map (\<lambda>f. (fa_concept f, fa_quarter f)) (one_per_quarter fs))"
  unfolding one_per_quarter_def by (rule distinct_first_by)

lemma one_per_quarter_set: "f \<in> set (one_per_quarter fs) \<Longrightarrow> f \<in> set fs \<and> fa_value f \<noteq> None"
  using set_first_by unfolding one_per_quarter_def by fastforce

section \<open>Quarters of the cash flow\<close>

text \<open>The sums of the first quarters of a list.\<close>

definition running_totals :: "'v::ab_group_add list \<Rightarrow> 'v list" where
  "running_totals vs = map (\<lambda>k. sum_list (take (Suc k) vs)) [0..<length vs]"


definition demo_reads :: date_reader where
  "demo_reads s =
     (if s = ''2022-04-04'' then Some (2022, 4, 94) else if s = ''2022-07-03'' then Some (2022, 7, 184)
      else if s = ''2022-10-02'' then Some (2022, 10, 275) else if s = ''2023-01-01'' then Some (2023, 1, 366)
      else if s = ''2023-04-02'' then Some (2023, 4, 457) else if s = ''2023-04-03'' then Some (2023, 4, 458)
      else if s = ''2023-12-31'' then Some (2023, 12, 730) else if s = ''2024-03-31'' then Some (2024, 3, 821) else None)"

definition demo_fact :: "string \<Rightarrow> string \<Rightarrow> string \<Rightarrow> int \<Rightarrow> int \<Rightarrow> int sf_fact" where
  "demo_fact s e p y v = \<lparr>fa_concept = ''us-gaap:Cash'', fa_start = s, fa_end = e, fa_period = p, fa_year = y, fa_value = Some v, fa_unit = ''USD'',
     fa_kind = ''duration'', fa_quarter = [], fa_label = [], fa_depth = 0, fa_is_total = False, fa_order = 0\<rparr>"

definition demo_year :: "int sf_fact list" where
  "demo_year = [demo_fact ''2022-04-04'' ''2022-07-03'' ''Q1'' 2022 10, demo_fact ''2022-04-04'' ''2022-10-02'' ''Q2'' 2022 30,
     demo_fact ''2022-04-04'' ''2023-01-01'' ''Q3'' 2022 60, demo_fact ''2022-04-04'' ''2023-04-02'' ''FY'' 2022 100]"


section \<open>Rows of the income statement\<close>

text \<open>A row is reported: a quarter of at most 105 days among the facts.\<close>

definition reported_quarter :: "date_reader \<Rightarrow> 'v sf_fact list \<Rightarrow> 'v sf_fact \<Rightarrow> bool" where
  "reported_quarter reads facts r \<longleftrightarrow>
     (\<exists>f \<in> set facts. fa_concept f = fa_concept r \<and> fa_end f = fa_end r \<and> fa_period f = fa_period r \<and> fa_value f = fa_value r \<and> fa_unit f = fa_unit r
        \<and> fa_kind f = ''duration'' \<and> fa_period f \<in> {''Q1'', ''Q2'', ''Q3'', ''Q4''} \<and> (\<exists>d. duration reads f = Some d \<and> d \<le> max_quarterly_days))"

text \<open>A row is what a year has left after three quarters, of a concept that can be added up.\<close>

definition remaining_quarter :: "'v::ab_group_add sf_fact list \<Rightarrow> 'v sf_fact \<Rightarrow> bool" where
  "remaining_quarter facts r \<longleftrightarrow>
     \<not> is_non_additive_concept (fa_concept r) \<and> fa_period r = ''Q4''
     \<and> (\<exists>fy \<in> set facts. \<exists>q3 \<in> set facts. \<exists>v w. fa_concept fy = fa_concept r \<and> fa_concept q3 = fa_concept r \<and> fa_start q3 = fa_start fy
          \<and> fa_period fy = ''FY'' \<and> fa_period q3 = ''Q3'' \<and> fa_end fy = fa_end r \<and> fa_value fy = Some v \<and> fa_value q3 = Some w \<and> fa_value r = Some (v - w))"

lemma set_periods_of: "f \<in> set (periods_of facts cs ps k) \<longleftrightarrow> f \<in> set facts \<and> fa_concept f \<in> set cs \<and> fa_period f \<in> set ps \<and> fa_kind f = k"
  by (auto simp: periods_of_def)

lemma longest_by_start_set: "f \<in> set (longest_by_start reads fs) \<Longrightarrow> f \<in> set fs"
  using subsetD [OF set_first_by, of f] unfolding longest_by_start_def by fastforce

lemma q4_row_remaining:
  assumes "r \<in> set (q4_row reads ex ytd fy)"
    and "fy \<in> set facts" "fa_period fy = ''FY''" "\<not> is_non_additive_concept (fa_concept fy)"
    and "\<And>f. f \<in> set ytd \<Longrightarrow> f \<in> set facts \<and> fa_period f = ''Q3''"
  shows "remaining_quarter facts r"
proof -
  obtain v q3 w where v: "fa_value fy = Some v" and q: "find (\<lambda>f. fa_concept f = fa_concept fy \<and> fa_start f = fa_start fy) ytd = Some q3"
    and w: "fa_value q3 = Some w" and r: "r = derived_row reads (fa_concept fy) (fa_end fy) ''Q4'' (fa_year fy) (v - w) (fa_unit fy)"
    using assms(1) by (cases "fa_value fy"; cases "find (\<lambda>f. fa_concept f = fa_concept fy \<and> fa_start f = fa_start fy) ytd";
        cases "fa_value (the (find (\<lambda>f. fa_concept f = fa_concept fy \<and> fa_start f = fa_start fy) ytd))") (simp_all add: q4_row_def split: if_splits)
  have q3: "q3 \<in> set ytd" "fa_concept q3 = fa_concept fy" "fa_start q3 = fa_start fy" using q by (auto simp: find_Some_iff)
  have "q3 \<in> set facts" "fa_period q3 = ''Q3''" using assms(5) [OF q3(1)] by simp_all
  then show ?thesis unfolding remaining_quarter_def r derived_row_def using v w q3 assms(2-4) by auto
qed

lemma income_quarters_reported:
  assumes "r \<in> set (income_quarters reads facts cs)"
  shows "reported_quarter reads facts r"
proof -
  obtain f where f: "r = label_quarter reads f" and in_set: "f \<in> set (first_by (\<lambda>f. (fa_concept f, fa_end f, fa_period f))
         (sort_key fa_concept (sort_key fa_end (sort_key fa_period (order_desc fa_year
           (filter (\<lambda>f. case duration reads f of Some d \<Rightarrow> d \<le> max_quarterly_days | None \<Rightarrow> False)
             (periods_of facts cs [''Q1'', ''Q2'', ''Q3'', ''Q4''] ''duration'')))))))"
    using assms by (auto simp: income_quarters_def)
  have "f \<in> set (periods_of facts cs [''Q1'', ''Q2'', ''Q3'', ''Q4''] ''duration'') \<and> (case duration reads f of Some d \<Rightarrow> d \<le> max_quarterly_days | None \<Rightarrow> False)"
    using subsetD [OF set_first_by in_set] by simp
  then show ?thesis unfolding reported_quarter_def f label_quarter_def
    by (intro bexI [of _ f]) (auto simp: set_periods_of split: option.splits)
qed

lemma derived_income_rows:
  assumes "r \<in> set (derive_q4_from_fy reads facts cs (income_quarters reads facts cs))"
  shows "reported_quarter reads facts r \<or> remaining_quarter facts r"
proof -
  let ?ex = "income_quarters reads facts cs" and ?add = "filter (\<lambda>c. \<not> is_non_additive_concept c) cs"
  let ?ytd = "longest_by_start reads (periods_of facts ?add [''Q3''] ''duration'')" and ?fy = "longest_by_start reads (periods_of facts ?add [''FY''] ''duration'')"
  have "r \<in> set ?ex \<or> (\<exists>fy \<in> set ?fy. r \<in> set (q4_row reads ?ex ?ytd fy))"
    using assms one_per_quarter_set [of r "?ex @ concat (map (q4_row reads ?ex ?ytd) ?fy)"]
    by (auto simp: derive_q4_from_fy_def Let_def split: if_splits)
  then show ?thesis
  proof
    assume "r \<in> set ?ex"
    then show ?thesis using income_quarters_reported by blast
  next
    assume "\<exists>fy \<in> set ?fy. r \<in> set (q4_row reads ?ex ?ytd fy)"
    then obtain fy where fy: "fy \<in> set ?fy" "r \<in> set (q4_row reads ?ex ?ytd fy)" by blast
    have "fy \<in> set (periods_of facts ?add [''FY''] ''duration'')" using longest_by_start_set [OF fy(1)] .
    then have "fy \<in> set facts" "fa_period fy = ''FY''" "\<not> is_non_additive_concept (fa_concept fy)" by (simp_all add: set_periods_of)
    moreover have "f \<in> set facts \<and> fa_period f = ''Q3''" if "f \<in> set ?ytd" for f
      using longest_by_start_set [OF that] by (simp add: set_periods_of)
    ultimately show ?thesis using q4_row_remaining [OF fy(2)] by blast
  qed
qed

lemma enrich_keeps [simp]:
  "fa_concept (enrich bp f) = fa_concept f" "fa_end (enrich bp f) = fa_end f" "fa_period (enrich bp f) = fa_period f"
  "fa_value (enrich bp f) = fa_value f" "fa_unit (enrich bp f) = fa_unit f" "fa_quarter (enrich bp f) = fa_quarter f"
  by (simp_all add: enrich_def Let_def split: option.splits)

lemma limit_quarters_set: "f \<in> set (limit_quarters reads df n) \<Longrightarrow> f \<in> set df"
  by (auto simp: limit_quarters_def split: if_splits)

text \<open>
  C32: Every row of the income statement's table is a quarter of at most 105 days that was reported, with its value and unit,
  or the last quarter of a year as the year less its first three quarters, of a concept whose values may be added.
\<close>

theorem income_rows_are_grounded:
  assumes "process_income reads facts bp n = Some rows" "r \<in> set rows"
  shows "reported_quarter reads facts r \<or> remaining_quarter facts r"
proof -
  let ?cs = "wanted_concepts bp facts"
  have "r \<in> set (limit_quarters reads (map (enrich bp) (derive_q4_from_fy reads facts ?cs (income_quarters reads facts ?cs))) n)"
    using assms by (auto simp: process_income_def Let_def split: if_splits)
  from limit_quarters_set [OF this] obtain f where f: "r = enrich bp f" "f \<in> set (derive_q4_from_fy reads facts ?cs (income_quarters reads facts ?cs))" by auto
  from derived_income_rows [OF f(2)] show ?thesis
    unfolding f(1) reported_quarter_def remaining_quarter_def enrich_keeps .
qed

definition demo_blueprint :: "blueprint_row list" where
  "demo_blueprint = [\<lparr>bp_concept = ''us-gaap:Cash'', bp_label = ''Cash'', bp_depth = 1, bp_abstract = False, bp_total = False\<rparr>]"

theorem income_rows_are_grounded_witness:
  "list_all (\<lambda>r. reported_quarter demo_reads demo_year r \<or> remaining_quarter demo_year r) (the (process_income demo_reads demo_year demo_blueprint 4))
    \<and> length (the (process_income demo_reads demo_year demo_blueprint 4)) = 2"
proof
  have some: "process_income demo_reads demo_year demo_blueprint 4 = Some (the (process_income demo_reads demo_year demo_blueprint 4))"
    by (simp add: process_income_def demo_blueprint_def)
  show "list_all (\<lambda>r. reported_quarter demo_reads demo_year r \<or> remaining_quarter demo_year r) (the (process_income demo_reads demo_year demo_blueprint 4))"
    unfolding list_all_iff using income_rows_are_grounded [OF some] by blast
  show "length (the (process_income demo_reads demo_year demo_blueprint 4)) = 2" by code_simp
qed

section \<open>The newest quarters\<close>

lemma sorted_take_drop:
  assumes "sorted_wrt (\<lambda>x y. m y \<le> m x) xs" "x \<in> set (take n xs)" "y \<in> set xs" "y \<notin> set (take n xs)"
  shows "m y \<le> m x"
proof -
  have "sorted_wrt (\<lambda>x y. m y \<le> m x) (take n xs @ drop n xs)" using assms(1) by simp
  moreover have "y \<in> set (drop n xs)" using assms(3,4) by (metis Un_iff append_take_drop_id set_append)
  ultimately show ?thesis using assms(2) unfolding sorted_wrt_append by blast
qed

text \<open>
  Limited to a number of quarters a table has rows of at most so many, and none that is left out is newer than one that
  is kept, by the dates on which they end.
\<close>

theorem newest_quarters_kept:
  assumes "list_ex (\<lambda>q. quarter_date reads df q \<noteq> None) (uniques (map fa_quarter df))" "0 < n"
    and "f \<in> set (limit_quarters reads df n)" "g \<in> set df" "g \<notin> set (limit_quarters reads df n)"
  shows "quarter_date reads df (fa_quarter g) \<le> quarter_date reads df (fa_quarter f)
    \<and> card (fa_quarter ` set (limit_quarters reads df n)) \<le> n"
proof
  let ?sorted = "order_desc (quarter_date reads df) (uniques (map fa_quarter df))"
  have kept: "kept_quarters reads df n = take n ?sorted" using assms(1) by (simp add: kept_quarters_def sort_quarters_desc_def)
  have "df \<noteq> []" using assms(4) by auto
  then have rows: "limit_quarters reads df n = filter (\<lambda>f. fa_quarter f \<in> set (take n ?sorted)) df" using assms(2) kept by (simp add: limit_quarters_def)
  have f: "fa_quarter f \<in> set (take n ?sorted)" and g: "fa_quarter g \<notin> set (take n ?sorted)" using assms(3-5) rows by simp_all
  have "fa_quarter g \<in> set ?sorted" using assms(4) by simp
  from sorted_take_drop [OF sorted_order_desc f this g] show "quarter_date reads df (fa_quarter g) \<le> quarter_date reads df (fa_quarter f)" .
  have "fa_quarter ` set (limit_quarters reads df n) \<subseteq> set (take n ?sorted)" using rows by auto
  then have "card (fa_quarter ` set (limit_quarters reads df n)) \<le> card (set (take n ?sorted))" by (rule card_mono [OF finite_set])
  also have "\<dots> \<le> n" using card_length [of "take n ?sorted"] by simp
  finally show "card (fa_quarter ` set (limit_quarters reads df n)) \<le> n" .
qed

definition demo_frame :: "int sf_fact list" where
  "demo_frame = map (label_quarter demo_reads) demo_year"

theorem newest_quarters_kept_witness:
  "quarter_date demo_reads demo_frame ''2022-Q2'' \<le> quarter_date demo_reads demo_frame ''2023-FY''"
proof -
  have kept: "kept_quarters demo_reads demo_frame 2 = [''2023-FY'', ''2023-Q3'']" by code_simp
  have q: "fa_quarter (demo_frame ! 1) = ''2022-Q2''" "fa_quarter (demo_frame ! 3) = ''2023-FY''" by code_simp+
  have "length demo_frame = 4" by code_simp
  then have mem: "demo_frame ! 1 \<in> set demo_frame" "demo_frame ! 3 \<in> set demo_frame" by simp_all
  then have f: "demo_frame ! 3 \<in> set (limit_quarters demo_reads demo_frame 2)" and g: "demo_frame ! 1 \<notin> set (limit_quarters demo_reads demo_frame 2)"
    using kept q by (auto simp: limit_quarters_def)
  have "list_ex (\<lambda>q. quarter_date demo_reads demo_frame q \<noteq> None) (uniques (map fa_quarter demo_frame))" by code_simp
  from newest_quarters_kept [OF this _ f mem(1) g] q show ?thesis by simp
qed

text \<open>
  The label of a quarter has the year in which it ends, a year less where a fourth quarter ends by March. So two years of 52
  and 53 weeks, ending on 2 April 2023 and 31 March 2024, give their last quarters one label, and a table keeps one of them.
\<close>

theorem last_quarters_collide:
  assumes "reads e1 = Some (y, 4, d1)" "reads e2 = Some (y + 1, 3, d2)" "e1 \<noteq> []" "e2 \<noteq> []"
    and "r1 \<in> set (one_per_quarter fs)" "r2 \<in> set (one_per_quarter fs)" "fa_concept r1 = fa_concept r2"
    and "fa_quarter r1 = quarter_label reads e1 ''Q4''" "fa_quarter r2 = quarter_label reads e2 ''Q4''"
  shows "r1 = r2"
proof -
  have "fa_quarter r1 = fa_quarter r2" using assms by (simp add: quarter_label_def)
  then show ?thesis using one_per_quarter_distinct [of fs] assms(5-7) by (auto simp: distinct_map inj_on_def)
qed

text \<open>
  Nor are the labels in the order of time where a year ends in June: its fourth quarter sorts after the first of the next.
\<close>

theorem labels_out_of_order:
  assumes "reads e4 = Some (y, 6, d)" "reads e1 = Some (y, 9, d')" "e4 \<noteq> []" "e1 \<noteq> []" "d < d'"
  shows "quarter_label reads e1 ''Q1'' < quarter_label reads e4 ''Q4''"
proof -
  have common: "a < b \<Longrightarrow> p @ a < p @ b" for p a b :: string by (induction p) simp_all
  have "''-Q1'' < (''-Q4'' :: string)" by code_simp
  from common [OF this, of "show_int y"] show ?thesis using assms by (simp add: quarter_label_def)
qed

text \<open>A statement without a blueprint raises where its flags are read, so the step fails instead of finding nothing.\<close>

theorem no_blueprint_raises:
  "process_income reads facts [] n = None \<and> process_balance reads facts [] n = None \<and> process_cashflow reads facts [] n = None"
  by (simp add: process_income_def process_balance_def process_cashflow_def)

section \<open>The table\<close>

text \<open>
  Rows of \<open>sf_quarterly_facts\<close> with their key of ticker, statement, concept and quarter; \<open>upsert_quarterly_records\<close> puts the rows of a
  result in transactions of 500, each row replacing that of its key. The result is the number of rows given.
\<close>

record 'v stored_fact =
  st_ticker :: string
  st_statement :: string
  st_fact :: "'v sf_fact"

definition stored_key :: "'v stored_fact \<Rightarrow> string \<times> string \<times> string \<times> string" where
  "stored_key s = (st_ticker s, st_statement s, fa_concept (st_fact s), fa_quarter (st_fact s))"

definition put_fact :: "'v stored_fact \<Rightarrow> 'v stored_fact list \<Rightarrow> 'v stored_fact list" where
  "put_fact s table = (if stored_key s \<in> set (map stored_key table) then map (\<lambda>t. if stored_key t = stored_key s then s else t) table else table @ [s])"

fun record_batches :: "nat \<Rightarrow> 'a list \<Rightarrow> 'a list list" where
  "record_batches 0 xs = []"
| "record_batches (Suc k) xs = (if xs = [] then [] else take 500 xs # record_batches k (drop 500 xs))"

definition upsert_quarterly_records :: "string \<Rightarrow> string \<Rightarrow> 'v sf_fact list \<Rightarrow> 'v stored_fact list \<Rightarrow> 'v stored_fact list \<times> nat" where
  "upsert_quarterly_records ticker stype records table =
     (fold (fold put_fact) (record_batches (length records) (map (\<lambda>f. \<lparr>st_ticker = ticker, st_statement = stype, st_fact = f\<rparr>) records)) table, length records)"

lemma concat_record_batches: "length xs \<le> k \<Longrightarrow> concat (record_batches k xs) = xs"
proof (induction k arbitrary: xs)
  case (Suc k)
  show ?case
  proof (cases "xs = []")
    case False
    then have "length (drop 500 xs) \<le> k" using Suc.prems by (cases xs) simp_all
    from Suc.IH [OF this] False show ?thesis by simp
  qed simp
qed simp

lemma fold_fold_concat: "fold (fold h) xss a = fold h (concat xss) a"
  by (induction xss arbitrary: a) simp_all

lemma put_fact_keys: "distinct (map stored_key t) \<Longrightarrow> distinct (map stored_key (put_fact s t))"
  "set (map stored_key (put_fact s t)) = insert (stored_key s) (set (map stored_key t))"
proof -
  have keys: "map stored_key (map (\<lambda>t. if stored_key t = stored_key s then s else t) t) = map stored_key t" by (induction t) simp_all
  show "distinct (map stored_key t) \<Longrightarrow> distinct (map stored_key (put_fact s t))"
    unfolding put_fact_def using keys by (simp del: map_map set_map)
  show "set (map stored_key (put_fact s t)) = insert (stored_key s) (set (map stored_key t))"
    unfolding put_fact_def using keys by (simp del: map_map set_map) auto
qed

lemma find_replaced:
  "find (\<lambda>t. stored_key t = k) (map (\<lambda>t. if stored_key t = stored_key s then s else t) table)
     = (if k = stored_key s then (if k \<in> set (map stored_key table) then Some s else None) else find (\<lambda>t. stored_key t = k) table)"
proof (induction table)
  case (Cons t table)
  show ?case using Cons.IH by (cases "stored_key t = stored_key s"; cases "k = stored_key s"; cases "k = stored_key t") simp_all
qed simp

lemma find_appended: "find P (xs @ [s]) = (case find P xs of Some x \<Rightarrow> Some x | None \<Rightarrow> if P s then Some s else None)"
  by (induction xs) simp_all

lemma find_no_key: "k \<notin> set (map stored_key table) \<Longrightarrow> find (\<lambda>t. stored_key t = k) table = None"
  by (induction table) (simp_all add: not_sym)

lemma put_fact_find:
  "find (\<lambda>t. stored_key t = k) (put_fact s table) = (if k = stored_key s then Some s else find (\<lambda>t. stored_key t = k) table)"
proof (cases "stored_key s \<in> set (map stored_key table)")
  case True
  then show ?thesis by (simp add: put_fact_def find_replaced del: set_map)
next
  case False
  then show ?thesis using find_no_key [OF False] by (simp add: put_fact_def find_appended split: option.splits del: set_map)
qed

lemma put_facts_find:
  "find (\<lambda>t. stored_key t = k) (fold put_fact ss table) = (case find (\<lambda>s. stored_key s = k) (rev ss) of Some s \<Rightarrow> Some s | None \<Rightarrow> find (\<lambda>t. stored_key t = k) table)"
proof (induction ss rule: rev_induct)
  case (snoc s ss)
  then show ?case by (simp add: put_fact_find split: option.splits)
qed simp

text \<open>
  What is stored after a result is the last of its rows for each key and what was stored before for every other; keys stay
  unique, whatever the batches.
\<close>

theorem upsert_stores_last_rows:
  "find (\<lambda>t. stored_key t = k) (fst (upsert_quarterly_records ticker stype records table))
     = (case find (\<lambda>s. stored_key s = k) (rev (map (\<lambda>f. \<lparr>st_ticker = ticker, st_statement = stype, st_fact = f\<rparr>) records)) of
          Some s \<Rightarrow> Some s | None \<Rightarrow> find (\<lambda>t. stored_key t = k) table)"
  by (simp add: upsert_quarterly_records_def fold_fold_concat concat_record_batches put_facts_find)

theorem upsert_keeps_keys:
  "distinct (map stored_key table) \<Longrightarrow> distinct (map stored_key (fst (upsert_quarterly_records ticker stype records table)))"
proof -
  have "distinct (map stored_key t) \<Longrightarrow> distinct (map stored_key (fold put_fact ss t))" for ss t
    by (induction ss arbitrary: t) (simp_all add: put_fact_keys)
  then show "distinct (map stored_key table) \<Longrightarrow> distinct (map stored_key (fst (upsert_quarterly_records ticker stype records table)))"
    by (simp add: upsert_quarterly_records_def fold_fold_concat)
qed

section \<open>Queries\<close>

text \<open>\<open>query.py\<close>; the old form of a concept, with an underscore, is read as the new one.\<close>

fun first_colon :: "string \<Rightarrow> string" where
  "first_colon [] = []"
| "first_colon (c # s) = (if c = CHR 0x5F then CHR 0x3A # s else c # first_colon s)"

definition normal_concept :: "string \<Rightarrow> string" where
  "normal_concept c = (if prefix ''us-gaap_'' c then first_colon c else c)"

definition query_facts :: "(string \<Rightarrow> string) \<Rightarrow> 'v stored_fact list \<Rightarrow> string \<Rightarrow> string \<Rightarrow> string \<Rightarrow> string \<Rightarrow> string \<Rightarrow> nat \<Rightarrow> 'v stored_fact list" where
  "query_facts upper_case table ticker stype concept start_q end_q limit =
     take limit (sort_key (\<lambda>s. fa_order (st_fact s)) (order_desc (\<lambda>s. fa_quarter (st_fact s))
       (filter (\<lambda>s. st_ticker s = upper_case ticker \<and> st_statement s = lower stype
           \<and> (concept = [] \<or> fa_concept (st_fact s) = normal_concept concept)
           \<and> (start_q = [] \<or> start_q \<le> fa_quarter (st_fact s)) \<and> (end_q = [] \<or> fa_quarter (st_fact s) \<le> end_q)) table)))"

definition query_concepts :: "(string \<Rightarrow> string) \<Rightarrow> 'v stored_fact list \<Rightarrow> string \<Rightarrow> string option \<Rightarrow> string list" where
  "query_concepts upper_case table ticker stype =
     sort (uniques (map (fa_concept \<circ> st_fact) (filter (\<lambda>s. st_ticker s = upper_case ticker
       \<and> (case stype of Some t \<Rightarrow> t = [] \<or> st_statement s = lower t | None \<Rightarrow> True)) table)))"

theorem old_concepts_found: "normal_concept (''us-gaap_'' @ c) = ''us-gaap:'' @ c"
  by (simp add: normal_concept_def)

section \<open>Extraction\<close>

text \<open>
  \<open>extract_and_persist\<close> as the list of what it does, up to an error that leaves it: the deletion for a refresh, the company and its
  facts, each of which may raise, and the three statements, whose errors are caught. \<open>makes\<close> gives the rows of a statement, \<open>None\<close> if that
  raises.
\<close>

datatype 'v sf_effect =
    Delete_Facts string
  | Delete_Cloud_Facts string
  | Insert_Ticker string
  | Add_Statement_Item string
  | Upsert_Facts string "'v sf_fact list"
  | Statement_Done string nat
  | Statement_Failed string

definition statement_effects :: "bool \<Rightarrow> (string \<Rightarrow> 'v sf_fact list option) \<Rightarrow> string \<Rightarrow> 'v sf_effect list" where
  "statement_effects has_job makes stype =
     (if has_job then [Add_Statement_Item stype] else [])
     @ (case makes stype of
          None \<Rightarrow> if has_job then [Statement_Failed stype] else []
        | Some rows \<Rightarrow> (if rows = [] then [] else [Upsert_Facts stype rows]) @ (if has_job then [Statement_Done stype (length rows)] else []))"

definition statement_types :: "string list" where
  "statement_types = [''income'', ''balance'', ''cashflow'']"

definition extract_and_persist :: "bool \<Rightarrow> bool \<Rightarrow> bool \<Rightarrow> bool \<Rightarrow> (string \<Rightarrow> 'v sf_fact list option) \<Rightarrow> string \<Rightarrow> 'v sf_effect list" where
  "extract_and_persist refresh has_job company_found facts_read makes ticker =
     (if refresh then [Delete_Facts ticker, Delete_Cloud_Facts ticker] else [])
     @ (if \<not> company_found then []
        else Insert_Ticker ticker # (if \<not> facts_read then [] else concat (map (statement_effects has_job makes) statement_types)))"

definition stored_after :: "string \<Rightarrow> 'v sf_effect \<Rightarrow> 'v stored_fact list \<Rightarrow> 'v stored_fact list" where
  "stored_after ticker e table =
     (case e of
        Delete_Facts t \<Rightarrow> filter (\<lambda>s. st_ticker s \<noteq> t) table
      | Upsert_Facts stype rows \<Rightarrow> fst (upsert_quarterly_records ticker stype rows table)
      | _ \<Rightarrow> table)"

text \<open>A refresh deletes before it asks: when the company or its facts cannot be read, everything stored of it is gone.\<close>

theorem failed_extraction_has_deleted:
  assumes "\<not> (company_found \<and> facts_read)"
  shows "fold (stored_after ticker) (extract_and_persist True has_job company_found facts_read makes ticker) table = filter (\<lambda>s. st_ticker s \<noteq> ticker) table"
  using assms by (auto simp: extract_and_persist_def stored_after_def)

section \<open>Units\<close>

text \<open>\<open>_extract_currency_code\<close>; the result is \<open>None\<close> where the code raises, on a unit of blanks only.\<close>

definition currency_code :: "(string \<Rightarrow> string) \<Rightarrow> string \<Rightarrow> string option option" where
  "currency_code upper_case unit =
     (if unit = [] then Some None
      else if strip unit = [] then None
      else (let t = upper_case (takeWhile (\<lambda>c. c \<noteq> CHR 0x2F) (takeWhile (\<lambda>c. \<not> is_space c) (strip unit))) in
        Some (if t \<in> {''SHARES'', ''PURE'', []} then None else Some t)))"

theorem blank_unit_raises: "currency_code up '' '' = None \<and> currency_code id ''USD/shares'' = Some (Some ''USD'') \<and> currency_code id ''USD per share'' = Some (Some ''USD'')"
  by (simp add: currency_code_def strip_def is_space_def)

end
