(* ===== verification/Tool_Registry.thy ===== *)
theory Tool_Registry
  imports Prelude "HOL-Library.AList" "HOL-Library.Multiset"
begin

text \<open>
  The tools a client can name: \<open>tools/registry.py\<close>, which finds them among the modules of the listed packages and describes them to
  clients and models, and \<open>utils/telegram/validator.py\<close>, which decides which articles are published.
\<close>

section \<open>Modules\<close>

text \<open>
  A class of a module, in the order of \<open>inspect.getmembers\<close>: whether it is a concrete tool defined there, its attribute \<open>name\<close>,
  the name of an instance (\<open>None\<close> if making one raises), and whether its constructor takes the arguments of a job, or none.
\<close>

record tool_class =
  tc_qualified :: string
  tc_is_tool :: bool
  tc_name :: "string option"
  tc_instance_name :: "string option option"
  tc_takes_args :: bool
  tc_takes_none :: bool

text \<open>The schema of an \<open>INPUT_MODEL\<close> of the module itself, if it has one that can be written, and its doc text.\<close>

record module_info =
  mod_classes :: "tool_class list"
  mod_schema :: "string option"
  mod_doc :: "string option"

datatype import_result = Imported module_info | No_Such_Module | Import_Fails string

datatype discovery_status = LOADED | REJECTED | FAILED | MISSING

record discovery =
  ds_status :: discovery_status
  ds_module :: string
  ds_error :: "string option"

record tool_meta =
  tm_class :: tool_class
  tm_schema :: "string option"
  tm_module :: string
  tm_description :: "string option"

type_synonym registered = "(string \<times> tool_meta) list"
type_synonym discoveries = "(string \<times> discovery) list"

section \<open>Names\<close>

definition name_char :: "char \<Rightarrow> bool" where
  "name_char c \<longleftrightarrow> (let n = of_char c :: nat in (48 \<le> n \<and> n \<le> 57) \<or> (65 \<le> n \<and> n \<le> 90) \<or> (97 \<le> n \<and> n \<le> 122) \<or> n = 95 \<or> n = 45)"

text \<open>\<open>re.match\<close> of \<open>^[a-zA-Z0-9_-]+$\<close>: the end also matches before a final line break.\<close>

definition proper_name :: "string \<Rightarrow> bool" where
  "proper_name s \<longleftrightarrow> s \<noteq> [] \<and> list_all name_char s"

definition valid_tool_name :: "string \<Rightarrow> bool" where
  "valid_tool_name s \<longleftrightarrow> proper_name s \<or> (s \<noteq> [] \<and> last s = nl \<and> proper_name (butlast s))"

section \<open>Discovery\<close>

definition nonempty :: "string option \<Rightarrow> string option" where
  "nonempty x = (case x of Some s \<Rightarrow> if s = [] then None else Some s | None \<Rightarrow> None)"

text \<open>The step of \<open>_register_module_tools\<close> for one class, with the tools and discoveries so far and whether one was found.\<close>

definition register_class :: "string \<Rightarrow> string \<Rightarrow> module_info \<Rightarrow> tool_class \<Rightarrow> registered \<times> discoveries \<times> bool \<Rightarrow> registered \<times> discoveries \<times> bool" where
  "register_class primary module_name mi c st =
     (case st of (ts, ds, found) \<Rightarrow>
        if \<not> tc_is_tool c then st
        else (case (nonempty (tc_name c), tc_instance_name c) of
            (None, None) \<Rightarrow>
              (ts, AList.update primary \<lparr>ds_status = REJECTED, ds_module = module_name, ds_error = Some ''instantiation failed''\<rparr> ds, found)
          | (own, inst) \<Rightarrow>
              (let n = (case own of Some n \<Rightarrow> Some n | None \<Rightarrow> nonempty (the inst)) in
               case n of
                 Some n \<Rightarrow>
                   if valid_tool_name n then
                     (AList.update n \<lparr>tm_class = c, tm_schema = mod_schema mi, tm_module = module_name, tm_description = mod_doc mi\<rparr> ts,
                      AList.update n \<lparr>ds_status = LOADED, ds_module = module_name, ds_error = None\<rparr> ds, True)
                   else (ts, AList.update n \<lparr>ds_status = REJECTED, ds_module = module_name, ds_error = Some ''invalid name''\<rparr> ds, found)
               | None \<Rightarrow> (ts, AList.update primary \<lparr>ds_status = REJECTED, ds_module = module_name, ds_error = Some ''invalid name''\<rparr> ds, found))))"

definition register_module_tools :: "string \<Rightarrow> string \<Rightarrow> module_info \<Rightarrow> registered \<times> discoveries \<times> bool \<Rightarrow> registered \<times> discoveries \<times> bool" where
  "register_module_tools primary module_name mi st = fold (register_class primary module_name mi) (mod_classes mi) st"

text \<open>
  \<open>_discover_tool\<close>: the package and then its module \<open>tool\<close>; \<open>load_module\<close> gives what importing a module does. A package that is missing
  while its directory is there is an error like any other, a missing \<open>tool\<close> is not.
\<close>

definition failed_import :: "string \<Rightarrow> string \<Rightarrow> discovery" where
  "failed_import module_name e = \<lparr>ds_status = FAILED, ds_module = module_name, ds_error = Some e\<rparr>"

definition package_step :: "(string \<Rightarrow> import_result) \<Rightarrow> string \<Rightarrow> registered \<times> discoveries \<times> bool \<Rightarrow> registered \<times> discoveries \<times> bool" where
  "package_step load_module dir st =
     (case (st, load_module (''tools.'' @ dir)) of
        ((ts, ds, found), Imported mi) \<Rightarrow> register_module_tools dir (''tools.'' @ dir) mi st
      | ((ts, ds, found), No_Such_Module) \<Rightarrow> (ts, AList.update dir (failed_import (''tools.'' @ dir) ''no module'') ds, found)
      | ((ts, ds, found), Import_Fails e) \<Rightarrow> (ts, AList.update dir (failed_import (''tools.'' @ dir) e) ds, found))"

definition submodule_step :: "(string \<Rightarrow> import_result) \<Rightarrow> string \<Rightarrow> registered \<times> discoveries \<times> bool \<Rightarrow> registered \<times> discoveries \<times> bool" where
  "submodule_step load_module dir st =
     (let m = ''tools.'' @ dir @ ''.tool'' in
      case (st, load_module m) of
        ((ts, ds, found), Imported mi) \<Rightarrow> register_module_tools dir m mi st
      | ((ts, ds, found), No_Such_Module) \<Rightarrow> st
      | ((ts, ds, found), Import_Fails e) \<Rightarrow> (ts, AList.update dir (failed_import m e) ds, found))"

definition discover_tool :: "(string \<Rightarrow> bool) \<Rightarrow> (string \<Rightarrow> import_result) \<Rightarrow> string \<Rightarrow> registered \<times> discoveries \<Rightarrow> registered \<times> discoveries" where
  "discover_tool exists load_module dir st =
     (case st of (ts, ds) \<Rightarrow>
        if \<not> exists dir then (ts, AList.update dir \<lparr>ds_status = MISSING, ds_module = ''tools.'' @ dir, ds_error = Some ''directory not found''\<rparr> ds)
        else (case submodule_step load_module dir (package_step load_module dir (ts, ds, False)) of
            (ts', ds', found) \<Rightarrow>
              (ts', if \<not> found \<and> map_of ds' dir = None
                then AList.update dir \<lparr>ds_status = REJECTED, ds_module = ''tools.'' @ dir, ds_error = Some ''no tool found''\<rparr> ds' else ds')))"

definition core_tools :: "string list" where
  "core_tools = [''scraper'', ''draft_editor'', ''publisher'', ''batch_reader'', ''stock_notes'', ''stock_financials'']"

record tool_registry =
  rg_tools :: registered
  rg_loaded :: bool
  rg_discovery :: discoveries
  rg_previous :: discoveries

definition new_registry :: tool_registry where
  "new_registry = \<lparr>rg_tools = [], rg_loaded = False, rg_discovery = [], rg_previous = []\<rparr>"

definition load_all :: "(string \<Rightarrow> bool) \<Rightarrow> (string \<Rightarrow> import_result) \<Rightarrow> bool \<Rightarrow> tool_registry \<Rightarrow> tool_registry" where
  "load_all exists load_module force rg =
     (if rg_loaded rg \<and> \<not> force then rg
      else (case fold (discover_tool exists load_module) core_tools ([], []) of
          (ts, ds) \<Rightarrow> \<lparr>rg_tools = ts, rg_loaded = True, rg_discovery = ds, rg_previous = rg_discovery rg\<rparr>))"

text \<open>The tools whose state has changed since the last load, as they are logged.\<close>

definition changed_states :: "tool_registry \<Rightarrow> (string \<times> discovery_status) list" where
  "changed_states rg = map (\<lambda>(n, d). (n, ds_status d)) (filter (\<lambda>(n, d). map_of (rg_previous rg) n \<noteq> Some d) (rg_discovery rg))"

section \<open>Use\<close>

definition get_tool_class :: "tool_registry \<Rightarrow> string \<Rightarrow> tool_class option" where
  "get_tool_class rg n = map_option tm_class (map_of (rg_tools rg) n)"

text \<open>Whether \<open>create_tool_instance\<close> has an instance: with the arguments, or without if that raises.\<close>

definition create_tool_instance :: "tool_registry \<Rightarrow> string \<Rightarrow> tool_class option" where
  "create_tool_instance rg n =
     (case get_tool_class rg n of None \<Rightarrow> None | Some c \<Rightarrow> if tc_takes_args c \<or> tc_takes_none c then Some c else None)"

definition empty_schema :: string where
  "empty_schema = ''{type: object, properties: {}, required: []}''"

record schema_entry =
  se_name :: string
  se_description :: string
  se_schema :: string

definition som_tools :: "string list" where
  "som_tools = [''scraper'', ''browser_task'']"

definition schema_list :: "tool_registry \<Rightarrow> schema_entry list" where
  "schema_list rg = map (\<lambda>(n, m).
     \<lparr>se_name = n,
      se_description = (case nonempty (tm_description m) of Some d \<Rightarrow> d | None \<Rightarrow> ''Dynamically discovered tool '' @ n)
        @ (if n \<in> set som_tools then '' This tool uses SoM element targeting. Use data-ai-id attributes.'' else []),
      se_schema = (case nonempty (tm_schema m) of Some s \<Rightarrow> s | None \<Rightarrow> empty_schema)\<rparr>) (rg_tools rg)"

definition get_som_tools :: "tool_registry \<Rightarrow> string list" where
  "get_som_tools rg = filter (\<lambda>n. n \<in> set som_tools) (map fst (rg_tools rg))"

definition get_responses_tools :: "tool_registry \<Rightarrow> string list \<Rightarrow> schema_entry list" where
  "get_responses_tools rg names =
     concat (map (\<lambda>n. case find (\<lambda>s. se_name s = n) (rev (schema_list rg)) of Some s \<Rightarrow> [s\<lparr>se_name := n\<rparr>] | None \<Rightarrow> []) names)"

section \<open>What the registry promises\<close>

text \<open>
  What every step of a load keeps: names are unique, and each tool has a discovery, has a valid name and has the class that was
  found for it.
\<close>

definition registry_ok :: "registered \<times> discoveries \<Rightarrow> bool" where
  "registry_ok st \<longleftrightarrow> distinct (map fst (fst st))
     \<and> (\<forall>n m. map_of (fst st) n = Some m \<longrightarrow> valid_tool_name n \<and> tc_is_tool (tm_class m) \<and> map_of (snd st) n \<noteq> None)
     \<and> (\<forall>n d. map_of (snd st) n = Some d \<longrightarrow> ds_status d = LOADED \<longrightarrow> map_of (fst st) n \<noteq> None)"

lemma registry_ok_reject:
  "registry_ok (ts, ds) \<Longrightarrow> ds_status d \<noteq> LOADED \<Longrightarrow> registry_ok (ts, AList.update n d ds)"
  unfolding registry_ok_def fst_conv snd_conv update_conv' by (auto simp del: map_of_eq_None_iff)

lemma registry_ok_load:
  "registry_ok (ts, ds) \<Longrightarrow> valid_tool_name n \<Longrightarrow> tc_is_tool (tm_class m) \<Longrightarrow> registry_ok (AList.update n m ts, AList.update n d ds)"
  unfolding registry_ok_def fst_conv snd_conv update_conv' by (auto simp: distinct_update)

lemma register_class_ok:
  assumes "registry_ok (ts, ds)" "register_class primary mn mi c (ts, ds, found) = (ts', ds', found')"
  shows "registry_ok (ts', ds')"
  using assms registry_ok_reject [OF assms(1)] registry_ok_load [OF assms(1)]
  by (auto simp: register_class_def Let_def split: if_splits option.splits)

lemma register_module_ok:
  assumes "registry_ok (ts, ds)" "register_module_tools primary mn mi (ts, ds, found) = (ts', ds', found')"
  shows "registry_ok (ts', ds')"
proof -
  have "registry_ok (fst st, fst (snd st)) \<Longrightarrow> registry_ok (fst (fold (register_class primary mn mi) cs st), fst (snd (fold (register_class primary mn mi) cs st)))" for cs st
  proof (induction cs arbitrary: st)
    case (Cons c cs)
    have "registry_ok (fst (register_class primary mn mi c st), fst (snd (register_class primary mn mi c st)))"
      using register_class_ok [of "fst st" "fst (snd st)" primary mn mi c "snd (snd st)"] Cons.prems by (metis prod.collapse)
    then show ?case using Cons.IH by simp
  qed simp
  from this [of "(ts, ds, found)" "mod_classes mi"] show ?thesis using assms by (simp add: register_module_tools_def)
qed

lemma package_step_ok:
  "registry_ok (ts, ds) \<Longrightarrow> package_step load_module dir (ts, ds, found) = (ts', ds', found') \<Longrightarrow> registry_ok (ts', ds')"
  using registry_ok_reject register_module_ok by (auto simp: package_step_def failed_import_def split: import_result.splits)

lemma submodule_step_ok:
  "registry_ok (ts, ds) \<Longrightarrow> submodule_step load_module dir (ts, ds, found) = (ts', ds', found') \<Longrightarrow> registry_ok (ts', ds')"
  using registry_ok_reject register_module_ok by (auto simp: submodule_step_def Let_def failed_import_def split: import_result.splits)

lemma discover_tool_ok: "registry_ok st \<Longrightarrow> registry_ok (discover_tool exists load_module dir st)"
proof -
  assume ok: "registry_ok st"
  obtain ts ds where st: "st = (ts, ds)" by fastforce
  obtain ts1 ds1 f1 where one: "package_step load_module dir (ts, ds, False) = (ts1, ds1, f1)" by (metis prod.exhaust)
  obtain ts2 ds2 f2 where two: "submodule_step load_module dir (ts1, ds1, f1) = (ts2, ds2, f2)" by (metis prod.exhaust)
  have "registry_ok (ts2, ds2)" using package_step_ok [OF _ one] submodule_step_ok [OF _ two] ok st by blast
  then show ?thesis using ok st one two registry_ok_reject by (auto simp: discover_tool_def)
qed

interpretation registry_load: step_invariant "discover_tool exists load_module" registry_ok for exists load_module
  by unfold_locales (rule discover_tool_ok)

lemma loaded_ok: "registry_ok (fold (discover_tool exists load_module) dirs ([], []))"
  by (rule registry_load.run_keeps) (simp add: registry_ok_def)

lemma find_unique: "distinct (map k xs) \<Longrightarrow> x \<in> set xs \<Longrightarrow> find (\<lambda>y. k y = k x) (rev xs) = Some x"
proof -
  assume "distinct (map k xs)" "x \<in> set xs"
  moreover have "distinct (map k ys) \<Longrightarrow> x \<in> set ys \<Longrightarrow> find (\<lambda>y. k y = k x) ys = Some x" for ys
    by (induction ys) (auto simp: image_iff)
  ultimately show ?thesis by (simp add: rev_map [symmetric])
qed

lemma schema_list_names: "map se_name (schema_list rg) = map fst (rg_tools rg)"
  by (simp add: schema_list_def comp_def case_prod_beta)

text \<open>
  After a load the tools a model is given are those of the names it asked for that are registered, in its order; each of
  them is a concrete tool under a valid name with a discovery, and no discovery says that a tool is loaded that is not.
\<close>

theorem model_is_given_registered_tools:
  assumes "rg = load_all exists load_module force new_registry"
  shows "map se_name (get_responses_tools rg names) = filter (\<lambda>n. get_tool_class rg n \<noteq> None) names
    \<and> (\<forall>n c. get_tool_class rg n = Some c \<longrightarrow> valid_tool_name n \<and> tc_is_tool c \<and> map_of (rg_discovery rg) n \<noteq> None)
    \<and> (\<forall>n d. map_of (rg_discovery rg) n = Some d \<longrightarrow> ds_status d = LOADED \<longrightarrow> get_tool_class rg n \<noteq> None)"
proof -
  have "registry_ok (rg_tools rg, rg_discovery rg)"
    using loaded_ok [of exists load_module core_tools] assms by (simp add: load_all_def new_registry_def split: prod.splits)
  then have ok: "distinct (map fst (rg_tools rg))" "\<And>n m. map_of (rg_tools rg) n = Some m \<Longrightarrow> valid_tool_name n \<and> tc_is_tool (tm_class m) \<and> map_of (rg_discovery rg) n \<noteq> None"
    "\<And>n d. map_of (rg_discovery rg) n = Some d \<Longrightarrow> ds_status d = LOADED \<Longrightarrow> map_of (rg_tools rg) n \<noteq> None"
    by (auto simp: registry_ok_def)
  have one: "map se_name (case find (\<lambda>s. se_name s = n) (rev (schema_list rg)) of Some s \<Rightarrow> [s\<lparr>se_name := n\<rparr>] | None \<Rightarrow> []) = (if get_tool_class rg n \<noteq> None then [n] else [])" for n
  proof (cases "map_of (rg_tools rg) n")
    case None
    then have "n \<notin> set (map se_name (schema_list rg))" unfolding schema_list_names by (simp add: map_of_eq_None_iff)
    then have "find (\<lambda>s. se_name s = n) (rev (schema_list rg)) = None" by (auto simp: find_None_iff)
    then show ?thesis using None by (simp add: get_tool_class_def)
  next
    case (Some m)
    then have "n \<in> set (map se_name (schema_list rg))" unfolding schema_list_names by (metis domI dom_map_of_conv_image_fst list.set_map)
    then obtain s where s: "s \<in> set (schema_list rg)" "se_name s = n" by auto
    have "distinct (map se_name (schema_list rg))" using ok(1) unfolding schema_list_names .
    from find_unique [OF this s(1)] s(2) show ?thesis using Some by (simp add: get_tool_class_def)
  qed
  have "map se_name (get_responses_tools rg names) = filter (\<lambda>n. get_tool_class rg n \<noteq> None) names"
    unfolding get_responses_tools_def
  proof (induction names)
    case (Cons n names)
    then show ?case using one [of n] by simp
  qed simp
  moreover have "valid_tool_name n \<and> tc_is_tool c \<and> map_of (rg_discovery rg) n \<noteq> None" if "get_tool_class rg n = Some c" for n c
    using that ok(2) [of n] by (auto simp: get_tool_class_def)
  moreover have "get_tool_class rg n \<noteq> None" if "map_of (rg_discovery rg) n = Some d" "ds_status d = LOADED" for n d
    using ok(3) [OF that] by (simp add: get_tool_class_def)
  ultimately show ?thesis by blast
qed

definition demo_class :: tool_class where
  "demo_class = \<lparr>tc_qualified = ''ScraperTool'', tc_is_tool = True, tc_name = Some ''scraper'', tc_instance_name = None, tc_takes_args = True, tc_takes_none = True\<rparr>"

definition demo_imports :: "string \<Rightarrow> import_result" where
  "demo_imports m = (if m = ''tools.scraper.tool'' then Imported \<lparr>mod_classes = [demo_class], mod_schema = None, mod_doc = None\<rparr>
     else if m = ''tools.scraper'' then Imported \<lparr>mod_classes = [], mod_schema = None, mod_doc = None\<rparr> else Import_Fails ''syntax error'')"

theorem model_is_given_registered_tools_witness:
  "map se_name (get_responses_tools (load_all (\<lambda>d. True) demo_imports False new_registry) [''publisher'', ''scraper'']) = [''scraper'']"
proof -
  have "filter (\<lambda>n. get_tool_class (load_all (\<lambda>d. True) demo_imports False new_registry) n \<noteq> None) [''publisher'', ''scraper''] = [''scraper'']"
    by code_simp
  then show ?thesis using model_is_given_registered_tools [OF refl, THEN conjunct1, of "\<lambda>d. True" demo_imports False "[''publisher'', ''scraper'']"] by simp
qed

text \<open>A second load changes nothing unless it is forced, and the pattern for names lets a line break at the end pass.\<close>

theorem load_once: "load_all exists load_module False (load_all exists load_module force rg) = load_all exists load_module force rg"
  by (simp add: load_all_def split: prod.splits)

theorem line_break_passes: "valid_tool_name (''scraper'' @ [nl]) \<and> \<not> proper_name (''scraper'' @ [nl])"
  by (simp add: valid_tool_name_def proper_name_def name_char_def nl_def)

text \<open>
  A tool is described by the \<open>INPUT_MODEL\<close> of its module; one that has it as an attribute of its class, where the job API looks
  for it, is described to models as a tool without arguments.
\<close>

theorem class_model_not_described:
  assumes "map_of (rg_tools rg) n = Some m" "distinct (map fst (rg_tools rg))" "tm_schema m = None"
  shows "\<exists>s \<in> set (get_responses_tools rg [n]). se_schema s = empty_schema"
proof -
  have "(n, m) \<in> set (rg_tools rg)" using assms(1) by (rule map_of_SomeD)
  then obtain s where s: "s \<in> set (schema_list rg)" "se_name s = n" "se_schema s = empty_schema"
    using assms(3) by (force simp: schema_list_def nonempty_def)
  have "distinct (map se_name (schema_list rg))" using assms(2) unfolding schema_list_names .
  from find_unique [OF this s(1)] s show ?thesis by (simp add: get_responses_tools_def)
qed

section \<open>Articles fit to be published\<close>

text \<open>\<open>ArticleValidator\<close>; a field is \<open>None\<close> where it is missing, null or, for the title, no text.\<close>

record draft_article =
  da_ulid :: "string option"
  da_title :: "string option"
  da_is_top10 :: bool

definition is_valid :: "draft_article \<Rightarrow> bool \<times> string" where
  "is_valid a =
     (case nonempty (da_ulid a) of
        None \<Rightarrow> (False, ''Invalid ULID'')
      | Some u \<Rightarrow>
          if u = ''None'' then (False, ''Invalid ULID'')
          else (case da_title a of
              None \<Rightarrow> (False, ''Missing/empty title for ULID '' @ u)
            | Some t \<Rightarrow> if strip t = [] then (False, ''Missing/empty title for ULID '' @ u) else (True, [])))"

text \<open>The batch split, with the items that record what is skipped: the identifier, the reason and the flag.\<close>

definition validate_batch :: "bool \<Rightarrow> draft_article list \<Rightarrow> draft_article list \<times> draft_article list \<times> (string \<times> string \<times> bool) list" where
  "validate_batch has_job articles =
     (let skipped = filter (\<lambda>a. \<not> fst (is_valid a)) articles in
      (filter (\<lambda>a. fst (is_valid a)) articles, skipped,
       if has_job then map (\<lambda>a. (case da_ulid a of Some u \<Rightarrow> u | None \<Rightarrow> ''UNKNOWN'', ''Skipped: '' @ snd (is_valid a), da_is_top10 a)) skipped else []))"

text \<open>Every article is either kept or skipped, with one record each, and what is kept has an identifier and a title.\<close>

theorem batch_is_split:
  "mset (fst (validate_batch j as)) + mset (fst (snd (validate_batch j as))) = mset as
   \<and> list_all (\<lambda>a. \<exists>u t. da_ulid a = Some u \<and> u \<notin> {[], ''None''} \<and> da_title a = Some t \<and> strip t \<noteq> []) (fst (validate_batch j as))
   \<and> (j \<longrightarrow> length (snd (snd (validate_batch j as))) = length (fst (snd (validate_batch j as))))"
proof (intro conjI)
  show "mset (fst (validate_batch j as)) + mset (fst (snd (validate_batch j as))) = mset as"
    by (simp add: validate_batch_def Let_def mset_filter [symmetric] del: mset_filter) (metis multiset_partition mset_filter)
  show "list_all (\<lambda>a. \<exists>u t. da_ulid a = Some u \<and> u \<notin> {[], ''None''} \<and> da_title a = Some t \<and> strip t \<noteq> []) (fst (validate_batch j as))"
    by (auto simp: validate_batch_def Let_def list_all_iff is_valid_def nonempty_def split: option.splits if_splits)
  show "j \<longrightarrow> length (snd (snd (validate_batch j as))) = length (fst (snd (validate_batch j as)))"
    by (simp add: validate_batch_def Let_def)
qed

end
