(* ===== verification/Log_Store.thy ===== *)
theory Log_Store
  imports Prelude "HOL-Library.Multiset" "HOL-Library.Char_ord" "HOL-Library.List_Lexorder"
begin

text \<open>
  The log: \<open>utils/logger\<close>, which turns payloads into texts without secrets, \<open>database/logs_writer.py\<close>, the thread that writes
  them, and \<open>scripts/logs_query.py\<close>, the queries over what it has written.
\<close>

section \<open>Secrets\<close>

text \<open>
  The pattern of \<open>_REDACT_PEEK_PATTERN\<close> at the start of a text: the length of a key, in whatever case, and the lengths of key with
  delimiter and of value. A delimiter with blanks around it is one equals sign or colon.
\<close>

definition secret_keys :: "string list" where
  "secret_keys = [''apikey'', ''api_key'', ''api-key'', ''secret'', ''password'', ''passwd'', ''token'', ''credential'', ''auth'',
     ''privatekey'', ''private_key'', ''private-key'']"

definition key_length :: "string \<Rightarrow> nat option" where
  "key_length s = map_option length (find (\<lambda>k. prefix k (lower s)) secret_keys)"

definition secret_at :: "string \<Rightarrow> (nat \<times> nat) option" where
  "secret_at s =
     (case key_length s of
        None \<Rightarrow> None
      | Some k \<Rightarrow>
          (case lstrip (drop k s) of
             [] \<Rightarrow> None
           | c # r \<Rightarrow>
               if c \<in> {CHR 0x3D, CHR 0x3A} then
                 (let v = takeWhile (\<lambda>c. \<not> is_space c) (lstrip r) in
                  if v = [] then None else Some (length s - length (lstrip r), length v))
               else None))"

lemma key_length_pos: "key_length s = Some k \<Longrightarrow> 0 < k \<and> k \<le> length s"
proof -
  assume "key_length s = Some k"
  then obtain w where w: "w \<in> set secret_keys" "prefix w (lower s)" "k = length w"
    unfolding key_length_def by (auto simp: find_Some_iff) (metis nth_mem)
  have "list_all (\<lambda>w. 0 < length w) secret_keys" by (simp add: secret_keys_def)
  then show ?thesis using w prefix_length_le [OF w(2)] by (simp add: list_all_iff)
qed

lemma secret_at_pos: "secret_at s = Some (g, v) \<Longrightarrow> 0 < g \<and> g < length s"
proof -
  assume m: "secret_at s = Some (g, v)"
  then obtain k c r where k: "key_length s = Some k" "lstrip (drop k s) = c # r" "g = length s - length (lstrip r)" "takeWhile (\<lambda>c. \<not> is_space c) (lstrip r) \<noteq> []"
    by (auto simp: secret_at_def Let_def split: option.splits list.splits if_splits)
  have "length (lstrip r) < length (c # r)" using length_lstrip_le [of r] by simp
  also have "\<dots> \<le> length (drop k s)" using length_lstrip_le [of "drop k s"] k(2) by metis
  finally have "length (lstrip r) < length s" by simp
  moreover have "lstrip r \<noteq> []" using k(4) by auto
  ultimately show ?thesis using k(3) by (cases "lstrip r") simp_all
qed

function redact_secrets :: "string \<Rightarrow> string" where
  "redact_secrets s =
     (case s of [] \<Rightarrow> []
      | c # r \<Rightarrow> (case secret_at s of
          Some (g, v) \<Rightarrow> take g s @ ''[REDACTED]'' @ redact_secrets (drop (g + v) s)
        | None \<Rightarrow> c # redact_secrets r))"
  by pat_completeness auto
termination
  by (relation "measure length") (auto dest: secret_at_pos)

declare redact_secrets.simps [simp del]

section \<open>Payloads\<close>

text \<open>
  A payload as the serializer tells its cases apart: a masked one with its own text, a text, bytes, a number, an object with what
  its \<open>model_dump\<close>, \<open>to_dict\<close> and \<open>repr\<close> give (\<open>None\<close> if there is none or it raises), and the containers.
\<close>

datatype log_payload =
    P_Null
  | P_Masked "string option"
  | P_Text string
  | P_Bytes nat
  | P_Number string
  | P_Object "string option" "string option" "string option"
  | P_Dict "(string \<times> log_payload) list"
  | P_List "log_payload list"
  | P_Tuple "log_payload list"

datatype logged =
    L_Null
  | L_Text string
  | L_Number string
  | L_Dump string
  | L_Dict "(string \<times> logged) list"
  | L_List "logged list"
  | L_Tuple "logged list"

definition max_payload_chars :: nat where "max_payload_chars = 10000"

definition show_nat :: "nat \<Rightarrow> string" where
  "show_nat n = show_int (int n)"

text \<open>\<open>spool\<close> writes a text to a file of its own: its path, or \<open>None\<close> where the file system refuses.\<close>

definition spool_large_payload :: "(string \<Rightarrow> string option) \<Rightarrow> string \<Rightarrow> string" where
  "spool_large_payload spool s =
     (case spool s of
        Some path \<Rightarrow> ''[SPOOLED: '' @ show_nat (length s) @ '' chars -> '' @ path @ '']''
      | None \<Rightarrow> ''[SPOOL_FAILED: '' @ show_nat (length s) @ '' chars, truncated to '' @ show_nat max_payload_chars @ '': ''
          @ take max_payload_chars s @ ''...[TRUNCATED: '' @ show_nat (length s - max_payload_chars) @ '' more chars]]'')"

definition redact_and_handle_size :: "(string \<Rightarrow> string option) \<Rightarrow> string \<Rightarrow> string" where
  "redact_and_handle_size spool s =
     (let r = redact_secrets s in if length r \<le> max_payload_chars then r else spool_large_payload spool r)"

fun serialize_payload :: "(string \<Rightarrow> string option) \<Rightarrow> nat \<Rightarrow> log_payload \<Rightarrow> logged" where
  "serialize_payload spool depth p =
     (if 10 < depth then L_Text ''[MAX_DEPTH_EXCEEDED]''
      else (case p of
        P_Null \<Rightarrow> L_Null
      | P_Masked m \<Rightarrow> L_Text (case m of Some s \<Rightarrow> s | None \<Rightarrow> ''[MASKED]'')
      | P_Text s \<Rightarrow> L_Text (redact_and_handle_size spool s)
      | P_Bytes n \<Rightarrow> L_Text (''[MASKED: Binary Data | '' @ show_nat n @ '' bytes]'')
      | P_Number s \<Rightarrow> L_Number s
      | P_Object dump dict rep \<Rightarrow>
          (case dump of Some s \<Rightarrow> L_Dump s | None \<Rightarrow>
          (case dict of Some s \<Rightarrow> L_Dump s | None \<Rightarrow>
          (case rep of Some s \<Rightarrow> L_Text (redact_and_handle_size spool s) | None \<Rightarrow> L_Text ''<unserializable>'')))
      | P_Dict kvs \<Rightarrow> L_Dict (map (\<lambda>(k, v). (k, serialize_payload spool (Suc depth) v)) kvs)
      | P_List ps \<Rightarrow> L_List (map (serialize_payload spool (Suc depth)) ps)
      | P_Tuple ps \<Rightarrow> L_Tuple (map (serialize_payload spool (Suc depth)) ps)))"

declare serialize_payload.simps [simp del]

text \<open>The old form, which only cuts.\<close>

definition mask_payload_if_large :: "log_payload \<Rightarrow> log_payload" where
  "mask_payload_if_large p =
     (case p of
        P_Bytes n \<Rightarrow> if max_payload_chars < n then P_Text (''[MASKED: Binary Data | '' @ show_nat n @ '' bytes]'') else p
      | P_Text s \<Rightarrow> if max_payload_chars < length s
          then P_Text (take max_payload_chars s @ ''...[TRUNCATED: '' @ show_nat (length s - max_payload_chars) @ '' more chars]'') else p
      | _ \<Rightarrow> p)"

text \<open>The texts in a logged payload, and the dumps that objects gave of themselves.\<close>

fun logged_texts :: "logged \<Rightarrow> string list" where
  "logged_texts (L_Text s) = [s]"
| "logged_texts (L_Dict kvs) = concat (map (\<lambda>kv. logged_texts (snd kv)) kvs)"
| "logged_texts (L_List ls) = concat (map logged_texts ls)"
| "logged_texts (L_Tuple ls) = concat (map logged_texts ls)"
| "logged_texts _ = []"

fun logged_depth :: "logged \<Rightarrow> nat" where
  "logged_depth (L_Dict kvs) = Suc (foldr max (map (\<lambda>kv. logged_depth (snd kv)) kvs) 0)"
| "logged_depth (L_List ls) = Suc (foldr max (map logged_depth ls) 0)"
| "logged_depth (L_Tuple ls) = Suc (foldr max (map logged_depth ls) 0)"
| "logged_depth _ = 0"

section \<open>No secret is left\<close>

definition redacted :: string where "redacted = ''[REDACTED]''"

text \<open>A text shows a secret at its start if it matches there with a value that is not the mark; it leaks if a rest of it does.\<close>

definition shows_secret :: "string \<Rightarrow> bool" where
  "shows_secret t = (case secret_at t of None \<Rightarrow> False | Some (g, v) \<Rightarrow> \<not> prefix redacted (drop g t))"

fun leaks :: "string \<Rightarrow> bool" where
  "leaks [] = False"
| "leaks (c # s) = (shows_secret (c # s) \<or> leaks s)"

lemma lstrip_spaces: "list_all is_space b \<Longrightarrow> lstrip (b @ s) = lstrip s"
  by (induction b) (simp_all add: lstrip_def)

lemma lstrip_split: "s = takeWhile is_space s @ lstrip s \<and> list_all is_space (takeWhile is_space s)"
  by (auto simp: lstrip_def list_all_iff dest: set_takeWhileD)

lemma lstrip_empty: "lstrip s = [] \<longleftrightarrow> list_all is_space s"
  by (auto simp: lstrip_def list_all_iff dropWhile_eq_Nil_conv)

lemma lstrip_hd: "lstrip s = c # r \<Longrightarrow> \<not> is_space c"
  unfolding lstrip_def by (metis hd_dropWhile list.distinct(1) list.sel(1))

lemma keys_incomparable: "list_all (\<lambda>v. list_all (\<lambda>w. prefix v w \<longrightarrow> v = w) secret_keys) secret_keys"
  by code_simp

lemma keys_plain: "list_all (list_all (\<lambda>c. c \<notin> {CHR 0x3D, CHR 0x3A, CHR 0x5B} \<and> \<not> is_space c)) secret_keys"
  by code_simp

lemma key_length_key: "lower K \<in> set secret_keys \<Longrightarrow> key_length (K @ s) = Some (length K)"
proof -
  assume K: "lower K \<in> set secret_keys"
  have pre: "prefix (lower K) (lower (K @ s))" by (simp add: lower_def)
  then have "find (\<lambda>k. prefix k (lower (K @ s))) secret_keys \<noteq> None" using K by (auto simp: find_None_iff)
  then obtain w where w: "find (\<lambda>k. prefix k (lower (K @ s))) secret_keys = Some w" by auto
  then have w2: "w \<in> set secret_keys" "prefix w (lower (K @ s))" by (auto simp: find_Some_iff)
  have "prefix w (lower K) \<or> prefix (lower K) w" using prefix_same_cases [OF w2(2) pre] .
  then have "w = lower K" using keys_incomparable w2(1) K by (auto simp: list_all_iff)
  then show ?thesis using w by (simp add: key_length_def)
qed

lemma lower_char_plain:
  assumes "lower_char c \<notin> {CHR 0x3D, CHR 0x3A, CHR 0x5B}"
  shows "c \<notin> {CHR 0x3D, CHR 0x3A, CHR 0x5B}"
  using assms by (auto simp: lower_char_def)

lemma key_chars: "lower K \<in> set secret_keys \<Longrightarrow> c \<in> set K \<Longrightarrow> c \<notin> {CHR 0x3D, CHR 0x3A, CHR 0x5B}"
proof -
  assume "lower K \<in> set secret_keys" "c \<in> set K"
  then have "lower_char c \<notin> {CHR 0x3D, CHR 0x3A, CHR 0x5B}" using keys_plain by (auto simp: list_all_iff lower_def)
  then show ?thesis by (rule lower_char_plain)
qed

lemma delimiter_no_space: "d \<in> {CHR 0x3D, CHR 0x3A} \<Longrightarrow> \<not> is_space d" "\<not> is_space (CHR 0x5B)"
  by (auto simp: is_space_def)

lemma secret_at_intro:
  assumes "lower K \<in> set secret_keys" "list_all is_space b" "d \<in> {CHR 0x3D, CHR 0x3A}" "lstrip r \<noteq> []"
  shows "\<exists>v. secret_at (K @ b @ d # r) = Some (length (K @ b @ d # r) - length (lstrip r), v)"
proof -
  have "lstrip (drop (length K) (K @ b @ d # r)) = lstrip (d # r)" using lstrip_spaces [OF assms(2)] by simp
  also have "\<dots> = d # r" using delimiter_no_space(1) [OF assms(3)] by (simp add: lstrip_def)
  finally have s: "lstrip (drop (length K) (K @ b @ d # r)) = d # r" .
  have "takeWhile (\<lambda>c. \<not> is_space c) (lstrip r) \<noteq> []" using assms(4) lstrip_hd [of r] by (cases "lstrip r") simp_all
  then show ?thesis using s assms(3) key_length_key [OF assms(1), of "b @ d # r"] by (simp add: secret_at_def Let_def)
qed

lemma secret_at_elim:
  assumes "secret_at t = Some (g, v)"
  obtains K b d r where "t = K @ b @ d # r" "lower K \<in> set secret_keys" "list_all is_space b" "d \<in> {CHR 0x3D, CHR 0x3A}" "lstrip r \<noteq> []"
    "g = length t - length (lstrip r)"
proof -
  obtain k d r where k: "key_length t = Some k" "lstrip (drop k t) = d # r" "d \<in> {CHR 0x3D, CHR 0x3A}"
    "takeWhile (\<lambda>c. \<not> is_space c) (lstrip r) \<noteq> []" "g = length t - length (lstrip r)"
    using assms by (auto simp: secret_at_def Let_def split: option.splits list.splits if_splits)
  obtain w where w: "w \<in> set secret_keys" "prefix w (lower t)" "k = length w"
    using k(1) unfolding key_length_def by (auto simp: find_Some_iff) (metis nth_mem)
  have "lower (take k t) = w" using w(2,3) by (simp add: lower_def take_map [symmetric]) (metis append_eq_conv_conj prefix_def)
  moreover have "t = take k t @ takeWhile is_space (drop k t) @ d # r" using lstrip_split [of "drop k t"] k(2) by (metis append_take_drop_id)
  moreover have "lstrip r \<noteq> []" using k(4) by auto
  ultimately show ?thesis using that w(1) k(3,5) lstrip_split [of "drop k t"] by metis
qed

text \<open>A secret shown before a mark has its value before the mark, so it is one whatever follows.\<close>

lemma secret_before_mark:
  assumes "shows_secret (A @ redacted @ Y)"
  obtains K b d r where "A = K @ b @ d # r" "lower K \<in> set secret_keys" "list_all is_space b" "d \<in> {CHR 0x3D, CHR 0x3A}" "lstrip r \<noteq> []"
proof -
  let ?T = "A @ redacted @ Y"
  obtain g v where g: "secret_at ?T = Some (g, v)" "\<not> prefix redacted (drop g ?T)" using assms by (auto simp: shows_secret_def split: option.splits)
  obtain K b d r where t: "?T = K @ b @ d # r" "lower K \<in> set secret_keys" "list_all is_space b" "d \<in> {CHR 0x3D, CHR 0x3A}" "lstrip r \<noteq> []"
    "g = length ?T - length (lstrip r)" using secret_at_elim [OF g(1)] by metis
  have no: "CHR 0x5B \<notin> set (K @ b @ [d])"
    using key_chars [OF t(2), of "CHR 0x5B"] t(3,4) delimiter_no_space by (auto simp: list_all_iff)
  have "length (K @ b @ [d]) \<le> length A"
  proof (rule ccontr)
    assume "\<not> length (K @ b @ [d]) \<le> length A"
    then have "(K @ b @ [d]) ! length A = ?T ! length A" using t(1) by (simp add: nth_append)
    also have "\<dots> = CHR 0x5B" by (simp add: redacted_def)
    finally show False using no \<open>\<not> length (K @ b @ [d]) \<le> length A\<close> nth_mem [of "length A" "K @ b @ [d]"] by simp
  qed
  note short = this
  let ?p = "K @ b @ [d]" and ?r' = "drop (length (K @ b @ [d])) A"
  have whole: "?T = ?p @ r" using t(1) by simp
  have "take (length ?p) ?T = take (length ?p) A" using short by (simp only: take_append) simp
  moreover have "take (length ?p) ?T = ?p" unfolding whole by simp
  ultimately have A: "A = ?p @ ?r'" by (metis append_take_drop_id)
  have "drop (length ?p) ?T = ?r' @ redacted @ Y" using short by (simp only: drop_append) simp
  moreover have "drop (length ?p) ?T = r" unfolding whole by simp
  ultimately have r: "r = ?r' @ redacted @ Y" by metis
  have "lstrip ?r' \<noteq> []"
  proof
    assume "lstrip ?r' = []"
    then have "list_all is_space ?r'" by (simp only: lstrip_empty)
    then have "lstrip r = lstrip (redacted @ Y)" using r lstrip_spaces by metis
    also have "\<dots> = redacted @ Y" using delimiter_no_space(2) by (simp add: redacted_def lstrip_def)
    finally have "drop g ?T = redacted @ Y" using t(6) by simp
    then show False using g(2) by simp
  qed
  moreover have "A = K @ b @ d # ?r'" using A by simp
  ultimately show ?thesis using that t(2-4) by blast
qed

lemma leaks_append: "leaks (A @ t) \<Longrightarrow> (\<exists>B C. A = B @ C \<and> C \<noteq> [] \<and> shows_secret (C @ t)) \<or> leaks t"
proof (induction A)
  case (Cons a A)
  then have "shows_secret ((a # A) @ t) \<or> leaks (A @ t)" by simp
  then show ?case
  proof
    assume "shows_secret ((a # A) @ t)"
    then show ?thesis by (metis append_Nil list.distinct(1))
  next
    assume "leaks (A @ t)"
    then show ?thesis using Cons.IH by (metis append_Cons)
  qed
qed simp

lemma mark_shows_nothing: "redacted = B @ C \<Longrightarrow> C \<noteq> [] \<Longrightarrow> \<not> shows_secret (C @ t)"
proof -
  assume e: "redacted = B @ C" "C \<noteq> []"
  have "length redacted = 10" by (simp add: redacted_def)
  moreover have "length redacted = length B + length C" unfolding e(1) by (rule length_append)
  moreover have "0 < length C" using e(2) by simp
  ultimately have "length B < 10" by linarith
  moreover have "C = drop (length B) redacted" unfolding e(1) by simp
  ultimately have C: "C = drop (length B) redacted" "length B < 10" by blast+
  have "key_length (drop i redacted @ t) = None" if "i < 10" for i
  proof -
    have "lower (drop i redacted @ t) = drop i (lower redacted) @ lower t" by (simp add: lower_def drop_map)
    also have "lower redacted = ''[redacted]''" by code_simp
    finally have low: "lower (drop i redacted @ t) = drop i ''[redacted]'' @ lower t" .
    have "i \<in> {0, 1, 2, 3, 4, 5, 6, 7, 8, 9}" using that by auto
    then show ?thesis unfolding key_length_def low by (elim insertE) (simp_all add: secret_keys_def)
  qed
  then show ?thesis using C by (simp add: shows_secret_def secret_at_def)
qed

lemma redact_nothing [simp]: "redact_secrets [] = []"
  by (simp add: redact_secrets.simps [of "[]"])

lemma redact_none: "secret_at (c # r) = None \<Longrightarrow> redact_secrets (c # r) = c # redact_secrets r"
  by (simp add: redact_secrets.simps [of "c # r"])

lemma redact_some: "secret_at s = Some (g, v) \<Longrightarrow> redact_secrets s = take g s @ redacted @ redact_secrets (drop (g + v) s)"
proof -
  assume m: "secret_at s = Some (g, v)"
  then obtain c r where s: "s = c # r" using secret_at_pos [OF m] by (cases s) simp_all
  show ?thesis using m unfolding s by (subst redact_secrets.simps) (simp add: redacted_def)
qed

lemma redact_shape: "redact_secrets s = s \<or> (\<exists>A Z Y. s = A @ Z \<and> redact_secrets s = A @ redacted @ Y)"
proof (induction s rule: redact_secrets.induct)
  case (1 s)
  show ?case
  proof (cases s)
    case Nil
    then show ?thesis by simp
  next
    case (Cons c r)
    show ?thesis
    proof (cases "secret_at s")
      case None
      then have "redact_secrets s = c # redact_secrets r" using Cons redact_none by simp
      moreover have "redact_secrets r = r \<or> (\<exists>A Z Y. r = A @ Z \<and> redact_secrets r = A @ redacted @ Y)" by (rule 1(1) [OF Cons None])
      ultimately show ?thesis
      proof (elim disjE exE conjE)
        assume "redact_secrets s = c # redact_secrets r" "redact_secrets r = r"
        then show ?thesis using Cons by simp
      next
        fix A Z Y assume "redact_secrets s = c # redact_secrets r" "r = A @ Z" "redact_secrets r = A @ redacted @ Y"
        then have "s = (c # A) @ Z \<and> redact_secrets s = (c # A) @ redacted @ Y" using Cons by simp
        then show ?thesis by blast
      qed
    next
      case (Some gv)
      then obtain g v where "secret_at s = Some (g, v)" by (cases gv) simp
      then have "redact_secrets s = take g s @ redacted @ redact_secrets (drop (g + v) s)" by (rule redact_some)
      then show ?thesis by (metis append_take_drop_id)
    qed
  qed
qed

lemma unmatched_shows_nothing:
  assumes "secret_at (c # r) = None"
  shows "\<not> shows_secret (c # redact_secrets r)"
proof
  assume shown: "shows_secret (c # redact_secrets r)"
  from redact_shape [of r] show False
  proof (elim disjE exE conjE)
    assume "redact_secrets r = r"
    then show False using shown assms by (simp add: shows_secret_def)
  next
    fix A Z Y assume r: "r = A @ Z" "redact_secrets r = A @ redacted @ Y"
    then have "shows_secret ((c # A) @ redacted @ Y)" using shown by simp
    from secret_before_mark [OF this] obtain K b d q where q: "c # A = K @ b @ d # q" "lower K \<in> set secret_keys" "list_all is_space b" "d \<in> {CHR 0x3D, CHR 0x3A}" "lstrip q \<noteq> []" .
    have "c # r = K @ b @ d # (q @ Z)" using r(1) q(1) by (metis append_Cons append_assoc)
    moreover have "lstrip (q @ Z) \<noteq> []" using q(5) by (simp add: lstrip_empty)
    ultimately show False using secret_at_intro [OF q(2-4), of "q @ Z"] assms by auto
  qed
qed

lemma matched_shows_nothing:
  assumes "secret_at s = Some (g, v)" "take g s = B @ C"
  shows "\<not> shows_secret (C @ redacted @ Y)"
proof
  assume shown: "shows_secret (C @ redacted @ Y)"
  obtain K b d q where t: "s = K @ b @ d # q" "lower K \<in> set secret_keys" "list_all is_space b" "d \<in> {CHR 0x3D, CHR 0x3A}" "g = length s - length (lstrip q)"
    using secret_at_elim [OF assms(1)] by metis
  let ?sp = "takeWhile is_space q"
  have q: "q = ?sp @ lstrip q" "list_all is_space ?sp" using lstrip_split [of q] by simp_all
  have "s = (K @ b @ d # ?sp) @ lstrip q" using t(1) q(1) by (metis append_Cons append_assoc)
  then have head: "take g s = (K @ b) @ d # ?sp" using t(5) by (metis append_assoc append_eq_conv_conj diff_add_inverse2 length_append)
  from secret_before_mark [OF shown] obtain K' b' d' q' where C: "C = K' @ b' @ d' # q'" "d' \<in> {CHR 0x3D, CHR 0x3A}" "lstrip q' \<noteq> []" by metis
  have "d' \<notin> set (K @ b)" using key_chars [OF t(2), of d'] t(3) delimiter_no_space(1) [OF C(2)] C(2) by (auto simp: list_all_iff)
  moreover have "suffix (d' # q') ((K @ b) @ d # ?sp)" using assms(2) C(1) head by (metis append_assoc suffix_def)
  ultimately have "suffix (d' # q') (d # ?sp)" unfolding suffix_append by (auto simp: suffix_def Cons_eq_append_conv)
  then have "suffix q' ?sp" by (metis list.sel(3) suffix_ConsD suffix_Cons suffix_order.refl list.inject)
  then have "list_all is_space q'" using q(2) by (auto simp: list_all_iff dest: set_mono_suffix)
  then show False using C(3) by (simp add: lstrip_empty)
qed


text \<open>
  What the pattern does not see: a bearer's token, a name in quotes as in the texts of JSON, the value of a dict under such a name, and
  what an object dumps of itself.
\<close>

definition quoted_password :: string where
  "quoted_password = [CHR 0x22] @ ''password'' @ [CHR 0x22] @ '': '' @ [CHR 0x22] @ ''hunter2'' @ [CHR 0x22]"

theorem secrets_not_seen:
  "redact_secrets ''Authorization: Bearer abc123def'' = ''Authorization: Bearer abc123def''
    \<and> redact_secrets quoted_password = quoted_password
    \<and> redact_secrets ''api_key=SK_live_abc123'' = ''api_key=[REDACTED]''"
  by code_simp

theorem dict_value_passes:
  "serialize_payload spool 0 (P_Dict [(''password'', P_Text ''hunter2'')]) = L_Dict [(''password'', L_Text ''hunter2'')]"
proof -
  have "redact_secrets ''hunter2'' = ''hunter2''" by code_simp
  then show ?thesis by (simp add: serialize_payload.simps redact_and_handle_size_def Let_def max_payload_chars_def)
qed

theorem dump_passes:
  "depth \<le> 10 \<Longrightarrow> serialize_payload spool depth (P_Object (Some s) d r) = L_Dump s"
  by (simp add: serialize_payload.simps)

text \<open>A logged payload nests at most eleven deep.\<close>

lemma foldr_max_le: "list_all (\<lambda>n. n \<le> k) ns \<Longrightarrow> foldr max ns 0 \<le> (k::nat)"
  by (induction ns) simp_all

theorem logged_depth_bounded: "logged_depth (serialize_payload spool d p) \<le> 11 - d"
proof (induction spool d p rule: serialize_payload.induct)
  case (1 spool d p)
  show ?case
  proof (cases "10 < d")
    case True
    then show ?thesis by (simp add: serialize_payload.simps)
  next
    case False
    have step: "\<And>n. n \<le> 11 - Suc d \<Longrightarrow> Suc n \<le> 11 - d" using False by linarith
    show ?thesis
    proof (cases p)
      case (P_Dict kvs)
      have "list_all (\<lambda>n. n \<le> 11 - Suc d) (map (\<lambda>kv. logged_depth (serialize_payload spool (Suc d) (snd kv))) kvs)"
        unfolding list_all_iff using 1(1) [OF False P_Dict] by fastforce
      from step [OF foldr_max_le [OF this]] show ?thesis using False P_Dict by (simp add: serialize_payload.simps [of spool d] comp_def case_prod_beta)
    next
      case (P_List ps)
      have "list_all (\<lambda>n. n \<le> 11 - Suc d) (map (\<lambda>p. logged_depth (serialize_payload spool (Suc d) p)) ps)"
        unfolding list_all_iff using 1(2) [OF False P_List] by fastforce
      from step [OF foldr_max_le [OF this]] show ?thesis using False P_List by (simp add: serialize_payload.simps [of spool d] comp_def)
    next
      case (P_Tuple ps)
      have "list_all (\<lambda>n. n \<le> 11 - Suc d) (map (\<lambda>p. logged_depth (serialize_payload spool (Suc d) p)) ps)"
        unfolding list_all_iff using 1(3) [OF False P_Tuple] by fastforce
      from step [OF foldr_max_le [OF this]] show ?thesis using False P_Tuple by (simp add: serialize_payload.simps [of spool d] comp_def)
    qed (simp_all add: serialize_payload.simps [of spool d] split: option.splits)
  qed
qed

text \<open>Where the file system refuses a large text the logged one is larger than the bound, though cut.\<close>

theorem refused_spool_exceeds:
  assumes "spool (redact_secrets s) = None" "max_payload_chars < length (redact_secrets s)"
  shows "max_payload_chars < length (redact_and_handle_size spool s)"
  using assms by (simp add: redact_and_handle_size_def Let_def spool_large_payload_def)

section \<open>The writer\<close>

text \<open>
  \<open>database/logs_writer.py\<close>: the queue with the mark that ends a writer, the writer that the module refers to and those it has
  forgotten while they still ran, each with its failures in a row, the entries taken from the queue in their order, with whether they were written, and the counters.
\<close>

datatype 'e log_task = Log_Entry 'e | Log_Stop

record 'e log_writer =
  lw_queue :: "'e log_task list"
  lw_current :: bool
  lw_forgotten :: "nat list"
  lw_shutdown :: bool
  lw_taken :: "('e \<times> bool) list"
  lw_generation :: nat
  lw_dropped :: nat
  lw_errors :: nat
  lw_reconnects :: nat

definition new_log_writer :: "'e log_writer" where
  "new_log_writer = \<lparr>lw_queue = [], lw_current = False, lw_forgotten = [], lw_shutdown = False, lw_taken = [], lw_generation = 0,
     lw_dropped = 0, lw_errors = 0, lw_reconnects = 0\<rparr>"

definition log_queue_size :: nat where "log_queue_size = 10000"

definition start_logs_writer :: "'e log_writer \<Rightarrow> 'e log_writer" where
  "start_logs_writer w = (if lw_current w then w else w\<lparr>lw_current := True, lw_shutdown := False, lw_errors := 0\<rparr>)"

definition put_log_task :: "'e log_task \<Rightarrow> 'e log_writer \<Rightarrow> 'e log_writer option" where
  "put_log_task t w = (if length (lw_queue w) < log_queue_size then Some (w\<lparr>lw_queue := lw_queue w @ [t]\<rparr>) else None)"

definition logs_enqueue_write :: "bool \<Rightarrow> 'e \<Rightarrow> 'e log_writer \<Rightarrow> 'e log_writer" where
  "logs_enqueue_write enabled e w =
     (if \<not> enabled then w
      else let w' = start_logs_writer w in
        case put_log_task (Log_Entry e) w' of Some w'' \<Rightarrow> w'' | None \<Rightarrow> w'\<lparr>lw_dropped := lw_dropped w' + 1\<rparr>)"

text \<open>A writer is the current one or one of the forgotten: its failures in a row, their change, and its end.\<close>

definition failures_of :: "nat option \<Rightarrow> 'e log_writer \<Rightarrow> nat option" where
  "failures_of who w =
     (case who of None \<Rightarrow> if lw_current w then Some (lw_errors w) else None
      | Some i \<Rightarrow> if i < length (lw_forgotten w) then Some (lw_forgotten w ! i) else None)"

definition set_failures :: "nat option \<Rightarrow> nat \<Rightarrow> 'e log_writer \<Rightarrow> 'e log_writer" where
  "set_failures who n w = (case who of None \<Rightarrow> w\<lparr>lw_errors := n\<rparr> | Some i \<Rightarrow> w\<lparr>lw_forgotten := (lw_forgotten w)[i := n]\<rparr>)"

definition writer_ends :: "nat option \<Rightarrow> 'e log_writer \<Rightarrow> 'e log_writer" where
  "writer_ends who w =
     (case who of None \<Rightarrow> w\<lparr>lw_current := False\<rparr>
      | Some i \<Rightarrow> w\<lparr>lw_forgotten := take i (lw_forgotten w) @ drop (Suc i) (lw_forgotten w)\<rparr>)"

text \<open>
  A round of a writer: it takes a task and writes it or fails, reconnecting after three failures in a row if it can, or waits in vain
  and ends if it is to.
\<close>

definition log_round :: "nat option \<Rightarrow> bool \<Rightarrow> bool \<Rightarrow> 'e log_writer \<Rightarrow> 'e log_writer" where
  "log_round who written reconnects w =
     (case failures_of who w of
        None \<Rightarrow> w
      | Some n \<Rightarrow>
          (case lw_queue w of
             [] \<Rightarrow> if lw_shutdown w then writer_ends who w else w
           | Log_Stop # q \<Rightarrow> writer_ends who (w\<lparr>lw_queue := q\<rparr>)
           | Log_Entry e # q \<Rightarrow>
               (let w' = w\<lparr>lw_queue := q, lw_taken := lw_taken w @ [(e, written)]\<rparr> in
                if written then set_failures who 0 (w'\<lparr>lw_generation := lw_generation w + 1\<rparr>)
                else if 3 \<le> n + 1 \<and> reconnects then set_failures who 0 (w'\<lparr>lw_reconnects := lw_reconnects w + 1\<rparr>)
                else set_failures who (n + 1) w')))"

text \<open>\<open>stop_logs_writer\<close>: the mark is put if there is room, then the writer is waited for and forgotten, ended or not.\<close>

definition stop_logs_writer :: "'e log_writer \<Rightarrow> 'e log_writer" where
  "stop_logs_writer w =
     (let w' = w\<lparr>lw_shutdown := True\<rparr> in case put_log_task Log_Stop w' of Some w'' \<Rightarrow> w'' | None \<Rightarrow> w')"

definition forget_logs_writer :: "'e log_writer \<Rightarrow> 'e log_writer" where
  "forget_logs_writer w = (if lw_current w then w\<lparr>lw_current := False, lw_forgotten := lw_forgotten w @ [lw_errors w]\<rparr> else w)"

datatype 'e log_event = Log_Enqueue bool 'e | Log_Round "nat option" bool bool | Log_Stop_Request | Log_Forget

fun log_step :: "'e log_event \<Rightarrow> 'e log_writer \<Rightarrow> 'e log_writer" where
  "log_step (Log_Enqueue enabled e) w = logs_enqueue_write enabled e w"
| "log_step (Log_Round who written reconnects) w = log_round who written reconnects w"
| "log_step Log_Stop_Request w = stop_logs_writer w"
| "log_step Log_Forget w = forget_logs_writer w"

fun entries_of :: "'e log_task list \<Rightarrow> 'e list" where
  "entries_of [] = []"
| "entries_of (Log_Entry e # ts) = e # entries_of ts"
| "entries_of (Log_Stop # ts) = entries_of ts"

lemma entries_append [simp]: "entries_of (xs @ ys) = entries_of xs @ entries_of ys"
  by (induction xs rule: entries_of.induct) simp_all

text \<open>What was taken and what waits, in order, and the counters that must agree with it.\<close>

definition log_order :: "'e log_writer \<Rightarrow> 'e list" where
  "log_order w = map fst (lw_taken w) @ entries_of (lw_queue w)"

definition log_counts_ok :: "'e log_writer \<Rightarrow> bool" where
  "log_counts_ok w \<longleftrightarrow> lw_generation w = length (filter snd (lw_taken w)) \<and> length (lw_queue w) \<le> log_queue_size"

fun offered :: "'e log_event list \<Rightarrow> 'e list" where
  "offered [] = []"
| "offered (Log_Enqueue enabled e # es) = (if enabled then [e] else []) @ offered es"
| "offered (e # es) = offered es"

lemma log_round_order: "log_order (log_round c wr rc w) = log_order w \<and> lw_dropped (log_round c wr rc w) = lw_dropped w"
  by (cases "lw_queue w" rule: entries_of.cases) (auto simp: log_round_def log_order_def writer_ends_def set_failures_def Let_def split: option.splits)

lemma log_step_order:
  "log_order (log_step ev w) = log_order w \<or> (\<exists>e. ev = Log_Enqueue True e \<and> log_order (log_step ev w) = log_order w @ [e])"
  using log_round_order [of _ _ _ w]
  by (cases ev) (auto simp: logs_enqueue_write_def start_logs_writer_def put_log_task_def stop_logs_writer_def forget_logs_writer_def log_order_def Let_def split: if_splits option.splits)

lemma log_step_counts: "log_counts_ok w \<Longrightarrow> log_counts_ok (log_step ev w)"
proof (cases ev)
  case (Log_Round c wr rc)
  then show "log_counts_ok w \<Longrightarrow> ?thesis"
    by (cases "lw_queue w" rule: entries_of.cases) (auto simp: log_round_def log_counts_ok_def writer_ends_def set_failures_def Let_def split: option.splits)
qed (auto simp: logs_enqueue_write_def start_logs_writer_def put_log_task_def stop_logs_writer_def forget_logs_writer_def log_counts_ok_def log_queue_size_def Let_def split: if_splits option.splits)

interpretation log_run: step_invariant log_step log_counts_ok
  by unfold_locales (rule log_step_counts)

lemma log_step_total:
  "length (log_order (log_step ev w)) + lw_dropped (log_step ev w) = length (log_order w) + lw_dropped w + length (offered [ev])"
  using log_round_order [of _ _ _ w]
  by (cases ev) (auto simp: logs_enqueue_write_def start_logs_writer_def put_log_task_def stop_logs_writer_def forget_logs_writer_def log_order_def Let_def split: if_splits option.splits)

lemma offered_Cons: "offered (ev # es) = offered [ev] @ offered es"
  by (cases ev) simp_all

lemma log_run_order:
  "\<exists>acc. log_order (fold log_step es w) = log_order w @ acc \<and> subseq acc (offered es)
     \<and> length acc + lw_dropped (fold log_step es w) = length (offered es) + lw_dropped w"
proof (induction es arbitrary: w)
  case (Cons ev es)
  obtain acc where acc: "log_order (fold log_step es (log_step ev w)) = log_order (log_step ev w) @ acc" "subseq acc (offered es)"
    "length acc + lw_dropped (fold log_step es (log_step ev w)) = length (offered es) + lw_dropped (log_step ev w)" using Cons by blast
  have off: "offered (ev # es) = offered [ev] @ offered es" by (rule offered_Cons)
  from log_step_order [of ev w] show ?case
  proof (elim disjE exE conjE)
    assume "log_order (log_step ev w) = log_order w"
    then show ?thesis using acc log_step_total [of ev w] off by (intro exI [of _ acc]) (simp add: list_emb_append2)
  next
    fix e assume e: "ev = Log_Enqueue True e" "log_order (log_step ev w) = log_order w @ [e]"
    then show ?thesis using acc log_step_total [of ev w] off by (intro exI [of _ "e # acc"]) simp
  qed
qed (intro exI [of _ "[]"], simp)

text \<open>
  C31: Whatever the writers do, the entries taken from the queue and those that wait are those offered, in their order, but for the
  ones counted as dropped; the generation counts the entries written, and the queue keeps its bound.
\<close>

theorem log_entries_in_order:
  assumes "w = fold log_step es new_log_writer"
  shows "subseq (map fst (lw_taken w) @ entries_of (lw_queue w)) (offered es)
    \<and> length (lw_taken w) + length (entries_of (lw_queue w)) + lw_dropped w = length (offered es)
    \<and> lw_generation w = length (filter snd (lw_taken w)) \<and> length (lw_queue w) \<le> log_queue_size"
proof -
  have "log_counts_ok w" unfolding assms by (rule log_run.run_keeps) (simp add: new_log_writer_def log_counts_ok_def)
  moreover have "log_order (new_log_writer :: 'a log_writer) = []" "lw_dropped (new_log_writer :: 'a log_writer) = 0"
    by (simp_all add: new_log_writer_def log_order_def)
  moreover obtain acc where "log_order w = log_order (new_log_writer :: 'a log_writer) @ acc" "subseq acc (offered es)"
    "length acc + lw_dropped w = length (offered es) + lw_dropped (new_log_writer :: 'a log_writer)"
    using log_run_order [of es "new_log_writer"] assms by blast
  ultimately show ?thesis by (auto simp: log_order_def log_counts_ok_def)
qed

definition demo_log :: "nat log_event list" where
  "demo_log = [Log_Enqueue True 1, Log_Round None True True, Log_Enqueue True 2, Log_Enqueue False 3, Log_Stop_Request, Log_Round None False True, Log_Forget]"

theorem log_entries_in_order_witness:
  "length (lw_taken (fold log_step demo_log new_log_writer)) + length (entries_of (lw_queue (fold log_step demo_log new_log_writer)))
     + lw_dropped (fold log_step demo_log new_log_writer) = 2 \<and> lw_generation (fold log_step demo_log new_log_writer) = 1"
proof -
  have "length (offered demo_log) = 2" "length (filter snd (lw_taken (fold log_step demo_log new_log_writer))) = 1" by code_simp+
  then show ?thesis using log_entries_in_order [OF refl, of demo_log] by simp
qed

text \<open>
  A stop that finds no writer leaves its mark in the queue, and the next writer ends at it before it has written anything; and a
  writer that did not end in time is joined by a second one.
\<close>

theorem stop_mark_outlives:
  "log_round None wr rc (logs_enqueue_write True e (stop_logs_writer new_log_writer))
     = (new_log_writer :: 'e log_writer)\<lparr>lw_queue := [Log_Entry e]\<rparr>"
  by (simp add: new_log_writer_def stop_logs_writer_def put_log_task_def log_queue_size_def logs_enqueue_write_def start_logs_writer_def
      log_round_def failures_of_def writer_ends_def Let_def)

theorem two_writers_run:
  assumes "lw_current w"
  shows "let w' = logs_enqueue_write True e (forget_logs_writer w) in lw_current w' \<and> lw_forgotten w' \<noteq> []"
  using assms by (simp add: forget_logs_writer_def logs_enqueue_write_def start_logs_writer_def put_log_task_def Let_def)

section \<open>Queries\<close>

text \<open>A row of the log; \<open>build_where\<close> as the condition that it makes of its arguments, with \<open>LIKE\<close> on ASCII letters.\<close>

record log_row =
  lr_id :: string
  lr_time :: string
  lr_level :: string
  lr_tag :: string
  lr_job :: "string option"
  lr_message :: string
  lr_payload :: "string option"

fun like :: "string \<Rightarrow> string \<Rightarrow> bool" where
  "like [] s = (s = [])"
| "like (p # ps) s =
     (if p = CHR 0x25 then like ps s \<or> (case s of [] \<Rightarrow> False | c # r \<Rightarrow> like (p # ps) r)
      else (case s of [] \<Rightarrow> False | c # r \<Rightarrow> (p = CHR 0x5F \<or> lower [p] = lower [c]) \<and> like ps r))"

declare like.simps [simp del]

definition level_order :: "(string \<times> nat) list" where
  "level_order = [(''DEBUG'', 1), (''INFO'', 2), (''WARNING'', 3), (''ERROR'', 4), (''CRITICAL'', 5)]"

definition level_matches :: "(string \<Rightarrow> string) \<Rightarrow> string \<Rightarrow> string \<Rightarrow> bool" where
  "level_matches upper_case level l =
     (case map_of level_order (upper_case level) of
        Some n \<Rightarrow> l \<in> set (map fst (filter (\<lambda>(k, m). n \<le> m) level_order))
      | None \<Rightarrow> l = level)"

record log_query =
  lq_level :: string
  lq_tag_prefix :: string
  lq_job :: string
  lq_since :: string
  lq_search :: string
  lq_search_payload :: bool

definition empty_query :: log_query where
  "empty_query = \<lparr>lq_level = [], lq_tag_prefix = [], lq_job = [], lq_since = [], lq_search = [], lq_search_payload = False\<rparr>"

definition tag_pattern :: "string \<Rightarrow> string" where
  "tag_pattern p = rev (dropWhile (\<lambda>c. c = CHR 0x3A) (rev p)) @ '':%''"

definition build_where :: "(string \<Rightarrow> string) \<Rightarrow> log_query \<Rightarrow> log_row \<Rightarrow> bool" where
  "build_where upper_case q r \<longleftrightarrow>
     (lq_level q = [] \<or> level_matches upper_case (lq_level q) (lr_level r))
     \<and> (lq_tag_prefix q = [] \<or> like (tag_pattern (lq_tag_prefix q)) (lr_tag r))
     \<and> (lq_job q = [] \<or> lr_job r = Some (lq_job q))
     \<and> (lq_since q = [] \<or> lq_since q \<le> lr_time r)
     \<and> (lq_search q = [] \<or> like (''%'' @ lq_search q @ ''%'') (lr_message r)
         \<or> (lq_search_payload q \<and> (case lr_payload r of Some s \<Rightarrow> like (''%'' @ lq_search q @ ''%'') s | None \<Rightarrow> False)))"

text \<open>\<open>LIMIT\<close>, which SQLite does not apply where it is negative, after \<open>main\<close> has cut what is over 5000 or given.\<close>

definition apply_limit :: "int \<Rightarrow> 'a list \<Rightarrow> 'a list" where
  "apply_limit n xs = (let m = if n \<noteq> 0 then min n 5000 else n in if m < 0 then xs else take (nat m) xs)"

definition newest_rows :: "(string \<Rightarrow> string) \<Rightarrow> log_query \<Rightarrow> int \<Rightarrow> log_row list \<Rightarrow> log_row list" where
  "newest_rows upper_case q n rows = apply_limit n (order_desc lr_time (filter (build_where upper_case q) rows))"

definition cmd_recent :: "(string \<Rightarrow> string) \<Rightarrow> string \<Rightarrow> string \<Rightarrow> int \<Rightarrow> log_row list \<Rightarrow> log_row list" where
  "cmd_recent upper_case level since n rows = newest_rows upper_case (empty_query\<lparr>lq_level := level, lq_since := since\<rparr>) n rows"

definition cmd_errors :: "(string \<Rightarrow> string) \<Rightarrow> string \<Rightarrow> string \<Rightarrow> int \<Rightarrow> log_row list \<Rightarrow> log_row list" where
  "cmd_errors upper_case level since n rows = cmd_recent upper_case ''ERROR'' since n rows"

definition cmd_by_tag :: "(string \<Rightarrow> string) \<Rightarrow> string \<Rightarrow> string \<Rightarrow> string \<Rightarrow> int \<Rightarrow> log_row list \<Rightarrow> log_row list" where
  "cmd_by_tag upper_case tag_prefix level since n rows = newest_rows upper_case (empty_query\<lparr>lq_tag_prefix := tag_prefix, lq_since := since\<rparr>) n rows"

definition cmd_by_job :: "string \<Rightarrow> string \<Rightarrow> string \<Rightarrow> int \<Rightarrow> log_row list \<Rightarrow> log_row list" where
  "cmd_by_job job level since n rows = apply_limit n (sort_key lr_time (filter (\<lambda>r. lr_job r = Some job) rows))"

definition cmd_search :: "(string \<Rightarrow> string) \<Rightarrow> string \<Rightarrow> bool \<Rightarrow> string \<Rightarrow> string \<Rightarrow> int \<Rightarrow> log_row list \<Rightarrow> log_row list" where
  "cmd_search upper_case query in_payload level since n rows =
     newest_rows upper_case (empty_query\<lparr>lq_level := level, lq_search := query, lq_search_payload := in_payload\<rparr>) n rows"

definition cmd_show :: "string \<Rightarrow> log_row list \<Rightarrow> log_row option" where
  "cmd_show i rows = find (\<lambda>r. lr_id r = i) rows"

text \<open>The tags with their numbers, the most frequent first, those of one number as the grouping leaves them, by name.\<close>

definition cmd_tags :: "string \<Rightarrow> int \<Rightarrow> log_row list \<Rightarrow> (string \<times> nat) list" where
  "cmd_tags since n rows =
     (let rs = filter (\<lambda>r. since = [] \<or> since \<le> lr_time r) rows in
      apply_limit n (order_desc snd (map (\<lambda>t. (t, length (filter (\<lambda>r. lr_tag r = t) rs))) (sort (remdups (map lr_tag rs))))))"

text \<open>A poll of \<open>cmd_tail\<close>: the rows later than the last one shown, in their order, and the time of the last of them.\<close>

definition tail_poll :: "string \<Rightarrow> log_row list \<Rightarrow> log_row list \<times> string" where
  "tail_poll last_ts rows =
     (let new = sort_key lr_time (filter (\<lambda>r. last_ts < lr_time r) rows) in (new, if new = [] then last_ts else lr_time (last new)))"

fun cmd_tail :: "string \<Rightarrow> log_row list list \<Rightarrow> log_row list" where
  "cmd_tail last_ts [] = []"
| "cmd_tail last_ts (rows # later) = (case tail_poll last_ts rows of (new, ts) \<Rightarrow> new @ cmd_tail ts later)"

section \<open>What the queries show\<close>

text \<open>
  A list of the newest rows has matching rows only, of which none left out is later than one that is shown, unless its limit is
  negative, where it has all.
\<close>

theorem newest_rows_correct:
  assumes "r \<in> set (newest_rows u q n rows)"
  shows "r \<in> set rows \<and> build_where u q r
    \<and> (\<forall>r'. r' \<in> set rows \<and> build_where u q r' \<and> r' \<notin> set (newest_rows u q n rows) \<longrightarrow> lr_time r' \<le> lr_time r)"
proof -
  let ?s = "order_desc lr_time (filter (build_where u q) rows)"
  obtain k where k: "newest_rows u q n rows = take k ?s" by (simp add: newest_rows_def apply_limit_def Let_def) (metis order_refl take_all)
  have srt: "sorted_wrt (\<lambda>x y. lr_time y \<le> lr_time x) (take k ?s @ drop k ?s)" using sorted_order_desc [of lr_time "filter (build_where u q) rows"] by simp
  have "r \<in> set ?s" using assms k by (metis in_set_takeD)
  moreover have "lr_time r' \<le> lr_time r" if "r' \<in> set rows" "build_where u q r'" "r' \<notin> set (newest_rows u q n rows)" for r'
  proof -
    have "r' \<in> set ?s" using that by simp
    then have "r' \<in> set (drop k ?s)" using that(3) k by (metis Un_iff append_take_drop_id set_append)
    then show ?thesis using srt assms k unfolding sorted_wrt_append by metis
  qed
  ultimately show ?thesis by simp
qed

text \<open>The last time that is shown never decreases, so no row is shown twice; one that comes later with an earlier time never is.\<close>

lemma tail_poll_last: "last_ts \<le> snd (tail_poll last_ts rows) \<and> (\<forall>r \<in> set (fst (tail_poll last_ts rows)). last_ts < lr_time r \<and> lr_time r \<le> snd (tail_poll last_ts rows))"
proof -
  let ?new = "sort_key lr_time (filter (\<lambda>r. last_ts < lr_time r) rows)"
  have mem: "r \<in> set ?new \<Longrightarrow> last_ts < lr_time r" for r by simp
  show ?thesis
  proof (cases "?new = []")
    case False
    have "lr_time r \<le> lr_time (last ?new)" if "r \<in> set ?new" for r
    proof -
      have "sorted (map lr_time ?new)" by simp
      moreover obtain i where "i < length ?new" "r = ?new ! i" using \<open>r \<in> set ?new\<close> by (metis in_set_conv_nth)
      ultimately show ?thesis using False by (simp add: last_conv_nth sorted_iff_nth_mono)
    qed
    moreover have "last_ts < lr_time (last ?new)" by (rule mem [OF last_in_set [OF False]])
    moreover have "tail_poll last_ts rows = (?new, lr_time (last ?new))" using False by (simp add: tail_poll_def Let_def)
    ultimately show ?thesis using mem order_less_imp_le unfolding fst_conv snd_conv by (metis fst_conv snd_conv)
  qed (simp add: tail_poll_def Let_def)
qed

text \<open>
  What a tail shows is in the order of time over all its polls and later than where it began.
\<close>

theorem tail_in_order: "sorted (map lr_time (cmd_tail t polls)) \<and> list_all (\<lambda>r. t < lr_time r) (cmd_tail t polls)"
proof (induction polls arbitrary: t)
  case (Cons rows later)
  let ?new = "fst (tail_poll t rows)" and ?ts = "snd (tail_poll t rows)"
  have split: "cmd_tail t (rows # later) = ?new @ cmd_tail ?ts later" by (simp add: case_prod_beta)
  note last = tail_poll_last [of t rows]
  have IH: "sorted (map lr_time (cmd_tail ?ts later))" "list_all (\<lambda>r. ?ts < lr_time r) (cmd_tail ?ts later)" using Cons by blast+
  have "sorted (map lr_time ?new)" by (simp add: tail_poll_def Let_def)
  moreover have "lr_time r \<le> lr_time r'" if "r \<in> set ?new" "r' \<in> set (cmd_tail ?ts later)" for r r'
    using last IH(2) that by (force simp: list_all_iff)
  moreover have "t < lr_time r" if "r \<in> set (cmd_tail ?ts later)" for r using last IH(2) that by (force simp: list_all_iff)
  ultimately show ?case unfolding split using IH(1) last by (auto simp: sorted_append list_all_iff)
qed simp

theorem late_row_not_shown:
  assumes "lr_time r \<le> t"
  shows "r \<notin> set (cmd_tail t polls)"
  using tail_in_order [of t polls] assms by (auto simp: list_all_iff)

text \<open>A filter by tag misses the tag itself, and the options for a level with it, or for a time with a search, are accepted and ignored.\<close>

theorem tag_itself_missed: "\<not> like (tag_pattern ''Worker'') ''Worker'' \<and> like (tag_pattern ''Worker'') ''Worker:Poll''"
  by code_simp

theorem options_ignored:
  "cmd_by_tag u p level since n rows = cmd_by_tag u p [] since n rows \<and> cmd_search u s b level since n rows = cmd_search u s b level [] n rows"
  by (simp add: cmd_by_tag_def cmd_search_def)

theorem negative_limit_is_none: "n < 0 \<Longrightarrow> apply_limit n xs = xs"
  by (simp add: apply_limit_def Let_def)

end
