(* ===== verification/Spec2Isabelle.thy ===== *)
theory Spec2Isabelle
  imports Prelude Text_Split Blackboard Job_Api Publisher Draft_Editor Resilience Sync_Engine Vector_Sync Schema_Reconcile
    Rate_Limits Scraper_Task Notes_Store Rank_Fusion Text_Tools Llm_Payload Cloud_Schema Stock_Facts Tool_Registry
    Log_Store
begin

text \<open>
  AnythingTools: a job server in Python. A client posts a job for a tool, a worker thread runs it, every
  write to the operational SQLite database goes through one writer thread, articles are published to
  Telegram in resumable steps, and the database is mirrored to Snowflake.

  The parts and how they interact.
  \<^item> \<open>Prelude\<close>: Python strings, slices and numerals; the locales \<open>step_invariant\<close> and \<open>monotone_step\<close>, a
    step function with an invariant and one with a quantity that never decreases.
  \<^item> \<open>Text_Split\<close>: \<open>utils/text_processing.py\<close>, the splitting of a message at a length limit without
    cutting Markdown delimiters apart (\<open>_split_boundary_only\<close>, \<open>smart_split_message\<close>).
  \<^item> \<open>Db_Writer\<close>: \<open>database/writer.py\<close>, the write queue, the writer thread's round, receipts, errors and
    repairs; \<open>guarded_engine\<close> is the locale of an SQL engine whose statements keep a property of the
    contents, with the theorem that every interleaving with the writer keeps it.
  \<^item> \<open>Ops_Db\<close>: \<open>database/schemas/jobs.py\<close> and the statements of the modelled code as a datatype with their
    effect (\<open>exec_stmt\<close>), constraint errors included. \<open>Job_Queue\<close>: \<open>database/job_queue.py\<close> and
    \<open>utils/metadata_helpers.py\<close>; \<open>checkpoint_store\<close> is the locale of a store that remembers the last
    outcome of a step, interpreted on the job items. \<open>Blackboard\<close>: \<open>database/blackboard.py\<close>.
  \<^item> \<open>Worker\<close>: \<open>bot/engine/worker.py\<close>, \<open>bot/engine/tool_runner.py\<close> and \<open>utils/startup/recovery.py\<close>: poll,
    spawn, run, result callback, retry, startup recovery. \<open>Job_Api\<close>: the job endpoints of
    \<open>api/routes.py\<close>, the URL scan and the resume handlers of \<open>tools/*/resume.py\<close>.
  \<^item> \<open>Broadcast\<close>: \<open>database/broadcast\<close> and the entry of \<open>tools/publisher/tool.py\<close>. \<open>Publisher\<close>:
    \<open>utils/telegram/publisher.py\<close> and the end of \<open>utils/telegram/pipeline.py\<close>. \<open>Draft_Editor\<close>:
    \<open>tools/draft_editor/tool.py\<close>, the swaps in a batch's Top-10.
  \<^item> \<open>Resilience\<close>: \<open>database/backup/resilience\<close>, the circuit breaker and the retry on an expired session.
    \<open>Cloud_Rows\<close> and \<open>Cloud_Writer\<close>: \<open>database/backup/writer/cloud_writer.py\<close>, the best-effort queue of
    cloud writes, its buffer, its flush and its dead letters, and the drain loop of \<open>app.py\<close>.
    \<open>Diff_Sync\<close>: \<open>database/backup/sync\<close>, diff, conflict resolution, recommendation. \<open>Sync_Engine\<close>:
    \<open>database/backup/engine/sync_engine.py\<close>, the startup decision, the watermarked push, the plan of a
    bidirectional sync. \<open>Cloud_Sync\<close> and \<open>Cloud_Pull\<close>: \<open>database/backup/engine/sync_operations.py\<close>, push and pull
    of a table (manifest, difference queries, chunked fetch, \<open>MERGE\<close> with \<open>QUALIFY\<close>, \<open>INSERT OR REPLACE\<close>), with the
    content hash of \<open>sync/foundation.py\<close>. \<open>Vector_Sync\<close>: \<open>database/backup/vec/cloud_vector_pusher.py\<close>.
  \<^item> \<open>Schema_Types\<close> and \<open>Schema_Reconcile\<close>: \<open>database/management\<close>, the reconciliation of the local schema at
    startup, the migration of a table, the backup file beside the database.
  \<^item> \<open>Ulid\<close>: \<open>utils/id_generator.py\<close>. \<open>Article_Store\<close>: \<open>database/articles\<close> and \<open>tools/scraper/persistence.py\<close> over the
    tables and triggers of \<open>database/schemas/vector.py\<close>, an instance of \<open>guarded_engine\<close> like the operational tables.
    \<open>Scraper_Task\<close>: \<open>tools/scraper/article_processor.py\<close>, \<open>hitl.py\<close>, the loop of \<open>task.py\<close> and the way of its results
    to \<open>Curation\<close>, the choice of the Top-10 of \<open>tools/scraper/curation.py\<close>.
  \<^item> \<open>Rate_Limits\<close>: \<open>utils/telegram/rate_limiter.py\<close> and \<open>utils/edgar_rate_limiter.py\<close>, both instances of the locale
    \<open>sliding_window\<close>, a log in which entries that are a limit apart are a period apart.
  \<^item> \<open>Stock_Notes\<close>: \<open>tools/stock_notes/fiscal.py\<close>, fiscal quarters, and \<open>tidy_transform.py\<close>, a table of a filing as one
    record per row and period. \<open>Notes_Store\<close>: the tables of the footnotes with their cascades, the extraction of a filing
    into them and the commands of the tool.
  \<^item> \<open>Rank_Fusion\<close>: \<open>utils/hybrid_search.py\<close> and \<open>tools/batch_reader/tool.py\<close>, the fusion of two rankings by reciprocal ranks
    and the reader that answers from a batch; \<open>rank_scores\<close> is the locale of a scoring that falls with the rank. \<open>Text_Tools\<close>:
    the other helpers of \<open>utils/text_processing.py\<close>, \<open>utils/callback_helper.py\<close> and the context budget of
    \<open>bot/orchestrator_core/eviction.py\<close>. \<open>Llm_Payload\<close>: \<open>clients/llm\<close>, the payloads of the two providers, retries, errors and
    the reading of an answer. \<open>Tool_Registry\<close>: \<open>tools/registry.py\<close>, discovery as a \<open>step_invariant\<close>.
  \<^item> \<open>Cloud_Schema\<close>: the schema registry and manager of \<open>database/backup\<close>, their start, rebuild and versions, and the
    sanitizer of cloud types. \<open>Stock_Facts\<close>: \<open>tools/stock_financials\<close>, the rows of the three statements, the choice of a fact,
    quarters from cumulative figures. \<open>Log_Store\<close>: the formatters of \<open>utils/logger\<close>, \<open>database/logs_writer.py\<close> and
    \<open>scripts/logs_query.py\<close>; the writer of logs is a \<open>step_invariant\<close> too.

  State and operations. The state of a part is a record (the writer, the manager, a breaker, the cloud
  writer) and each function under \<open>src\<close> a definition of nearly the same name; an operation that other
  threads can interleave with is an event of the part's step function, and a run is a fold over events.
  \<open>manager\<close> holds the committed tables together with the statements still queued, since most of what
  makes the worker hard is the gap between the two. Errors are values: \<open>Inl\<close> for an exception with its
  text, \<open>None\<close> where the text does not matter. Timestamps are texts, as in the database, wherever the code
  compares texts; clocks are integers.

  Arguments stand for code that is not under \<open>src\<close> or that this development does not model: the SQL engine
  of \<open>Db_Writer\<close> (interpreted by \<open>exec_stmt\<close>), the tool that a job runs, the network (a list or function of
  outcomes), the operator, the push of embeddings, the reading of timestamps. Where a theorem relies on
  an argument, the property is a named hypothesis (no JSON text has a bar outside a string literal).

  What the lemmas show. Of the writer: no receipt is lost, transactions are atomic, a shutdown drains, the
  schema's constraints and one item per step survive every interleaving. Of jobs: the blackboard refines a
  checklist, checkpoints survive interruption, callbacks are bounded in number and in retries, a poll
  claims its jobs, a restart heals the tables, a cancelled job stays cancelled, resumes are bounded. Of
  messages: a splitter loses nothing, each message is sent once under one job. Of the cloud: an upsert
  lands or is a dead letter, a missing row is restored exactly, the diff is a partition, an outage is probed
  at a bounded rate. The remaining theorems state behaviour that the code has and its texts deny: a
  splitter that does not stop, a batch judged too early, deletes that overtake upserts, composite keys
  that never sync, timestamps compared across formats, a toggle that deletes ignore.

  A push converges and a second one is idle, a pushed table can be pulled back, an embedding comes back bit for bit,
  an edited Top-10 is whole, a reconciled database has its declared columns, a migration is all or nothing once its
  table could be renamed. Against the intention: updates without a hash are not pushed, a dropped column brings the
  old database back at the next start, a drifted type stops the start, an indexed table is never migrated, and a
  rename that fails loses the table.

  In every run of the writer the full-text index holds one entry per article and all references resolve; a new
  article lands whole, a known URL under a new id is rolled back; a scraping run that reports success had no
  failure and left no article without its vector, but a link interrupted between summary and article never recovers
  and a resumption forgets pending links. Both rate limits hold in every window, identifiers increase strictly
  while the row ids made from them repeat, and the Top-10 is sound whatever the model answers.

  An extraction leaves exactly the notes and details that were read, whatever was stored, and quarters are an interval of
  whole numbers; but a forced refresh has deleted before it can fail, and a note that cannot be read again is lost.

  A payload carries the conversation to either provider, and loses tool calls beside images; two rankings fuse in an order
  that both support. A cloud schema settles at its start, while a rebuild that is interrupted is not tried again. Quarters
  of a cash flow add up to the year as far as the facts are there; rows of an income statement come from the filing. A
  registered tool has a proper name and its own schema. No secret of the known forms is left after redaction, and the log
  entries of a run are stored in the order in which they were queued.

  Fuel and bounds. The loops of \<open>Text_Split\<close> take fuel, since one of them may not stop: enough fuel is
  proved to exist where it stops (the length of the text plus one for the boundary splitter) and no fuel
  is enough on the message that defeats it. All other recursions are structural or have a measure: a
  flush has one retry, the shutdown of the application twenty naps, a callback three attempts.

  Not modelled: the browser, its vision helpers and the extraction of pages, whose behaviour is the page's; HTTP clients, the
  SQLite connections and the terminal output of scripts, which are input and output; the translation of SQL and of DDL, done
  by a library, and pandas dates; vector indexes, which the SQLite extension keeps; the deprecated tools, which nothing
  calls; tests.
\<close>

end
